(* ===== verification/Prelude.thy ===== *)
theory Prelude
  imports Main "HOL-Library.Word" "HOL-Library.Code_Target_Numeral"
begin

text \<open>
  The vocabulary every other theory shares.

  \<^item> Go values: errors, results of fallible calls (with a run-time panic as a third outcome, so
    that an index or slice expression out of range is never hidden), bytes and fixed-width words.
  \<^item> Go slices: \<open>index\<close> and \<open>slice\<close> panic out of range exactly as the language does;
    \<open>be_nat\<close> and \<open>to_be\<close> are \<^verbatim>\<open>encoding/binary.BigEndian\<close>.
  \<^item> Go maps: a map is a partial function; a loop that ranges over a map visits the keys in an
    unspecified order, so every definition with such a loop takes the order as an argument and
    every theorem about it is stated for all orders that \<open>iterates\<close> accepts.
  \<^item> Go times and durations, in nanoseconds; the zero \<^verbatim>\<open>time.Time\<close> is 0.
\<close>

unbundle bit_operations_syntax

named_theorems res_simps \<open>evaluation of fallible computations\<close>
named_theorems model_defs \<open>definitions of the model that proofs unfold\<close>

section \<open>Errors and results\<close>

text \<open>
  \<^verbatim>\<open>errors.New\<close> makes an \<open>ErrNew\<close>, \<^verbatim>\<open>fmt.Errorf\<close> with \<^verbatim>\<open>%w\<close> an
  \<open>ErrWrap\<close> of the wrapped errors, and \<open>errors_Is\<close> walks the chain as
  \<^verbatim>\<open>errors.Is\<close> does.
\<close>

datatype error = ErrNew string | ErrWrap string "error list"

fun errors_Is :: "error \<Rightarrow> error \<Rightarrow> bool" where
  "errors_Is (ErrNew m) t \<longleftrightarrow> ErrNew m = t"
| "errors_Is (ErrWrap m es) t \<longleftrightarrow> ErrWrap m es = t \<or> (\<exists>e \<in> set es. errors_Is e t)"

text \<open>The verb \<^verbatim>\<open>%q\<close> of an error message: the text between quotes. The escapes that the
  verb applies to unusual characters are left out; nothing depends on them.\<close>

definition quoted :: "string \<Rightarrow> string" where
  "quoted s = [CHR 0x22] @ s @ [CHR 0x22]"

text \<open>The outcome of a call: it panics, returns an error, or returns a value.\<close>

datatype 'a res = Panic | Err error | Ok 'a

fun bind_res :: "'a res \<Rightarrow> ('a \<Rightarrow> 'b res) \<Rightarrow> 'b res" where
  "bind_res Panic f = Panic"
| "bind_res (Err e) f = Err e"
| "bind_res (Ok x) f = f x"

text \<open>The idiom \<^verbatim>\<open>if err != nil { return other }\<close>: the callee's error is replaced, a panic
  is not.\<close>

fun replace_err :: "'a res \<Rightarrow> error \<Rightarrow> 'a res" where
  "replace_err (Err _) e = Err e"
| "replace_err r e = r"

text \<open>The idiom \<^verbatim>\<open>fmt.Errorf("...: %w", err)\<close>.\<close>

fun wrap_err :: "string \<Rightarrow> 'a res \<Rightarrow> 'a res" where
  "wrap_err m (Err e) = Err (ErrWrap m [e])"
| "wrap_err m r = r"

text \<open>Go's \<^verbatim>\<open>&&\<close> on conditions that may panic: the right side counts only when
  the left side is true.\<close>

definition and_res :: "bool res \<Rightarrow> bool res \<Rightarrow> bool res" where
  "and_res p q = bind_res p (\<lambda>b. if b then q else Ok False)"

fun is_Ok :: "'a res \<Rightarrow> bool" where
  "is_Ok (Ok _) = True"
| "is_Ok _ = False"

lemma bind_res_cong [fundef_cong]:
  "r = r' \<Longrightarrow> (\<And>x. r' = Ok x \<Longrightarrow> f x = g x) \<Longrightarrow> bind_res r f = bind_res r' g"
  by (cases r') auto

lemma bind_res_eq_Ok [simp]: "bind_res r f = Ok y \<longleftrightarrow> (\<exists>x. r = Ok x \<and> f x = Ok y)"
  by (cases r) auto

lemma bind_res_eq_Panic: "bind_res r f = Panic \<longleftrightarrow> r = Panic \<or> (\<exists>x. r = Ok x \<and> f x = Panic)"
  by (cases r) auto

lemma bind_res_no_panic:
  "r \<noteq> Panic \<Longrightarrow> (\<And>x. r = Ok x \<Longrightarrow> f x \<noteq> Panic) \<Longrightarrow> bind_res r f \<noteq> Panic"
  by (cases r) auto

lemma replace_err_eq_Ok [simp]: "replace_err r e = Ok x \<longleftrightarrow> r = Ok x"
  by (cases r) auto

lemma replace_err_eq_Panic [simp]: "replace_err r e = Panic \<longleftrightarrow> r = Panic"
  by (cases r) auto

lemma wrap_err_Panic [simp]: "wrap_err m r = Panic \<longleftrightarrow> r = Panic"
  by (cases r) auto

lemma wrap_err_Ok [simp]: "wrap_err m r = Ok x \<longleftrightarrow> r = Ok x"
  by (cases r) auto

lemma bind_res_assoc: "bind_res (bind_res r f) g = bind_res r (\<lambda>x. bind_res (f x) g)"
  by (cases r) auto

lemma and_res_Ok [simp]: "and_res (Ok p) q = (if p then q else Ok False)"
  by (simp add: and_res_def)

lemma and_res_eq_Ok_True [simp]: "and_res p q = Ok True \<longleftrightarrow> p = Ok True \<and> q = Ok True"
  by (auto simp: and_res_def split: if_splits)

lemma is_Ok_iff: "is_Ok r \<longleftrightarrow> (\<exists>x. r = Ok x)"
  by (cases r) auto

text \<open>\<^verbatim>\<open>errors.Join\<close> drops the absent errors and is absent when all are.\<close>

definition errors_Join :: "unit res list \<Rightarrow> unit res" where
  "errors_Join rs =
     (if Panic \<in> set rs then Panic
      else let es = List.map_filter (\<lambda>r. case r of Err e \<Rightarrow> Some e | _ \<Rightarrow> None) rs in
        if es = [] then Ok () else Err (ErrWrap ''errors'' es))"

section \<open>Bytes, words and slices\<close>

type_synonym byte = "8 word"
type_synonym u16 = "16 word"
type_synonym u32 = "32 word"
type_synonym u64 = "64 word"

definition index :: "'a list \<Rightarrow> nat \<Rightarrow> 'a res" where
  "index xs i = (if i < length xs then Ok (xs ! i) else Panic)"

definition slice :: "'a list \<Rightarrow> nat \<Rightarrow> nat \<Rightarrow> 'a list res" where
  "slice xs lo hi = (if lo \<le> hi \<and> hi \<le> length xs then Ok (take (hi - lo) (drop lo xs)) else Panic)"

lemma index_Ok: "i < length xs \<Longrightarrow> index xs i = Ok (xs ! i)"
  by (simp add: index_def)

lemma slice_Ok: "lo \<le> hi \<Longrightarrow> hi \<le> length xs \<Longrightarrow> slice xs lo hi = Ok (take (hi - lo) (drop lo xs))"
  by (simp add: slice_def)

lemma index_eq_Ok [simp]: "index xs i = Ok x \<longleftrightarrow> i < length xs \<and> xs ! i = x"
  by (auto simp: index_def)

lemma slice_eq_Ok [simp]:
  "slice xs lo hi = Ok ys \<longleftrightarrow> lo \<le> hi \<and> hi \<le> length xs \<and> ys = take (hi - lo) (drop lo xs)"
  by (auto simp: slice_def)

lemma slice_ne_Err [simp]: "slice xs lo hi \<noteq> Err e" and index_ne_Err [simp]: "index xs i \<noteq> Err e"
  by (simp_all add: slice_def index_def)

text \<open>\<^verbatim>\<open>binary.BigEndian\<close>: reading and writing unsigned integers, most significant
  byte first.\<close>

fun be_nat :: "byte list \<Rightarrow> nat" where
  "be_nat [] = 0"
| "be_nat (b # bs) = unat b * 256 ^ length bs + be_nat bs"

fun to_be :: "nat \<Rightarrow> nat \<Rightarrow> byte list" where
  "to_be 0 n = []"
| "to_be (Suc k) n = word_of_nat (n div 256 ^ k) # to_be k n"

definition Uint16 :: "byte list \<Rightarrow> u16 res" where
  "Uint16 bs = (if length bs < 2 then Panic else Ok (word_of_nat (be_nat (take 2 bs))))"

definition Uint32 :: "byte list \<Rightarrow> u32 res" where
  "Uint32 bs = (if length bs < 4 then Panic else Ok (word_of_nat (be_nat (take 4 bs))))"

lemma unat_byte_lt [simp]: "unat (b :: byte) < 256"
  using unsigned_less [of b] by simp

lemma be_nat_bound: "be_nat bs < 256 ^ length bs"
proof (induction bs)
  case Nil
  show ?case by simp
next
  case (Cons b bs)
  have "unat b * 256 ^ length bs + be_nat bs < unat b * 256 ^ length bs + 256 ^ length bs"
    using Cons.IH by simp
  also have "\<dots> = (unat b + 1) * 256 ^ length bs"
    by simp
  also have "\<dots> \<le> 256 * 256 ^ length bs"
    by (intro mult_right_mono) (use unat_byte_lt [of b] in linarith)+
  finally show ?case by simp
qed

lemma length_to_be [simp]: "length (to_be k n) = k"
  by (induction k) auto

lemma to_be_2: "to_be 2 n = [word_of_nat (n div 256), word_of_nat n]"
proof -
  have "to_be (Suc (Suc 0)) n = [word_of_nat (n div 256), word_of_nat n]"
    by simp
  then show ?thesis by (simp only: numeral_2_eq_2)
qed

lemma to_be_4:
  "to_be 4 n = [word_of_nat (n div 256 ^ 3), word_of_nat (n div 256 ^ 2), word_of_nat (n div 256), word_of_nat n]"
proof -
  have "to_be (Suc (Suc 2)) n = [word_of_nat (n div 256 ^ 3), word_of_nat (n div 256 ^ 2), word_of_nat (n div 256), word_of_nat n]"
    by (simp only: to_be.simps(2) to_be_2) simp
  moreover have "Suc (Suc 2) = (4::nat)" by simp
  ultimately show ?thesis by simp
qed

lemma be_nat_append: "be_nat (xs @ ys) = be_nat xs * 256 ^ length ys + be_nat ys"
  by (induction xs) (auto simp: power_add algebra_simps)

lemma be_nat_to_be: "be_nat (to_be k n) = n mod 256 ^ k"
proof (induction k)
  case 0
  show ?case by simp
next
  case (Suc k)
  have u: "unat (word_of_nat (n div 256 ^ k) :: byte) = n div 256 ^ k mod 256"
    by (simp add: unat_of_nat)
  have "n mod (256 ^ k * 256) = 256 ^ k * (n div 256 ^ k mod 256) + n mod 256 ^ k"
    by (rule mod_mult2_eq)
  then show ?case
    by (simp add: Suc.IH u algebra_simps)
qed

lemma word_of_nat_div_mod:
  "k < j \<Longrightarrow> (word_of_nat (m mod 256 ^ j div 256 ^ k) :: byte) = word_of_nat (m div 256 ^ k)"
proof -
  assume "k < j"
  then obtain i where "j = k + Suc i"
    using less_imp_Suc_add by auto
  then have "m mod 256 ^ j = 256 ^ k * (m div 256 ^ k mod 256 ^ Suc i) + m mod 256 ^ k"
    using mod_mult2_eq [of m "256 ^ k" "256 ^ Suc i"] by (simp add: power_add mult.left_commute)
  then have "m mod 256 ^ j div 256 ^ k = m div 256 ^ k mod 256 ^ Suc i"
    by simp
  then show ?thesis
    by (simp add: word_of_nat_eq_iff take_bit_eq_mod mod_mod_cancel)
qed

lemma to_be_mod': "k \<le> j \<Longrightarrow> to_be k (m mod 256 ^ j) = to_be k m"
  by (induction k) (auto simp: word_of_nat_div_mod)

lemma to_be_mod: "to_be k (n mod 256 ^ k) = to_be k n"
  by (simp add: to_be_mod')

lemma to_be_be_nat: "to_be (length bs) (be_nat bs) = bs"
proof (induction bs)
  case Nil
  show ?case by simp
next
  case (Cons b bs)
  let ?n = "be_nat (b # bs)"
  have d: "?n div 256 ^ length bs = unat b"
    using be_nat_bound [of bs] by simp
  have m: "?n mod 256 ^ length bs = be_nat bs"
    using be_nat_bound [of bs] by simp
  have "to_be (length bs) ?n = to_be (length bs) (be_nat bs)"
    by (metis m to_be_mod)
  with d Cons.IH show ?case by simp
qed

lemma unat_u16_lt [simp]: "unat (w :: u16) < 65536"
  using unsigned_less [where ?'a = nat, of w] by simp

lemma unat_u32_lt [simp]: "unat (w :: u32) < 4294967296"
  using unsigned_less [where ?'a = nat, of w] by simp

lemma Uint16_to_be [simp]: "Uint16 (to_be 2 (unat w)) = Ok w"
  by (simp add: Uint16_def be_nat_to_be)

lemma Uint32_to_be [simp]: "Uint32 (to_be 4 (unat w)) = Ok w"
  by (simp add: Uint32_def be_nat_to_be)

lemma Uint16_eq_Ok: "Uint16 bs = Ok w \<longleftrightarrow> 2 \<le> length bs \<and> w = word_of_nat (be_nat (take 2 bs))"
  by (auto simp: Uint16_def)

lemma Uint32_eq_Ok: "Uint32 bs = Ok w \<longleftrightarrow> 4 \<le> length bs \<and> w = word_of_nat (be_nat (take 4 bs))"
  by (auto simp: Uint32_def)

text \<open>Byte-wise exclusive or of two slices of the same length; masking twice restores the
  original.\<close>

definition xor_bytes :: "byte list \<Rightarrow> byte list \<Rightarrow> byte list" where
  "xor_bytes xs ms = map2 (\<lambda>x m. x XOR m) xs ms"

lemma length_xor_bytes [simp]: "length (xor_bytes xs ms) = min (length xs) (length ms)"
  by (simp add: xor_bytes_def)

lemma xor_bytes_twice: "length xs \<le> length ms \<Longrightarrow> xor_bytes (xor_bytes xs ms) ms = xs"
  by (induction xs ms rule: list_induct2') (auto simp: xor_bytes_def xor.assoc)

section \<open>Maps and iteration orders\<close>

definition iterates :: "('k \<rightharpoonup> 'v) \<Rightarrow> 'k list \<Rightarrow> bool" where
  "iterates m ks \<longleftrightarrow> distinct ks \<and> set ks = dom m"

lemma iterates_empty [simp]: "iterates Map.empty ks \<longleftrightarrow> ks = []"
  by (auto simp: iterates_def)

lemma iterates_mem: "iterates m ks \<Longrightarrow> k \<in> set ks \<longleftrightarrow> (\<exists>v. m k = Some v)"
  by (auto simp: iterates_def)

section \<open>Time\<close>

type_synonym time = int
type_synonym duration = int

abbreviation time_zero :: time where "time_zero \<equiv> 0"

definition second :: duration where "second = 1000000000"
definition minute :: duration where "minute = 60 * second"
definition millisecond :: duration where "millisecond = 1000000"

text \<open>\<^verbatim>\<open>Time.Sub\<close> saturates at the ends of the 64-bit duration.\<close>

definition time_Sub :: "time \<Rightarrow> time \<Rightarrow> duration" where
  "time_Sub t u = max (- (2 ^ 63)) (min (2 ^ 63 - 1) (t - u))"

lemma time_Sub_less_iff:
  "- (2 ^ 63) < d \<Longrightarrow> d \<le> 2 ^ 63 - 1 \<Longrightarrow> time_Sub t u < d \<longleftrightarrow> t - u < d"
  by (auto simp: time_Sub_def)

end
