(* ===== verification/Gostd.thy ===== *)
theory Gostd
  imports Prelude
begin

text \<open>
  The parts of Go's standard library on text that the program uses: decimal and hexadecimal
  numbers (\<^verbatim>\<open>strconv\<close>, \<^verbatim>\<open>encoding/hex\<close>) and the string helpers of
  \<^verbatim>\<open>strings\<close>. A Go string is a list of bytes, which is HOL's \<open>string\<close>.
  Each printing function comes with the lemma that the parser reads its output back.
\<close>

section \<open>Digits\<close>

definition digit_char :: "nat \<Rightarrow> char" where
  "digit_char d = char_of (48 + d)"

definition digit_val :: "char \<Rightarrow> nat option" where
  "digit_val c = (let n = of_char c :: nat in if 48 \<le> n \<and> n \<le> 57 then Some (n - 48) else None)"

text \<open>Lower-case hexadecimal digit, and the value of a digit of either case.\<close>

definition hex_char :: "nat \<Rightarrow> char" where
  "hex_char d = (if d < 10 then char_of (48 + d) else char_of (87 + d))"

definition hex_val :: "char \<Rightarrow> nat option" where
  "hex_val c = (let n = of_char c :: nat in
     if 48 \<le> n \<and> n \<le> 57 then Some (n - 48)
     else if 97 \<le> n \<and> n \<le> 102 then Some (n - 87)
     else if 65 \<le> n \<and> n \<le> 70 then Some (n - 55)
     else None)"

lemma of_char_digit_char: "d < 208 \<Longrightarrow> (of_char (digit_char d) :: nat) = 48 + d"
  by (simp add: digit_char_def)

lemma digit_val_digit_char [simp]: "d < 10 \<Longrightarrow> digit_val (digit_char d) = Some d"
  by (simp add: digit_val_def digit_char_def)

lemma digit_val_bound: "digit_val c = Some d \<Longrightarrow> d < 10"
  by (auto simp: digit_val_def Let_def split: if_splits)

lemma hex_val_hex_char [simp]: "d < 16 \<Longrightarrow> hex_val (hex_char d) = Some d"
  by (auto simp: hex_val_def hex_char_def)

lemma hex_val_bound: "hex_val c = Some d \<Longrightarrow> d < 16"
  by (auto simp: hex_val_def Let_def split: if_splits)

lemma char_neq_of_nat: "(of_char c :: nat) \<noteq> of_char d \<Longrightarrow> c \<noteq> d"
  by auto

lemma digit_char_neq:
  assumes "d < 10"
  shows "digit_char d \<noteq> CHR ''.''" "digit_char d \<noteq> CHR '':''" "digit_char d \<noteq> CHR ''%''"
    "digit_char d \<noteq> CHR ''[''" "digit_char d \<noteq> CHR '']''" "digit_char d \<noteq> CHR ''/''"
  by (rule char_neq_of_nat, use assms in \<open>simp add: of_char_digit_char\<close>)+

lemma of_char_hex_char: "d < 16 \<Longrightarrow> (of_char (hex_char d) :: nat) = (if d < 10 then 48 + d else 87 + d)"
  by (simp add: hex_char_def)

lemma hex_char_neq:
  assumes "d < 16"
  shows "hex_char d \<noteq> CHR ''.''" "hex_char d \<noteq> CHR '':''" "hex_char d \<noteq> CHR ''%''"
    "hex_char d \<noteq> CHR ''[''" "hex_char d \<noteq> CHR '']''" "hex_char d \<noteq> CHR ''/''"
  by (rule char_neq_of_nat, use assms in \<open>simp add: of_char_hex_char\<close>)+

section \<open>Numbers in base ten\<close>

text \<open>\<^verbatim>\<open>strconv.Itoa\<close> on a natural number.\<close>

fun dec :: "nat \<Rightarrow> string" where
  "dec n = (if n < 10 then [digit_char n] else dec (n div 10) @ [digit_char (n mod 10)])"

declare dec.simps [simp del]

definition Itoa :: "int \<Rightarrow> string" where
  "Itoa i = (if i < 0 then CHR ''-'' # dec (nat (- i)) else dec (nat i))"

fun digits_val :: "string \<Rightarrow> nat \<Rightarrow> nat option" where
  "digits_val [] acc = Some acc"
| "digits_val (c # cs) acc =
     (case digit_val c of None \<Rightarrow> None | Some d \<Rightarrow> digits_val cs (10 * acc + d))"

definition err_num :: error where
  "err_num = ErrNew ''strconv: invalid syntax or value out of range''"

text \<open>\<^verbatim>\<open>strconv.ParseUint(s, 10, bits)\<close>: at least one digit, digits only, no sign, and
  the value must fit in the given width.\<close>

definition ParseUint10 :: "nat \<Rightarrow> string \<Rightarrow> nat res" where
  "ParseUint10 bits s =
     (if s = [] then Err err_num
      else case digits_val s 0 of None \<Rightarrow> Err err_num
        | Some n \<Rightarrow> if n < 2 ^ bits then Ok n else Err err_num)"

text \<open>\<^verbatim>\<open>strconv.Atoi\<close> and \<^verbatim>\<open>strconv.ParseInt(s, 10, 64)\<close>: an optional
  sign, then digits, within the range of a signed 64-bit integer.\<close>

definition Atoi :: "string \<Rightarrow> int res" where
  "Atoi s =
     (let (neg, ds) = (case s of c # cs \<Rightarrow> if c = CHR ''-'' then (True, cs)
                          else if c = CHR ''+'' then (False, cs) else (False, s) | [] \<Rightarrow> (False, []))
      in if ds = [] then Err err_num
         else case digits_val ds 0 of None \<Rightarrow> Err err_num
           | Some n \<Rightarrow> if neg then (if n \<le> 2 ^ 63 then Ok (- int n) else Err err_num)
                    else (if n < 2 ^ 63 then Ok (int n) else Err err_num))"

lemma dec_nonempty [simp]: "dec n \<noteq> []"
  by (subst dec.simps) simp

lemma digits_val_append:
  "digits_val (xs @ ys) acc = (case digits_val xs acc of None \<Rightarrow> None | Some a \<Rightarrow> digits_val ys a)"
  by (induction xs arbitrary: acc) (auto split: option.splits)

lemma digits_val_dec: "digits_val (dec n) acc = Some (acc * 10 ^ length (dec n) + n)"
proof (induction n arbitrary: acc rule: dec.induct)
  case (1 n)
  show ?case
  proof (cases "n < 10")
    case True
    then show ?thesis by (simp add: dec.simps [of n])
  next
    case False
    then have "digits_val (dec (n div 10)) acc = Some (acc * 10 ^ length (dec (n div 10)) + n div 10)"
      by (rule "1.IH")
    then show ?thesis
      using False by (simp add: dec.simps [of n] digits_val_append)
  qed
qed

lemma digits_val_dec_0 [simp]: "digits_val (dec n) 0 = Some n"
  by (simp add: digits_val_dec)

lemma set_dec: "c \<in> set (dec n) \<Longrightarrow> \<exists>d < 10. c = digit_char d"
proof (induction n rule: dec.induct)
  case (1 n)
  show ?case
  proof (cases "n < 10")
    case True
    with "1.prems" show ?thesis by (auto simp: dec.simps [of n])
  next
    case False
    from "1.prems" False consider "c \<in> set (dec (n div 10))" | "c = digit_char (n mod 10)"
      by (auto simp: dec.simps [of n])
    then show ?thesis
    proof cases
      case 1
      with False "1.IH" show ?thesis by blast
    next
      case 2
      then show ?thesis by (intro exI [of _ "n mod 10"]) simp
    qed
  qed
qed

lemma dec_no_sep:
  "CHR ''.'' \<notin> set (dec n)" "CHR '':'' \<notin> set (dec n)" "CHR ''%'' \<notin> set (dec n)"
  "CHR ''['' \<notin> set (dec n)" "CHR '']'' \<notin> set (dec n)" "CHR ''/'' \<notin> set (dec n)"
  by (metis set_dec digit_char_neq)+

lemma dec_hd_zero: "dec n = digit_char 0 # cs \<Longrightarrow> n = 0"
proof (induction n arbitrary: cs rule: dec.induct)
  case (1 n)
  show ?case
  proof (cases "n < 10")
    case True
    have "digit_val (digit_char n) = digit_val (digit_char 0)"
      using "1.prems" True by (simp add: dec.simps [of n])
    with True show ?thesis by (simp del: One_nat_def)
  next
    case False
    then obtain c cs' where c: "dec (n div 10) = c # cs'"
      by (cases "dec (n div 10)") auto
    with "1.prems" False have "c = digit_char 0"
      by (simp add: dec.simps [of n])
    with c False have "n div 10 = 0"
      using "1.IH" by blast
    with False show ?thesis by simp
  qed
qed

lemma ParseUint10_dec [simp]: "n < 2 ^ bits \<Longrightarrow> ParseUint10 bits (dec n) = Ok n"
  by (simp add: ParseUint10_def)

lemma ParseUint10_ne_Panic [simp]: "ParseUint10 bits s \<noteq> Panic"
  by (simp add: ParseUint10_def split: option.splits)

lemma ParseUint10_bound: "ParseUint10 bits s = Ok n \<Longrightarrow> n < 2 ^ bits"
  by (auto simp: ParseUint10_def split: option.splits if_splits)

lemma hd_dec_not_sign: "dec n = c # cs \<Longrightarrow> c \<noteq> CHR ''-'' \<and> c \<noteq> CHR ''+''"
proof -
  assume "dec n = c # cs"
  then obtain d where "d < 10" "c = digit_char d"
    using set_dec [of c n] by auto
  then show ?thesis
    by (auto intro!: char_neq_of_nat simp: of_char_digit_char)
qed

lemma Atoi_dec: "n < 2 ^ 63 \<Longrightarrow> Atoi (dec n) = Ok (int n)"
  using digits_val_dec_0 [of n] hd_dec_not_sign [of n]
  by (cases "dec n") (auto simp: Atoi_def simp del: digits_val_dec_0)

lemma Atoi_ne_Panic [simp]: "Atoi s \<noteq> Panic"
  by (auto simp: Atoi_def Let_def split: option.splits list.splits prod.splits)

lemma Atoi_bound: "Atoi s = Ok n \<Longrightarrow> - (2 ^ 63) \<le> n \<and> n < 2 ^ 63"
  by (auto simp: Atoi_def Let_def split: option.splits list.splits prod.splits if_splits)


section \<open>Numbers in base sixteen\<close>

text \<open>Without leading zeros, as \<^verbatim>\<open>netip\<close> prints an IPv6 group.\<close>

fun hexn :: "nat \<Rightarrow> string" where
  "hexn n = (if n < 16 then [hex_char n] else hexn (n div 16) @ [hex_char (n mod 16)])"

declare hexn.simps [simp del]

text \<open>\<^verbatim>\<open>hex.EncodeToString\<close> and \<^verbatim>\<open>hex.DecodeString\<close>.\<close>

definition hex_encode :: "byte list \<Rightarrow> string" where
  "hex_encode bs = concat (map (\<lambda>b. [hex_char (unat b div 16), hex_char (unat b mod 16)]) bs)"

fun hex_decode :: "string \<Rightarrow> byte list res" where
  "hex_decode [] = Ok []"
| "hex_decode [c] = Err (ErrNew ''encoding/hex: odd length hex string'')"
| "hex_decode (c # d # cs) =
     (case (hex_val c, hex_val d) of
        (Some h, Some l) \<Rightarrow> bind_res (hex_decode cs) (\<lambda>bs. Ok (word_of_nat (16 * h + l) # bs))
      | _ \<Rightarrow> Err (ErrNew ''encoding/hex: invalid byte''))"

lemma hex_decode_encode [simp]: "hex_decode (hex_encode bs) = Ok bs"
proof (induction bs)
  case Nil
  show ?case by (simp add: hex_encode_def)
next
  case (Cons b bs)
  have "unat b div 16 < 16"
    using unat_byte_lt [of b] by linarith
  moreover have "(word_of_nat (16 * (unat b div 16) + unat b mod 16) :: byte) = b"
    by (simp only: mult_div_mod_eq) simp
  ultimately show ?case
    using Cons.IH by (simp add: hex_encode_def)
qed

lemma length_hex_encode [simp]: "length (hex_encode bs) = 2 * length bs"
  by (induction bs) (auto simp: hex_encode_def)

section \<open>String helpers\<close>

text \<open>\<^verbatim>\<open>strings.LastIndexByte\<close> as a split: what precedes and follows the last
  occurrence of a character.\<close>

fun split_last :: "char \<Rightarrow> string \<Rightarrow> (string \<times> string) option" where
  "split_last c [] = None"
| "split_last c (x # xs) =
     (case split_last c xs of
        Some (a, b) \<Rightarrow> Some (x # a, b)
      | None \<Rightarrow> if x = c then Some ([], xs) else None)"

text \<open>\<^verbatim>\<open>strings.Cut\<close> with a one-character separator: the text before and after its
  first occurrence.\<close>

fun cut :: "char \<Rightarrow> string \<Rightarrow> (string \<times> string) option" where
  "cut c [] = None"
| "cut c (x # xs) =
     (if x = c then Some ([], xs) else map_option (\<lambda>(a, b). (x # a, b)) (cut c xs))"

fun join :: "string \<Rightarrow> string list \<Rightarrow> string" where
  "join sep [] = []"
| "join sep [x] = x"
| "join sep (x # y # xs) = x @ sep @ join sep (y # xs)"

lemma split_last_None: "c \<notin> set s \<Longrightarrow> split_last c s = None"
  by (induction s) auto

lemma split_last_append: "c \<notin> set b \<Longrightarrow> split_last c (a @ c # b) = Some (a, b)"
  by (induction a) (auto simp: split_last_None)

lemma cut_None: "c \<notin> set s \<longleftrightarrow> cut c s = None"
  by (induction s) auto

lemma cut_append: "c \<notin> set a \<Longrightarrow> cut c (a @ c # b) = Some (a, b)"
  by (induction a) auto

lemma cut_SomeD: "cut c s = Some (a, b) \<Longrightarrow> s = a @ c # b \<and> c \<notin> set a"
  by (induction s arbitrary: a) (auto split: if_splits)

definition ContainsAny :: "string \<Rightarrow> string \<Rightarrow> bool" where
  "ContainsAny s chars \<longleftrightarrow> (\<exists>c \<in> set s. c \<in> set chars)"

definition HasPrefix :: "string \<Rightarrow> string \<Rightarrow> bool" where
  "HasPrefix s p \<longleftrightarrow> take (length p) s = p"

definition HasSuffix :: "string \<Rightarrow> string \<Rightarrow> bool" where
  "HasSuffix s p \<longleftrightarrow> length p \<le> length s \<and> drop (length s - length p) s = p"

end
