(* ===== verification/Netip.thy ===== *)
theory Netip
  imports Gostd "HOL-Library.Char_ord"
begin

text \<open>
  Go's \<^verbatim>\<open>net/netip\<close> as the program uses it: addresses, address-port pairs and
  prefixes, their classification (loopback, multicast, private, global unicast, ...), parsing and
  printing. The parsers follow the library's loops; the printers come with round-trip theorems,
  which the theories above use to show that an endpoint survives being formatted and parsed again
  on its way to WireGuard.
\<close>

section \<open>Addresses\<close>

text \<open>The zero \<^verbatim>\<open>netip.Addr\<close>, an IPv4 address, or an IPv6 address with its zone.\<close>

datatype addr = AddrZero | V4 u32 | V6 "128 word" string

datatype addrport = AddrPort (ap_addr: addr) (ap_port: u16)

abbreviation AddrPortZero :: addrport where "AddrPortZero \<equiv> AddrPort AddrZero 0"

definition v4_byte :: "u32 \<Rightarrow> nat \<Rightarrow> nat" where
  "v4_byte w i = unat w div 256 ^ (3 - i) mod 256"

definition v6_u16 :: "128 word \<Rightarrow> nat \<Rightarrow> nat" where
  "v6_u16 w i = unat w div 65536 ^ (7 - i) mod 65536"

fun IsValid :: "addr \<Rightarrow> bool" where
  "IsValid AddrZero = False"
| "IsValid _ = True"

fun Is4 :: "addr \<Rightarrow> bool" where
  "Is4 (V4 _) = True"
| "Is4 _ = False"

fun Is6 :: "addr \<Rightarrow> bool" where
  "Is6 (V6 _ _) = True"
| "Is6 _ = False"

text \<open>An IPv6 address of the form \<^verbatim>\<open>::ffff:a.b.c.d\<close>.\<close>

fun Is4In6 :: "addr \<Rightarrow> bool" where
  "Is4In6 (V6 w _) = (unat w div 2 ^ 32 = 65535)"
| "Is4In6 _ = False"

fun Zone :: "addr \<Rightarrow> string" where
  "Zone (V6 _ z) = z"
| "Zone _ = []"

fun BitLen :: "addr \<Rightarrow> nat" where
  "BitLen AddrZero = 0"
| "BitLen (V4 _) = 32"
| "BitLen (V6 _ _) = 128"

fun Unmap :: "addr \<Rightarrow> addr" where
  "Unmap (V6 w z) = (if Is4In6 (V6 w z) then V4 (word_of_nat (unat w mod 2 ^ 32)) else V6 w z)"
| "Unmap a = a"

definition IsUnspecified :: "addr \<Rightarrow> bool" where
  "IsUnspecified a \<longleftrightarrow> a = V4 0 \<or> a = V6 0 []"

fun loopback_bits :: "addr \<Rightarrow> bool" where
  "loopback_bits (V4 w) = (v4_byte w 0 = 127)"
| "loopback_bits (V6 w _) = (w = 1)"
| "loopback_bits AddrZero = False"

fun multicast_bits :: "addr \<Rightarrow> bool" where
  "multicast_bits (V4 w) = (v4_byte w 0 div 16 = 14)"
| "multicast_bits (V6 w _) = (v6_u16 w 0 div 256 = 255)"
| "multicast_bits AddrZero = False"

fun linklocal_bits :: "addr \<Rightarrow> bool" where
  "linklocal_bits (V4 w) = (v4_byte w 0 = 169 \<and> v4_byte w 1 = 254)"
| "linklocal_bits (V6 w _) = (v6_u16 w 0 div 64 = 1018)"
| "linklocal_bits AddrZero = False"

fun private_bits :: "addr \<Rightarrow> bool" where
  "private_bits (V4 w) =
     (v4_byte w 0 = 10 \<or> v4_byte w 0 = 172 \<and> v4_byte w 1 div 16 = 1
      \<or> v4_byte w 0 = 192 \<and> v4_byte w 1 = 168)"
| "private_bits (V6 w _) = (v6_u16 w 0 div 512 = 126)"
| "private_bits AddrZero = False"

text \<open>The classifying methods look through the 4-in-6 form first.\<close>

definition IsLoopback :: "addr \<Rightarrow> bool" where
  "IsLoopback a = loopback_bits (Unmap a)"

definition IsMulticast :: "addr \<Rightarrow> bool" where
  "IsMulticast a = multicast_bits (Unmap a)"

definition IsLinkLocalUnicast :: "addr \<Rightarrow> bool" where
  "IsLinkLocalUnicast a = linklocal_bits (Unmap a)"

definition IsPrivate :: "addr \<Rightarrow> bool" where
  "IsPrivate a = private_bits (Unmap a)"

text \<open>Global unicast in the library's sense: private and unique-local addresses count, the
  unspecified, broadcast, loopback, multicast and link-local ones do not.\<close>

definition IsGlobalUnicast :: "addr \<Rightarrow> bool" where
  "IsGlobalUnicast a \<longleftrightarrow>
     (case a of AddrZero \<Rightarrow> False | V4 w \<Rightarrow> w \<noteq> 0 \<and> w \<noteq> - 1 | V6 w z \<Rightarrow> True)
     \<and> a \<noteq> V6 0 [] \<and> \<not> IsLoopback a \<and> \<not> IsMulticast a \<and> \<not> IsLinkLocalUnicast a"

lemmas addr_class_defs = IsUnspecified_def IsLoopback_def IsMulticast_def IsLinkLocalUnicast_def
  IsPrivate_def IsGlobalUnicast_def v4_byte_def v6_u16_def

text \<open>\<^verbatim>\<open>AddrFrom4\<close>, \<^verbatim>\<open>AddrFrom16\<close>, \<^verbatim>\<open>AddrFromSlice\<close> and
  \<^verbatim>\<open>AsSlice\<close>.\<close>

definition AddrFrom4 :: "byte list \<Rightarrow> addr" where
  "AddrFrom4 bs = V4 (word_of_nat (be_nat bs))"

definition AddrFrom16 :: "byte list \<Rightarrow> addr" where
  "AddrFrom16 bs = V6 (word_of_nat (be_nat bs)) []"

definition AddrFromSlice :: "byte list \<Rightarrow> addr option" where
  "AddrFromSlice bs = (if length bs = 4 then Some (AddrFrom4 bs)
     else if length bs = 16 then Some (AddrFrom16 bs) else None)"

fun AsSlice :: "addr \<Rightarrow> byte list" where
  "AsSlice AddrZero = []"
| "AsSlice (V4 w) = to_be 4 (unat w)"
| "AsSlice (V6 w _) = to_be 16 (unat w)"

lemma AddrFromSlice_AsSlice:
  "a \<noteq> AddrZero \<Longrightarrow> Zone a = [] \<Longrightarrow> AddrFromSlice (AsSlice a) = Some a"
proof (cases a)
  case (V4 w)
  then show ?thesis
    by (simp add: AddrFromSlice_def AddrFrom4_def be_nat_to_be)
next
  case (V6 w z)
  have "unat w < 256 ^ 16"
    using unsigned_less [where ?'a = nat, of w] by simp
  moreover assume "Zone a = []"
  ultimately show ?thesis
    using V6 by (simp add: AddrFromSlice_def AddrFrom16_def be_nat_to_be)
qed simp

lemma Unmap_not_4in6 [simp]: "\<not> Is4In6 (Unmap a)"
  by (cases a) auto

lemma Unmap_id [simp]: "\<not> Is4In6 a \<Longrightarrow> Unmap a = a"
  by (cases a) auto

lemma Unmap_Unmap [simp]: "Unmap (Unmap a) = Unmap a"
  by (rule Unmap_id) simp

lemma Unmap_eq_Zero [simp]: "Unmap a = AddrZero \<longleftrightarrow> a = AddrZero"
  by (cases a) auto

lemma Zone_Unmap: "Zone a = [] \<Longrightarrow> Zone (Unmap a) = []"
  by (cases a) auto

lemma IsGlobalUnicast_valid: "IsGlobalUnicast a \<Longrightarrow> IsValid a"
  by (cases a) (auto simp: IsGlobalUnicast_def)

lemma Is4_or_Is6: "IsValid a \<Longrightarrow> Is4 a \<noteq> Is6 a"
  by (cases a) auto

section \<open>Parsing\<close>

definition err_addr :: error where "err_addr = ErrNew ''ParseAddr: unable to parse IP''"

text \<open>
  The loop of \<^verbatim>\<open>parseIPv4Fields\<close>: the rest of the text, the previous character
  (none at the start), the value and number of digits of the current octet, and the octets read.
\<close>

fun parseIPv4_loop :: "string \<Rightarrow> char option \<Rightarrow> nat \<Rightarrow> nat \<Rightarrow> byte list \<Rightarrow> byte list res" where
  "parseIPv4_loop [] prev val digLen fields =
     (if length fields < 3 then Err err_addr else Ok (fields @ [word_of_nat val]))"
| "parseIPv4_loop (c # cs) prev val digLen fields =
     (case digit_val c of
        Some d \<Rightarrow>
          if digLen = 1 \<and> val = 0 then Err err_addr
          else if 255 < val * 10 + d then Err err_addr
          else parseIPv4_loop cs (Some c) (val * 10 + d) (digLen + 1) fields
      | None \<Rightarrow>
          if c = CHR ''.'' then
            (if prev = None \<or> cs = [] \<or> prev = Some (CHR ''.'') then Err err_addr
             else if length fields = 3 then Err err_addr
             else parseIPv4_loop cs (Some c) 0 0 (fields @ [word_of_nat val]))
          else Err err_addr)"

definition parseIPv4Fields :: "string \<Rightarrow> byte list res" where
  "parseIPv4Fields s = parseIPv4_loop s None 0 0 []"

definition parseIPv4 :: "string \<Rightarrow> addr res" where
  "parseIPv4 s = bind_res (parseIPv4Fields s) (\<lambda>fs. Ok (AddrFrom4 fs))"

text \<open>Scan one group of hexadecimal digits: how many, their value, and the rest of the text.\<close>

fun scan_hex :: "string \<Rightarrow> nat \<Rightarrow> nat \<Rightarrow> (nat \<times> nat \<times> string) res" where
  "scan_hex [] off acc = Ok (off, acc, [])"
| "scan_hex (c # cs) off acc =
     (case hex_val c of
        None \<Rightarrow> Ok (off, acc, c # cs)
      | Some v \<Rightarrow> if 3 < off then Err err_addr
                 else if 65535 < acc * 16 + v then Err err_addr
                 else scan_hex cs (off + 1) (acc * 16 + v))"

text \<open>
  The main loop of \<^verbatim>\<open>parseIPv6\<close>: the rest of the text, the bytes read so far and the
  position of the ellipsis. It returns all three.
\<close>

function parseIPv6_loop :: "string \<Rightarrow> byte list \<Rightarrow> nat option \<Rightarrow> (string \<times> byte list \<times> nat option) res" where
  "parseIPv6_loop s ip ell =
     (if 16 \<le> length ip then Ok (s, ip, ell)
      else bind_res (scan_hex s 0 0) (\<lambda>(off, acc, rest).
        if off = 0 then Err err_addr
        else if rest \<noteq> [] \<and> hd rest = CHR ''.'' then
          (if ell = None \<and> length ip \<noteq> 12 then Err err_addr
           else if 16 < length ip + 4 then Err err_addr
           else bind_res (parseIPv4Fields s) (\<lambda>fs. Ok ([], ip @ fs, ell)))
        else (let ip' = ip @ to_be 2 acc in
          (case rest of
             [] \<Rightarrow> Ok ([], ip', ell)
           | c # cs \<Rightarrow>
               if c \<noteq> CHR '':'' then Err err_addr
               else (case cs of
                 [] \<Rightarrow> Err err_addr
               | d # ds \<Rightarrow>
                   if d = CHR '':'' then
                     (if ell \<noteq> None then Err err_addr
                      else if ds = [] then Ok ([], ip', Some (length ip'))
                      else parseIPv6_loop ds ip' (Some (length ip')))
                   else parseIPv6_loop cs ip' ell)))))"
  by pat_completeness auto
termination
  by (relation "measure (\<lambda>(s, ip, ell). 16 - length ip)") auto

declare parseIPv6_loop.simps [simp del]

definition parseIPv6 :: "string \<Rightarrow> addr res" where
  "parseIPv6 s0 =
     (let (s, zone, bad) = (case cut (CHR ''%'') s0 of
            None \<Rightarrow> (s0, [], False) | Some (a, z) \<Rightarrow> (a, z, z = []))
      in if bad then Err err_addr
      else let (ell, s) = (if take 2 s = ''::'' then (Some 0, drop 2 s) else (None, s))
      in if ell \<noteq> None \<and> s = [] then Ok (V6 0 zone)
      else bind_res (parseIPv6_loop s [] ell) (\<lambda>(rest, ip, ell).
        if rest \<noteq> [] then Err err_addr
        else if length ip < 16 then
          (case ell of
             None \<Rightarrow> Err err_addr
           | Some e \<Rightarrow> Ok (V6 (word_of_nat (be_nat (take e ip @ replicate (16 - length ip) 0 @ drop e ip))) zone))
        else if ell \<noteq> None then Err err_addr
        else Ok (V6 (word_of_nat (be_nat ip)) zone)))"

text \<open>\<^verbatim>\<open>ParseAddr\<close>: the first of dot, colon and percent sign decides.\<close>

fun ParseAddr_scan :: "string \<Rightarrow> string \<Rightarrow> addr res" where
  "ParseAddr_scan s [] = Err err_addr"
| "ParseAddr_scan s (c # cs) =
     (if c = CHR ''.'' then parseIPv4 s
      else if c = CHR '':'' then parseIPv6 s
      else if c = CHR ''%'' then Err err_addr
      else ParseAddr_scan s cs)"

definition ParseAddr :: "string \<Rightarrow> addr res" where
  "ParseAddr s = ParseAddr_scan s s"

text \<open>\<^verbatim>\<open>ParseAddrPort\<close>: split at the last colon; brackets exactly around IPv6.\<close>

definition splitAddrPort :: "string \<Rightarrow> (string \<times> string \<times> bool) res" where
  "splitAddrPort s =
     (case split_last (CHR '':'') s of
        None \<Rightarrow> Err err_addr
      | Some (ip, port) \<Rightarrow>
          if ip = [] then Err err_addr
          else if port = [] then Err err_addr
          else if hd ip = CHR ''['' then
            (if length ip < 2 \<or> last ip \<noteq> CHR '']'' then Err err_addr
             else Ok (butlast (tl ip), port, True))
          else Ok (ip, port, False))"

definition ParseAddrPort :: "string \<Rightarrow> addrport res" where
  "ParseAddrPort s =
     bind_res (splitAddrPort s) (\<lambda>(ip, port, v6).
     bind_res (ParseUint10 16 port) (\<lambda>port16.
     bind_res (ParseAddr ip) (\<lambda>a.
       if v6 \<and> Is4 a then Err err_addr
       else if \<not> v6 \<and> Is6 a then Err err_addr
       else Ok (AddrPort a (word_of_nat port16)))))"

section \<open>Printing\<close>

definition string4 :: "u32 \<Rightarrow> string" where
  "string4 w = join ''.'' (map (\<lambda>i. dec (v4_byte w i)) [0, 1, 2, 3])"

text \<open>The leftmost longest run of at least two zero groups, as a half-open interval.\<close>

definition zero_run :: "nat list \<Rightarrow> nat \<times> nat" where
  "zero_run gs = fold (\<lambda>i (s, e).
       let l = length (takeWhile (\<lambda>g. g = 0) (drop i gs))
       in if 2 \<le> l \<and> e - s < l then (i, i + l) else (s, e)) [0..<8] (255, 255)"

definition string6_groups :: "nat list \<Rightarrow> string" where
  "string6_groups gs =
     (let (s, e) = zero_run gs in
      if s = 255 then join '':'' (map hexn gs)
      else join '':'' (map hexn (take s gs)) @ ''::'' @ join '':'' (map hexn (drop e gs)))"

definition groups :: "128 word \<Rightarrow> nat list" where
  "groups w = map (v6_u16 w) [0..<8]"

fun addr_String :: "addr \<Rightarrow> string" where
  "addr_String AddrZero = ''invalid IP''"
| "addr_String (V4 w) = string4 w"
| "addr_String (V6 w z) =
     (if Is4In6 (V6 w z) then ''::ffff:'' @ string4 (word_of_nat (unat w mod 2 ^ 32))
      else string6_groups (groups w)) @ (if z = [] then [] else CHR ''%'' # z)"

fun addrport_String :: "addrport \<Rightarrow> string" where
  "addrport_String (AddrPort AddrZero p) = ''invalid AddrPort''"
| "addrport_String (AddrPort (V4 w) p) = string4 w @ '':'' @ dec (unat p)"
| "addrport_String (AddrPort (V6 w z) p) = ''['' @ addr_String (V6 w z) @ '']:'' @ dec (unat p)"

text \<open>\<^verbatim>\<open>net.JoinHostPort\<close>.\<close>

definition JoinHostPort :: "string \<Rightarrow> string \<Rightarrow> string" where
  "JoinHostPort host port =
     (if CHR '':'' \<in> set host then ''['' @ host @ '']:'' @ port else host @ '':'' @ port)"

section \<open>Round trips\<close>

subsection \<open>IPv4\<close>

lemma parseIPv4_loop_dec:
  "n \<le> 255 \<Longrightarrow> parseIPv4_loop (dec n @ rest) prev 0 0 fs
     = parseIPv4_loop rest (Some (digit_char (n mod 10))) n (length (dec n)) fs"
proof (induction n arbitrary: rest rule: dec.induct)
  case (1 n)
  show ?case
  proof (cases "n < 10")
    case True
    then show ?thesis by (simp add: dec.simps [of n])
  next
    case False
    then have "parseIPv4_loop (dec (n div 10) @ digit_char (n mod 10) # rest) prev 0 0 fs
      = parseIPv4_loop (digit_char (n mod 10) # rest) (Some (digit_char (n div 10 mod 10)))
          (n div 10) (length (dec (n div 10))) fs"
      using "1.prems" by (intro "1.IH") auto
    moreover have "n div 10 * 10 + n mod 10 = n"
      by simp
    moreover have "n div 10 \<noteq> 0"
      using False by auto
    ultimately show ?thesis
      using False "1.prems" by (simp add: dec.simps [of n] del: div_mult_mod_eq)
  qed
qed

lemma digit_val_dot [simp]: "digit_val CHR ''.'' = None"
  by (simp add: digit_val_def)

lemma digit_mod_ne_dot [simp]: "digit_char (n mod 10) \<noteq> CHR ''.''"
  using digit_char_neq(1) [of "n mod 10"] by simp

lemma parseIPv4_quad:
  assumes "a \<le> 255" "b \<le> 255" "c \<le> 255" "d \<le> 255"
  shows "parseIPv4Fields (join ''.'' [dec a, dec b, dec c, dec d])
    = Ok [word_of_nat a, word_of_nat b, word_of_nat c, word_of_nat d]"
proof -
  have d: "parseIPv4_loop (dec d) (Some CHR ''.'') 0 0 fs
      = parseIPv4_loop [] (Some (digit_char (d mod 10))) d (length (dec d)) fs" for fs
    using parseIPv4_loop_dec [OF assms(4), where rest = "[]"] by simp
  show ?thesis
    using assms by (simp add: parseIPv4Fields_def parseIPv4_loop_dec d)
qed

lemma v4_byte_le [simp]: "v4_byte w i \<le> 255"
  using mod_less_divisor [of 256 "unat w div 256 ^ (3 - i)"] unfolding v4_byte_def by linarith

lemma word_byte_mod [simp]: "(word_of_nat (n mod 256) :: byte) = word_of_nat n"
  by (simp add: word_of_nat_eq_iff take_bit_eq_mod)

lemma v4_bytes: "map (\<lambda>i. word_of_nat (v4_byte w i) :: byte) [0, 1, 2, 3] = to_be 4 (unat w)"
  by (simp add: v4_byte_def to_be_4)

lemma parseIPv4_string4 [simp]: "parseIPv4 (string4 w) = Ok (V4 w)"
proof -
  have "parseIPv4Fields (string4 w) = Ok (map (\<lambda>i. word_of_nat (v4_byte w i)) [0, 1, 2, 3])"
    unfolding string4_def list.map by (simp only: parseIPv4_quad v4_byte_le)
  then show ?thesis
    by (simp only: parseIPv4_def v4_bytes) (simp add: AddrFrom4_def be_nat_to_be)
qed

lemma ParseAddr_scan_skip:
  "CHR ''.'' \<notin> set pre \<Longrightarrow> CHR '':'' \<notin> set pre \<Longrightarrow> CHR ''%'' \<notin> set pre \<Longrightarrow>
    ParseAddr_scan s (pre @ t) = ParseAddr_scan s t"
  by (induction pre) auto

lemma ParseAddr_string4 [simp]: "ParseAddr (string4 w) = Ok (V4 w)"
proof -
  have "string4 w = dec (v4_byte w 0) @ CHR ''.'' # join ''.'' (map (\<lambda>i. dec (v4_byte w i)) [1, 2, 3])"
    by (simp add: string4_def)
  then have "ParseAddr_scan (string4 w) (string4 w) = parseIPv4 (string4 w)"
    by (metis ParseAddr_scan_skip dec_no_sep(1,2,3) ParseAddr_scan.simps(2))
  then show ?thesis by (simp add: ParseAddr_def)
qed

subsection \<open>IPv6\<close>

lemma hexn_nonempty [simp]: "hexn n \<noteq> []"
  by (subst hexn.simps) simp

lemma length_hexn: "n < 16 ^ Suc k \<Longrightarrow> length (hexn n) \<le> Suc k"
proof (induction k arbitrary: n)
  case 0
  then show ?case by (simp add: hexn.simps [of n])
next
  case (Suc k)
  then have "n div 16 < 16 ^ Suc k"
    by (simp add: less_mult_imp_div_less mult.commute)
  then show ?case
    using Suc.IH [of "n div 16"] by (simp add: hexn.simps [of n])
qed

lemma scan_hex_hexn:
  "n < 65536 \<Longrightarrow> scan_hex (hexn n @ rest) 0 0 = scan_hex rest (length (hexn n)) n"
proof (induction n arbitrary: rest rule: hexn.induct)
  case (1 n)
  show ?case
  proof (cases "n < 16")
    case True
    then show ?thesis by (simp add: hexn.simps [of n])
  next
    case False
    with "1.prems" have "scan_hex (hexn (n div 16) @ hex_char (n mod 16) # rest) 0 0
      = scan_hex (hex_char (n mod 16) # rest) (length (hexn (n div 16))) (n div 16)"
      by (intro "1.IH") auto
    moreover have "length (hexn (n div 16)) \<le> 3"
      using length_hexn [of "n div 16" 2] "1.prems" by auto
    moreover have "n div 16 * 16 + n mod 16 = n"
      by simp
    ultimately show ?thesis
      using False "1.prems" by (simp add: hexn.simps [of n] del: div_mult_mod_eq)
  qed
qed

lemma set_hexn: "c \<in> set (hexn n) \<Longrightarrow> \<exists>d < 16. c = hex_char d"
proof (induction n rule: hexn.induct)
  case (1 n)
  show ?case
  proof (cases "n < 16")
    case True
    with "1.prems" show ?thesis by (auto simp: hexn.simps [of n])
  next
    case False
    from "1.prems" False consider "c \<in> set (hexn (n div 16))" | "c = hex_char (n mod 16)"
      by (auto simp: hexn.simps [of n])
    then show ?thesis
    proof cases
      case 1
      with False "1.IH" show ?thesis by blast
    next
      case 2
      then show ?thesis by (intro exI [of _ "n mod 16"]) simp
    qed
  qed
qed

lemma hexn_no_sep:
  "CHR ''.'' \<notin> set (hexn n)" "CHR '':'' \<notin> set (hexn n)" "CHR ''%'' \<notin> set (hexn n)"
  "CHR ''['' \<notin> set (hexn n)" "CHR '']'' \<notin> set (hexn n)" "CHR ''/'' \<notin> set (hexn n)"
  by (metis set_hexn hex_char_neq)+

lemma hd_hexn_ne: "hexn n = c # cs \<Longrightarrow> c \<noteq> CHR '':''"
  using hexn_no_sep(2) [of n] by auto

lemma hex_val_colon [simp]: "hex_val CHR '':'' = None"
  by (simp add: hex_val_def)

definition group_bytes :: "nat list \<Rightarrow> byte list" where
  "group_bytes gs = concat (map (to_be 2) gs)"

lemma group_bytes_simps [simp]:
  "group_bytes [] = []" "group_bytes (g # gs) = to_be 2 g @ group_bytes gs"
  "group_bytes (xs @ ys) = group_bytes xs @ group_bytes ys"
  "length (group_bytes gs) = 2 * length gs"
  by (simp_all add: group_bytes_def) (induction gs, auto)

lemma scan_hex_colon:
  "n < 65536 \<Longrightarrow> scan_hex (hexn n @ CHR '':'' # t) 0 0 = Ok (length (hexn n), n, CHR '':'' # t)"
  by (simp add: scan_hex_hexn)

lemma scan_hex_end: "n < 65536 \<Longrightarrow> scan_hex (hexn n) 0 0 = Ok (length (hexn n), n, [])"
  using scan_hex_hexn [of n "[]"] by simp

lemma join_hexn_hd:
  "gs \<noteq> [] \<Longrightarrow> \<exists>c cs. join '':'' (map hexn gs) = c # cs \<and> c \<noteq> CHR '':''"
proof (cases gs)
  case (Cons g gs')
  obtain c cs where "hexn g = c # cs"
    by (cases "hexn g") auto
  then show ?thesis
    using Cons hd_hexn_ne [of g] by (cases gs') auto
qed simp

lemma parseIPv6_loop_plain:
  "gs \<noteq> [] \<Longrightarrow> length ip + 2 * length gs \<le> 16 \<Longrightarrow> \<forall>g \<in> set gs. g < 65536 \<Longrightarrow>
    parseIPv6_loop (join '':'' (map hexn gs)) ip ell = Ok ([], ip @ group_bytes gs, ell)"
proof (induction gs arbitrary: ip)
  case Nil
  then show ?case by simp
next
  case (Cons g gs)
  show ?case
  proof (cases gs)
    case Nil
    then show ?thesis
      using Cons.prems by (simp add: parseIPv6_loop.simps [of _ ip] scan_hex_end)
  next
    case (Cons g' gs')
    obtain c cs where c: "join '':'' (map hexn gs) = c # cs" "c \<noteq> CHR '':''"
      using join_hexn_hd [of gs] Cons by auto
    have s: "join '':'' (map hexn (g # gs)) = hexn g @ CHR '':'' # join '':'' (map hexn gs)"
      using Cons by simp
    have IH: "parseIPv6_loop (join '':'' (map hexn gs)) (ip @ to_be 2 g) ell
        = Ok ([], (ip @ to_be 2 g) @ group_bytes gs, ell)"
      using Cons.prems Cons by (intro Cons.IH) auto
    show ?thesis
      using Cons.prems IH c unfolding s
      by (simp add: parseIPv6_loop.simps [of _ ip] scan_hex_colon)
  qed
qed

lemma parseIPv6_loop_ellipsis:
  "as \<noteq> [] \<Longrightarrow> length ip + 2 * (length as + length bs) \<le> 16 \<Longrightarrow>
    \<forall>g \<in> set as \<union> set bs. g < 65536 \<Longrightarrow>
    parseIPv6_loop (join '':'' (map hexn as) @ ''::'' @ join '':'' (map hexn bs)) ip None
      = Ok ([], ip @ group_bytes as @ group_bytes bs, Some (length ip + 2 * length as))"
proof (induction as arbitrary: ip)
  case Nil
  then show ?case by simp
next
  case (Cons a as)
  show ?case
  proof (cases as)
    case Nil
    have plain: "bs \<noteq> [] \<Longrightarrow> parseIPv6_loop (join '':'' (map hexn bs)) (ip @ to_be 2 a) (Some (length ip + 2))
        = Ok ([], (ip @ to_be 2 a) @ group_bytes bs, Some (length ip + 2))"
      using Cons.prems Nil by (intro parseIPv6_loop_plain) auto
    show ?thesis
    proof (cases "bs = []")
      case True
      then show ?thesis
        using Cons.prems Nil by (simp add: parseIPv6_loop.simps [of _ ip] scan_hex_colon)
    next
      case False
      then have "join '':'' (map hexn bs) \<noteq> []"
        using join_hexn_hd by fastforce
      then show ?thesis
        using Cons.prems Nil plain False
        by (simp add: parseIPv6_loop.simps [of _ ip] scan_hex_colon)
    qed
  next
    case (Cons a' as')
    obtain c cs where c: "join '':'' (map hexn as) = c # cs" "c \<noteq> CHR '':''"
      using join_hexn_hd [of as] Cons by auto
    have s: "join '':'' (map hexn (a # as)) = hexn a @ CHR '':'' # join '':'' (map hexn as)"
      using Cons by simp
    have IH: "parseIPv6_loop (join '':'' (map hexn as) @ ''::'' @ join '':'' (map hexn bs)) (ip @ to_be 2 a) None
        = Ok ([], (ip @ to_be 2 a) @ group_bytes as @ group_bytes bs, Some (length (ip @ to_be 2 a) + 2 * length as))"
      using Cons.prems Cons by (intro Cons.IH) auto
    show ?thesis
      using Cons.prems IH c unfolding s
      by (simp add: parseIPv6_loop.simps [of _ ip] scan_hex_colon)
  qed
qed


text \<open>The run of zero groups that the printer elides is one.\<close>

definition run_ok :: "nat list \<Rightarrow> nat \<times> nat \<Rightarrow> bool" where
  "run_ok gs r \<longleftrightarrow> r = (255, 255) \<or>
     (fst r + 2 \<le> snd r \<and> snd r \<le> length gs \<and> fst r < 8 \<and>
      gs = take (fst r) gs @ replicate (snd r - fst r) 0 @ drop (snd r) gs)"

lemma takeWhile_zero_split:
  "l = length (takeWhile (\<lambda>g. g = 0) (drop i gs)) \<Longrightarrow> i \<le> length gs \<Longrightarrow>
    gs = take i gs @ replicate l (0::nat) @ drop (i + l) gs"
proof -
  assume l: "l = length (takeWhile (\<lambda>g. g = 0) (drop i gs))" and i: "i \<le> length gs"
  let ?t = "takeWhile (\<lambda>g. g = 0) (drop i gs)"
  have "?t = replicate l 0"
    unfolding l by (rule replicate_eqI [symmetric, THEN sym]) (auto dest: set_takeWhileD)
  moreover have "drop i gs = ?t @ drop l (drop i gs)"
    unfolding l by (metis append_take_drop_id takeWhile_eq_take)
  ultimately have "drop i gs = replicate l 0 @ drop (i + l) gs"
    by (simp add: add.commute)
  then show ?thesis
    by (metis append_take_drop_id)
qed

lemma run_ok_zero_run: "length gs = 8 \<Longrightarrow> run_ok gs (zero_run gs)"
  unfolding zero_run_def
proof (rule fold_invariant [where Q = "\<lambda>i. i < 8"])
  assume len: "length gs = 8"
  fix i :: nat and r :: "nat \<times> nat"
  assume i: "i < 8" and r: "run_ok gs r"
  let ?l = "length (takeWhile (\<lambda>g. g = 0) (drop i gs))"
  have le: "i + ?l \<le> length gs"
    using length_takeWhile_le [of "\<lambda>g. g = 0" "drop i gs"] i len by simp
  have "gs = take i gs @ replicate ?l 0 @ drop (i + ?l) gs"
    by (rule takeWhile_zero_split) (use i len in simp_all)
  with i r le show "run_ok gs (case r of (s, e) \<Rightarrow>
      let l = ?l in if 2 \<le> l \<and> e - s < l then (i, i + l) else (s, e))"
    by (cases r) (auto simp: run_ok_def Let_def)
qed (auto simp: run_ok_def)

lemma join_hexn_no_sep:
  "CHR ''.'' \<notin> set (join '':'' (map hexn gs))" "CHR ''%'' \<notin> set (join '':'' (map hexn gs))"
  "CHR ''['' \<notin> set (join '':'' (map hexn gs))" "CHR '']'' \<notin> set (join '':'' (map hexn gs))"
  by (induction gs rule: induct_list012) (auto simp: hexn_no_sep)

lemma string6_no_sep:
  "CHR ''.'' \<notin> set (string6_groups gs)" "CHR ''%'' \<notin> set (string6_groups gs)"
  "CHR ''['' \<notin> set (string6_groups gs)" "CHR '']'' \<notin> set (string6_groups gs)"
  by (auto simp: string6_groups_def join_hexn_no_sep split: prod.splits)

lemma join_colon_mem: "2 \<le> length xs \<Longrightarrow> CHR '':'' \<in> set (join '':'' xs)"
  by (induction xs rule: induct_list012) auto

lemma string6_colon: "length gs = 8 \<Longrightarrow> CHR '':'' \<in> set (string6_groups gs)"
  by (cases "zero_run gs") (simp add: string6_groups_def join_colon_mem)

lemma group_bytes_zeros: "group_bytes (replicate k 0) = replicate (2 * k) 0"
  by (induction k) (auto simp: to_be_2)

lemma parseIPv6_string6:
  assumes len: "length gs = 8" and small: "\<forall>g \<in> set gs. g < 65536"
  shows "parseIPv6 (string6_groups gs) = Ok (V6 (word_of_nat (be_nat (group_bytes gs))) [])"
proof -
  obtain s e where z: "zero_run gs = (s, e)" by fastforce
  have ok: "run_ok gs (s, e)"
    using run_ok_zero_run [OF len] z by simp
  have nz: "cut CHR ''%'' (string6_groups gs) = None"
    using string6_no_sep(2) by (simp add: cut_None [symmetric])
  show ?thesis
  proof (cases "s = 255")
    case True
    have str: "string6_groups gs = join '':'' (map hexn gs)"
      using True z by (simp add: string6_groups_def)
    obtain c cs where c: "join '':'' (map hexn gs) = c # cs" "c \<noteq> CHR '':''"
      using join_hexn_hd [of gs] len by fastforce
    have "parseIPv6_loop (join '':'' (map hexn gs)) [] None = Ok ([], group_bytes gs, None)"
      using parseIPv6_loop_plain [of gs "[]" None] len small by fastforce
    then show ?thesis
      using nz c len unfolding str by (simp add: parseIPv6_def)
  next
    case False
    let ?as = "take s gs" and ?bs = "drop e gs"
    have se: "s + 2 \<le> e" "e \<le> 8" "s < 8" and gs: "gs = ?as @ replicate (e - s) 0 @ ?bs"
      using ok False len by (auto simp: run_ok_def)
    have str: "string6_groups gs = join '':'' (map hexn ?as) @ ''::'' @ join '':'' (map hexn ?bs)"
      using False z by (simp add: string6_groups_def)
    have bytes: "group_bytes gs = group_bytes ?as @ replicate (2 * (e - s)) 0 @ group_bytes ?bs"
      by (subst gs) (simp only: group_bytes_simps group_bytes_zeros)
    have las: "length ?as = s" and lbs: "length ?bs = 8 - e"
      using len se by simp_all
    have sm: "\<forall>g \<in> set ?as \<union> set ?bs. g < 65536"
      using small by (auto dest: in_set_takeD in_set_dropD)
    have gap: "16 - (2 * s + 2 * (8 - e)) = 2 * (e - s)" "2 * s + 2 * (8 - e) < 16"
      using se by auto
    show ?thesis
    proof (cases "s = 0")
      case True
      show ?thesis
      proof (cases "?bs = []")
        case True
        then have "group_bytes gs = replicate (2 * (e - s)) 0"
          using bytes \<open>s = 0\<close> by simp
        moreover have "be_nat (replicate k 0) = 0" for k
          by (induction k) auto
        ultimately show ?thesis
          using nz True \<open>s = 0\<close> unfolding str by (simp add: parseIPv6_def)
      next
        case False
        then obtain c cs where c: "join '':'' (map hexn ?bs) = c # cs"
          using join_hexn_hd [of ?bs] by blast
        have "parseIPv6_loop (join '':'' (map hexn ?bs)) [] (Some 0) = Ok ([], group_bytes ?bs, Some 0)"
          using parseIPv6_loop_plain [of ?bs "[]" "Some 0"] False lbs sm by simp
        then show ?thesis
          using nz c gap bytes lbs \<open>s = 0\<close> unfolding str by (simp add: parseIPv6_def)
      qed
    next
      case False
      then have ne: "?as \<noteq> []"
        using len by auto
      then obtain c cs where c: "join '':'' (map hexn ?as) = c # cs" "c \<noteq> CHR '':''"
        using join_hexn_hd [of ?as] by blast
      have "parseIPv6_loop (join '':'' (map hexn ?as) @ ''::'' @ join '':'' (map hexn ?bs)) [] None
          = Ok ([], group_bytes ?as @ group_bytes ?bs, Some (2 * s))"
        using parseIPv6_loop_ellipsis [OF ne, of "[]" ?bs] las lbs sm se by simp
      then show ?thesis
        using nz c gap bytes las lbs unfolding str by (simp add: parseIPv6_def)
    qed
  qed
qed

lemma be_nat_groups:
  "be_nat (group_bytes (map (\<lambda>i. n div 65536 ^ (k - Suc i) mod 65536) [0..<k])) = n mod 65536 ^ k"
proof (induction k)
  case 0
  show ?case by simp
next
  case (Suc k)
  let ?f = "\<lambda>k i. n div 65536 ^ (k - Suc i) mod 65536"
  have "map (?f (Suc k)) [0..<Suc k] = n div 65536 ^ k mod 65536 # map (?f k) [0..<k]"
    by (simp add: upt_conv_Cons map_Suc_upt [symmetric] del: upt_Suc)
  moreover have "(256 :: nat) ^ (2 * k) = 65536 ^ k"
    by (simp add: power_mult)
  moreover have "n mod (65536 ^ k * 65536) = 65536 ^ k * (n div 65536 ^ k mod 65536) + n mod 65536 ^ k"
    by (rule mod_mult2_eq)
  ultimately show ?case
    by (simp add: be_nat_append be_nat_to_be Suc.IH mult.commute del: upt_Suc)
qed

lemma be_nat_group_bytes_groups: "be_nat (group_bytes (groups w)) = unat w"
proof -
  have "groups w = map (\<lambda>i. unat w div 65536 ^ (8 - Suc i) mod 65536) [0..<8]"
    by (simp add: groups_def v6_u16_def)
  moreover have "unat w < 65536 ^ 8"
    using unsigned_less [where ?'a = nat, of w] by simp
  ultimately show ?thesis
    by (simp only: be_nat_groups mod_less)
qed

lemma parseIPv6_print [simp]: "parseIPv6 (string6_groups (groups w)) = Ok (V6 w [])"
proof -
  have "parseIPv6 (string6_groups (groups w)) = Ok (V6 (word_of_nat (be_nat (group_bytes (groups w)))) [])"
    by (rule parseIPv6_string6) (auto simp: groups_def v6_u16_def)
  then show ?thesis by (simp add: be_nat_group_bytes_groups)
qed

lemma ParseAddr_scan_colon:
  "CHR '':'' \<in> set t \<Longrightarrow> CHR ''.'' \<notin> set t \<Longrightarrow> CHR ''%'' \<notin> set t \<Longrightarrow> ParseAddr_scan s t = parseIPv6 s"
  by (induction t) auto

subsection \<open>Addresses, endpoints and host-port pairs\<close>

text \<open>An address that is not the zero address, carries no zone and is not in the 4-in-6 form:
  what \<^verbatim>\<open>Unmap\<close> leaves of a zone-free address.\<close>

definition plain_addr :: "addr \<Rightarrow> bool" where
  "plain_addr a \<longleftrightarrow> IsValid a \<and> Zone a = [] \<and> \<not> Is4In6 a"

lemma plain_addr_Unmap: "IsValid a \<Longrightarrow> Zone a = [] \<Longrightarrow> plain_addr (Unmap a)"
  by (cases a) (auto simp: plain_addr_def)

lemma length_groups [simp]: "length (groups w) = 8"
  by (simp add: groups_def)

lemma ParseAddr_addr_String [simp]: "plain_addr a \<Longrightarrow> ParseAddr (addr_String a) = Ok a"
  by (cases a)
    (auto simp: plain_addr_def ParseAddr_def [of "string6_groups _"] string6_no_sep string6_colon
      ParseAddr_scan_colon)

lemma string4_no_sep:
  "CHR '':'' \<notin> set (string4 w)" "CHR ''['' \<notin> set (string4 w)" "string4 w \<noteq> []"
  by (simp_all add: string4_def dec_no_sep)

lemma colon_in_addr_String: "plain_addr a \<Longrightarrow> CHR '':'' \<in> set (addr_String a) \<longleftrightarrow> Is6 a"
  by (cases a) (auto simp: plain_addr_def string4_no_sep string6_colon)

lemma splitAddrPort_4: "splitAddrPort (string4 w @ CHR '':'' # dec n) = Ok (string4 w, dec n, False)"
  using string4_no_sep [of w]
  by (cases "string4 w") (auto simp: splitAddrPort_def split_last_append dec_no_sep)

lemma splitAddrPort_6:
  "splitAddrPort (CHR ''['' # h @ CHR '']'' # CHR '':'' # dec n) = Ok (h, dec n, True)"
proof -
  have "split_last CHR '':'' ((CHR ''['' # h @ '']'') @ CHR '':'' # dec n) = Some (CHR ''['' # h @ '']'', dec n)"
    by (rule split_last_append) (rule dec_no_sep)
  then show ?thesis
    by (simp add: splitAddrPort_def)
qed

lemma ParseAddrPort_JoinHostPort:
  assumes "plain_addr a" and "n < 65536"
  shows "ParseAddrPort (JoinHostPort (addr_String a) (dec n)) = Ok (AddrPort a (word_of_nat n))"
proof (cases a)
  case (V4 w)
  then show ?thesis
    using assms by (simp add: JoinHostPort_def string4_no_sep ParseAddrPort_def splitAddrPort_4)
next
  case (V6 w z)
  have "CHR '':'' \<in> set (addr_String a)"
    unfolding colon_in_addr_String [OF assms(1)] by (simp add: V6)
  with V6 assms show ?thesis
    by (simp add: JoinHostPort_def ParseAddrPort_def splitAddrPort_6 del: addr_String.simps)
qed (use assms in \<open>simp add: plain_addr_def\<close>)

lemma addrport_String_JoinHostPort:
  "plain_addr a \<Longrightarrow> addrport_String (AddrPort a p) = JoinHostPort (addr_String a) (dec (unat p))"
  using colon_in_addr_String [of a]
  by (cases a) (auto simp: JoinHostPort_def plain_addr_def simp del: addr_String.simps(3))

lemma ParseAddrPort_addrport_String:
  "plain_addr a \<Longrightarrow> ParseAddrPort (addrport_String (AddrPort a p)) = Ok (AddrPort a p)"
  by (simp add: addrport_String_JoinHostPort ParseAddrPort_JoinHostPort)

subsection \<open>The parsers never panic\<close>

lemma parseIPv4_loop_ne_Panic [simp]: "parseIPv4_loop s prev val dl fs \<noteq> Panic"
  by (induction s prev val dl fs rule: parseIPv4_loop.induct) (auto split: option.splits)

lemma scan_hex_ne_Panic [simp]: "scan_hex s off acc \<noteq> Panic"
  by (induction s off acc rule: scan_hex.induct) (auto split: option.splits)

lemma parseIPv6_loop_ne_Panic [simp]: "parseIPv6_loop s ip ell \<noteq> Panic"
proof (induction "16 - length ip" arbitrary: s ip ell rule: less_induct)
  case less
  have IH: "length ip < 16 \<Longrightarrow> parseIPv6_loop s' (ip @ to_be 2 a) ell' \<noteq> Panic" for s' a ell'
    by (rule less) simp
  show ?case
  proof (cases "16 \<le> length ip")
    case True
    then show ?thesis by (simp add: parseIPv6_loop.simps [of s])
  next
    case False
    then show ?thesis
      unfolding parseIPv6_loop.simps [of s]
      by (auto simp: IH parseIPv4Fields_def Let_def bind_res_eq_Panic split: prod.splits list.splits if_splits)
  qed
qed

lemma ParseAddr_ne_Panic [simp]: "ParseAddr s \<noteq> Panic"
proof -
  have "ParseAddr_scan s t \<noteq> Panic" for t
    by (induction t)
      (auto simp: parseIPv4_def parseIPv6_def parseIPv4Fields_def bind_res_eq_Panic Let_def
        split: prod.splits option.splits)
  then show ?thesis by (simp add: ParseAddr_def)
qed

lemma ParseAddrPort_ne_Panic [simp]: "ParseAddrPort s \<noteq> Panic"
  by (auto simp: ParseAddrPort_def splitAddrPort_def bind_res_eq_Panic split: option.splits prod.splits)

section \<open>Prefixes\<close>

text \<open>A prefix: its address and its length, \<open>- 1\<close> for an invalid one.\<close>

datatype prefix = Prefix (pfx_addr: addr) (pfx_bits: int)

abbreviation PrefixZero :: prefix where "PrefixZero \<equiv> Prefix AddrZero (- 1)"

fun without_zone :: "addr \<Rightarrow> addr" where
  "without_zone (V6 w _) = V6 w []"
| "without_zone a = a"

definition PrefixFrom :: "addr \<Rightarrow> int \<Rightarrow> prefix" where
  "PrefixFrom a bits =
     Prefix (without_zone a) (if IsValid a \<and> 0 \<le> bits \<and> bits \<le> int (BitLen a) then bits else - 1)"

fun addr_nat :: "addr \<Rightarrow> nat" where
  "addr_nat AddrZero = 0"
| "addr_nat (V4 w) = unat w"
| "addr_nat (V6 w _) = unat w"

text \<open>\<^verbatim>\<open>Prefix.Contains\<close>: same family, no zone, and the leading bits agree.\<close>

definition prefix_Contains :: "prefix \<Rightarrow> addr \<Rightarrow> bool" where
  "prefix_Contains p a \<longleftrightarrow>
     0 \<le> pfx_bits p \<and> Zone a = [] \<and> BitLen a \<noteq> 0 \<and> BitLen (pfx_addr p) = BitLen a \<and>
     addr_nat a div 2 ^ (BitLen a - nat (pfx_bits p))
       = addr_nat (pfx_addr p) div 2 ^ (BitLen a - nat (pfx_bits p))"

fun mask_addr :: "addr \<Rightarrow> nat \<Rightarrow> addr" where
  "mask_addr AddrZero b = AddrZero"
| "mask_addr (V4 w) b = V4 (word_of_nat (unat w div 2 ^ (32 - b) * 2 ^ (32 - b)))"
| "mask_addr (V6 w z) b = V6 (word_of_nat (unat w div 2 ^ (128 - b) * 2 ^ (128 - b))) []"

definition prefix_Masked :: "prefix \<Rightarrow> prefix" where
  "prefix_Masked p =
     (if pfx_bits p < 0 then PrefixZero
      else Prefix (mask_addr (pfx_addr p) (nat (pfx_bits p))) (pfx_bits p))"

definition prefix_String :: "prefix \<Rightarrow> string" where
  "prefix_String p =
     (if pfx_bits p < 0 then ''invalid Prefix''
      else addr_String (pfx_addr p) @ ''/'' @ Itoa (pfx_bits p))"

definition err_prefix :: error where "err_prefix = ErrNew ''netip.ParsePrefix''"

definition ParsePrefix :: "string \<Rightarrow> prefix res" where
  "ParsePrefix s =
     (case split_last (CHR ''/'') s of
        None \<Rightarrow> Err err_prefix
      | Some (ip, bitsStr) \<Rightarrow>
          bind_res (ParseAddr ip) (\<lambda>a.
          if Is6 a \<and> Zone a \<noteq> [] then Err err_prefix
          else if 1 < length bitsStr \<and> (hd bitsStr < CHR ''1'' \<or> CHR ''9'' < hd bitsStr) then Err err_prefix
          else bind_res (Atoi bitsStr) (\<lambda>bits.
            if bits < 0 \<or> int (if Is6 a then 128 else 32) < bits then Err err_prefix
            else Ok (PrefixFrom a bits))))"

text \<open>\<^verbatim>\<open>net.SplitHostPort\<close>: the port follows the last colon; a bracketed host must be
  closed right before it; a host without brackets has no colon; no other bracket is allowed.\<close>

definition err_hostport :: error where "err_hostport = ErrNew ''address: invalid host:port''"

definition SplitHostPort :: "string \<Rightarrow> (string \<times> string) res" where
  "SplitHostPort s =
     (case split_last (CHR '':'') s of
        None \<Rightarrow> Err err_hostport
      | Some (before, port) \<Rightarrow>
          if hd s = CHR ''['' then
            (case cut (CHR '']'') s of
               None \<Rightarrow> Err err_hostport
             | Some (opened, rest) \<Rightarrow>
                 if rest = CHR '':'' # port \<and> CHR ''['' \<notin> set (tl s) \<and> CHR '']'' \<notin> set rest
                 then Ok (tl opened, port) else Err err_hostport)
          else if CHR '':'' \<in> set before \<or> CHR ''['' \<in> set s \<or> CHR '']'' \<in> set s then Err err_hostport
          else Ok (before, port))"

lemma SplitHostPort_ne_Panic [simp]: "SplitHostPort s \<noteq> Panic"
  by (simp add: SplitHostPort_def split: option.splits prod.splits)

lemma prefix_Contains_self: "IsValid a \<Longrightarrow> Zone a = [] \<Longrightarrow> 0 \<le> b \<Longrightarrow> b \<le> int (BitLen a) \<Longrightarrow>
    prefix_Contains (PrefixFrom a b) a"
  by (cases a) (auto simp: prefix_Contains_def PrefixFrom_def)

lemma prefix_Contains_full:
  "pfx_bits p = int (BitLen (pfx_addr p)) \<Longrightarrow> Zone (pfx_addr p) = [] \<Longrightarrow> BitLen (pfx_addr p) \<noteq> 0 \<Longrightarrow>
    prefix_Contains p a \<longleftrightarrow> a = pfx_addr p"
  by (cases "pfx_addr p"; cases a) (auto simp: prefix_Contains_def word_unat_eq_iff)

section \<open>Sizes and validity\<close>

lemma length_dec: "n < 10 ^ Suc k \<Longrightarrow> length (dec n) \<le> Suc k"
proof (induction k arbitrary: n)
  case 0
  then show ?case by (simp add: dec.simps [of n])
next
  case (Suc k)
  then have "n div 10 < 10 ^ Suc k"
    by (simp add: less_mult_imp_div_less mult.commute)
  then show ?case
    using Suc.IH [of "n div 10"] by (simp add: dec.simps [of n])
qed

lemma length_join: "\<forall>x \<in> set xs. length x \<le> k \<Longrightarrow> length (join [c] xs) \<le> (k + 1) * length xs"
  by (induction xs rule: induct_list012) auto

lemma v6_u16_lt: "v6_u16 w i < 65536"
  by (simp add: v6_u16_def)

lemma length_join_hexn:
  assumes "\<forall>g \<in> set gs. g < 65536"
  shows "length (join '':'' (map hexn gs)) \<le> 5 * length gs"
proof -
  have "\<forall>x \<in> set (map hexn gs). length x \<le> 4"
    using assms length_hexn [of _ 3] by auto
  from length_join [OF this] show ?thesis by simp
qed

lemma length_string6: "length (string6_groups (groups w)) \<le> 82"
proof -
  have lt: "\<forall>g \<in> set (groups w). g < 65536"
    by (auto simp: groups_def v6_u16_lt)
  then have t: "length (join '':'' (map hexn (take s (groups w)))) \<le> 40"
    and d: "length (join '':'' (map hexn (drop e (groups w)))) \<le> 40" for s e
    using length_join_hexn [of "take s (groups w)"] length_join_hexn [of "drop e (groups w)"]
    by (force dest: in_set_takeD in_set_dropD)+
  show ?thesis
    using length_join_hexn [OF lt] add_mono [OF t [of "fst (zero_run (groups w))"] d [of "snd (zero_run (groups w))"]]
    by (cases "zero_run (groups w)") (simp add: string6_groups_def)
qed

lemma length_string4: "length (string4 w) \<le> 16"
proof -
  have "length (dec (v4_byte w i)) \<le> 3" for i
    using length_dec [of "v4_byte w i" 2] le_less_trans [OF v4_byte_le [of w i], of 1000] by simp
  then have "\<forall>x \<in> set (map (\<lambda>i. dec (v4_byte w i)) [0, 1, 2, 3]). length x \<le> 3"
    by simp
  from length_join [OF this] show ?thesis by (simp add: string4_def)
qed

lemma length_addrport_String: "plain_addr a \<Longrightarrow> length (addrport_String (AddrPort a p)) \<le> 256"
proof -
  assume "plain_addr a"
  moreover have "length (dec (unat p)) \<le> 5"
    using length_dec [of "unat p" 4] less_trans [OF unat_u16_lt [of p], of 100000] by simp
  moreover have "length (string4 x) + length (dec (unat p)) \<le> 255" for x
    using calculation(2) length_string4 [of x] by linarith
  moreover have "length (string6_groups (groups x)) + length (dec (unat p)) \<le> 253" for x
    using calculation(2) length_string6 [of x] by linarith
  ultimately show ?thesis
    by (cases a) (simp_all add: plain_addr_def)
qed

lemma parseIPv4_valid: "parseIPv4 s = Ok a \<Longrightarrow> Is4 a"
  by (auto simp: parseIPv4_def AddrFrom4_def)

lemma parseIPv6_valid: "parseIPv6 s = Ok a \<Longrightarrow> Is6 a"
  by (auto simp: parseIPv6_def Let_def split: if_splits option.splits prod.splits)

lemma ParseAddr_valid: "ParseAddr s = Ok a \<Longrightarrow> IsValid a"
proof -
  have "ParseAddr_scan s cs = Ok a \<Longrightarrow> IsValid a" for cs
    by (induction cs) (auto split: if_splits dest!: parseIPv4_valid parseIPv6_valid, (cases a, auto)+)
  then show "ParseAddr s = Ok a \<Longrightarrow> IsValid a" by (simp add: ParseAddr_def)
qed

lemma ParseAddrPort_valid: "ParseAddrPort s = Ok ap \<Longrightarrow> IsValid (ap_addr ap)"
  by (auto simp: ParseAddrPort_def split: if_splits dest: ParseAddr_valid)

lemma ParsePrefix_ne_Panic [simp]: "ParsePrefix s \<noteq> Panic"
  by (auto simp: ParsePrefix_def bind_res_eq_Panic split: option.splits prod.splits)

lemma ParsePrefix_wf:
  "ParsePrefix s = Ok p \<Longrightarrow> IsValid (pfx_addr p) \<and> Zone (pfx_addr p) = [] \<and> 0 \<le> pfx_bits p
     \<and> pfx_bits p \<le> int (BitLen (pfx_addr p))"
  by (auto simp: ParsePrefix_def PrefixFrom_def split: option.splits prod.splits if_splits dest!: ParseAddr_valid)
    (case_tac x; auto)+
end
