(* ===== verification/Crypto.thy ===== *)
theory Crypto
  imports Gostd
begin

text \<open>
  The three codecs and primitives of Go's library that the program calls: standard base64 with
  strict decoding (\<^verbatim>\<open>encoding/base64\<close>), SHA-1 (\<^verbatim>\<open>crypto/sha1\<close>) and the
  X25519 function (\<^verbatim>\<open>crypto/ecdh\<close>). They are executable, and base64 comes with the
  round trip that makes a textual key canonical.
\<close>

section \<open>Base64\<close>

definition b64_char :: "nat \<Rightarrow> char" where
  "b64_char i = char_of (if i < 26 then 65 + i else if i < 52 then 71 + i
     else if i < 62 then i - 4 else if i = 62 then 43 else 47)"

definition b64_val :: "char \<Rightarrow> nat option" where
  "b64_val c = (let n = of_char c :: nat in
     if 65 \<le> n \<and> n \<le> 90 then Some (n - 65) else if 97 \<le> n \<and> n \<le> 122 then Some (n - 71)
     else if 48 \<le> n \<and> n \<le> 57 then Some (n + 4) else if n = 43 then Some 62
     else if n = 47 then Some 63 else None)"

fun b64_encode :: "byte list \<Rightarrow> string" where
  "b64_encode [] = []"
| "b64_encode [a] =
     [b64_char (unat a div 4), b64_char (unat a mod 4 * 16), CHR ''='', CHR ''='']"
| "b64_encode [a, b] =
     [b64_char (unat a div 4), b64_char (unat a mod 4 * 16 + unat b div 16),
      b64_char (unat b mod 16 * 4), CHR ''='']"
| "b64_encode (a # b # c # bs) =
     [b64_char (unat a div 4), b64_char (unat a mod 4 * 16 + unat b div 16),
      b64_char (unat b mod 16 * 4 + unat c div 64), b64_char (unat c mod 64)] @ b64_encode bs"

definition err_b64 :: error where "err_b64 = ErrNew ''illegal base64 data''"

text \<open>Strict decoding of a text without line breaks: groups of four, padding only in the last
  group, and the unused bits before the padding zero.\<close>

fun b64_quads :: "string \<Rightarrow> byte list res" where
  "b64_quads [] = Ok []"
| "b64_quads (c1 # c2 # c3 # c4 # cs) =
     (case (b64_val c1, b64_val c2) of
        (Some v1, Some v2) \<Rightarrow>
          if c3 = CHR ''='' then
            if c4 = CHR ''='' \<and> cs = [] \<and> v2 mod 16 = 0 then Ok [word_of_nat (v1 * 4 + v2 div 16)]
            else Err err_b64
          else (case b64_val c3 of
            None \<Rightarrow> Err err_b64
          | Some v3 \<Rightarrow>
              if c4 = CHR ''='' then
                if cs = [] \<and> v3 mod 4 = 0
                then Ok [word_of_nat (v1 * 4 + v2 div 16), word_of_nat (v2 mod 16 * 16 + v3 div 4)]
                else Err err_b64
              else (case b64_val c4 of
                None \<Rightarrow> Err err_b64
              | Some v4 \<Rightarrow>
                  bind_res (b64_quads cs) (\<lambda>bs.
                    Ok (word_of_nat (v1 * 4 + v2 div 16) # word_of_nat (v2 mod 16 * 16 + v3 div 4)
                        # word_of_nat (v3 mod 4 * 64 + v4) # bs))))
      | _ \<Rightarrow> Err err_b64)"
| "b64_quads _ = Err err_b64"

text \<open>The decoder skips carriage returns and line feeds wherever they stand.\<close>

definition b64_decode :: "string \<Rightarrow> byte list res" where
  "b64_decode s = b64_quads (filter (\<lambda>c. c \<noteq> CHR 0x0D \<and> c \<noteq> CHR 0x0A) s)"

lemma b64_val_char [simp]: "i < 64 \<Longrightarrow> b64_val (b64_char i) = Some i"
  by (auto simp: b64_val_def b64_char_def Let_def)

lemma b64_char_plain:
  assumes "i < 64"
  shows "b64_char i \<noteq> CHR ''=''" "b64_char i \<noteq> CHR 0x0D" "b64_char i \<noteq> CHR 0x0A"
  using assms by (auto simp: b64_char_def intro!: char_neq_of_nat)

lemma byte_parts:
  "unat (a :: byte) div 4 < 64" "unat a mod 4 * 16 + unat (b :: byte) div 16 < 64"
  "unat b mod 16 * 4 + unat (c :: byte) div 64 < 64" "unat c mod 64 < 64"
  "unat a mod 4 * 16 < 64" "unat b mod 16 * 4 < 64"
  using unat_byte_lt [of a] unat_byte_lt [of b] unat_byte_lt [of c] by linarith+

lemma byte_small:
  "unat (b :: byte) div 16 div 16 = 0" "unat b div 16 mod 16 = unat b div 16"
  "unat b div 64 div 4 = 0" "unat b div 64 mod 4 = unat b div 64"
proof -
  have "unat b div 16 < 16" "unat b div 64 < 4"
    using unat_byte_lt [of b] by linarith+
  then show "unat b div 16 div 16 = 0" "unat b div 16 mod 16 = unat b div 16"
      "unat b div 64 div 4 = 0" "unat b div 64 mod 4 = unat b div 64"
    by simp_all
qed

lemma b64_quads_encode: "b64_quads (b64_encode bs) = Ok bs"
  by (induction bs rule: b64_encode.induct)
    (simp_all add: byte_parts b64_char_plain byte_small del: of_nat_add of_nat_mult)

lemma b64_encode_no_breaks: "c \<in> set (b64_encode bs) \<Longrightarrow> c \<noteq> CHR 0x0D \<and> c \<noteq> CHR 0x0A"
  by (induction bs rule: b64_encode.induct) (auto simp: byte_parts b64_char_plain)

lemma b64_decode_encode [simp]: "b64_decode (b64_encode bs) = Ok bs"
proof -
  have "filter (\<lambda>c. c \<noteq> CHR 0x0D \<and> c \<noteq> CHR 0x0A) (b64_encode bs) = b64_encode bs"
    using b64_encode_no_breaks by (auto simp: filter_id_conv)
  then show ?thesis
    by (simp add: b64_decode_def b64_quads_encode)
qed

lemma length_b64_encode: "length (b64_encode bs) = (length bs + 2) div 3 * 4"
proof (induction bs rule: b64_encode.induct)
  case (4 a b c bs)
  have "(5 + length bs) div 3 = Suc ((length bs + 2) div 3)" by presburger
  with 4 show ?case by simp
qed auto

lemma b64_quads_ne_Panic: "b64_quads s \<noteq> Panic"
  by (induction s rule: b64_quads.induct) (auto simp: bind_res_eq_Panic split: option.splits)

lemma b64_decode_ne_Panic [simp]: "b64_decode s \<noteq> Panic"
  by (simp add: b64_decode_def b64_quads_ne_Panic)

section \<open>SHA-1\<close>

definition sha1_pad :: "byte list \<Rightarrow> byte list" where
  "sha1_pad m = m @ [0x80] @ replicate ((119 - length m mod 64) mod 64) 0 @ to_be 8 (8 * length m)"

fun words32 :: "byte list \<Rightarrow> u32 list" where
  "words32 (a # b # c # d # bs) = word_of_nat (be_nat [a, b, c, d]) # words32 bs"
| "words32 _ = []"

fun sha1_schedule :: "nat \<Rightarrow> u32 list \<Rightarrow> u32 list" where
  "sha1_schedule 0 ws = ws"
| "sha1_schedule (Suc n) ws =
     (let l = length ws in
      sha1_schedule n (ws @ [word_rotl 1 (ws ! (l - 3) XOR ws ! (l - 8) XOR ws ! (l - 14) XOR ws ! (l - 16))]))"

definition sha1_f :: "nat \<Rightarrow> u32 \<Rightarrow> u32 \<Rightarrow> u32 \<Rightarrow> u32" where
  "sha1_f t b c d =
     (if t < 20 then (b AND c) OR (NOT b AND d)
      else if t < 40 \<or> 60 \<le> t then b XOR c XOR d
      else (b AND c) OR (b AND d) OR (c AND d))"

definition sha1_k :: "nat \<Rightarrow> u32" where
  "sha1_k t = (if t < 20 then 0x5A827999 else if t < 40 then 0x6ED9EBA1
     else if t < 60 then 0x8F1BBCDC else 0xCA62C1D6)"

type_synonym sha1_state = "u32 \<times> u32 \<times> u32 \<times> u32 \<times> u32"

fun sha1_rounds :: "nat \<Rightarrow> u32 list \<Rightarrow> sha1_state \<Rightarrow> sha1_state" where
  "sha1_rounds t [] s = s"
| "sha1_rounds t (w # ws) (a, b, c, d, e) =
     sha1_rounds (Suc t) ws (word_rotl 5 a + sha1_f t b c d + e + sha1_k t + w, a, word_rotl 30 b, c, d)"

fun sha1_blocks :: "nat \<Rightarrow> u32 list \<Rightarrow> sha1_state \<Rightarrow> sha1_state" where
  "sha1_blocks 0 ws s = s"
| "sha1_blocks (Suc n) ws s =
     (case s of (a, b, c, d, e) \<Rightarrow>
      case sha1_rounds 0 (sha1_schedule 64 (take 16 ws)) s of
        (a', b', c', d', e') \<Rightarrow> sha1_blocks n (drop 16 ws) (a + a', b + b', c + c', d + d', e + e'))"

definition sha1_Sum :: "byte list \<Rightarrow> byte list" where
  "sha1_Sum m =
     (let p = sha1_pad m in
      case sha1_blocks (length p div 64) (words32 p)
        (0x67452301, 0xEFCDAB89, 0x98BADCFE, 0x10325476, 0xC3D2E1F0) of
        (a, b, c, d, e) \<Rightarrow> concat (map (\<lambda>w. to_be 4 (unat w)) [a, b, c, d, e]))"

lemma length_sha1_Sum [simp]: "length (sha1_Sum m) = 20"
  by (simp add: sha1_Sum_def Let_def split: prod.splits)

section \<open>X25519\<close>

text \<open>The function of the standard: clamp the scalar, drop the top bit of the point, and run the
  Montgomery ladder over the field of size \<open>2\<^sup>2\<^sup>5\<^sup>5 - 19\<close>. A division by zero in the last step
  yields zero, as exponentiation by \<open>p - 2\<close> does.\<close>

definition p25519 :: int where "p25519 = 2 ^ 255 - 19"

fun le_int :: "byte list \<Rightarrow> int" where
  "le_int [] = 0"
| "le_int (b # bs) = uint b + 256 * le_int bs"

fun to_le :: "nat \<Rightarrow> int \<Rightarrow> byte list" where
  "to_le 0 n = []"
| "to_le (Suc k) n = word_of_int n # to_le k (n div 256)"

definition clamp :: "int \<Rightarrow> int" where
  "clamp k = k div 8 * 8 mod 2 ^ 254 + 2 ^ 254"

text \<open>One ladder step on \<open>(x\<^sub>2, z\<^sub>2, x\<^sub>3, z\<^sub>3)\<close> for a key bit.\<close>

type_synonym ladder_state = "int \<times> int \<times> int \<times> int"

definition cswap :: "bool \<Rightarrow> ladder_state \<Rightarrow> ladder_state" where
  "cswap b s = (if b then (case s of (x2, z2, x3, z3) \<Rightarrow> (x3, z3, x2, z2)) else s)"

definition ladder_step :: "int \<Rightarrow> ladder_state \<Rightarrow> ladder_state" where
  "ladder_step x1 s =
     (case s of (x2, z2, x3, z3) \<Rightarrow>
        let a = x2 + z2; aa = a * a mod p25519; b = x2 - z2; bb = b * b mod p25519;
            e = aa - bb; c = x3 + z3; d = x3 - z3;
            da = d * a mod p25519; cb = c * b mod p25519
        in (aa * bb mod p25519, e * (aa + 121665 * e) mod p25519,
            (da + cb) * (da + cb) mod p25519,
            x1 * ((da - cb) * (da - cb) mod p25519) mod p25519))"

fun ladder :: "nat \<Rightarrow> int \<Rightarrow> int \<Rightarrow> ladder_state \<Rightarrow> ladder_state" where
  "ladder 0 k x1 s = s"
| "ladder (Suc t) k x1 s =
     (let b = (k div 2 ^ t mod 2 = 1) in ladder t k x1 (cswap b (ladder_step x1 (cswap b s))))"

fun pow_mod :: "nat \<Rightarrow> int \<Rightarrow> int \<Rightarrow> int" where
  "pow_mod 0 b e = 1"
| "pow_mod (Suc t) b e =
     (let r = pow_mod t (b * b mod p25519) (e div 2) in if e mod 2 = 1 then b * r mod p25519 else r)"

definition x25519 :: "byte list \<Rightarrow> byte list \<Rightarrow> byte list" where
  "x25519 scalar u =
     (let x1 = le_int u mod 2 ^ 255 mod p25519;
          (x2, z2, x3, z3) = ladder 255 (clamp (le_int scalar)) x1 (1, 0, x1, 1)
      in to_le 32 (x2 * pow_mod 255 z2 (p25519 - 2) mod p25519))"

text \<open>\<^verbatim>\<open>PrivateKey.ECDH\<close> fails when the shared secret is all zero.\<close>

definition ECDH :: "byte list \<Rightarrow> byte list \<Rightarrow> byte list res" where
  "ECDH scalar u =
     (let r = x25519 scalar u in
      if \<forall>b \<in> set r. b = 0 then Err (ErrNew ''crypto/ecdh: bad X25519 remote ECDH input: low order point'') else Ok r)"

lemma ECDH_ne_Panic [simp]: "ECDH scalar u \<noteq> Panic"
  by (simp add: ECDH_def Let_def)

end
