(* ===== verification/Validation.thy ===== *)
theory Validation
  imports Netip Crypto
begin

text \<open>
  The input boundary (\<^verbatim>\<open>internal/validation/validation.go\<close>): keys, public keys,
  endpoints, prefixes, service routes and STUN server names. The theorems say what an accepted
  value is guaranteed to be, that accepted values survive printing, that a key has exactly one
  accepted spelling, and that the route bounds really rule out a catch-all.
\<close>

section \<open>Operations\<close>

definition MaxConfigBytes :: nat where "MaxConfigBytes = 256 * 1024"
definition MaxPeers :: nat where "MaxPeers = 32"
definition MaxStores :: nat where "MaxStores = 8"
definition MaxRoutes :: nat where "MaxRoutes = 64"
definition MaxServers :: nat where "MaxServers = 8"

definition Key :: "string \<Rightarrow> byte list res" where
  "Key text =
     (if length text \<noteq> 44 then Err (ErrNew ''key must be canonical base64 for 32 bytes'')
      else bind_res (replace_err (b64_decode text) (ErrNew ''invalid key encoding'')) (\<lambda>b.
        if length b \<noteq> 32 \<or> b64_encode b \<noteq> text then Err (ErrNew ''invalid key encoding'') else Ok b))"

text \<open>The probe scalar is the byte 42 followed by zeros.\<close>

definition PublicKey :: "string \<Rightarrow> byte list res" where
  "PublicKey text =
     bind_res (Key text) (\<lambda>k.
     if length k \<noteq> 32 then Err (ErrNew ''invalid public key'')
     else bind_res (replace_err (ECDH (42 # replicate 31 0) k) (ErrNew ''low-order public key'')) (\<lambda>_. Ok k))"

definition Endpoint :: "string \<Rightarrow> addrport res" where
  "Endpoint text =
     (if 256 < length text then Err (ErrNew ''endpoint too long'')
      else bind_res (replace_err (ParseAddrPort text) (ErrNew ''invalid numeric endpoint'')) (\<lambda>ep.
        if ap_port ep = 0 \<or> Zone (ap_addr ep) \<noteq> [] \<or> IsUnspecified (ap_addr ep)
           \<or> IsMulticast (ap_addr ep) \<or> IsLinkLocalUnicast (ap_addr ep)
        then Err (ErrNew ''invalid numeric endpoint'')
        else Ok (AddrPort (Unmap (ap_addr ep)) (ap_port ep))))"

definition HostPort :: "string \<Rightarrow> int \<Rightarrow> addrport res" where
  "HostPort host port =
     (if port < 1 \<or> 65535 < port
      then Err (ErrNew (''endpoint port outside 1'' @ [CHR 0xE2, CHR 0x80, CHR 0x93] @ ''65535''))
      else Endpoint (JoinHostPort host (Itoa port)))"

definition Prefix_v :: "string \<Rightarrow> prefix res" where
  "Prefix_v text =
     (if 64 < length text then Err (ErrNew ''prefix too long'')
      else bind_res (replace_err (ParsePrefix text) (ErrNew ''invalid prefix'')) (\<lambda>p.
        if Is4In6 (pfx_addr p) \<or> IsMulticast (pfx_addr p) \<or> IsUnspecified (pfx_addr p)
           \<or> IsLoopback (pfx_addr p) \<or> IsLinkLocalUnicast (pfx_addr p)
        then Err (ErrNew ''invalid prefix'') else Ok p))"

definition ServiceRoute :: "string \<Rightarrow> prefix res" where
  "ServiceRoute text =
     bind_res (Prefix_v text) (\<lambda>p.
     let minBits = (if Is4 (pfx_addr p) then 24 else 64) in
     if pfx_bits p < minBits
     then Err (ErrNew ''service route must be /24 or narrower for IPv4, /64 for IPv6'')
     else Ok (prefix_Masked p))"

definition Server :: "string \<Rightarrow> unit res" where
  "Server text =
     (if 256 < length text \<or> ContainsAny text [CHR 0x0D, CHR 0x0A, CHR 0x09, CHR '' '', CHR ''/'', CHR ''?'', CHR ''#'', CHR ''@'']
      then Err (ErrNew ''invalid STUN server'')
      else bind_res (replace_err (SplitHostPort text) (ErrNew ''invalid STUN server address/port'')) (\<lambda>(host, port).
        bind_res (replace_err (Atoi port) (ErrNew ''invalid STUN server address/port'')) (\<lambda>p.
        if host = [] \<or> p < 1 \<or> 65535 < p
        then Err (ErrNew ''invalid STUN server address/port'') else Ok ())))"

section \<open>Keys\<close>

lemma Key_ne_Panic [simp]: "Key text \<noteq> Panic"
  by (simp add: Key_def bind_res_eq_Panic)

text \<open>A key has exactly one accepted spelling: \<^verbatim>\<open>Key\<close> accepts a text as the key
  \<open>k\<close> if and only if \<open>k\<close> has 32 bytes and the text is its base64 encoding. So two accepted texts
  denote the same key only when they are equal, and every key can be written down.\<close>

theorem Key_canonical: "Key text = Ok k \<longleftrightarrow> length k = 32 \<and> text = b64_encode k"
proof
  assume "length k = 32 \<and> text = b64_encode k"
  then show "Key text = Ok k"
    by (simp add: Key_def length_b64_encode)
qed (auto simp: Key_def split: if_splits res.splits)

section \<open>Endpoints\<close>

lemma Endpoint_ne_Panic [simp]: "Endpoint text \<noteq> Panic"
  by (simp add: Endpoint_def bind_res_eq_Panic)

lemma HostPort_ne_Panic [simp]: "HostPort h p \<noteq> Panic"
  by (simp add: HostPort_def)

lemma Endpoint_eq_Ok:
  "Endpoint text = Ok ep \<longleftrightarrow> length text \<le> 256 \<and> (\<exists>a. ParseAddrPort text = Ok (AddrPort a (ap_port ep))
     \<and> ap_port ep \<noteq> 0 \<and> Zone a = [] \<and> \<not> IsUnspecified a \<and> \<not> IsMulticast a \<and> \<not> IsLinkLocalUnicast a
     \<and> ap_addr ep = Unmap a)"
  by (cases ep) (auto simp: Endpoint_def split: res.splits if_splits; force)

lemma class_Unmap [simp]:
  "IsMulticast (Unmap a) = IsMulticast a" "IsLinkLocalUnicast (Unmap a) = IsLinkLocalUnicast a"
  "IsLoopback (Unmap a) = IsLoopback a" "IsPrivate (Unmap a) = IsPrivate a"
  by (simp_all add: IsMulticast_def IsLinkLocalUnicast_def IsLoopback_def IsPrivate_def)

lemma Endpoint_plain: "Endpoint text = Ok ep \<Longrightarrow> plain_addr (ap_addr ep)"
  by (auto simp: Endpoint_eq_Ok intro!: plain_addr_Unmap dest: ParseAddrPort_valid)

lemma Unmap_unspecified: "\<not> IsUnspecified a \<Longrightarrow> Unmap a \<noteq> V6 0 []"
  by (cases a) (auto simp: IsUnspecified_def)

text \<open>An accepted endpoint is numeric and directly usable: a valid address without zone and not in
  the 4-in-6 form, neither multicast nor link-local nor \<^verbatim>\<open>::\<close>, with a port that is not zero.
  Printing it gives a text that is accepted again as the same endpoint, with one exception: the
  unspecified IPv4 address, which the check admits in its 4-in-6 spelling and refuses in its own.\<close>

theorem Endpoint_sound:
  assumes "Endpoint text = Ok ep"
  shows "plain_addr (ap_addr ep) \<and> ap_port ep \<noteq> 0 \<and> \<not> IsMulticast (ap_addr ep)
      \<and> \<not> IsLinkLocalUnicast (ap_addr ep) \<and> ap_addr ep \<noteq> V6 0 []
      \<and> Endpoint (addrport_String ep) =
          (if ap_addr ep = V4 0 then Err (ErrNew ''invalid numeric endpoint'') else Ok ep)"
proof -
  have pl: "plain_addr (ap_addr ep)"
    using assms by (rule Endpoint_plain)
  have n6: "ap_addr ep \<noteq> V6 0 []"
    using assms Unmap_unspecified by (metis Endpoint_eq_Ok)
  have u: "IsUnspecified (ap_addr ep) \<longleftrightarrow> ap_addr ep = V4 0"
    using n6 by (simp add: IsUnspecified_def)
  have z: "Zone (ap_addr ep) = []" "Unmap (ap_addr ep) = ap_addr ep"
    using pl by (auto simp: plain_addr_def)
  have c: "ap_port ep \<noteq> 0" "\<not> IsMulticast (ap_addr ep)" "\<not> IsLinkLocalUnicast (ap_addr ep)"
    using assms by (auto simp: Endpoint_eq_Ok)
  have "Endpoint (addrport_String ep) =
      (if ap_addr ep = V4 0 then Err (ErrNew ''invalid numeric endpoint'') else Ok ep)"
    using c z u ParseAddrPort_addrport_String [OF pl, of "ap_port ep"] length_addrport_String [OF pl, of "ap_port ep"]
    by (simp add: Endpoint_def)
  with pl n6 c show ?thesis by blast
qed

theorem Endpoint_sound_witness:
  "Endpoint ''[2001:db8::1]:51820'' = Ok (AddrPort (V6 0x20010db8000000000000000000000001 []) 51820)
    \<and> Endpoint (addrport_String (AddrPort (V6 0x20010db8000000000000000000000001 []) 51820))
        = Ok (AddrPort (V6 0x20010db8000000000000000000000001 []) 51820)"
proof -
  have e: "Endpoint ''[2001:db8::1]:51820'' = Ok (AddrPort (V6 0x20010db8000000000000000000000001 []) 51820)"
    by code_simp
  from Endpoint_sound [OF e] e show ?thesis by simp
qed

text \<open>The exception is real: the text of the 4-in-6 unspecified address passes the check, and the
  endpoint it yields is the unspecified IPv4 address, whose own text is refused.\<close>

theorem Endpoint_admits_unspecified:
  "Endpoint ''[::ffff:0.0.0.0]:80'' = Ok (AddrPort (V4 0) 80)
    \<and> addrport_String (AddrPort (V4 0) 80) = ''0.0.0.0:80''
    \<and> Endpoint ''0.0.0.0:80'' = Err (ErrNew ''invalid numeric endpoint'')"
proof (intro conjI)
  show "Endpoint ''[::ffff:0.0.0.0]:80'' = Ok (AddrPort (V4 0) 80)" by code_simp
  show "addrport_String (AddrPort (V4 0) 80) = ''0.0.0.0:80''" by code_simp
  show "Endpoint ''0.0.0.0:80'' = Err (ErrNew ''invalid numeric endpoint'')" by code_simp
qed

text \<open>An address and a port held apart go through the same door: joining them and parsing the
  result gives the pair back.\<close>

lemma HostPort_addr_String:
  assumes "plain_addr a" "\<not> IsUnspecified a" "\<not> IsMulticast a" "\<not> IsLinkLocalUnicast a"
    and "0 < unat p"
  shows "HostPort (addr_String a) (int (unat p)) = Ok (AddrPort a p)"
proof -
  have "JoinHostPort (addr_String a) (Itoa (int (unat p))) = addrport_String (AddrPort a p)"
    using addrport_String_JoinHostPort [OF assms(1), of p] by (simp add: Itoa_def)
  moreover have "int (unat p) \<le> 65535" "1 \<le> int (unat p)"
    using unat_u16_lt [of p] assms(5) by linarith+
  moreover have "Endpoint (addrport_String (AddrPort a p)) = Ok (AddrPort a p)"
    using assms ParseAddrPort_addrport_String [OF assms(1), of p] length_addrport_String [OF assms(1), of p]
    by (auto simp: Endpoint_eq_Ok plain_addr_def)
  ultimately show ?thesis
    by (simp add: HostPort_def)
qed

section \<open>Routes\<close>

lemma Prefix_v_ne_Panic [simp]: "Prefix_v text \<noteq> Panic"
  by (simp add: Prefix_v_def bind_res_eq_Panic)

lemma Prefix_v_wf:
  "Prefix_v text = Ok p \<Longrightarrow> IsValid (pfx_addr p) \<and> Zone (pfx_addr p) = [] \<and> \<not> Is4In6 (pfx_addr p)
     \<and> 0 \<le> pfx_bits p \<and> pfx_bits p \<le> int (BitLen (pfx_addr p))"
  by (auto simp: Prefix_v_def split: res.splits if_splits dest!: ParsePrefix_wf)

lemma BitLen_mask [simp]: "BitLen (mask_addr a b) = BitLen a"
  by (cases a) auto

lemma Is4_iff_BitLen: "Is4 a \<longleftrightarrow> BitLen a = 32"
  by (cases a) auto

text \<open>What an accepted service route guarantees of its size.\<close>

lemma ServiceRoute_bits:
  assumes "ServiceRoute text = Ok p"
  shows "BitLen (pfx_addr p) = 32 \<and> 24 \<le> pfx_bits p \<or> BitLen (pfx_addr p) = 128 \<and> 64 \<le> pfx_bits p"
    and "pfx_bits p \<le> int (BitLen (pfx_addr p))"
proof -
  obtain q where q: "Prefix_v text = Ok q" "p = prefix_Masked q"
      "(if Is4 (pfx_addr q) then 24 else 64) \<le> pfx_bits q"
    using assms by (auto simp: ServiceRoute_def Let_def split: if_splits)
  have "BitLen (pfx_addr q) = 32 \<or> BitLen (pfx_addr q) = 128"
    using Prefix_v_wf [OF q(1)] by (cases "pfx_addr q") auto
  then show "BitLen (pfx_addr p) = 32 \<and> 24 \<le> pfx_bits p \<or> BitLen (pfx_addr p) = 128 \<and> 64 \<le> pfx_bits p"
    "pfx_bits p \<le> int (BitLen (pfx_addr p))"
    using q Prefix_v_wf [OF q(1)] by (auto simp: prefix_Masked_def Is4_iff_BitLen)
qed

lemma div_eq_interval: "{n::nat. n div 2 ^ k = c} = {c * 2 ^ k..<c * 2 ^ k + 2 ^ k}"
proof (rule set_eqI)
  fix n :: nat
  show "n \<in> {n. n div 2 ^ k = c} \<longleftrightarrow> n \<in> {c * 2 ^ k..<c * 2 ^ k + 2 ^ k}"
  proof
    assume "n \<in> {n. n div 2 ^ k = c}"
    then have "n = c * 2 ^ k + n mod 2 ^ k"
      using div_mult_mod_eq [of n "2 ^ k"] by simp
    moreover have "n mod 2 ^ k < 2 ^ k" by simp
    ultimately show "n \<in> {c * 2 ^ k..<c * 2 ^ k + 2 ^ k}"
      unfolding atLeastLessThan_iff by linarith
  next
    assume "n \<in> {c * 2 ^ k..<c * 2 ^ k + 2 ^ k}"
    then show "n \<in> {n. n div 2 ^ k = c}"
      by (auto intro!: div_nat_eqI simp: mult.commute)
  qed
qed

lemma card_word_div: "card {w :: 'a::len word. unat w div 2 ^ k = c} \<le> 2 ^ k"
proof -
  have inj: "inj_on unat {w :: 'a word. unat w div 2 ^ k = c}"
    by (rule inj_onI) (metis word_unat_eq_iff)
  have "unat ` {w :: 'a word. unat w div 2 ^ k = c} \<subseteq> {n. n div 2 ^ k = c}"
    by blast
  then have "card (unat ` {w :: 'a word. unat w div 2 ^ k = c}) \<le> card {c * 2 ^ k..<c * 2 ^ k + 2 ^ k}"
    unfolding div_eq_interval by (intro card_mono) simp_all
  then show ?thesis
    using card_image [OF inj] by simp
qed

text \<open>A prefix holds at most \<open>2\<close> to the number of its free bits addresses.\<close>

lemma card_prefix_4: "24 \<le> pfx_bits p \<Longrightarrow> pfx_bits p \<le> 32 \<Longrightarrow> card {w. prefix_Contains p (V4 w)} \<le> 256"
proof -
  assume b: "24 \<le> pfx_bits p" "pfx_bits p \<le> 32"
  have "{w. prefix_Contains p (V4 w)} \<subseteq>
      {w. unat w div 2 ^ (32 - nat (pfx_bits p)) = addr_nat (pfx_addr p) div 2 ^ (32 - nat (pfx_bits p))}"
    by (auto simp: prefix_Contains_def)
  then have "card {w. prefix_Contains p (V4 w)} \<le> 2 ^ (32 - nat (pfx_bits p))"
    using le_trans [OF card_mono [OF finite] card_word_div] by blast
  also have "\<dots> \<le> 2 ^ 8"
    using b by (intro power_increasing) auto
  finally show ?thesis by simp
qed

lemma card_prefix_6: "64 \<le> pfx_bits p \<Longrightarrow> card {w. prefix_Contains p (V6 w [])} \<le> 2 ^ 64"
proof -
  assume b: "64 \<le> pfx_bits p"
  have "{w. prefix_Contains p (V6 w [])} \<subseteq>
      {w. unat w div 2 ^ (128 - nat (pfx_bits p)) = addr_nat (pfx_addr p) div 2 ^ (128 - nat (pfx_bits p))}"
    by (auto simp: prefix_Contains_def)
  then have "card {w. prefix_Contains p (V6 w [])} \<le> 2 ^ (128 - nat (pfx_bits p))"
    using le_trans [OF card_mono [OF finite] card_word_div] by blast
  also have "\<dots> \<le> 2 ^ 64"
    using b by (intro power_increasing) auto
  finally show ?thesis by simp
qed

lemma card_ServiceRoute:
  assumes "ServiceRoute t = Ok p"
  shows "card {w. prefix_Contains p (V4 w)} \<le> 256 \<and> card {w. prefix_Contains p (V6 w [])} \<le> 2 ^ 64"
proof (cases "BitLen (pfx_addr p) = 32")
  case True
  then have "{w. prefix_Contains p (V6 w [])} = {}"
    by (auto simp: prefix_Contains_def)
  with True show ?thesis
    using ServiceRoute_bits [OF assms] card_prefix_4 [of p] by simp
next
  case False
  then have "{w. prefix_Contains p (V4 w)} = {}"
    by (auto simp: prefix_Contains_def)
  with False show ?thesis
    using ServiceRoute_bits [OF assms] card_prefix_6 [of p] by simp
qed

lemma card_UN_bound: "finite A \<Longrightarrow> (\<And>a. a \<in> A \<Longrightarrow> card (f a) \<le> n) \<Longrightarrow> card (\<Union>a \<in> A. f a) \<le> card A * n"
  using card_UN_le [of A f] sum_bounded_above [of A "\<lambda>a. card (f a)" n] by simp

lemma not_UNIV_card: "card A < card (UNIV :: 'a set) \<Longrightarrow> \<exists>w. w \<notin> A" for A :: "'a set"
  by (metis UNIV_eq_I less_irrefl)

lemma words_beyond:
  "card A \<le> 2 ^ 19 \<Longrightarrow> \<exists>w. w \<notin> A" for A :: "u32 set"
  by (rule not_UNIV_card) (simp add: card_word)

lemma words_beyond_6:
  "card A \<le> 2 ^ 75 \<Longrightarrow> \<exists>w. w \<notin> A" for A :: "128 word set"
  by (rule not_UNIV_card) (simp add: card_word)

text \<open>The size bounds on service routes do what their comment promises: with at most 64 routes
  for each of at most 32 peers, the accepted routes together cover at most \<open>2\<^sup>1\<^sup>9\<close> of the \<open>2\<^sup>3\<^sup>2\<close> IPv4
  addresses and \<open>2\<^sup>7\<^sup>5\<close> of the \<open>2\<^sup>1\<^sup>2\<^sup>8\<close> IPv6 ones, so no combination of them is a default route.\<close>

theorem service_routes_not_catch_all:
  assumes "list_all2 (\<lambda>t p. ServiceRoute t = Ok p) ts ps" "length ts \<le> MaxRoutes * MaxPeers"
  shows "card {w. \<exists>p \<in> set ps. prefix_Contains p (V4 w)} \<le> 2 ^ 19
    \<and> card {w. \<exists>p \<in> set ps. prefix_Contains p (V6 w [])} \<le> 2 ^ 75
    \<and> (\<exists>w. \<forall>p \<in> set ps. \<not> prefix_Contains p (V4 w))
    \<and> (\<exists>w. \<forall>p \<in> set ps. \<not> prefix_Contains p (V6 w []))"
proof -
  have "\<exists>t. ServiceRoute t = Ok p" if "p \<in> set ps" for p
    using assms(1) that by (auto simp: list_all2_conv_all_nth in_set_conv_nth)
  then have c: "card {w. prefix_Contains p (V4 w)} \<le> 256" "card {w. prefix_Contains p (V6 w [])} \<le> 2 ^ 64"
    if "p \<in> set ps" for p
    using card_ServiceRoute that by auto
  have k: "card (set ps) \<le> 2048"
    using card_length [of ps] assms list_all2_lengthD [OF assms(1)] by (simp add: MaxRoutes_def MaxPeers_def)
  have n4: "card (\<Union>p \<in> set ps. {w. prefix_Contains p (V4 w)}) \<le> 2 ^ 19"
    using order_trans [OF card_UN_bound [OF finite_set c(1)] mult_le_mono1 [OF k]] by simp
  have n6: "card (\<Union>p \<in> set ps. {w. prefix_Contains p (V6 w [])}) \<le> 2 ^ 75"
    using order_trans [OF card_UN_bound [OF finite_set c(2)] mult_le_mono1 [OF k]] by simp
  have e: "{w. \<exists>p \<in> set ps. prefix_Contains p (f w)} = (\<Union>p \<in> set ps. {w. prefix_Contains p (f w)})" for f :: "'b word \<Rightarrow> addr"
    by blast
  show ?thesis
    using n4 n6 words_beyond [OF n4] words_beyond_6 [OF n6] by (simp add: e)
qed

theorem service_routes_not_catch_all_witness:
  "card {w. \<exists>p \<in> set [PrefixFrom (V4 0xC0A80A00) 24, PrefixFrom (V6 0xfd000000000000000000000000000000 []) 64].
      prefix_Contains p (V4 w)} \<le> 2 ^ 19"
  by (rule service_routes_not_catch_all [of "[''192.168.10.7/24'', ''fd00::1/64'']", THEN conjunct1]) code_simp+

end
