(* ===== verification/Discovery.thy ===== *)
theory Discovery
  imports Validation
begin

text \<open>
  Endpoint hints (\<^verbatim>\<open>internal/discovery\<close>): the public record and its validation, the policy
  that decides which hint may be used, the choice of an address family, the discovery of the local
  endpoints, and the bounded selection state that decides when a working endpoint is kept and which
  candidate is tried next. JSON encoding of a record is not part of this theory.
\<close>

section \<open>Records and policy (record.go)\<close>

definition Namespace :: string where "Namespace = ''stunmesh-hints-v2''"
definition MaxRecordBytes :: nat where "MaxRecordBytes = 1024"

record Record =
  Version :: int
  IPv4 :: string
  IPv6 :: string

record LocalStatus =
  ls_IPv4 :: string
  ls_IPv6 :: string
  DiscoveredAt :: time

text \<open>The loop of \<^verbatim>\<open>validate\<close> ranges over a map from the family to its text; \<open>order\<close> is the
  order of that iteration, one of \<open>[4, 6]\<close> and \<open>[6, 4]\<close>.\<close>

definition family_text :: "Record \<Rightarrow> nat \<Rightarrow> string option" where
  "family_text r = [4 \<mapsto> IPv4 r, 6 \<mapsto> IPv6 r]"

definition family_ok :: "nat \<Rightarrow> string \<Rightarrow> bool" where
  "family_ok family raw =
     (case Endpoint raw of
        Ok ep \<Rightarrow> \<not> (IsLoopback (ap_addr ep) \<or> \<not> IsGlobalUnicast (ap_addr ep)
                   \<or> Is4 (ap_addr ep) \<noteq> (family = 4))
      | _ \<Rightarrow> False)"

fun validate_loop :: "Record \<Rightarrow> nat list \<Rightarrow> unit res" where
  "validate_loop r [] = Ok ()"
| "validate_loop r (f # fs) =
     (case family_text r f of
        None \<Rightarrow> validate_loop r fs
      | Some raw \<Rightarrow>
          if raw = [] then validate_loop r fs
          else if \<not> family_ok f raw then Err (ErrNew ''invalid discovery endpoint'')
          else validate_loop r fs)"

definition validate :: "nat list \<Rightarrow> Record \<Rightarrow> unit res" where
  "validate order r =
     (if Version r \<noteq> 2 \<or> IPv4 r = [] \<and> IPv6 r = []
      then Err (ErrNew ''unsupported or empty discovery record'')
      else validate_loop r order)"

definition cgnat :: prefix where
  "cgnat = PrefixFrom (V4 0x64400000) 10"

definition Allowed :: "string \<Rightarrow> prefix list \<Rightarrow> bool" where
  "Allowed endpoint localLAN =
     (case Endpoint endpoint of
        Ok ep \<Rightarrow>
          if IsLoopback (ap_addr ep) \<or> \<not> IsGlobalUnicast (ap_addr ep) then False
          else if \<not> IsPrivate (ap_addr ep) \<and> \<not> prefix_Contains cgnat (ap_addr ep) then True
          else list_ex (\<lambda>p. prefix_Contains p (ap_addr ep)) localLAN
      | _ \<Rightarrow> False)"

section \<open>Choosing a family (endpoint\_select.go)\<close>

definition usable :: "LocalStatus option \<Rightarrow> string \<Rightarrow> (LocalStatus \<Rightarrow> bool) \<Rightarrow> bool" where
  "usable local candidate localHas =
     (if candidate = [] then False
      else case local of None \<Rightarrow> True | Some s \<Rightarrow> localHas s)"

definition SelectEndpoint :: "Record \<Rightarrow> string \<Rightarrow> LocalStatus option \<Rightarrow> string res" where
  "SelectEndpoint data protocol local =
     (let hasIPv4 = (\<lambda>s. ls_IPv4 s \<noteq> []); hasIPv6 = (\<lambda>s. ls_IPv6 s \<noteq> []) in
      if protocol = [] \<or> protocol = ''ipv4'' then
        if IPv4 data = [] then Err (ErrNew ''no ipv4 endpoint in record'') else Ok (IPv4 data)
      else if protocol = ''ipv6'' then
        if IPv6 data = [] then Err (ErrNew ''no ipv6 endpoint in record'') else Ok (IPv6 data)
      else if protocol = ''prefer_ipv4'' then
        if IPv4 data = [] \<and> IPv6 data = [] then Err (ErrNew ''record has no endpoints'')
        else if usable local (IPv4 data) hasIPv4 then Ok (IPv4 data)
        else if usable local (IPv6 data) hasIPv6 then Ok (IPv6 data)
        else Err (ErrNew ''no endpoint reachable from the local address families'')
      else if protocol = ''prefer_ipv6'' then
        if IPv4 data = [] \<and> IPv6 data = [] then Err (ErrNew ''record has no endpoints'')
        else if usable local (IPv6 data) hasIPv6 then Ok (IPv6 data)
        else if usable local (IPv4 data) hasIPv4 then Ok (IPv4 data)
        else Err (ErrNew ''no endpoint reachable from the local address families'')
      else Err (ErrNew (''unknown peer protocol '' @ quoted protocol)))"

section \<open>Discovering the local endpoints (discover.go)\<close>

text \<open>A resolver returns a text and possibly an error; the calls that the function makes on its
  callbacks are recorded in order.\<close>

type_synonym family_result = "string \<times> error option"

datatype discover_call = ResolveIPv4 | ResolveIPv6 | Warn string error

definition warn_call :: "bool \<Rightarrow> string \<Rightarrow> error option \<Rightarrow> discover_call list" where
  "warn_call warn family e = (case e of Some x \<Rightarrow> if warn then [Warn family x] else [] | None \<Rightarrow> [])"

definition DiscoverEndpoints ::
  "string \<Rightarrow> bool \<Rightarrow> family_result \<Rightarrow> family_result \<Rightarrow> discover_call list \<times> (string \<times> string) res" where
  "DiscoverEndpoints protocol warn resolveIPv4 resolveIPv6 =
     (if protocol \<notin> {''ipv4'', ''ipv6'', ''dualstack''}
      then ([], Err (ErrNew (''unknown protocol: '' @ protocol)))
      else
        let wantIPv4 = (protocol = ''ipv4'' \<or> protocol = ''dualstack'');
            wantIPv6 = (protocol = ''ipv6'' \<or> protocol = ''dualstack'');
            (ipv4Endpoint, ipv4Err) = (if wantIPv4 then resolveIPv4 else ([], None));
            (ipv6Endpoint, ipv6Err) = (if wantIPv6 then resolveIPv6 else ([], None));
            calls = (if wantIPv4 then [ResolveIPv4] else []) @ (if wantIPv6 then [ResolveIPv6] else [])
        in if protocol = ''ipv4'' then
             (calls, case ipv4Err of Some e \<Rightarrow> Err e | None \<Rightarrow> Ok (ipv4Endpoint, ipv6Endpoint))
           else if protocol = ''ipv6'' then
             (calls, case ipv6Err of Some e \<Rightarrow> Err e | None \<Rightarrow> Ok (ipv4Endpoint, ipv6Endpoint))
           else
             (calls @ warn_call warn ''ipv4'' ipv4Err @ warn_call warn ''ipv6'' ipv6Err,
              if ipv4Endpoint = [] \<and> ipv6Endpoint = []
              then Err (ErrNew ''both IPv4 and IPv6 STUN discovery failed'')
              else Ok (ipv4Endpoint, ipv6Endpoint)))"

section \<open>Selection state (selection.go)\<close>

record Health =
  h_Endpoint :: string
  Handshake :: time
  Received :: u64

record Selection =
  received :: u64
  handshake :: time
  observed :: bool
  sel_next :: u64

definition NewSelection :: Selection where
  "NewSelection = \<lparr>received = 0, handshake = time_zero, observed = False, sel_next = 0\<rparr>"

definition Working :: "Selection \<Rightarrow> Health \<Rightarrow> time \<Rightarrow> bool \<times> Selection" where
  "Working s h now =
     (let fresh = (Handshake h \<noteq> time_zero \<and> \<not> now < Handshake h
                   \<and> time_Sub now (Handshake h) < 5 * minute);
          handshook = (fresh \<and> (\<not> observed s \<or> handshake s < Handshake h));
          advanced = (observed s \<and> received s < Received h)
      in (h_Endpoint h \<noteq> [] \<and> Handshake h \<noteq> time_zero \<and> \<not> now < Handshake h
            \<and> (handshook \<or> advanced),
          s\<lparr>received := Received h, handshake := Handshake h, observed := True\<rparr>))"

text \<open>\<^verbatim>\<open>Next\<close> looks at the first four candidates only; the counter wraps at 64 bits.\<close>

definition Next :: "Selection \<Rightarrow> string list \<Rightarrow> string res \<times> Selection" where
  "Next s endpoints =
     (if endpoints = [] then (Ok [], s)
      else let eps = (if 4 < length endpoints then take 4 endpoints else endpoints)
           in (index eps (unat (sel_next s mod word_of_nat (length eps))), s\<lparr>sel_next := sel_next s + 1\<rparr>))"

definition Reset :: "Selection \<Rightarrow> Health \<Rightarrow> Selection" where
  "Reset s h = s\<lparr>sel_next := 0, received := Received h, handshake := Handshake h, observed := True\<rparr>"

section \<open>Validation of records\<close>

text \<open>What a record must be, family by family and independently of any order.\<close>

definition hint_ok :: "bool \<Rightarrow> string \<Rightarrow> bool" where
  "hint_ok v4 raw \<longleftrightarrow> raw = [] \<or>
     (\<exists>ep. Endpoint raw = Ok ep \<and> IsGlobalUnicast (ap_addr ep) \<and> (if v4 then Is4 (ap_addr ep) else Is6 (ap_addr ep)))"

definition record_ok :: "Record \<Rightarrow> bool" where
  "record_ok r \<longleftrightarrow> Version r = 2 \<and> (IPv4 r \<noteq> [] \<or> IPv6 r \<noteq> []) \<and> hint_ok True (IPv4 r) \<and> hint_ok False (IPv6 r)"

lemma global_not_loopback: "IsGlobalUnicast a \<Longrightarrow> \<not> IsLoopback a"
  by (simp add: IsGlobalUnicast_def)

lemma family_ok_iff:
  "raw \<noteq> [] \<Longrightarrow> family_ok 4 raw \<longleftrightarrow> hint_ok True raw" "raw \<noteq> [] \<Longrightarrow> family_ok 6 raw \<longleftrightarrow> hint_ok False raw"
  using Is4_or_Is6 IsGlobalUnicast_valid global_not_loopback
  by (auto simp: family_ok_def hint_ok_def split: res.splits)

text \<open>A record is accepted exactly when it has version 2, names at least one endpoint, and each
  endpoint it names is a global-unicast address of the family it is listed under; the outcome,
  error included, does not depend on the order in which the map of families is visited.\<close>

theorem validate_iff:
  "(validate [4, 6] r = Ok () \<longleftrightarrow> record_ok r) \<and> validate [6, 4] r = validate [4, 6] r"
  by (simp add: validate_def record_ok_def family_text_def family_ok_iff) (simp add: hint_ok_def)

section \<open>Which hints may be used\<close>

lemma div_bounds: "n div 2 ^ k = c \<longleftrightarrow> c * 2 ^ k \<le> n \<and> n < c * 2 ^ k + 2 ^ k" for n c k :: nat
  using div_eq_interval [of k c] by (simp add: set_eq_iff)

lemma digit_split: "b < n \<Longrightarrow> (a * n + b) div n = a" "b < n \<Longrightarrow> (a * n + b) mod n = b" for a b n :: nat
  by auto

lemma div_mod_iff: "b < n \<Longrightarrow> x div n = a \<and> x mod n = b \<longleftrightarrow> x = a * n + b" for x n a b :: nat
  by (metis digit_split div_mult_mod_eq)

lemma v4_byte0: "v4_byte w 0 = unat w div 2 ^ 24"
proof -
  have "unat w div 2 ^ 24 < 256"
    using unat_u32_lt [of w] by (intro less_mult_imp_div_less) simp
  then show ?thesis by (simp add: v4_byte_def)
qed

lemma v4_byte1: "v4_byte w 1 = unat w div 2 ^ 16 mod 2 ^ 8"
  by (simp add: v4_byte_def)

lemma cgnat_Contains: "prefix_Contains cgnat (V4 w) \<longleftrightarrow> unat w div 2 ^ 22 = 401"
  by (simp add: prefix_Contains_def cgnat_def PrefixFrom_def)

text \<open>The ranges that the address policy is about, as intervals of 32-bit numbers: 10.0.0.0/8,
  172.16.0.0/12, 192.168.0.0/16, 100.64.0.0/10 and 127.0.0.0/8.\<close>

definition reserved_v4 :: "(nat \<times> nat) list" where
  "reserved_v4 = [(0x0A000000, 0x0AFFFFFF), (0xAC100000, 0xAC1FFFFF), (0xC0A80000, 0xC0A8FFFF),
     (0x64400000, 0x647FFFFF), (0x7F000000, 0x7FFFFFFF)]"

lemma reserved_v4_iff:
  "(\<exists>(lo, hi) \<in> set reserved_v4. lo \<le> unat w \<and> unat w \<le> hi)
    \<longleftrightarrow> IsPrivate (V4 w) \<or> prefix_Contains cgnat (V4 w) \<or> IsLoopback (V4 w)"
proof -
  let ?n = "unat w" and ?m = "unat w div 2 ^ 20" and ?h = "unat w div 2 ^ 16"
  have d: "?n div 2 ^ 24 = ?m div 16" "?h div 16 = ?m" "?n div 2 ^ 24 = ?h div 256"
    by (simp_all flip: div_mult2_eq)
  have m: "h mod 256 div 16 = h div 16 mod 16" for h :: nat
    using mod_mult2_eq [of h 16 16] by simp
  have p: "h div 16 div 16 = 172 \<and> h mod 256 div 16 = 1 \<longleftrightarrow> h div 16 = 2753"
    "h div 256 = 192 \<and> h mod 256 = 168 \<longleftrightarrow> h = 49320" for h :: nat
    using div_mod_iff [of 1 16 "h div 16" 172] div_mod_iff [of 168 256 h 192] by (simp_all add: m)
  have "v4_byte w 0 = 172 \<and> v4_byte w 1 div 16 = 1 \<longleftrightarrow> ?m = 2753"
    "v4_byte w 0 = 192 \<and> v4_byte w 1 = 168 \<longleftrightarrow> ?h = 49320"
    unfolding v4_byte0 v4_byte1 using d p [of ?h] by simp_all
  moreover have "?m = 2753 \<longleftrightarrow> 0xAC100000 \<le> ?n \<and> ?n \<le> 0xAC1FFFFF"
    "?h = 49320 \<longleftrightarrow> 0xC0A80000 \<le> ?n \<and> ?n \<le> 0xC0A8FFFF"
    "?n div 2 ^ 22 = 401 \<longleftrightarrow> 0x64400000 \<le> ?n \<and> ?n \<le> 0x647FFFFF"
    "v4_byte w 0 = 10 \<longleftrightarrow> 0x0A000000 \<le> ?n \<and> ?n \<le> 0x0AFFFFFF"
    "v4_byte w 0 = 127 \<longleftrightarrow> 0x7F000000 \<le> ?n \<and> ?n \<le> 0x7FFFFFFF"
    unfolding div_bounds v4_byte0 by auto
  ultimately show ?thesis
    unfolding cgnat_Contains by (simp add: reserved_v4_def IsPrivate_def IsLoopback_def)
qed

text \<open>The hint policy. A hint is usable exactly when it is an accepted endpoint with a
  global-unicast address that is public or lies in one of the locally configured LAN prefixes.\<close>

theorem Allowed_iff:
  "Allowed e lan \<longleftrightarrow>
     (\<exists>ep. Endpoint e = Ok ep \<and> IsGlobalUnicast (ap_addr ep)
       \<and> (\<not> IsPrivate (ap_addr ep) \<and> \<not> prefix_Contains cgnat (ap_addr ep)
          \<or> (\<exists>p \<in> set lan. prefix_Contains p (ap_addr ep))))"
  using global_not_loopback by (auto simp: Allowed_def list_ex_iff split: res.splits)

text \<open>Without a configured LAN no hint from a store reaches a private, carrier-grade NAT or
  loopback IPv4 address, in any spelling of the endpoint (the 4-in-6 form included).\<close>

theorem Allowed_public_v4:
  assumes "Allowed e []" "ParseAddrPort e = Ok (AddrPort a port)" "Unmap a = V4 w" "(lo, hi) \<in> set reserved_v4"
  shows "unat w < lo \<or> hi < unat w"
proof (rule ccontr)
  assume "\<not> (unat w < lo \<or> hi < unat w)"
  then have "IsPrivate (V4 w) \<or> prefix_Contains cgnat (V4 w) \<or> IsLoopback (V4 w)"
    using assms(4) reserved_v4_iff [of w] by fastforce
  moreover obtain ep where "Endpoint e = Ok ep" "IsGlobalUnicast (ap_addr ep)"
      "\<not> IsPrivate (ap_addr ep)" "\<not> prefix_Contains cgnat (ap_addr ep)"
    using assms(1) by (auto simp: Allowed_def split: res.splits if_splits)
  moreover have "ap_addr ep = V4 w"
    using calculation(2) assms(2,3) by (auto simp: Endpoint_eq_Ok)
  ultimately show False
    using global_not_loopback by auto
qed

theorem Allowed_public_v4_witness:
  "(unat (0x08080404 :: u32) < 0x0A000000 \<or> 0x0AFFFFFF < unat (0x08080404 :: u32))
    \<and> Allowed ''[::ffff:8.8.4.4]:53'' [] \<and> \<not> Allowed ''[::ffff:10.0.0.1]:53'' []"
proof -
  have "Allowed ''[::ffff:8.8.4.4]:53'' []" by code_simp
  moreover have "ParseAddrPort ''[::ffff:8.8.4.4]:53'' = Ok (AddrPort (V6 0xFFFF08080404 []) 53)" by code_simp
  moreover have "Unmap (V6 0xFFFF08080404 []) = V4 0x08080404" by code_simp
  moreover have "\<not> Allowed ''[::ffff:10.0.0.1]:53'' []" by code_simp
  moreover have "(0x0A000000, 0x0AFFFFFF) \<in> set reserved_v4" by code_simp
  ultimately show ?thesis
    using Allowed_public_v4 by blast
qed

section \<open>The chosen endpoint\<close>

text \<open>The preference of a protocol as a ranking of families: the selected endpoint is the first
  family in the ranking that the record has and, for the two preferring protocols, that the local
  host can reach.\<close>

datatype family = F4 | F6

fun text_of :: "Record \<Rightarrow> family \<Rightarrow> string" where
  "text_of r F4 = IPv4 r"
| "text_of r F6 = IPv6 r"

fun local_text :: "LocalStatus \<Rightarrow> family \<Rightarrow> string" where
  "local_text l F4 = ls_IPv4 l"
| "local_text l F6 = ls_IPv6 l"

definition ranking :: "string \<Rightarrow> family list" where
  "ranking p = (if p = [] \<or> p = ''ipv4'' then [F4] else if p = ''ipv6'' then [F6]
     else if p = ''prefer_ipv4'' then [F4, F6] else if p = ''prefer_ipv6'' then [F6, F4] else [])"

definition reachable_family :: "string \<Rightarrow> LocalStatus option \<Rightarrow> family \<Rightarrow> bool" where
  "reachable_family p l f \<longleftrightarrow> length (ranking p) = 1 \<or> l = None \<or> local_text (the l) f \<noteq> []"

text \<open>Endpoint selection follows the ranking: the result is the text of the first ranked family
  that is present (and reachable, for the preferring protocols), and it is an error exactly when
  there is none. A strict protocol never falls back to the other family.\<close>

theorem SelectEndpoint_ranking:
  "SelectEndpoint r p l = Ok e \<longleftrightarrow>
     (\<exists>f. find (\<lambda>f. text_of r f \<noteq> [] \<and> reachable_family p l f) (ranking p) = Some f \<and> e = text_of r f)"
  by (auto simp: SelectEndpoint_def ranking_def reachable_family_def usable_def Let_def
      split: option.splits if_splits)

lemma SelectEndpoint_ne_Panic [simp]: "SelectEndpoint r p l \<noteq> Panic"
  by (simp add: SelectEndpoint_def Let_def)

text \<open>Dual-stack discovery degrades softly: both families are asked once, each failure is
  reported once and in order, and the call fails exactly when neither family has an endpoint.
  Asking for one family never touches the other one's resolver and fails with its error.\<close>

theorem DiscoverEndpoints_policy:
  "DiscoverEndpoints ''dualstack'' True (e4, r4) (e6, r6) =
      ([ResolveIPv4, ResolveIPv6] @ (case r4 of Some x \<Rightarrow> [Warn ''ipv4'' x] | None \<Rightarrow> [])
         @ (case r6 of Some x \<Rightarrow> [Warn ''ipv6'' x] | None \<Rightarrow> []),
       if e4 @ e6 = [] then Err (ErrNew ''both IPv4 and IPv6 STUN discovery failed'') else Ok (e4, e6))
   \<and> DiscoverEndpoints ''ipv4'' w (e4, r4) (e6, r6)
      = ([ResolveIPv4], case r4 of Some x \<Rightarrow> Err x | None \<Rightarrow> Ok (e4, []))
   \<and> DiscoverEndpoints ''ipv6'' w (e4, r4) (e6, r6)
      = ([ResolveIPv6], case r6 of Some x \<Rightarrow> Err x | None \<Rightarrow> Ok ([], e6))"
  by (simp add: DiscoverEndpoints_def warn_call_def split: option.splits)

section \<open>Selection over time\<close>

text \<open>A run of \<open>n\<close> calls of \<^verbatim>\<open>Next\<close> on the same candidates.\<close>

fun Nexts :: "nat \<Rightarrow> Selection \<Rightarrow> string list \<Rightarrow> string res list" where
  "Nexts 0 s eps = []"
| "Nexts (Suc n) s eps = (case Next s eps of (r, s') \<Rightarrow> r # Nexts n s' eps)"

lemma unat_mod_small: "0 < k \<Longrightarrow> k < 2 ^ 64 \<Longrightarrow> unat (x mod word_of_nat k :: u64) = unat x mod k"
  by (simp add: unat_mod unat_of_nat)

lemma Next_nonempty:
  assumes "eps \<noteq> []"
  shows "Next s eps = (Ok (take 4 eps ! (unat (sel_next s) mod length (take 4 eps))), s\<lparr>sel_next := sel_next s + 1\<rparr>)"
proof -
  let ?e = "take 4 eps"
  have l: "0 < length ?e" "length ?e < 2 ^ 64"
    using assms by auto
  have "unat (sel_next s mod word_of_nat (length ?e)) = unat (sel_next s) mod length ?e"
    using l by (rule unat_mod_small)
  moreover have "(if 4 < length eps then take 4 eps else eps) = ?e"
    by simp
  ultimately show ?thesis
    using assms l(1) unfolding Next_def
    by (simp only: Let_def if_False) (simp add: index_def mod_less_divisor del: length_take)
qed

lemma Next_no_panic: "fst (Next s eps) \<noteq> Panic"
  by (cases "eps = []") (simp add: Next_def, simp add: Next_nonempty)

lemma Nexts_nth:
  assumes "eps \<noteq> []"
  shows "i < n \<Longrightarrow> unat (sel_next s) + n \<le> 2 ^ 64 \<Longrightarrow>
    Nexts n s eps ! i = Ok (take 4 eps ! ((unat (sel_next s) + i) mod length (take 4 eps)))"
proof (induction n arbitrary: i s)
  case (Suc n)
  have u: "n \<noteq> 0 \<Longrightarrow> unat (sel_next s + 1) = Suc (unat (sel_next s))"
    using Suc.prems(2) by (simp add: unat_word_ariths)
  show ?case
    using Suc u by (cases i) (auto simp: Next_nonempty [OF assms])
qed simp

lemma length_Nexts [simp]: "length (Nexts n s eps) = n"
  by (induction n arbitrary: s) (auto split: prod.splits)

lemma mod_shift_surj: "j < k \<Longrightarrow> \<exists>i < k. (a + i) mod k = j" for a j k :: nat
proof -
  assume j: "j < k"
  let ?i = "(j + k - a mod k) mod k"
  have "(a + ?i) mod k = (a mod k + (j + k - a mod k)) mod k"
    by (simp add: mod_simps)
  also have "a mod k + (j + k - a mod k) = j + k"
    using j mod_less_divisor [of k a] by linarith
  also have "(j + k) mod k = j"
    using j by simp
  finally show ?thesis
    using j by (intro exI [of _ ?i]) simp
qed

text \<open>Candidates are tried in turn: over as many consecutive calls as there are candidates
  (four at most) every one of the first four is returned, none is skipped, and nothing else is.\<close>

theorem Next_round_robin:
  assumes "eps \<noteq> []" "n = length (take 4 eps)" "unat (sel_next s) + n \<le> 2 ^ 64"
  shows "set (Nexts n s eps) = Ok ` set (take 4 eps)"
proof
  have n: "Nexts n s eps ! i = Ok (take 4 eps ! ((unat (sel_next s) + i) mod n))" if "i < n" for i
    using Nexts_nth [OF assms(1) that assms(3)] assms(2) by simp
  show "set (Nexts n s eps) \<subseteq> Ok ` set (take 4 eps)"
  proof
    fix x assume "x \<in> set (Nexts n s eps)"
    then obtain i where "i < n" "x = Nexts n s eps ! i"
      by (auto simp: in_set_conv_nth)
    moreover have "(unat (sel_next s) + i) mod n < length (take 4 eps)"
      using assms(1) unfolding assms(2) by (intro mod_less_divisor) simp
    ultimately show "x \<in> Ok ` set (take 4 eps)"
      using n by (auto simp del: length_take)
  qed
  show "Ok ` set (take 4 eps) \<subseteq> set (Nexts n s eps)"
  proof
    fix x assume "x \<in> Ok ` set (take 4 eps)"
    then obtain j where j: "j < n" "x = Ok (take 4 eps ! j)"
      unfolding assms(2) by (auto simp: in_set_conv_nth simp del: length_take)
    then obtain i where "i < n" "(unat (sel_next s) + i) mod n = j"
      using mod_shift_surj by blast
    with j(2) n have "x = Nexts n s eps ! i" "i < length (Nexts n s eps)"
      by simp_all
    then show "x \<in> set (Nexts n s eps)"
      by (metis nth_mem)
  qed
qed

theorem Next_round_robin_witness:
  "set (Nexts 2 NewSelection [''192.0.2.1:1'', ''192.0.2.2:2'']) = Ok ` set (take 4 [''192.0.2.1:1'', ''192.0.2.2:2''])"
  by (rule Next_round_robin) (simp_all add: NewSelection_def)

text \<open>Old evidence does not pin an endpoint. Once a health sample has been observed, by a refresh
  or by a network change, a later sample counts as working only when WireGuard reported progress
  after it: a newer and recent handshake, or more bytes received.\<close>

theorem Working_needs_progress:
  assumes "s' = snd (Working s h t) \<or> s' = Reset s h" "fst (Working s' h' t')"
  shows "Handshake h' \<noteq> time_zero \<and> Handshake h' \<le> t' \<and> h_Endpoint h' \<noteq> []
    \<and> (Handshake h < Handshake h' \<and> t' - Handshake h' < 5 * minute \<or> Received h < Received h')"
proof -
  have "observed s'" "handshake s' = Handshake h" "received s' = Received h"
    using assms(1) by (auto simp: Working_def Reset_def Let_def)
  with assms(2) show ?thesis
    by (auto simp: Working_def Let_def time_Sub_less_iff minute_def second_def)
qed

theorem Working_needs_progress_witness:
  "fst (Working (Reset NewSelection \<lparr>h_Endpoint = ''192.0.2.1:1'', Handshake = 100, Received = 5\<rparr>)
      \<lparr>h_Endpoint = ''192.0.2.1:1'', Handshake = 100, Received = 9\<rparr> 200)
   \<and> ((100::int) < 100 \<and> 200 - 100 < 5 * minute \<or> (5::u64) < 9)"
proof -
  have w: "fst (Working (Reset NewSelection \<lparr>h_Endpoint = ''192.0.2.1:1'', Handshake = 100, Received = 5\<rparr>)
      \<lparr>h_Endpoint = ''192.0.2.1:1'', Handshake = 100, Received = 9\<rparr> 200)"
    by code_simp
  from Working_needs_progress [OF disjI2 [OF refl] w] w show ?thesis by simp
qed

text \<open>The same sample never counts twice in a row.\<close>

lemma Working_same_sample: "\<not> fst (Working (snd (Working s h t)) h t')"
  by (auto simp: Working_def Let_def)

end
