(* ===== verification/Gotext.thy ===== *)
theory Gotext
  imports Gostd
begin

text \<open>
  More of Go's \<^verbatim>\<open>strings\<close>, \<^verbatim>\<open>strconv\<close> and \<^verbatim>\<open>time\<close>, for the components that
  read the output of a command: splitting into lines and fields, trimming, hexadecimal numbers and
  Unix times. White space is Unicode white space as the library defines it. A white-space character
  of more than one byte begins with a byte that cannot occur inside another character, so looking
  for its byte sequence at every position is exact.
\<close>

definition space_seqs :: "string list" where
  "space_seqs =
     [[CHR 0x09], [CHR 0x0A], [CHR 0x0B], [CHR 0x0C], [CHR 0x0D], [CHR 0x20],
      [CHR 0xC2, CHR 0x85], [CHR 0xC2, CHR 0xA0], [CHR 0xE1, CHR 0x9A, CHR 0x80],
      [CHR 0xE2, CHR 0x80, CHR 0x80], [CHR 0xE2, CHR 0x80, CHR 0x81], [CHR 0xE2, CHR 0x80, CHR 0x82],
      [CHR 0xE2, CHR 0x80, CHR 0x83], [CHR 0xE2, CHR 0x80, CHR 0x84], [CHR 0xE2, CHR 0x80, CHR 0x85],
      [CHR 0xE2, CHR 0x80, CHR 0x86], [CHR 0xE2, CHR 0x80, CHR 0x87], [CHR 0xE2, CHR 0x80, CHR 0x88],
      [CHR 0xE2, CHR 0x80, CHR 0x89], [CHR 0xE2, CHR 0x80, CHR 0x8A], [CHR 0xE2, CHR 0x80, CHR 0xA8],
      [CHR 0xE2, CHR 0x80, CHR 0xA9], [CHR 0xE2, CHR 0x80, CHR 0xAF], [CHR 0xE2, CHR 0x81, CHR 0x9F],
      [CHR 0xE3, CHR 0x80, CHR 0x80]]"

text \<open>The length of the white-space character that starts or ends a text, 0 when there is none.\<close>

definition space_len :: "string \<Rightarrow> nat" where
  "space_len s = (case find (HasPrefix s) space_seqs of None \<Rightarrow> 0 | Some q \<Rightarrow> length q)"

definition space_end :: "string \<Rightarrow> nat" where
  "space_end s = (case find (HasSuffix s) space_seqs of None \<Rightarrow> 0 | Some q \<Rightarrow> length q)"

function Fields_scan :: "string \<Rightarrow> string \<Rightarrow> string list" where
  "Fields_scan cur s =
     (if s = [] then (if cur = [] then [] else [cur])
      else if 0 < space_len s
      then (if cur = [] then [] else [cur]) @ Fields_scan [] (drop (space_len s) s)
      else Fields_scan (cur @ [hd s]) (tl s))"
  by pat_completeness auto
termination
  by (relation "measure (\<lambda>(_, s). length s)") auto

declare Fields_scan.simps [simp del]

definition Fields :: "string \<Rightarrow> string list" where
  "Fields s = Fields_scan [] s"

function trim_left :: "string \<Rightarrow> string" where
  "trim_left s = (if s \<noteq> [] \<and> 0 < space_len s then trim_left (drop (space_len s) s) else s)"
  by pat_completeness auto
termination
  by (relation "measure length") auto

function trim_right :: "string \<Rightarrow> string" where
  "trim_right s = (if s \<noteq> [] \<and> 0 < space_end s then trim_right (take (length s - space_end s) s) else s)"
  by pat_completeness auto
termination
  by (relation "measure length") auto

declare trim_left.simps [simp del] trim_right.simps [simp del]

definition TrimSpace :: "string \<Rightarrow> string" where
  "TrimSpace s = trim_right (trim_left s)"

text \<open>\<^verbatim>\<open>strings.Split\<close> with a separator of one byte.\<close>

fun Split :: "char \<Rightarrow> string \<Rightarrow> string list" where
  "Split c [] = [[]]"
| "Split c (x # xs) =
     (if x = c then [] # Split c xs
      else (case Split c xs of [] \<Rightarrow> [[x]] | w # ws \<Rightarrow> (x # w) # ws))"

lemma Split_single: "c \<notin> set s \<Longrightarrow> Split c s = [s]"
  by (induction s) auto

lemma Split_append: "c \<notin> set w \<Longrightarrow> Split c (w @ c # s) = w # Split c s"
  by (induction w) auto

fun hexdigits_val :: "string \<Rightarrow> nat \<Rightarrow> nat option" where
  "hexdigits_val [] acc = Some acc"
| "hexdigits_val (c # cs) acc =
     (case hex_val c of None \<Rightarrow> None | Some d \<Rightarrow> hexdigits_val cs (16 * acc + d))"

definition ParseUint16 :: "nat \<Rightarrow> string \<Rightarrow> nat res" where
  "ParseUint16 bits s =
     (if s = [] then Err err_num
      else case hexdigits_val s 0 of None \<Rightarrow> Err err_num
        | Some n \<Rightarrow> if n < 2 ^ bits then Ok n else Err err_num)"

text \<open>\<^verbatim>\<open>time.Unix(n, 0)\<close>: the seconds since the year 1 wrap at 64 bits.\<close>

definition time_Unix :: "int \<Rightarrow> time" where
  "time_Unix n = ((n + 62135596800 + 2 ^ 63) mod 2 ^ 64 - 2 ^ 63) * second"

text \<open>The bytes of a string.\<close>

definition str_bytes :: "string \<Rightarrow> byte list" where
  "str_bytes s = map (\<lambda>c. word_of_nat (of_char c)) s"

lemma length_str_bytes [simp]: "length (str_bytes s) = length s"
  by (simp add: str_bytes_def)

lemma ParseUint16_ne_Panic [simp]: "ParseUint16 bits s \<noteq> Panic"
  by (simp add: ParseUint16_def split: option.splits)

lemma ParseUint16_bound: "ParseUint16 bits s = Ok n \<Longrightarrow> n < 2 ^ bits"
  by (auto simp: ParseUint16_def split: option.splits if_splits)

text \<open>Below the year 292 billion a Unix time is what it says.\<close>

lemma time_Unix_plain: "0 \<le> n \<Longrightarrow> n < 2 ^ 62 \<Longrightarrow> time_Unix n = (n + 62135596800) * second"
  by (simp add: time_Unix_def)

end
