(* ===== verification/Wg_Info.thy ===== *)
theory Wg_Info
  imports Discovery Gotext
begin

text \<open>
  Reading public WireGuard state (\<^verbatim>\<open>internal/wg\<close>: \<^verbatim>\<open>public_info.go\<close>,
  \<^verbatim>\<open>health.go\<close>, \<^verbatim>\<open>elevation.go\<close>, \<^verbatim>\<open>client_ctrl.go\<close>). The command runner is the
  argument \<open>run\<close>, from the queried field to the command's output or error; \<open>denied\<close> is the
  platform's test for an access-denied error; \<open>configure\<close> is the WireGuard control library.
\<close>

section \<open>Types (api.go)\<close>

record DeviceInfo =
  di_Name :: string
  ListenPort :: int
  di_PublicKey :: "byte list"
  PeerKeys :: "byte list list"
  FirewallMark :: int

record PeerEndpointUpdate =
  DeviceName :: string
  u_PublicKey :: "byte list"
  Host :: string
  Port :: int

type_synonym Runner = "string \<Rightarrow> string res"

section \<open>Errors (elevation.go)\<close>

definition ErrElevationRequired :: error where
  "ErrElevationRequired = ErrNew (''wg: access to the WireGuard device was denied '' @ [CHR 0xE2, CHR 0x80, CHR 0x94] @ '' run stunmesh as Administrator'')"

definition elevationHint :: "(error \<Rightarrow> bool) \<Rightarrow> error \<Rightarrow> error" where
  "elevationHint denied err = (if denied err then ErrWrap ''%w (%w)'' [ErrElevationRequired, err] else err)"

section \<open>Device metadata (public\_info.go)\<close>

definition valid_iface :: "string \<Rightarrow> bool" where
  "valid_iface name \<longleftrightarrow> \<not> (name = [] \<or> 15 < length name
     \<or> ContainsAny name [CHR 0x00, CHR 0x0D, CHR 0x0A, CHR ''/'', CHR '' '', CHR 0x09] \<or> HasPrefix name ''-'')"

definition query :: "(error \<Rightarrow> bool) \<Rightarrow> Runner \<Rightarrow> string \<Rightarrow> string res" where
  "query denied run field =
     (case run field of Panic \<Rightarrow> Panic | Err e \<Rightarrow> Err (elevationHint denied e) | Ok b \<Rightarrow> Ok (TrimSpace b))"

definition decodeKey :: "string \<Rightarrow> byte list res" where
  "decodeKey text =
     bind_res (replace_err (b64_decode text) (ErrNew ''invalid WG key encoding'')) (\<lambda>b.
     if length b \<noteq> 32 then Err (ErrNew ''invalid WG key encoding'') else Ok b)"

definition parseFwmark :: "string \<Rightarrow> int res" where
  "parseFwmark s =
     (if s = ''off'' then Ok 0
      else if \<not> HasPrefix s ''0x'' then Err (ErrNew ''invalid WG firewall mark'')
      else bind_res (replace_err (ParseUint16 32 (drop 2 s)) (ErrNew ''invalid WG firewall mark'')) (\<lambda>v. Ok (int v)))"

fun decode_peers :: "string list \<Rightarrow> byte list list res" where
  "decode_peers [] = Ok []"
| "decode_peers (t # ts) =
     bind_res (replace_err (decodeKey t) (ErrNew ''invalid WG peer key response'')) (\<lambda>k.
     bind_res (decode_peers ts) (\<lambda>ks. Ok (k # ks)))"

definition publicInfo :: "(error \<Rightarrow> bool) \<Rightarrow> string \<Rightarrow> Runner \<Rightarrow> DeviceInfo res" where
  "publicInfo denied name run =
     (if \<not> valid_iface name then Err (ErrNew ''invalid WireGuard interface name'')
      else bind_res (query denied run ''public-key'') (\<lambda>pub.
      bind_res (replace_err (decodeKey pub) (ErrNew ''invalid WG public key response'')) (\<lambda>key.
      bind_res (query denied run ''listen-port'') (\<lambda>portText.
      bind_res (replace_err (Atoi portText) (ErrNew ''WG interface needs a valid listen port'')) (\<lambda>port.
      if port < 1 \<or> 65535 < port then Err (ErrNew ''WG interface needs a valid listen port'')
      else bind_res (query denied run ''fwmark'') (\<lambda>markText.
      bind_res (parseFwmark markText) (\<lambda>mark.
      bind_res (query denied run ''peers'') (\<lambda>peersText.
      let peers = Fields peersText in
      if 32 < length peers then Err (ErrNew ''too many WireGuard peers'')
      else bind_res (decode_peers peers) (\<lambda>keys.
        Ok \<lparr>di_Name = name, ListenPort = port, di_PublicKey = key, PeerKeys = keys, FirewallMark = mark\<rparr>)))))))))"

text \<open>The writer that bounds the command's output refuses a write past 16 KiB.\<close>

definition boundedOutput_Write :: "string \<Rightarrow> string \<Rightarrow> string res" where
  "boundedOutput_Write buf p =
     (if 16 * 1024 < length buf + length p then Err (ErrNew ''WG response too large'') else Ok (buf @ p))"

section \<open>Health (health.go)\<close>

definition health_line :: "string \<Rightarrow> string list \<Rightarrow> Health \<Rightarrow> Health res" where
  "health_line field v h =
     (if field = ''endpoints'' then
        if v ! 1 \<noteq> ''(none)'' then
          bind_res (Endpoint (v ! 1)) (\<lambda>ep. Ok (h\<lparr>h_Endpoint := addrport_String ep\<rparr>))
        else Ok h
      else if field = ''latest-handshakes'' then
        bind_res (replace_err (Atoi (v ! 1)) (ErrNew ''invalid handshake time'')) (\<lambda>n.
        if n < 0 then Err (ErrNew ''invalid handshake time'')
        else if 0 < n then Ok (h\<lparr>Handshake := time_Unix n\<rparr>) else Ok h)
      else if field = ''transfer'' then
        if length v \<noteq> 3 then Err (ErrNew ''invalid transfer count'')
        else bind_res (replace_err (ParseUint10 64 (v ! 1)) (ErrNew ''invalid receive count'')) (\<lambda>n.
          Ok (h\<lparr>Received := word_of_nat n\<rparr>))
      else Ok h)"

fun health_lines :: "string \<Rightarrow> string \<Rightarrow> string list \<Rightarrow> bool \<times> Health \<Rightarrow> (bool \<times> Health) res" where
  "health_lines want field [] acc = Ok acc"
| "health_lines want field (line # lines) (found, h) =
     (let v = Fields line in
      if v = [] \<or> v ! 0 \<noteq> want then health_lines want field lines (found, h)
      else if found \<or> length v < 2 then Err (ErrNew ''invalid WG health response'')
      else bind_res (health_line field v h) (\<lambda>h'. health_lines want field lines (True, h')))"

fun health_fields :: "Runner \<Rightarrow> string \<Rightarrow> string list \<Rightarrow> Health \<Rightarrow> Health res" where
  "health_fields run want [] h = Ok h"
| "health_fields run want (field # rest) h =
     bind_res (run field) (\<lambda>b.
     if 16384 < length b then Err (ErrNew ''oversized WG health response'')
     else bind_res (health_lines want field (Split (CHR 0x0A) (TrimSpace b)) (False, h)) (\<lambda>(found, h').
       if \<not> found then Err (ErrNew ''WireGuard peer no longer exists'')
       else health_fields run want rest h'))"

definition PeerHealth :: "string \<Rightarrow> byte list \<Rightarrow> Runner \<Rightarrow> Health res" where
  "PeerHealth name key run =
     (if \<not> valid_iface name then Err (ErrNew ''invalid WG interface'')
      else health_fields run (b64_encode key) [''endpoints'', ''latest-handshakes'', ''transfer'']
        \<lparr>h_Endpoint = [], Handshake = time_zero, Received = 0\<rparr>)"

section \<open>Programming an endpoint (client\_ctrl.go)\<close>

text \<open>The configuration handed to the control library: one peer, its key, the update-only flag of
  the platform, and the numeric endpoint as address bytes and port.\<close>

record PeerConfig =
  pc_PublicKey :: "byte list"
  UpdateOnly :: bool
  pc_IP :: "byte list"
  pc_Port :: int

definition UpdatePeerEndpoint ::
  "(error \<Rightarrow> bool) \<Rightarrow> bool \<Rightarrow> (string \<Rightarrow> PeerConfig \<Rightarrow> unit res) \<Rightarrow> PeerEndpointUpdate \<Rightarrow> unit res" where
  "UpdatePeerEndpoint denied updateOnly configure u =
     bind_res (HostPort (Host u) (Port u)) (\<lambda>ep.
     let cfg = \<lparr>pc_PublicKey = u_PublicKey u, UpdateOnly = updateOnly,
                pc_IP = AsSlice (ap_addr ep), pc_Port = int (unat (ap_port ep))\<rparr>
     in case configure (DeviceName u) cfg of
          Err e \<Rightarrow> Err (elevationHint denied e)
        | r \<Rightarrow> r)"

section \<open>What a reading guarantees\<close>

lemma decodeKey_length: "decodeKey t = Ok k \<Longrightarrow> length k = 32"
  by (auto simp: decodeKey_def split: res.splits if_splits)

lemma decodeKey_encode [simp]: "length k = 32 \<Longrightarrow> decodeKey (b64_encode k) = Ok k"
  by (simp add: decodeKey_def)

lemma decode_peers_lengths: "decode_peers ts = Ok ks \<Longrightarrow> length ks = length ts \<and> (\<forall>k \<in> set ks. length k = 32)"
  by (induction ts arbitrary: ks) (auto split: res.splits dest: decodeKey_length)

lemma parseFwmark_bound: "parseFwmark s = Ok m \<Longrightarrow> 0 \<le> m \<and> m < 2 ^ 32"
  by (auto simp: parseFwmark_def split: if_splits dest!: ParseUint16_bound)

definition device_ok :: "DeviceInfo \<Rightarrow> bool" where
  "device_ok i \<longleftrightarrow> valid_iface (di_Name i) \<and> 1 \<le> ListenPort i \<and> ListenPort i \<le> 65535
     \<and> length (di_PublicKey i) = 32 \<and> length (PeerKeys i) \<le> 32 \<and> (\<forall>k \<in> set (PeerKeys i). length k = 32)
     \<and> 0 \<le> FirewallMark i \<and> FirewallMark i < 2 ^ 32"

lemma publicInfo_ok: "publicInfo denied name run = Ok i \<Longrightarrow> device_ok i \<and> di_Name i = name"
  by (auto simp: publicInfo_def device_ok_def Let_def split: if_splits
      dest!: parseFwmark_bound decode_peers_lengths dest: decodeKey_length)

text \<open>Reading a device only ever asks for its four public fields: two runners that agree on the
  public key, the listen port, the firewall mark and the peers give the same result, whatever they
  would answer for private keys, preshared keys or dumps. And what is returned is well formed: a
  port between 1 and 65535, 32-byte keys, at most 32 peers, a 32-bit mark.\<close>

theorem publicInfo_public_only:
  assumes "\<forall>f \<in> {''public-key'', ''listen-port'', ''fwmark'', ''peers''}. run f = run' f"
  shows "publicInfo denied name run = publicInfo denied name run'
    \<and> (\<forall>i. publicInfo denied name run = Ok i \<longrightarrow> device_ok i \<and> di_Name i = name)"
proof -
  have "query denied run ''public-key'' = query denied run' ''public-key''"
    "query denied run ''listen-port'' = query denied run' ''listen-port''"
    "query denied run ''fwmark'' = query denied run' ''fwmark''"
    "query denied run ''peers'' = query denied run' ''peers''"
    using assms by (simp_all add: query_def)
  then have "publicInfo denied name run = publicInfo denied name run'"
    by (simp add: publicInfo_def cong: if_cong)
  then show ?thesis
    using publicInfo_ok by blast
qed

definition sample_key :: "byte list" where "sample_key = replicate 31 1 @ [9]"

definition sample_run :: "string \<Rightarrow> Runner" where
  "sample_run private f =
     (if f = ''public-key'' then Ok (b64_encode sample_key @ [CHR 0x0A])
      else if f = ''listen-port'' then Ok (''51820'' @ [CHR 0x0A])
      else if f = ''fwmark'' then Ok ''0xca6c''
      else if f = ''peers'' then Ok (b64_encode sample_key @ [CHR 0x0A])
      else if f = ''endpoints'' then Ok (b64_encode sample_key @ [CHR 0x09] @ ''192.0.2.7:4500'' @ [CHR 0x0A])
      else if f = ''latest-handshakes'' then Ok (b64_encode sample_key @ [CHR 0x09] @ ''1700000000'')
      else if f = ''transfer'' then Ok (b64_encode sample_key @ [CHR 0x09] @ ''1234'' @ [CHR 0x09] @ ''99'')
      else Ok private)"

theorem publicInfo_public_only_witness:
  "publicInfo (\<lambda>_. False) ''wg0'' (sample_run ''secret'') = publicInfo (\<lambda>_. False) ''wg0'' (sample_run ''other'')
    \<and> publicInfo (\<lambda>_. False) ''wg0'' (sample_run ''secret'')
        = Ok \<lparr>di_Name = ''wg0'', ListenPort = 51820, di_PublicKey = sample_key, PeerKeys = [sample_key], FirewallMark = 0xca6c\<rparr>
    \<and> sample_run ''secret'' ''private-key'' \<noteq> sample_run ''other'' ''private-key''"
proof -
  have "\<forall>f \<in> {''public-key'', ''listen-port'', ''fwmark'', ''peers''}. sample_run ''secret'' f = sample_run ''other'' f"
    by (simp add: sample_run_def)
  from publicInfo_public_only [OF this, of "\<lambda>_. False" "''wg0''"]
  have "publicInfo (\<lambda>_. False) ''wg0'' (sample_run ''secret'') = publicInfo (\<lambda>_. False) ''wg0'' (sample_run ''other'')"
    by (rule conjunct1)
  moreover have "publicInfo (\<lambda>_. False) ''wg0'' (sample_run ''secret'')
      = Ok \<lparr>di_Name = ''wg0'', ListenPort = 51820, di_PublicKey = sample_key, PeerKeys = [sample_key], FirewallMark = 0xca6c\<rparr>"
    by code_simp
  moreover have "sample_run ''secret'' ''private-key'' \<noteq> sample_run ''other'' ''private-key''"
    by (simp add: sample_run_def)
  ultimately show ?thesis by blast
qed

section \<open>What a health sample guarantees\<close>

definition peer_lines :: "string \<Rightarrow> string list \<Rightarrow> string list" where
  "peer_lines want lines = filter (\<lambda>l. Fields l \<noteq> [] \<and> Fields l ! 0 = want) lines"

lemma health_lines_count:
  "health_lines want f ls (found, h) = Ok (found', h') \<Longrightarrow>
    of_bool found' = of_bool found + length (peer_lines want ls)"
proof (induction ls arbitrary: found h)
  case (Cons l ls)
  show ?case
  proof (cases "Fields l \<noteq> [] \<and> Fields l ! 0 = want")
    case True
    then obtain x where "\<not> found" "health_lines want f ls (True, x) = Ok (found', h')"
      using Cons.prems by (auto simp: Let_def split: if_splits)
    with Cons.IH [OF this(2)] True show ?thesis
      by (simp add: peer_lines_def)
  next
    case False
    with Cons.prems have "health_lines want f ls (found, h) = Ok (found', h')"
      by (auto simp: Let_def)
    with Cons.IH [OF this] False show ?thesis
      by (auto simp: peer_lines_def)
  qed
qed (simp add: peer_lines_def)

lemma health_fields_once:
  "health_fields run want fs h = Ok h' \<Longrightarrow> f \<in> set fs \<Longrightarrow>
    \<exists>b. run f = Ok b \<and> length b \<le> 16384 \<and> length (peer_lines want (Split (CHR 0x0A) (TrimSpace b))) = 1"
proof (induction fs arbitrary: h)
  case (Cons g gs)
  then show ?case
    by (auto split: if_splits dest!: health_lines_count)
qed simp

text \<open>An ambiguous reading never counts as health: a sample is returned only when each of the
  three outputs is at most 16 KiB and lists the peer on exactly one line. A missing peer, a
  duplicate line or an oversized output is an error, and the caller keeps the endpoint it has.\<close>

theorem PeerHealth_unambiguous:
  assumes "PeerHealth name key run = Ok h" "f \<in> {''endpoints'', ''latest-handshakes'', ''transfer''}"
  shows "\<exists>b. run f = Ok b \<and> length b \<le> 16384
    \<and> length (peer_lines (b64_encode key) (Split (CHR 0x0A) (TrimSpace b))) = 1"
proof -
  have "health_fields run (b64_encode key) [''endpoints'', ''latest-handshakes'', ''transfer'']
      \<lparr>h_Endpoint = [], Handshake = time_zero, Received = 0\<rparr> = Ok h"
    using assms(1) unfolding PeerHealth_def by (simp del: health_fields.simps split: if_splits)
  then show ?thesis
    by (rule health_fields_once) (use assms(2) in simp)
qed

theorem PeerHealth_unambiguous_witness:
  "PeerHealth ''wg0'' sample_key (sample_run [])
      = Ok \<lparr>h_Endpoint = ''192.0.2.7:4500'', Handshake = 63835596800 * second, Received = 1234\<rparr>
    \<and> (\<exists>b. sample_run [] ''transfer'' = Ok b \<and> length b \<le> 16384
        \<and> length (peer_lines (b64_encode sample_key) (Split (CHR 0x0A) (TrimSpace b))) = 1)"
proof -
  have h: "PeerHealth ''wg0'' sample_key (sample_run [])
      = Ok \<lparr>h_Endpoint = ''192.0.2.7:4500'', Handshake = 63835596800 * second, Received = 1234\<rparr>"
    by code_simp
  from PeerHealth_unambiguous [OF h, of "''transfer''"] h show ?thesis by simp
qed

end
