(* ===== verification/Entity.thy ===== *)
theory Entity
  imports Wg_Info
begin

text \<open>
  Entities and their repositories (\<^verbatim>\<open>internal/entity\<close>, \<^verbatim>\<open>internal/repo\<close>): peer
  identities and the storage keys derived from them, peers, devices, the filter that keeps the
  configured peers a device really has, and the two in-memory repositories. The contract that the
  controllers rely on, a keyed store with a not-found error, is the locale \<open>repository\<close>; both
  repositories interpret it. Every method runs under its repository's mutex, so each is one step.
\<close>

section \<open>Identities (peer\_id.go, keys.go)\<close>

definition PeerKeyLength :: nat where "PeerKeyLength = 32"

record PeerId =
  devicePublicKey :: "byte list"
  peerPublicKey :: "byte list"

text \<open>Copying a slice into a fresh 32-byte array.\<close>

definition copy_key :: "byte list \<Rightarrow> byte list" where
  "copy_key bs = take PeerKeyLength bs @ replicate (PeerKeyLength - length bs) 0"

definition NewPeerId :: "byte list \<Rightarrow> byte list \<Rightarrow> PeerId" where
  "NewPeerId d p = \<lparr>devicePublicKey = copy_key d, peerPublicKey = copy_key p\<rparr>"

definition EndpointKey :: "PeerId \<Rightarrow> string" where
  "EndpointKey p = hex_encode (sha1_Sum (str_bytes Namespace @ [0] @ devicePublicKey p @ peerPublicKey p))"

definition RemoteEndpointKey :: "PeerId \<Rightarrow> string" where
  "RemoteEndpointKey p = hex_encode (sha1_Sum (str_bytes Namespace @ [0] @ peerPublicKey p @ devicePublicKey p))"

definition PeerPublicKeyString :: "PeerId \<Rightarrow> string" where
  "PeerPublicKeyString p = b64_encode (peerPublicKey p)"

section \<open>Peers and devices (peer.go, device.go)\<close>

definition ErrPeerNotFound :: error where "ErrPeerNotFound = ErrNew ''peer not found''"
definition ErrDeviceNotFound :: error where "ErrDeviceNotFound = ErrNew ''device not found''"

record PeerPingConfig =
  Enabled :: bool
  Target :: string
  Interval :: duration
  Timeout :: duration

record Peer =
  p_id :: PeerId
  p_deviceName :: string
  p_publicKey :: "byte list"
  p_plugin :: string
  p_protocol :: string
  p_pingConfig :: PeerPingConfig

definition NewPeer :: "PeerId \<Rightarrow> string \<Rightarrow> byte list \<Rightarrow> string \<Rightarrow> string \<Rightarrow> PeerPingConfig \<Rightarrow> Peer" where
  "NewPeer pid deviceName publicKey plugin protocol pingConfig =
     \<lparr>p_id = pid, p_deviceName = deviceName, p_publicKey = publicKey, p_plugin = plugin,
      p_protocol = protocol, p_pingConfig = pingConfig\<rparr>"

definition LocalId :: "Peer \<Rightarrow> string" where "LocalId p = EndpointKey (p_id p)"
definition RemoteId :: "Peer \<Rightarrow> string" where "RemoteId p = RemoteEndpointKey (p_id p)"

record Device =
  d_name :: string
  d_listenPort :: int
  d_protocol :: string
  d_firewallMark :: int

definition NewDevice :: "string \<Rightarrow> int \<Rightarrow> string \<Rightarrow> int \<Rightarrow> Device" where
  "NewDevice name listenPort protocol firewallMark =
     \<lparr>d_name = name, d_listenPort = listenPort, d_protocol = protocol, d_firewallMark = firewallMark\<rparr>"

section \<open>Filtering (filter\_peer.go)\<close>

text \<open>The two providers are called in this order; the second is not called when the first fails. A
  key that the device map lacks reads as false.\<close>

definition FilterPeer_Execute :: "Peer list res \<Rightarrow> (byte list \<rightharpoonup> bool) res \<Rightarrow> Peer list res" where
  "FilterPeer_Execute configPeers devicePeerMap =
     bind_res configPeers (\<lambda>ps.
     bind_res devicePeerMap (\<lambda>m.
     Ok (filter (\<lambda>p. m (p_publicKey p) = Some True) ps)))"

section \<open>Repositories (devices.go, peers.go)\<close>

record Devices =
  items :: "string \<rightharpoonup> Device"
  status :: "string \<rightharpoonup> LocalStatus"

definition NewDevices :: Devices where
  "NewDevices = \<lparr>items = Map.empty, status = Map.empty\<rparr>"

definition Devices_List :: "string list \<Rightarrow> Devices \<Rightarrow> Device list" where
  "Devices_List ks r = List.map_filter (items r) ks"

definition Devices_Find :: "Devices \<Rightarrow> string \<Rightarrow> Device res" where
  "Devices_Find r name = (case items r name of None \<Rightarrow> Err ErrDeviceNotFound | Some d \<Rightarrow> Ok d)"

definition Devices_Save :: "Devices \<Rightarrow> Device \<Rightarrow> Devices" where
  "Devices_Save r d = r\<lparr>items := (items r)(d_name d \<mapsto> d)\<rparr>"

definition UpdateStatus :: "Devices \<Rightarrow> string \<Rightarrow> LocalStatus \<Rightarrow> Devices" where
  "UpdateStatus r name s = r\<lparr>status := (status r)(name \<mapsto> s)\<rparr>"

definition Status :: "Devices \<Rightarrow> string \<Rightarrow> LocalStatus option" where
  "Status r name = status r name"

type_synonym Peers = "PeerId \<rightharpoonup> Peer"

definition NewPeers :: Peers where "NewPeers = Map.empty"

definition Peers_List :: "PeerId list \<Rightarrow> Peers \<Rightarrow> Peer list" where
  "Peers_List ks r = List.map_filter r ks"

definition ListByDevice :: "PeerId list \<Rightarrow> Peers \<Rightarrow> string \<Rightarrow> Peer list" where
  "ListByDevice ks r deviceName = filter (\<lambda>p. p_deviceName p = deviceName) (List.map_filter r ks)"

definition Peers_Find :: "Peers \<Rightarrow> PeerId \<Rightarrow> Peer res" where
  "Peers_Find r pid = (case r pid of None \<Rightarrow> Err ErrPeerNotFound | Some p \<Rightarrow> Ok p)"

definition Peers_Save :: "Peers \<Rightarrow> Peer \<Rightarrow> Peers" where
  "Peers_Save r p = r(p_id p \<mapsto> p)"

definition GetDevicePeerMap :: "DeviceInfo res \<Rightarrow> (byte list \<rightharpoonup> bool) res" where
  "GetDevicePeerMap device =
     bind_res device (\<lambda>d. Ok (fold (\<lambda>k m. m(k \<mapsto> True)) (PeerKeys d) Map.empty))"

section \<open>The repository contract\<close>

text \<open>A keyed store: what is saved under its own key is found, the other keys are untouched, a key
  never saved is the given error, and listing along an iteration order yields what can be found.\<close>

locale repository =
  fixes empty :: 's
    and save :: "'s \<Rightarrow> 'v \<Rightarrow> 's"
    and lookup :: "'s \<Rightarrow> 'k \<Rightarrow> 'v res"
    and listing :: "'k list \<Rightarrow> 's \<Rightarrow> 'v list"
    and key :: "'v \<Rightarrow> 'k"
    and missing :: error
  assumes lookup_empty: "lookup empty k = Err missing"
    and lookup_save: "lookup (save s v) k = (if k = key v then Ok v else lookup s k)"
    and listing_set: "set (listing ks s) = {v. \<exists>k \<in> set ks. lookup s k = Ok v}"
begin

definition save_all :: "'v list \<Rightarrow> 's \<Rightarrow> 's" where
  "save_all vs s = fold (\<lambda>v s. save s v) vs s"

text \<open>After a batch of saves a lookup sees the last value saved under the key.\<close>

lemma lookup_save_all:
  "lookup (save_all vs s) k = (case find (\<lambda>v. key v = k) (rev vs) of Some v \<Rightarrow> Ok v | None \<Rightarrow> lookup s k)"
proof (induction vs rule: rev_induct)
  case (snoc v vs)
  then show ?case
    by (auto simp: save_all_def lookup_save)
qed (simp add: save_all_def)

lemma save_overwrites: "key v = key w \<Longrightarrow> lookup (save (save s v) w) k = lookup (save s w) k"
  by (simp add: lookup_save)

lemma save_commutes: "key v \<noteq> key w \<Longrightarrow> lookup (save (save s v) w) k = lookup (save (save s w) v) k"
  by (simp add: lookup_save)

definition keyed :: "'s \<Rightarrow> bool" where
  "keyed s \<longleftrightarrow> (\<forall>k v. lookup s k = Ok v \<longrightarrow> key v = k)"

text \<open>Every stored value stands under its own key, in every state that saves reach.\<close>

lemma keyed_empty: "keyed empty"
  by (simp add: keyed_def lookup_empty)

lemma keyed_save: "keyed s \<Longrightarrow> keyed (save s v)"
  by (auto simp: keyed_def lookup_save split: if_splits)

lemma keyed_save_all: "keyed s \<Longrightarrow> keyed (save_all vs s)"
  by (induction vs arbitrary: s) (auto simp: save_all_def keyed_save)

end

lemma set_map_filter: "set (List.map_filter f xs) = {y. \<exists>x \<in> set xs. f x = Some y}"
  by (force simp: List.map_filter_def)

interpretation devices: repository NewDevices Devices_Save Devices_Find Devices_List d_name ErrDeviceNotFound
  by unfold_locales
    (auto simp: Devices_Find_def Devices_Save_def NewDevices_def Devices_List_def set_map_filter
      split: option.splits)

interpretation peers: repository NewPeers Peers_Save Peers_Find Peers_List p_id ErrPeerNotFound
  by unfold_locales
    (auto simp: Peers_Find_def Peers_Save_def NewPeers_def Peers_List_def set_map_filter
      split: option.splits)

section \<open>Properties\<close>

lemma length_copy_key [simp]: "length (copy_key bs) = 32"
  by (simp add: copy_key_def PeerKeyLength_def)

lemma copy_key_id [simp]: "length bs = 32 \<Longrightarrow> copy_key bs = bs"
  by (simp add: copy_key_def PeerKeyLength_def)

text \<open>The two ends of a link meet without talking: the key under which a node stores its own
  endpoint for a peer is the key under which that peer looks the node up, in both directions, and
  it is a name of 40 hexadecimal digits. The message hashed for one direction differs from the
  message hashed for the other.\<close>

theorem rendezvous:
  "EndpointKey (NewPeerId a b) = RemoteEndpointKey (NewPeerId b a)
    \<and> RemoteEndpointKey (NewPeerId a b) = EndpointKey (NewPeerId b a)
    \<and> length (EndpointKey (NewPeerId a b)) = 40
    \<and> hex_decode (EndpointKey (NewPeerId a b)) = Ok (sha1_Sum (str_bytes Namespace @ [0] @ copy_key a @ copy_key b))
    \<and> (str_bytes Namespace @ [0] @ copy_key a @ copy_key b = str_bytes Namespace @ [0] @ copy_key b @ copy_key a
        \<longleftrightarrow> copy_key a = copy_key b)"
  by (auto simp: EndpointKey_def RemoteEndpointKey_def NewPeerId_def)

lemma fold_update_True: "fold (\<lambda>k m. m(k \<mapsto> True)) ks m0 k = (if k \<in> set ks then Some True else m0 k)"
  by (induction ks arbitrary: m0) auto

text \<open>Bootstrap filtering keeps exactly the configured peers that the device has, in the order of
  the configuration, and passes on the first provider's error.\<close>

theorem FilterPeer_exact:
  "FilterPeer_Execute (Ok ps) (GetDevicePeerMap (Ok d)) = Ok (filter (\<lambda>p. p_publicKey p \<in> set (PeerKeys d)) ps)
    \<and> FilterPeer_Execute (Err e) m = Err e
    \<and> FilterPeer_Execute (Ok ps) (GetDevicePeerMap (Err e)) = Err e"
  by (auto simp: FilterPeer_Execute_def GetDevicePeerMap_def fold_update_True intro!: filter_cong)

text \<open>The peer repository is a faithful keyed store: after any batch of saves a lookup returns the
  last peer saved under the identity, or the earlier content when there is none.\<close>

theorem Peers_Find_after_saves:
  "Peers_Find (fold (\<lambda>v s. Peers_Save s v) ps r) pid =
     (case find (\<lambda>p. p_id p = pid) (rev ps) of Some p \<Rightarrow> Ok p | None \<Rightarrow> Peers_Find r pid)"
  using peers.lookup_save_all [of ps r pid] by (simp add: peers.save_all_def)

end
