(* ===== verification/Ping_Monitor.thy ===== *)
theory Ping_Monitor
  imports Entity
begin

text \<open>
  The ping monitor (\<^verbatim>\<open>internal/ctrl/ping_monitor.go\<close>): per-peer ICMP state, the retry and
  back-off schedule that triggers publishing and establishing, the hand-over to the refresh cycle,
  and the attribution of replies to peers. Clock readings, random draws, name resolution, the ICMP
  codec and the socket are arguments. Triggers are recorded as a list of effects.
\<close>

section \<open>State\<close>

definition PeerSpecificRetryThreshold :: int where "PeerSpecificRetryThreshold = 3"
definition PingMonitorStartupDelay :: duration where "PingMonitorStartupDelay = 10 * second"

text \<open>The parts of the configuration that the monitor reads.\<close>

record PingMonitorConfig =
  pm_Interval :: duration
  pm_Timeout :: duration
  FixedRetries :: int
  RefreshInterval :: duration

record PeerPingState =
  ps_peerId :: PeerId
  ps_target :: string
  targetIP :: addr
  ps_interval :: duration
  ps_timeout :: duration
  isHealthy :: bool
  failureCount :: int
  lastPingTime :: time
  lastSentTime :: time
  icmpId :: u16
  lastRetryTime :: time
  nextRetryTime :: time
  retryCount :: int
  backoffMultiplier :: int
  handedOverToRefresh :: bool

record DevicePingMonitor =
  m_deviceName :: string
  peerStates :: "PeerId \<rightharpoonup> PeerPingState"
  usedIcmpIds :: "u16 set"
  icmpIdToPeer :: "u16 \<rightharpoonup> PeerId"

definition NewDevicePingMonitor :: "string \<Rightarrow> DevicePingMonitor" where
  "NewDevicePingMonitor deviceName =
     \<lparr>m_deviceName = deviceName, peerStates = Map.empty, usedIcmpIds = {}, icmpIdToPeer = Map.empty\<rparr>"

datatype ping_effect = PublishTrigger PeerId | EstablishTrigger PeerId

section \<open>The retry schedule\<close>

definition shouldRetryPublishEstablish :: "PeerPingState \<Rightarrow> time \<Rightarrow> bool" where
  "shouldRetryPublishEstablish s now =
     (if retryCount s = 0 then True
      else if handedOverToRefresh s then False
      else nextRetryTime s < now \<or> nextRetryTime s = time_zero)"

definition scheduleNextRetry :: "PingMonitorConfig \<Rightarrow> PeerPingState \<Rightarrow> time \<Rightarrow> PeerPingState" where
  "scheduleNextRetry cfg s0 now =
     (let s = s0\<lparr>retryCount := retryCount s0 + 1, lastRetryTime := now\<rparr>;
          fixedRetries = FixedRetries cfg
      in if retryCount s \<le> fixedRetries then s\<lparr>nextRetryTime := now + 2 * second\<rparr>
         else
           let retryAfterfixed = retryCount s - fixedRetries;
               intervalSeconds = 5 + (retryAfterfixed - 1) * 5;
               backoffInterval = intervalSeconds * second
           in if RefreshInterval cfg \<le> backoffInterval
              then s\<lparr>handedOverToRefresh := True, nextRetryTime := time_zero\<rparr>
              else s\<lparr>nextRetryTime := now + backoffInterval\<rparr>)"

text \<open>\<open>pinged\<close> and \<open>now\<close> are the two clock readings of the handler.\<close>

definition handlePingResult ::
  "PingMonitorConfig \<Rightarrow> PeerPingState \<Rightarrow> bool \<Rightarrow> time \<Rightarrow> time \<Rightarrow> PeerPingState \<times> ping_effect list" where
  "handlePingResult cfg s0 success pinged now =
     (let s = s0\<lparr>lastPingTime := pinged\<rparr> in
      if success then
        (s\<lparr>isHealthy := True, failureCount := 0, retryCount := 0, backoffMultiplier := 1,
          handedOverToRefresh := False, nextRetryTime := time_zero, lastSentTime := time_zero\<rparr>, [])
      else
        let s1 = s\<lparr>isHealthy := False, failureCount := failureCount s + 1\<rparr> in
        if shouldRetryPublishEstablish s1 now
        then (scheduleNextRetry cfg s1 now, [PublishTrigger (ps_peerId s1), EstablishTrigger (ps_peerId s1)])
        else (s1, []))"

section \<open>The device monitor\<close>

text \<open>The loop draws until it finds an unused identifier; \<open>draws\<close> are the values of
  \<^verbatim>\<open>rand.Intn(65535)\<close> in the order they come. \<open>None\<close> means that all of them were used.\<close>

fun generateUniqueIcmpId :: "DevicePingMonitor \<Rightarrow> nat list \<Rightarrow> (u16 \<times> DevicePingMonitor) option" where
  "generateUniqueIcmpId m [] = None"
| "generateUniqueIcmpId m (r # rs) =
     (let i = word_of_nat (r + 1) in
      if i \<notin> usedIcmpIds m then Some (i, m\<lparr>usedIcmpIds := insert i (usedIcmpIds m)\<rparr>)
      else generateUniqueIcmpId m rs)"

definition AddPingPeer ::
  "PingMonitorConfig \<Rightarrow> DevicePingMonitor \<Rightarrow> PeerId \<Rightarrow> PeerPingConfig \<Rightarrow> nat list \<Rightarrow> (string \<Rightarrow> addr res)
    \<Rightarrow> DevicePingMonitor option" where
  "AddPingPeer cfg m pid pc draws resolve =
     (if \<not> Enabled pc \<or> Target pc = [] then Some m
      else
        let itv = (if Interval pc = 0 then pm_Interval cfg else Interval pc);
            tmo = (if Timeout pc = 0 then pm_Timeout cfg else Timeout pc)
        in case generateUniqueIcmpId m draws of
             None \<Rightarrow> None
           | Some (i, m1) \<Rightarrow>
               (case resolve (Target pc) of
                  Ok ip \<Rightarrow>
                    Some (m1\<lparr>peerStates := (peerStates m1)(pid \<mapsto>
                        \<lparr>ps_peerId = pid, ps_target = Target pc, targetIP = ip, ps_interval = itv, ps_timeout = tmo,
                         isHealthy = True, failureCount = 0, lastPingTime = time_zero, lastSentTime = time_zero,
                         icmpId = i, lastRetryTime = time_zero, nextRetryTime = time_zero, retryCount = 0,
                         backoffMultiplier = 1, handedOverToRefresh = False\<rparr>),
                      icmpIdToPeer := (icmpIdToPeer m1)(i \<mapsto> pid)\<rparr>)
                | _ \<Rightarrow> Some m1))"

text \<open>Sending a ping: \<open>marshal\<close> is the ICMP codec, \<open>send\<close> the socket.\<close>

definition sendPingForPeer ::
  "(u16 \<Rightarrow> byte list res) \<Rightarrow> (byte list \<Rightarrow> addr \<Rightarrow> unit res) \<Rightarrow> time \<Rightarrow> PeerPingState \<Rightarrow> PeerPingState" where
  "sendPingForPeer marshal send now s =
     (case marshal (icmpId s) of
        Ok data \<Rightarrow> if is_Ok (send data (targetIP s)) then s\<lparr>lastSentTime := now\<rparr> else s
      | _ \<Rightarrow> s)"

text \<open>One round over the peers in an order \<open>ks\<close>; \<open>clk\<close> reads the clock after each send.\<close>

fun sendPingsToAllPeers ::
  "(u16 \<Rightarrow> byte list res) \<Rightarrow> (byte list \<Rightarrow> addr \<Rightarrow> unit res) \<Rightarrow> (PeerId \<Rightarrow> time) \<Rightarrow> PeerId list \<Rightarrow> DevicePingMonitor \<Rightarrow> DevicePingMonitor" where
  "sendPingsToAllPeers marshal send clk [] m = m"
| "sendPingsToAllPeers marshal send clk (k # ks) m =
     (case peerStates m k of
        None \<Rightarrow> sendPingsToAllPeers marshal send clk ks m
      | Some s \<Rightarrow> sendPingsToAllPeers marshal send clk ks
          (m\<lparr>peerStates := (peerStates m)(k \<mapsto> sendPingForPeer marshal send (clk k) s)\<rparr>))"

text \<open>The timeout check of one peer, and of all of them in an order \<open>ks\<close>. The timeouts are measured
  against one reading \<open>now\<close>; \<open>clk\<close> gives the two readings of \<^verbatim>\<open>handlePingResult\<close> for each peer.
  The check of a peer is one step: what it reads and writes is guarded by the peer's lock.\<close>

definition timeout_peer :: "PingMonitorConfig \<Rightarrow> time \<Rightarrow> time \<times> time \<Rightarrow> PeerPingState \<Rightarrow> PeerPingState \<times> ping_effect list" where
  "timeout_peer cfg now readings s =
     (if lastSentTime s \<noteq> time_zero \<and> ps_timeout s < time_Sub now (lastSentTime s)
      then handlePingResult cfg (s\<lparr>lastSentTime := time_zero\<rparr>) False (fst readings) (snd readings)
      else (s, []))"

fun checkForTimeouts ::
  "PingMonitorConfig \<Rightarrow> time \<Rightarrow> (PeerId \<Rightarrow> time \<times> time) \<Rightarrow> PeerId list \<Rightarrow> DevicePingMonitor
    \<Rightarrow> DevicePingMonitor \<times> ping_effect list" where
  "checkForTimeouts cfg now clk [] m = (m, [])"
| "checkForTimeouts cfg now clk (k # ks) m =
     (case peerStates m k of
        None \<Rightarrow> checkForTimeouts cfg now clk ks m
      | Some s \<Rightarrow>
          (case timeout_peer cfg now (clk k) s of (s', e) \<Rightarrow>
           case checkForTimeouts cfg now clk ks (m\<lparr>peerStates := (peerStates m)(k \<mapsto> s')\<rparr>) of (m', e') \<Rightarrow>
             (m', e @ e')))"

text \<open>A reply: \<open>parsed\<close> is the ICMP codec's result, with \<open>None\<close> for a body that is not an echo; the
  source is \<open>None\<close> when it is not an IP address. The source and the identifier must match.\<close>

definition validateReply :: "addr option \<Rightarrow> PeerPingState \<Rightarrow> u16 \<Rightarrow> bool" where
  "validateReply src s i =
     (case src of
        None \<Rightarrow> False
      | Some a \<Rightarrow> if Unmap a \<noteq> Unmap (targetIP s) then False else if i \<noteq> icmpId s then False else True)"

definition dispatchReply ::
  "PingMonitorConfig \<Rightarrow> int option res \<Rightarrow> addr option \<Rightarrow> time \<Rightarrow> DevicePingMonitor \<Rightarrow> DevicePingMonitor" where
  "dispatchReply cfg parsed src now m =
     (case parsed of
        Ok (Some i0) \<Rightarrow>
          let i = word_of_int i0 in
          (case icmpIdToPeer m i of
             None \<Rightarrow> m
           | Some pid \<Rightarrow>
               (case peerStates m pid of
                  None \<Rightarrow> m
                | Some s \<Rightarrow>
                    if validateReply src s i
                    then m\<lparr>peerStates := (peerStates m)(pid \<mapsto> fst (handlePingResult cfg s True now now))\<rparr>
                    else m))
      | _ \<Rightarrow> m)"

section \<open>The controller\<close>

text \<open>Grouping the monitored peers by device, keeping their order.\<close>

definition monitored :: "Peer \<Rightarrow> bool" where
  "monitored p \<longleftrightarrow> Enabled (p_pingConfig p) \<and> Target (p_pingConfig p) \<noteq> []"

definition group_peers :: "Peer list \<Rightarrow> string \<rightharpoonup> Peer list" where
  "group_peers ps =
     fold (\<lambda>p g. if monitored p
       then g(p_deviceName p \<mapsto> (case g (p_deviceName p) of None \<Rightarrow> [] | Some l \<Rightarrow> l) @ [p]) else g) ps Map.empty"

fun add_all :: "PingMonitorConfig \<Rightarrow> (PeerId \<Rightarrow> nat list) \<Rightarrow> (string \<Rightarrow> addr res) \<Rightarrow> Peer list \<Rightarrow> DevicePingMonitor \<Rightarrow> DevicePingMonitor option" where
  "add_all cfg draws resolve [] m = Some m"
| "add_all cfg draws resolve (p # ps) m =
     Option.bind (AddPingPeer cfg m (p_id p) (p_pingConfig p) (draws (p_id p)) resolve) (add_all cfg draws resolve ps)"

text \<open>The set-up part of \<^verbatim>\<open>Execute\<close>: one monitor per device whose ICMP socket opens, in an order
  \<open>ks\<close> of the devices.\<close>

fun build_monitors ::
  "PingMonitorConfig \<Rightarrow> (PeerId \<Rightarrow> nat list) \<Rightarrow> (string \<Rightarrow> addr res) \<Rightarrow> (string \<Rightarrow> unit res) \<Rightarrow> (string \<rightharpoonup> Peer list)
    \<Rightarrow> string list \<Rightarrow> (string \<rightharpoonup> DevicePingMonitor) \<Rightarrow> (string \<rightharpoonup> DevicePingMonitor) option" where
  "build_monitors cfg draws resolve newConn grp [] ms = Some ms"
| "build_monitors cfg draws resolve newConn grp (d # ks) ms =
     (case grp d of
        None \<Rightarrow> build_monitors cfg draws resolve newConn grp ks ms
      | Some ps \<Rightarrow>
          if \<not> is_Ok (newConn d) then build_monitors cfg draws resolve newConn grp ks ms
          else Option.bind (add_all cfg draws resolve ps (NewDevicePingMonitor d))
            (\<lambda>m. build_monitors cfg draws resolve newConn grp ks (ms(d \<mapsto> m))))"

text \<open>\<^verbatim>\<open>len(devicePeers) == 0\<close> is written as: no peer's device is a key.\<close>

definition Ping_Execute ::
  "PingMonitorConfig \<Rightarrow> (PeerId \<Rightarrow> nat list) \<Rightarrow> (string \<Rightarrow> addr res) \<Rightarrow> (string \<Rightarrow> unit res) \<Rightarrow> string list
    \<Rightarrow> Peer list res \<Rightarrow> (string \<rightharpoonup> DevicePingMonitor) option" where
  "Ping_Execute cfg draws resolve newConn ks peers =
     (case peers of
        Ok ps \<Rightarrow>
          let grp = group_peers ps in
          if list_all (\<lambda>p. Option.is_none (grp (p_deviceName p))) ps then Some Map.empty
          else build_monitors cfg draws resolve newConn grp ks Map.empty
      | _ \<Rightarrow> Some Map.empty)"

fun GetPeerState :: "string list \<Rightarrow> (string \<rightharpoonup> DevicePingMonitor) \<Rightarrow> PeerId \<Rightarrow> bool \<times> int" where
  "GetPeerState [] ms pid = (True, 0)"
| "GetPeerState (d # ks) ms pid =
     (case ms d of
        None \<Rightarrow> GetPeerState ks ms pid
      | Some m \<Rightarrow>
          (case peerStates m pid of
             None \<Rightarrow> GetPeerState ks ms pid
           | Some s \<Rightarrow> (isHealthy s, failureCount s)))"

text \<open>One pass of a loop of the device: \<^verbatim>\<open>deviceSenderLoop\<close>, \<^verbatim>\<open>deviceTimeoutChecker\<close>, or
  \<^verbatim>\<open>deviceReaderLoop\<close> with the packet it received; the three loops interleave freely.\<close>

datatype mon_event =
    SenderTick "u16 \<Rightarrow> byte list res" "byte list \<Rightarrow> addr \<Rightarrow> unit res" "PeerId \<Rightarrow> time" "PeerId list"
  | TimeoutTick time "PeerId \<Rightarrow> time \<times> time" "PeerId list"
  | Received "int option res" "addr option" time

fun mon_step :: "PingMonitorConfig \<Rightarrow> DevicePingMonitor \<Rightarrow> mon_event \<Rightarrow> DevicePingMonitor \<times> ping_effect list" where
  "mon_step cfg m (SenderTick marshal send clk ks) = (sendPingsToAllPeers marshal send clk ks m, [])"
| "mon_step cfg m (TimeoutTick now clk ks) = checkForTimeouts cfg now clk ks m"
| "mon_step cfg m (Received parsed src now) = (dispatchReply cfg parsed src now m, [])"

fun mon_run :: "PingMonitorConfig \<Rightarrow> DevicePingMonitor \<Rightarrow> mon_event list \<Rightarrow> DevicePingMonitor \<times> ping_effect list" where
  "mon_run cfg m [] = (m, [])"
| "mon_run cfg m (ev # evs) =
     (case mon_step cfg m ev of (m1, e) \<Rightarrow> case mon_run cfg m1 evs of (m2, e') \<Rightarrow> (m2, e @ e'))"

section \<open>Invariants of a device monitor\<close>

text \<open>The number of triggers a run of failures may cause, and how many are left in a state.\<close>

definition maxRetries :: "PingMonitorConfig \<Rightarrow> int" where
  "maxRetries cfg = FixedRetries cfg + max 1 (- ((- RefreshInterval cfg) div (5 * second)))"

definition retries_left :: "PingMonitorConfig \<Rightarrow> PeerPingState \<Rightarrow> int" where
  "retries_left cfg s = (if handedOverToRefresh s then 0 else maxRetries cfg - retryCount s)"

definition retry_inv :: "PingMonitorConfig \<Rightarrow> PeerPingState \<Rightarrow> bool" where
  "retry_inv cfg s \<longleftrightarrow>
     0 \<le> retryCount s \<and> (handedOverToRefresh s \<longrightarrow> 0 < retryCount s) \<and>
     (\<not> handedOverToRefresh s \<longrightarrow> retryCount s < maxRetries cfg) \<and>
     (isHealthy s \<longrightarrow> retryCount s = 0 \<and> failureCount s = 0)"

definition mon_inv :: "PingMonitorConfig \<Rightarrow> DevicePingMonitor \<Rightarrow> bool" where
  "mon_inv cfg m \<longleftrightarrow>
     (\<forall>pid s. peerStates m pid = Some s \<longrightarrow>
        ps_peerId s = pid \<and> icmpIdToPeer m (icmpId s) = Some pid \<and> icmpId s \<noteq> 0 \<and> retry_inv cfg s) \<and>
     dom (icmpIdToPeer m) \<subseteq> usedIcmpIds m"

definition triggers :: "PeerId \<Rightarrow> ping_effect list \<Rightarrow> nat" where
  "triggers pid es = count_list es (EstablishTrigger pid)"

lemma triggers_simps [simp]:
  "triggers pid [] = 0"
  "triggers pid (es @ es') = triggers pid es + triggers pid es'"
  by (simp_all add: triggers_def)

lemma maxRetries_pos: "0 \<le> FixedRetries cfg \<Longrightarrow> 0 < maxRetries cfg"
  by (simp add: maxRetries_def)

lemma backoff_below:
  assumes "fx < r" "5 * (r - fx) * second < R"
  shows "r < fx + max 1 (- ((- R) div (5 * second)))"
proof -
  have "(- R) div (5 * second) * (5 * second) \<le> - R"
    using minus_mod_eq_div_mult[of "- R" "5 * second"] pos_mod_sign[of "5 * second" "- R"] by (simp add: second_def)
  also have "- R < - (r - fx) * (5 * second)" using assms(2) by (simp add: algebra_simps)
  finally have "(- R) div (5 * second) < - (r - fx)"
    by (rule mult_right_less_imp_less) (simp add: second_def)
  then show ?thesis by simp
qed

text \<open>A failure keeps the peer's identity; a trigger uses up one of the retries left.\<close>

lemma scheduleNextRetry_keeps [simp]:
  "ps_peerId (scheduleNextRetry cfg s now) = ps_peerId s"
  "icmpId (scheduleNextRetry cfg s now) = icmpId s"
  "targetIP (scheduleNextRetry cfg s now) = targetIP s"
  "isHealthy (scheduleNextRetry cfg s now) = isHealthy s"
  by (simp_all add: scheduleNextRetry_def Let_def)

lemma scheduleNextRetry_inv:
  assumes "retry_inv cfg s" "\<not> handedOverToRefresh s" "\<not> isHealthy s"
  shows "retry_inv cfg (scheduleNextRetry cfg s now)"
    and "retries_left cfg (scheduleNextRetry cfg s now) < retries_left cfg s"
    and "0 \<le> retries_left cfg (scheduleNextRetry cfg s now)"
proof -
  let ?r = "retryCount s + 1" and ?fx = "FixedRetries cfg"
  have below: "?r < maxRetries cfg" if "?fx < ?r" "5 * (?r - ?fx) * second < RefreshInterval cfg"
    using backoff_below[OF that] by (simp add: maxRetries_def)
  have below_fixed: "?r < maxRetries cfg" if "?r \<le> ?fx"
    using that by (simp add: maxRetries_def)
  have inv: "retry_inv cfg (scheduleNextRetry cfg s now) \<and>
      retries_left cfg (scheduleNextRetry cfg s now) < retries_left cfg s \<and>
      0 \<le> retries_left cfg (scheduleNextRetry cfg s now)"
  proof (cases "?r \<le> ?fx")
    case True
    then show ?thesis using assms below_fixed
      by (auto simp: scheduleNextRetry_def retry_inv_def retries_left_def Let_def)
  next
    case False
    then have eq: "(5 + (?r - ?fx - 1) * 5) * second = 5 * (?r - ?fx) * second" by simp
    show ?thesis using False assms below
      by (auto simp: scheduleNextRetry_def retry_inv_def retries_left_def Let_def algebra_simps)
  qed
  then show "retry_inv cfg (scheduleNextRetry cfg s now)"
    and "retries_left cfg (scheduleNextRetry cfg s now) < retries_left cfg s"
    and "0 \<le> retries_left cfg (scheduleNextRetry cfg s now)" by blast+
qed

lemma retry_inv_left: "retry_inv cfg s \<Longrightarrow> 0 \<le> retries_left cfg s"
  by (auto simp: retry_inv_def retries_left_def)

lemma handle_failure:
  assumes "handlePingResult cfg s False pinged now = (s', e)" "retry_inv cfg s"
  shows "retry_inv cfg s'" "ps_peerId s' = ps_peerId s" "icmpId s' = icmpId s" "targetIP s' = targetIP s"
    and "int (triggers (ps_peerId s) e) + retries_left cfg s' \<le> retries_left cfg s"
    and "pid \<noteq> ps_peerId s \<Longrightarrow> triggers pid e = 0"
proof -
  let ?s1 = "s\<lparr>lastPingTime := pinged, isHealthy := False, failureCount := failureCount s + 1\<rparr>"
  have inv1: "retry_inv cfg ?s1" using assms(2) by (simp add: retry_inv_def)
  have left1: "retries_left cfg ?s1 = retries_left cfg s" by (simp add: retries_left_def)
  have nho: "\<not> handedOverToRefresh ?s1" if "shouldRetryPublishEstablish ?s1 now"
    using that assms(2) by (auto simp: shouldRetryPublishEstablish_def retry_inv_def split: if_splits)
  have cases: "(s' = ?s1 \<and> e = []) \<or>
      (shouldRetryPublishEstablish ?s1 now \<and> s' = scheduleNextRetry cfg ?s1 now \<and>
       e = [PublishTrigger (ps_peerId s), EstablishTrigger (ps_peerId s)])"
    using assms(1) by (auto simp: handlePingResult_def Let_def split: if_splits)
  show "retry_inv cfg s'" "ps_peerId s' = ps_peerId s" "icmpId s' = icmpId s" "targetIP s' = targetIP s"
    using cases inv1 scheduleNextRetry_inv(1)[OF inv1 nho] by auto
  show "int (triggers (ps_peerId s) e) + retries_left cfg s' \<le> retries_left cfg s"
    using cases left1 scheduleNextRetry_inv(2)[OF inv1 nho, of now] by (auto simp: triggers_def)
  show "pid \<noteq> ps_peerId s \<Longrightarrow> triggers pid e = 0"
    using cases by (auto simp: triggers_def)
qed

lemma handle_success:
  "handlePingResult cfg s True pinged now = (s', e) \<Longrightarrow>
     s' = s\<lparr>lastPingTime := pinged, isHealthy := True, failureCount := 0, retryCount := 0, backoffMultiplier := 1,
          handedOverToRefresh := False, nextRetryTime := time_zero, lastSentTime := time_zero\<rparr> \<and> e = []"
  by (simp add: handlePingResult_def Let_def)

text \<open>What a step may do to one peer, when no reply answers it: the state goes to one with fewer
  retries left by at least the number of triggers.\<close>

definition advances :: "PingMonitorConfig \<Rightarrow> PeerPingState \<Rightarrow> PeerPingState \<Rightarrow> nat \<Rightarrow> bool" where
  "advances cfg s s' n \<longleftrightarrow>
     retry_inv cfg s' \<and> ps_peerId s' = ps_peerId s \<and> icmpId s' = icmpId s \<and> targetIP s' = targetIP s \<and>
     int n + retries_left cfg s' \<le> retries_left cfg s"

lemma advances_refl: "retry_inv cfg s \<Longrightarrow> advances cfg s s 0"
  by (simp add: advances_def)

lemma advances_trans: "advances cfg s s' n \<Longrightarrow> advances cfg s' s'' k \<Longrightarrow> advances cfg s s'' (n + k)"
  by (simp add: advances_def)

lemma advances_opt_trans:
  assumes "rel_option (\<lambda>s s'. advances cfg s s' n) a b" "rel_option (\<lambda>s s'. advances cfg s s' k) b c"
  shows "rel_option (\<lambda>s s'. advances cfg s s' (n + k)) a c"
  using assms by (cases a; cases b; cases c) (auto intro: advances_trans)

lemma advances_send: "retry_inv cfg s \<Longrightarrow> advances cfg s (sendPingForPeer marshal send now s) 0"
  by (simp add: sendPingForPeer_def advances_def retry_inv_def retries_left_def split: res.splits)

lemma advances_timeout:
  assumes "timeout_peer cfg now rd s = (s', e)" "retry_inv cfg s"
  shows "advances cfg s s' (triggers (ps_peerId s) e)" "pid \<noteq> ps_peerId s \<Longrightarrow> triggers pid e = 0"
proof -
  have inv: "retry_inv cfg (s\<lparr>lastSentTime := time_zero\<rparr>)" and
    left: "retries_left cfg (s\<lparr>lastSentTime := time_zero\<rparr>) = retries_left cfg s"
    using assms(2) by (simp_all add: retry_inv_def retries_left_def)
  show "advances cfg s s' (triggers (ps_peerId s) e)" "pid \<noteq> ps_peerId s \<Longrightarrow> triggers pid e = 0"
    using assms handle_failure[OF _ inv, of "fst rd" "snd rd" s' e] left
    by (auto simp: timeout_peer_def advances_def split: if_splits)
qed

text \<open>The invariant is local to the peer whose state changes.\<close>

lemma mon_inv_update:
  assumes "mon_inv cfg m" "peerStates m k = Some s" "retry_inv cfg s'" "ps_peerId s' = ps_peerId s" "icmpId s' = icmpId s"
  shows "mon_inv cfg (m\<lparr>peerStates := (peerStates m)(k \<mapsto> s')\<rparr>)"
  using assms by (auto simp: mon_inv_def)

lemma mon_invD:
  assumes "mon_inv cfg m" "peerStates m k = Some s"
  shows "ps_peerId s = k" "icmpIdToPeer m (icmpId s) = Some k" "icmpId s \<noteq> 0" "retry_inv cfg s"
  using assms by (auto simp: mon_inv_def)

lemma mon_inv_refl:
  "mon_inv cfg m \<Longrightarrow> rel_option (\<lambda>s s'. advances cfg s s' 0) (peerStates m pid) (peerStates m pid)"
  by (cases "peerStates m pid") (simp_all add: advances_refl mon_invD(4))

lemma send_step:
  assumes "mon_inv cfg m"
  shows "mon_inv cfg (sendPingsToAllPeers marshal send clk ks m) \<and>
    rel_option (\<lambda>s s'. advances cfg s s' 0) (peerStates m pid) (peerStates (sendPingsToAllPeers marshal send clk ks m) pid)"
  using assms
proof (induction ks arbitrary: m)
  case Nil
  then show ?case using mon_inv_refl[of cfg m pid] by auto
next
  case (Cons k ks)
  show ?case
  proof (cases "peerStates m k")
    case None
    then show ?thesis using Cons by simp
  next
    case (Some s)
    let ?s' = "sendPingForPeer marshal send (clk k) s"
    let ?m' = "m\<lparr>peerStates := (peerStates m)(k \<mapsto> ?s')\<rparr>"
    have adv: "advances cfg s ?s' 0" using mon_invD(4)[OF Cons.prems Some] by (rule advances_send)
    have "mon_inv cfg ?m'" using mon_inv_update[OF Cons.prems Some] adv by (simp add: advances_def)
    note IH = Cons.IH[OF this]
    have "rel_option (\<lambda>s s'. advances cfg s s' 0) (peerStates m pid) (peerStates ?m' pid)"
      using adv Some mon_inv_refl[OF Cons.prems, of pid] by (cases "pid = k") simp_all
    then have "rel_option (\<lambda>s s'. advances cfg s s' 0) (peerStates m pid)
        (peerStates (sendPingsToAllPeers marshal send clk ks ?m') pid)"
      using advances_opt_trans[OF _ conjunct2[OF IH]] by fastforce
    then show ?thesis using IH Some by simp
  qed
qed

lemma timeout_step:
  assumes "mon_inv cfg m" "checkForTimeouts cfg now clk ks m = (m', e)"
  shows "mon_inv cfg m' \<and>
    rel_option (\<lambda>s s'. advances cfg s s' (triggers pid e)) (peerStates m pid) (peerStates m' pid)"
  using assms
proof (induction ks arbitrary: m m' e)
  case Nil
  then show ?case using mon_inv_refl[of cfg m pid] by auto
next
  case (Cons k ks)
  show ?case
  proof (cases "peerStates m k")
    case None
    then show ?thesis using Cons by simp
  next
    case (Some s)
    obtain s' e1 where t: "timeout_peer cfg now (clk k) s = (s', e1)" by fastforce
    let ?m1 = "m\<lparr>peerStates := (peerStates m)(k \<mapsto> s')\<rparr>"
    obtain e2 where r: "checkForTimeouts cfg now clk ks ?m1 = (m', e2)" and e: "e = e1 @ e2"
      using Cons.prems(2) Some t by (auto split: prod.splits)
    note inv = mon_invD[OF Cons.prems(1) Some]
    have adv: "advances cfg s s' (triggers k e1)" and other: "pid \<noteq> k \<Longrightarrow> triggers pid e1 = 0"
      using advances_timeout[OF t inv(4)] inv(1) by auto
    have "mon_inv cfg ?m1" using mon_inv_update[OF Cons.prems(1) Some] adv by (simp add: advances_def)
    note IH = Cons.IH[OF this r]
    have "rel_option (\<lambda>s s'. advances cfg s s' (triggers pid e1)) (peerStates m pid) (peerStates ?m1 pid)"
      using adv other Some mon_inv_refl[OF Cons.prems(1), of pid] by (cases "pid = k") simp_all
    then show ?thesis
      using advances_opt_trans[OF _ conjunct2[OF IH]] IH e by simp
  qed
qed

text \<open>Whether a received packet is a reply to the ping of a peer.\<close>

definition answers :: "PeerPingState \<Rightarrow> mon_event \<Rightarrow> bool" where
  "answers s ev = (case ev of
      Received (Ok (Some i)) src now \<Rightarrow> validateReply src s (word_of_int i)
    | _ \<Rightarrow> False)"

lemma validateReply_id: "validateReply src s i \<Longrightarrow> i = icmpId s"
  by (auto simp: validateReply_def split: option.splits if_splits)

lemma dispatchReply_cases:
  "dispatchReply cfg parsed src now m = m \<or>
   (\<exists>pid s. peerStates m pid = Some s \<and> answers s (Received parsed src now) \<and> icmpIdToPeer m (icmpId s) = Some pid \<and>
      dispatchReply cfg parsed src now m =
        m\<lparr>peerStates := (peerStates m)(pid \<mapsto> fst (handlePingResult cfg s True now now))\<rparr>)"
proof (cases "\<exists>i0 pid s. parsed = Ok (Some i0) \<and> icmpIdToPeer m (word_of_int i0) = Some pid \<and>
    peerStates m pid = Some s \<and> validateReply src s (word_of_int i0)")
  case True
  then obtain i0 pid s where c: "parsed = Ok (Some i0)" "icmpIdToPeer m (word_of_int i0) = Some pid"
    "peerStates m pid = Some s" "validateReply src s (word_of_int i0)" by blast
  moreover have "word_of_int i0 = icmpId s" using c(4) by (rule validateReply_id)
  ultimately show ?thesis by (auto simp: dispatchReply_def answers_def Let_def)
next
  case False
  then show ?thesis by (auto simp: dispatchReply_def Let_def split: res.splits option.splits)
qed

lemma retry_inv_success:
  "0 \<le> FixedRetries cfg \<Longrightarrow> retry_inv cfg (fst (handlePingResult cfg s True now now'))"
  by (simp add: handlePingResult_def Let_def retry_inv_def maxRetries_pos)

lemma dispatch_inv:
  assumes "0 \<le> FixedRetries cfg" "mon_inv cfg m"
  shows "mon_inv cfg (dispatchReply cfg parsed src now m)"
  using dispatchReply_cases[of cfg parsed src now m] assms(2)
proof (elim disjE exE conjE)
  fix pid s
  assume "peerStates m pid = Some s"
    and eq: "dispatchReply cfg parsed src now m = m\<lparr>peerStates := (peerStates m)(pid \<mapsto> fst (handlePingResult cfg s True now now))\<rparr>"
  then show "mon_inv cfg (dispatchReply cfg parsed src now m)"
    using mon_inv_update[OF assms(2), of pid s] retry_inv_success[OF assms(1)] eq
    by (simp add: handlePingResult_def Let_def)
qed simp

lemma mon_step_inv:
  assumes "0 \<le> FixedRetries cfg" "mon_inv cfg m" "mon_step cfg m ev = (m', e)"
  shows "mon_inv cfg m'"
  using assms send_step[OF assms(2)] timeout_step[OF assms(2)] dispatch_inv[OF assms(1,2)]
  by (cases ev) auto

lemma mon_run_inv:
  "0 \<le> FixedRetries cfg \<Longrightarrow> mon_inv cfg m \<Longrightarrow> mon_inv cfg (fst (mon_run cfg m evs))"
proof (induction evs arbitrary: m)
  case (Cons ev evs)
  obtain m1 e where "mon_step cfg m ev = (m1, e)" by fastforce
  then show ?case using Cons mon_step_inv[of cfg m ev m1 e] by (simp split: prod.splits) (metis fst_conv)
qed simp

lemma answers_other:
  assumes "mon_inv cfg m" "peerStates m pid = Some s" "\<not> answers s (Received parsed src now)"
  shows "peerStates (dispatchReply cfg parsed src now m) pid = Some s"
  using dispatchReply_cases[of cfg parsed src now m] assms by auto

lemma mon_step_advances:
  assumes "mon_inv cfg m" "peerStates m pid = Some s" "\<not> answers s ev" "mon_step cfg m ev = (m', e)"
  shows "\<exists>s'. peerStates m' pid = Some s' \<and> advances cfg s s' (triggers pid e)"
proof (cases ev)
  case (SenderTick marshal send clk ks)
  then show ?thesis using send_step[OF assms(1), of marshal send clk ks pid] assms(2,4)
    by (auto simp: option_rel_Some1)
next
  case (TimeoutTick now clk ks)
  then show ?thesis using timeout_step[OF assms(1), of now clk ks m' e pid] assms(2,4)
    by (auto simp: option_rel_Some1)
next
  case (Received parsed src now)
  then show ?thesis using answers_other[OF assms(1,2), of parsed src now] assms(3,4) mon_invD(4)[OF assms(1,2)]
    by (auto simp: advances_refl)
qed

lemma answers_same: "advances cfg s s' n \<Longrightarrow> answers s' ev = answers s ev"
  by (auto simp: advances_def answers_def validateReply_def split: mon_event.splits res.splits option.splits)

lemma mon_run_advances:
  assumes "0 \<le> FixedRetries cfg" "mon_inv cfg m" "peerStates m pid = Some s" "\<forall>ev\<in>set evs. \<not> answers s ev"
  shows "\<exists>s'. peerStates (fst (mon_run cfg m evs)) pid = Some s' \<and> advances cfg s s' (triggers pid (snd (mon_run cfg m evs)))"
  using assms(2-4)
proof (induction evs arbitrary: m s)
  case Nil
  then show ?case using advances_refl[OF mon_invD(4)[OF Nil(1,2)]] by simp
next
  case (Cons ev evs)
  obtain m1 e where st: "mon_step cfg m ev = (m1, e)" by fastforce
  obtain s1 where s1: "peerStates m1 pid = Some s1" "advances cfg s s1 (triggers pid e)"
    using mon_step_advances[OF Cons.prems(1,2) _ st] Cons.prems(3) by auto
  have "\<forall>ev\<in>set evs. \<not> answers s1 ev" using Cons.prems(3) answers_same[OF s1(2)] by simp
  from Cons.IH[OF mon_step_inv[OF assms(1) Cons.prems(1) st] s1(1) this]
  obtain s' where "peerStates (fst (mon_run cfg m1 evs)) pid = Some s'"
    "advances cfg s1 s' (triggers pid (snd (mon_run cfg m1 evs)))" by blast
  then show ?case using st advances_trans[OF s1(2)] by (cases "mon_run cfg m1 evs") simp
qed

section \<open>Setting the monitors up\<close>

lemma draw_nonzero: "r < 65535 \<Longrightarrow> (word_of_nat (r + 1) :: u16) \<noteq> 0"
  by (simp add: word_unat_eq_iff unat_of_nat del: of_nat_Suc of_nat_add)

lemma generateUniqueIcmpId_Some:
  assumes "generateUniqueIcmpId m draws = Some (i, m1)" "\<forall>r\<in>set draws. r < 65535"
  shows "i \<notin> usedIcmpIds m" "i \<noteq> 0" "m1 = m\<lparr>usedIcmpIds := insert i (usedIcmpIds m)\<rparr>"
  using assms
  using draw_nonzero
  by (induction m draws rule: generateUniqueIcmpId.induct) (auto simp: Let_def split: if_splits)

lemma generateUniqueIcmpId_returns:
  "r \<in> set draws \<Longrightarrow> word_of_nat (r + 1) \<notin> usedIcmpIds m \<Longrightarrow> \<exists>i m1. generateUniqueIcmpId m draws = Some (i, m1)"
  by (induction m draws rule: generateUniqueIcmpId.induct) (auto simp: Let_def)

text \<open>Taking a fresh identifier, and giving it to a peer, keep the invariant.\<close>

lemma mon_inv_take:
  "mon_inv cfg m \<Longrightarrow> mon_inv cfg (m\<lparr>usedIcmpIds := insert i (usedIcmpIds m)\<rparr>)"
  unfolding mon_inv_def by (auto simp del: not_None_eq)

lemma mon_inv_give:
  assumes "mon_inv cfg m" "icmpIdToPeer m i = None" "i \<in> usedIcmpIds m" "i \<noteq> 0"
    "ps_peerId s = pid" "icmpId s = i" "retry_inv cfg s"
  shows "mon_inv cfg (m\<lparr>peerStates := (peerStates m)(pid \<mapsto> s), icmpIdToPeer := (icmpIdToPeer m)(i \<mapsto> pid)\<rparr>)"
proof -
  have "icmpId t \<noteq> i" if "peerStates m k = Some t" for k t
    using mon_invD(2)[OF assms(1) that] assms(2) by auto
  then show ?thesis using assms unfolding mon_inv_def by (simp add: subset_eq)
qed

lemma AddPingPeer_inv:
  assumes "0 \<le> FixedRetries cfg" "\<forall>r\<in>set draws. r < 65535" "mon_inv cfg m" "AddPingPeer cfg m pid pc draws resolve = Some m'"
  shows "mon_inv cfg m'"
proof (cases "\<not> Enabled pc \<or> Target pc = []")
  case True
  then show ?thesis using assms by (simp add: AddPingPeer_def)
next
  case False
  then obtain i m1 where g: "generateUniqueIcmpId m draws = Some (i, m1)"
    using assms(4) by (cases "generateUniqueIcmpId m draws") (auto simp: AddPingPeer_def Let_def)
  note u = generateUniqueIcmpId_Some[OF g assms(2)]
  have fresh: "icmpIdToPeer m1 i = None" using u assms(3) by (auto simp: mon_inv_def)
  have m1: "mon_inv cfg m1" using mon_inv_take[OF assms(3)] u(3) by simp
  show ?thesis
  proof (cases "resolve (Target pc)")
    case (Ok ip)
    show ?thesis
      using assms(4) False g Ok
      by (auto simp: AddPingPeer_def Let_def retry_inv_def maxRetries_pos[OF assms(1)] u(2,3)
          intro!: mon_inv_give[OF m1 fresh, unfolded u(3), simplified] simp del: )
  qed (use assms(4) False g m1 in \<open>auto simp: AddPingPeer_def Let_def\<close>)
qed

lemma add_all_inv:
  "0 \<le> FixedRetries cfg \<Longrightarrow> \<forall>pid. \<forall>r\<in>set (draws pid). r < 65535 \<Longrightarrow> mon_inv cfg m \<Longrightarrow>
     add_all cfg draws resolve ps m = Some m' \<Longrightarrow> mon_inv cfg m'"
  by (induction ps arbitrary: m) (auto split: bind_splits dest: AddPingPeer_inv)

lemma build_monitors_inv:
  assumes "0 \<le> FixedRetries cfg" "\<forall>pid. \<forall>r\<in>set (draws pid). r < 65535" "\<forall>d m. ms d = Some m \<longrightarrow> mon_inv cfg m"
    "build_monitors cfg draws resolve newConn grp ks ms = Some ms'" "ms' d = Some m"
  shows "mon_inv cfg m"
  using assms(3,4)
proof (induction ks arbitrary: ms)
  case Nil
  then show ?case using assms(5) by simp
next
  case (Cons k ks)
  have new: "mon_inv cfg (NewDevicePingMonitor k)" by (simp add: mon_inv_def NewDevicePingMonitor_def)
  have upd: "\<forall>d m. (ms(k \<mapsto> x)) d = Some m \<longrightarrow> mon_inv cfg m"
    if "add_all cfg draws resolve ps (NewDevicePingMonitor k) = Some x" for ps x
    using Cons.prems(1) add_all_inv[OF assms(1,2) new that] by simp
  show ?case
    using Cons.IH[OF Cons.prems(1)] Cons.IH[OF upd, unfolded fun_upd_def] Cons.prems(2)
    by (auto simp: fun_upd_def split: option.splits if_splits bind_splits)
qed

lemma Ping_Execute_inv:
  assumes "0 \<le> FixedRetries cfg" "\<forall>pid. \<forall>r\<in>set (draws pid). r < 65535"
    "Ping_Execute cfg draws resolve newConn ks peers = Some ms" "ms d = Some m"
  shows "mon_inv cfg m"
  using assms build_monitors_inv[OF assms(1,2), of Map.empty resolve newConn _ ks ms d m]
  by (auto simp: Ping_Execute_def Let_def split: res.splits if_splits)

text \<open>The monitor of a device at any later moment: after any interleaving of the loops' passes.\<close>

definition monitor_at ::
  "PingMonitorConfig \<Rightarrow> (string \<rightharpoonup> DevicePingMonitor) option \<Rightarrow> string \<Rightarrow> mon_event list \<Rightarrow> DevicePingMonitor option" where
  "monitor_at cfg ms d evs = (case ms of None \<Rightarrow> None | Some f \<Rightarrow> map_option (\<lambda>m. fst (mon_run cfg m evs)) (f d))"

lemma monitor_at_inv:
  assumes "0 \<le> FixedRetries cfg" "\<forall>pid. \<forall>r\<in>set (draws pid). r < 65535"
    "monitor_at cfg (Ping_Execute cfg draws resolve newConn ks peers) d evs = Some m"
  shows "mon_inv cfg m"
  using assms by (auto simp: monitor_at_def split: option.splits intro!: mon_run_inv Ping_Execute_inv)

section \<open>Properties\<close>

lemma failure_run_triggers:
  assumes "0 \<le> FixedRetries cfg" "\<forall>pid. \<forall>r\<in>set (draws pid). r < 65535"
    "monitor_at cfg (Ping_Execute cfg draws resolve newConn ks peers) d history = Some m"
    "peerStates m pid = Some s" "\<forall>ev\<in>set evs. \<not> answers s ev"
  shows "int (triggers pid (snd (mon_run cfg m evs))) \<le> maxRetries cfg \<and>
    (handedOverToRefresh s \<longrightarrow> triggers pid (snd (mon_run cfg m evs)) = 0)"
proof -
  note inv = monitor_at_inv[OF assms(1-3)]
  obtain s' where "advances cfg s s' (triggers pid (snd (mon_run cfg m evs)))"
    using mon_run_advances[OF assms(1) inv assms(4,5)] by blast
  then have le: "int (triggers pid (snd (mon_run cfg m evs))) \<le> retries_left cfg s"
    using retry_inv_left[of cfg s'] by (simp add: advances_def)
  then show ?thesis
    using mon_invD(4)[OF inv assms(4)] maxRetries_pos[OF assms(1)]
    by (auto simp: retries_left_def retry_inv_def split: if_splits)
qed

text \<open>From any state the monitor can be in, and for as long as a peer sends no valid reply, at most
  \<open>maxRetries\<close> publish/establish rounds are triggered for it however often its pings time out: the
  fixed retries, then the arithmetic back-off, after which the refresh cycle is in charge.\<close>

theorem failure_run_bounded:
  assumes "0 \<le> FixedRetries cfg" "\<forall>pid. \<forall>r\<in>set (draws pid). r < 65535"
    "monitor_at cfg (Ping_Execute cfg draws resolve newConn ks peers) d history = Some m"
    "peerStates m pid = Some s" "\<forall>ev\<in>set evs. \<not> answers s ev"
  shows "int (triggers pid (snd (mon_run cfg m evs))) \<le> maxRetries cfg \<and>
    (handedOverToRefresh s \<longrightarrow> triggers pid (snd (mon_run cfg m evs)) = 0)"
  using assms by (rule failure_run_triggers)

text \<open>C28. A valid reply ends a run of failures whatever its length: the peer is healthy with no failures
  counted, any hand-over to the refresh cycle is undone, and the next timeout triggers publish and
  establish for exactly this peer again. No other peer's state changes.\<close>

theorem reply_rearms:
  assumes "0 \<le> FixedRetries cfg" "\<forall>pid. \<forall>r\<in>set (draws pid). r < 65535"
    "monitor_at cfg (Ping_Execute cfg draws resolve newConn ks peers) d history = Some m"
    "peerStates m pid = Some s" "answers s (Received parsed src now)"
  shows "\<exists>s'. peerStates (dispatchReply cfg parsed src now m) pid = Some s' \<and>
      isHealthy s' \<and> failureCount s' = 0 \<and> \<not> handedOverToRefresh s' \<and> lastSentTime s' = time_zero \<and>
      (\<forall>t1 t2. snd (handlePingResult cfg s' False t1 t2) = [PublishTrigger pid, EstablishTrigger pid]) \<and>
      (\<forall>q. q \<noteq> pid \<longrightarrow> peerStates (dispatchReply cfg parsed src now m) q = peerStates m q)"
proof -
  note inv = mon_invD[OF monitor_at_inv[OF assms(1-3)] assms(4)]
  obtain i0 where p: "parsed = Ok (Some i0)" "validateReply src s (word_of_int i0)"
    using assms(5) by (auto simp: answers_def split: res.splits option.splits)
  have "word_of_int i0 = icmpId s" using p(2) by (rule validateReply_id)
  then have "dispatchReply cfg parsed src now m = m\<lparr>peerStates := (peerStates m)(pid \<mapsto> fst (handlePingResult cfg s True now now))\<rparr>"
    using p inv(2) assms(4) by (simp add: dispatchReply_def Let_def)
  then show ?thesis
    using inv(1) by (simp add: handlePingResult_def Let_def shouldRetryPublishEstablish_def)
qed

text \<open>C29. Replies are attributed without ambiguity: at any moment the monitored peers of a device have
  pairwise distinct non-zero ICMP identifiers, each found again from its identifier; and a received
  packet changes a peer's state only if it comes from that peer's target and carries its identifier.\<close>

theorem reply_attribution:
  assumes "0 \<le> FixedRetries cfg" "\<forall>pid. \<forall>r\<in>set (draws pid). r < 65535"
    "monitor_at cfg (Ping_Execute cfg draws resolve newConn ks peers) d history = Some m"
    "peerStates m pid = Some s"
  shows "icmpId s \<noteq> 0 \<and> icmpIdToPeer m (icmpId s) = Some pid \<and>
    (\<forall>q t. peerStates m q = Some t \<longrightarrow> icmpId t = icmpId s \<longrightarrow> q = pid) \<and>
    (peerStates (dispatchReply cfg parsed src now m) pid \<noteq> Some s \<longrightarrow>
      (\<exists>a i. parsed = Ok (Some i) \<and> src = Some a \<and> Unmap a = Unmap (targetIP s) \<and> word_of_int i = icmpId s))"
proof -
  note inv = monitor_at_inv[OF assms(1-3)]
  have uniq: "q = pid" if "peerStates m q = Some t" "icmpId t = icmpId s" for q t
    using mon_invD(2)[OF inv that(1)] mon_invD(2)[OF inv assms(4)] that(2) by simp
  have "answers s (Received parsed src now)" if "peerStates (dispatchReply cfg parsed src now m) pid \<noteq> Some s"
    using answers_other[OF inv assms(4)] that by blast
  then show ?thesis
    using mon_invD(2,3)[OF inv assms(4)] uniq
    by (auto simp: answers_def validateReply_def split: res.splits option.splits if_splits)
qed

section \<open>Witnesses\<close>

text \<open>A concrete set-up: one peer behind \<open>wg0\<close>, pinged at \<^verbatim>\<open>10.0.0.2\<close>, three fixed retries and a
  20-second refresh interval.\<close>

definition ex_cfg :: PingMonitorConfig where
  "ex_cfg = \<lparr>pm_Interval = second, pm_Timeout = 2 * second, FixedRetries = 3, RefreshInterval = 20 * second\<rparr>"

definition ex_pid :: PeerId where
  "ex_pid = NewPeerId (replicate 32 1) (replicate 32 2)"

definition ex_peer :: Peer where
  "ex_peer = NewPeer ex_pid ''wg0'' (replicate 32 2) ''p'' ''v4''
     \<lparr>Enabled = True, Target = ''10.0.0.2'', Interval = 0, Timeout = 0\<rparr>"

definition ex_monitors :: "(string \<rightharpoonup> DevicePingMonitor) option" where
  "ex_monitors = Ping_Execute ex_cfg (\<lambda>_. [7]) (\<lambda>_. Ok (AddrFrom4 [10, 0, 0, 2])) (\<lambda>_. Ok ()) [''wg0''] (Ok [ex_peer])"

definition ex_failure :: "int \<Rightarrow> mon_event list" where
  "ex_failure t = [SenderTick (\<lambda>_. Ok []) (\<lambda>_ _. Ok ()) (\<lambda>_. t * second) [ex_pid],
     TimeoutTick ((t + 3) * second) (\<lambda>_. ((t + 3) * second, (t + 3) * second)) [ex_pid]]"

definition ex_mon :: "mon_event list \<Rightarrow> DevicePingMonitor" where
  "ex_mon evs = the (monitor_at ex_cfg ex_monitors ''wg0'' evs)"

lemma ex_mon_eq:
  "monitor_at ex_cfg (Ping_Execute ex_cfg (\<lambda>_. [7]) (\<lambda>_. Ok (AddrFrom4 [10, 0, 0, 2])) (\<lambda>_. Ok ()) [''wg0''] (Ok [ex_peer]))
     ''wg0'' evs = Some (ex_mon evs)"
proof -
  have "\<not> Option.is_none (Option.bind ex_monitors (\<lambda>f. f ''wg0''))" by code_simp
  then obtain f m where "ex_monitors = Some f" "f ''wg0'' = Some m"
    by (cases "Option.bind ex_monitors (\<lambda>f. f ''wg0'')") (auto simp: bind_eq_Some_conv)
  then show ?thesis
    unfolding ex_mon_def ex_monitors_def by (simp add: monitor_at_def)
qed

lemma ex_draws: "\<forall>pid. \<forall>r\<in>set ((\<lambda>_::PeerId. [7::nat]) pid). r < 65535" by simp

lemma ex_fixed: "0 \<le> FixedRetries ex_cfg" by code_simp

text \<open>Ten timeouts in a row use all seven retries.\<close>

definition ex_run :: "mon_event list" where
  "ex_run = concat (map (\<lambda>k. ex_failure (100 * int k)) [1..<11])"

definition ex_state :: "mon_event list \<Rightarrow> PeerPingState" where
  "ex_state evs = the (peerStates (ex_mon evs) ex_pid)"

lemma ex_state_fresh: "peerStates (ex_mon []) ex_pid = Some (ex_state [])" by code_simp

lemma ex_state_failed: "peerStates (ex_mon ex_run) ex_pid = Some (ex_state ex_run)" by code_simp

theorem failure_run_bounded_witness:
  "triggers ex_pid (snd (mon_run ex_cfg (ex_mon []) ex_run)) = 7 \<and> maxRetries ex_cfg = 7 \<and>
   int (triggers ex_pid (snd (mon_run ex_cfg (ex_mon []) ex_run))) \<le> maxRetries ex_cfg"
proof -
  have "\<forall>ev\<in>set ex_run. \<not> answers (ex_state []) ev"
    by (simp add: ex_run_def ex_failure_def answers_def)
  moreover have "triggers ex_pid (snd (mon_run ex_cfg (ex_mon []) ex_run)) = 7" by code_simp
  moreover have "maxRetries ex_cfg = 7" by code_simp
  ultimately show ?thesis
    using failure_run_bounded[OF ex_fixed ex_draws ex_mon_eq ex_state_fresh, of ex_run] by simp
qed

theorem reply_rearms_witness:
  "handedOverToRefresh (ex_state ex_run) \<and>
   (\<exists>s'. peerStates (dispatchReply ex_cfg (Ok (Some 8)) (Some (AddrFrom4 [10, 0, 0, 2])) (2000 * second) (ex_mon ex_run)) ex_pid = Some s' \<and>
      isHealthy s' \<and> \<not> handedOverToRefresh s')"
proof -
  have "answers (ex_state ex_run) (Received (Ok (Some 8)) (Some (AddrFrom4 [10, 0, 0, 2])) (2000 * second))"
    by code_simp
  note reply_rearms[OF ex_fixed ex_draws ex_mon_eq ex_state_failed this]
  moreover have "handedOverToRefresh (ex_state ex_run)" by code_simp
  ultimately show ?thesis by blast
qed

theorem reply_attribution_witness:
  "icmpId (ex_state ex_run) \<noteq> 0 \<and> icmpIdToPeer (ex_mon ex_run) (icmpId (ex_state ex_run)) = Some ex_pid"
  using reply_attribution[OF ex_fixed ex_draws ex_mon_eq ex_state_failed] by blast

end
