(* ===== verification/Ping_Lifecycle.thy ===== *)
theory Ping_Lifecycle
  imports Ping_Monitor
begin

text \<open>
  A run of the ping monitor from start to return (\<^verbatim>\<open>PingMonitorController.Execute\<close> in
  \<^verbatim>\<open>internal/ctrl/ping_monitor.go\<close>) as a step relation: the delay at the start, the set-up, the three loops
  of every device interleaved with the cancellation, and the shutdown that closes the sockets, waits for the
  loops and clears the monitors. The lemmas give the invariant of a run and a measure under which a
  cancelled run comes to its end.
\<close>

section \<open>A run\<close>

datatype ping_loop = SenderLoop | ReaderLoop | CheckerLoop

text \<open>Where \<^verbatim>\<open>Execute\<close> stands; while it closes, the devices whose sockets are still to be closed.\<close>

datatype ping_phase = PhDelay | PhBuild | PhMonitor | PhClose "string list" | PhJoin | PhDone | PhCrash

text \<open>\<open>pg_loops\<close> are the loops that have not returned, \<open>pg_receiving\<close> the devices whose reader waits for a packet;
  \<open>pg_opened\<close> and \<open>pg_closed\<close> record the sockets.\<close>

record ping_run =
  pg_phase :: ping_phase
  pg_cancelled :: bool
  pg_monitors :: "string \<rightharpoonup> DevicePingMonitor"
  pg_loops :: "(string \<times> ping_loop) set"
  pg_receiving :: "string set"
  pg_opened :: "string set"
  pg_closed :: "string list"
  pg_effects :: "ping_effect list"

definition ping_init :: ping_run where
  "ping_init = \<lparr>pg_phase = PhDelay, pg_cancelled = False, pg_monitors = Map.empty, pg_loops = {}, pg_receiving = {},
     pg_opened = {}, pg_closed = [], pg_effects = []\<rparr>"

text \<open>The two early returns of the set-up: the peers cannot be listed, or none is monitored.\<close>

definition nothing_to_monitor :: "Peer list res \<Rightarrow> bool" where
  "nothing_to_monitor peers = (case peers of
      Ok ps \<Rightarrow> list_all (\<lambda>p. Option.is_none (group_peers ps (p_deviceName p))) ps
    | _ \<Rightarrow> True)"

text \<open>A ticker needs a positive period: the sender's is the interval, the checker's half the timeout. The first
  statement of either loop panics otherwise.\<close>

definition ticker_ok :: "PingMonitorConfig \<Rightarrow> ping_loop \<Rightarrow> bool" where
  "ticker_ok cfg l = (case l of SenderLoop \<Rightarrow> 0 < pm_Interval cfg | CheckerLoop \<Rightarrow> 0 < pm_Timeout cfg div 2 | ReaderLoop \<Rightarrow> True)"

text \<open>The loop that makes an event.\<close>

definition loop_of :: "mon_event \<Rightarrow> ping_loop" where
  "loop_of ev = (case ev of SenderTick _ _ _ _ \<Rightarrow> SenderLoop | TimeoutTick _ _ _ \<Rightarrow> CheckerLoop | Received _ _ _ \<Rightarrow> ReaderLoop)"

inductive ping_step ::
  "PingMonitorConfig \<Rightarrow> Peer list res \<Rightarrow> (string \<rightharpoonup> DevicePingMonitor) option \<Rightarrow> ping_run \<Rightarrow> ping_run \<Rightarrow> bool"
  for cfg peers built where
  cancel: "pg_phase s \<noteq> PhCrash \<Longrightarrow> ping_step cfg peers built s (s\<lparr>pg_cancelled := True\<rparr>)"
| delay_cancelled: "pg_phase s = PhDelay \<Longrightarrow> pg_cancelled s \<Longrightarrow> ping_step cfg peers built s (s\<lparr>pg_phase := PhDone\<rparr>)"
| delay_over: "pg_phase s = PhDelay \<Longrightarrow> ping_step cfg peers built s (s\<lparr>pg_phase := PhBuild\<rparr>)"
| build_nothing: "pg_phase s = PhBuild \<Longrightarrow> nothing_to_monitor peers \<Longrightarrow> ping_step cfg peers built s (s\<lparr>pg_phase := PhDone\<rparr>)"
| build: "pg_phase s = PhBuild \<Longrightarrow> \<not> nothing_to_monitor peers \<Longrightarrow> built = Some ms \<Longrightarrow> ms' = pg_monitors s ++ ms \<Longrightarrow>
    ping_step cfg peers built s (s\<lparr>pg_phase := PhMonitor, pg_monitors := ms', pg_loops := dom ms' \<times> UNIV, pg_opened := dom ms\<rparr>)"
| tick: "pg_phase s \<noteq> PhCrash \<Longrightarrow> (d, loop_of ev) \<in> pg_loops s \<Longrightarrow> ticker_ok cfg (loop_of ev) \<Longrightarrow> loop_of ev \<noteq> ReaderLoop \<Longrightarrow>
    pg_monitors s d = Some m \<Longrightarrow> mon_step cfg m ev = (m', es) \<Longrightarrow>
    ping_step cfg peers built s (s\<lparr>pg_monitors := (pg_monitors s)(d \<mapsto> m'), pg_effects := pg_effects s @ es\<rparr>)"
| receive: "pg_phase s \<noteq> PhCrash \<Longrightarrow> (d, ReaderLoop) \<in> pg_loops s \<Longrightarrow> d \<notin> pg_receiving s \<Longrightarrow> \<not> pg_cancelled s \<Longrightarrow>
    ping_step cfg peers built s (s\<lparr>pg_receiving := insert d (pg_receiving s)\<rparr>)"
| received: "pg_phase s \<noteq> PhCrash \<Longrightarrow> d \<in> pg_receiving s \<Longrightarrow> loop_of ev = ReaderLoop \<Longrightarrow> pg_monitors s d = Some m \<Longrightarrow>
    mon_step cfg m ev = (m', es) \<Longrightarrow>
    ping_step cfg peers built s (s\<lparr>pg_receiving := pg_receiving s - {d}, pg_monitors := (pg_monitors s)(d \<mapsto> m'), pg_effects := pg_effects s @ es\<rparr>)"
| receive_failed: "pg_phase s \<noteq> PhCrash \<Longrightarrow> d \<in> pg_receiving s \<Longrightarrow> ping_step cfg peers built s (s\<lparr>pg_receiving := pg_receiving s - {d}\<rparr>)"
| loop_returns: "pg_phase s \<noteq> PhCrash \<Longrightarrow> (d, l) \<in> pg_loops s \<Longrightarrow> pg_cancelled s \<Longrightarrow> ticker_ok cfg l \<Longrightarrow> l = ReaderLoop \<longrightarrow> d \<notin> pg_receiving s \<Longrightarrow>
    ping_step cfg peers built s (s\<lparr>pg_loops := pg_loops s - {(d, l)}\<rparr>)"
| loop_panics: "(d, l) \<in> pg_loops s \<Longrightarrow> \<not> ticker_ok cfg l \<Longrightarrow> ping_step cfg peers built s (s\<lparr>pg_phase := PhCrash\<rparr>)"
| stop: "pg_phase s = PhMonitor \<Longrightarrow> pg_cancelled s \<Longrightarrow> distinct ds \<Longrightarrow> set ds = dom (pg_monitors s) \<Longrightarrow>
    ping_step cfg peers built s (s\<lparr>pg_phase := PhClose ds\<rparr>)"
| close: "pg_phase s = PhClose (d # ds) \<Longrightarrow> ping_step cfg peers built s (s\<lparr>pg_phase := PhClose ds, pg_closed := pg_closed s @ [d]\<rparr>)"
| all_closed: "pg_phase s = PhClose [] \<Longrightarrow> ping_step cfg peers built s (s\<lparr>pg_phase := PhJoin\<rparr>)"
| joined: "pg_phase s = PhJoin \<Longrightarrow> pg_loops s = {} \<Longrightarrow> ping_step cfg peers built s (s\<lparr>pg_phase := PhDone, pg_monitors := Map.empty\<rparr>)"

section \<open>What holds during a run\<close>

definition phase_inv :: "ping_run \<Rightarrow> bool" where
  "phase_inv s = (case pg_phase s of
      PhDelay \<Rightarrow> pg_loops s = {} \<and> pg_monitors s = Map.empty \<and> pg_closed s = [] \<and> pg_opened s = {}
    | PhBuild \<Rightarrow> pg_loops s = {} \<and> pg_monitors s = Map.empty \<and> pg_closed s = [] \<and> pg_opened s = {}
    | PhMonitor \<Rightarrow> pg_closed s = [] \<and> dom (pg_monitors s) = pg_opened s
    | PhClose ds \<Rightarrow> pg_cancelled s \<and> dom (pg_monitors s) = pg_opened s \<and> distinct (pg_closed s @ ds) \<and> set (pg_closed s @ ds) = pg_opened s
    | PhJoin \<Rightarrow> pg_cancelled s \<and> dom (pg_monitors s) = pg_opened s \<and> distinct (pg_closed s) \<and> set (pg_closed s) = pg_opened s
    | PhDone \<Rightarrow> pg_loops s = {} \<and> pg_monitors s = Map.empty \<and> distinct (pg_closed s) \<and> set (pg_closed s) = pg_opened s
    | PhCrash \<Rightarrow> True)"

definition loop_inv :: "ping_run \<Rightarrow> bool" where
  "loop_inv s \<longleftrightarrow> (\<forall>d\<in>pg_receiving s. (d, ReaderLoop) \<in> pg_loops s) \<and> finite (dom (pg_monitors s))
     \<and> (\<forall>d l. (d, l) \<in> pg_loops s \<longrightarrow> d \<in> dom (pg_monitors s))"

definition ping_inv :: "PingMonitorConfig \<Rightarrow> ping_run \<Rightarrow> bool" where
  "ping_inv cfg s \<longleftrightarrow> phase_inv s \<and> loop_inv s \<and> (\<forall>l. ticker_ok cfg l) \<and> pg_phase s \<noteq> PhCrash"

lemma ping_inv_init: "\<forall>l. ticker_ok cfg l \<Longrightarrow> ping_inv cfg ping_init"
  by (simp add: ping_inv_def ping_init_def phase_inv_def loop_inv_def)

lemma ping_inv_step:
  assumes "ping_step cfg peers built s s'" "ping_inv cfg s" "\<forall>ms. built = Some ms \<longrightarrow> finite (dom ms)"
  shows "ping_inv cfg s'"
  using assms(1)
proof cases
  case (tick d ev m m' es)
  then have "dom ((pg_monitors s)(d \<mapsto> m')) = dom (pg_monitors s)" by auto
  then show ?thesis using assms(2) tick
    by (auto simp: ping_inv_def phase_inv_def loop_inv_def split: ping_phase.splits)
next
  case (received d ev m m' es)
  then have "dom ((pg_monitors s)(d \<mapsto> m')) = dom (pg_monitors s)" by auto
  then show ?thesis using assms(2) received
    by (auto simp: ping_inv_def phase_inv_def loop_inv_def split: ping_phase.splits)
next
  case (loop_returns d l)
  then have "phase_inv s'" using assms(2) by (auto simp: ping_inv_def phase_inv_def split: ping_phase.splits)
  moreover have "loop_inv s'" using assms(2) loop_returns by (fastforce simp: ping_inv_def loop_inv_def)
  ultimately show ?thesis using assms(2) loop_returns by (simp add: ping_inv_def)
next
  case (stop ds)
  then have "loop_inv s'" using assms(2) by (simp add: ping_inv_def loop_inv_def)
  moreover have "phase_inv s'" using assms(2) stop by (auto simp: ping_inv_def phase_inv_def)
  ultimately show ?thesis using assms(2) stop by (simp add: ping_inv_def)
next
  case (close d ds)
  then have "loop_inv s'" using assms(2) by (simp add: ping_inv_def loop_inv_def)
  moreover have "phase_inv s'" using assms(2) close by (auto simp: ping_inv_def phase_inv_def)
  ultimately show ?thesis using assms(2) close by (simp add: ping_inv_def)
next
  case all_closed
  then have "loop_inv s'" using assms(2) by (simp add: ping_inv_def loop_inv_def)
  moreover have "phase_inv s'" using assms(2) all_closed by (auto simp: ping_inv_def phase_inv_def)
  ultimately show ?thesis using assms(2) all_closed by (simp add: ping_inv_def)
qed (use assms(2,3) in \<open>auto simp: ping_inv_def phase_inv_def loop_inv_def split: ping_phase.splits\<close>)

text \<open>A run: the states that \<^verbatim>\<open>Execute\<close> reaches from its call.\<close>

abbreviation ping_reach where
  "ping_reach cfg peers built \<equiv> (ping_step cfg peers built)\<^sup>*\<^sup>*"

lemma ping_inv_reach:
  assumes "ping_reach cfg peers built s s'" "ping_inv cfg s" "\<forall>ms. built = Some ms \<longrightarrow> finite (dom ms)"
  shows "ping_inv cfg s'"
  using assms(1) by (induction rule: rtranclp_induct) (use assms(2,3) ping_inv_step in blast)+

lemma cancelled_stays: "ping_step cfg peers built s s' \<Longrightarrow> pg_cancelled s \<Longrightarrow> pg_cancelled s'"
  by (induction rule: ping_step.induct) auto

section \<open>The way to the end\<close>

fun phase_rank :: "ping_phase \<Rightarrow> nat" where
  "phase_rank PhDelay = 5"
| "phase_rank PhBuild = 4"
| "phase_rank PhMonitor = 3"
| "phase_rank (PhClose ds) = 2"
| "phase_rank PhJoin = 1"
| "phase_rank _ = 0"

definition to_close :: "ping_phase \<Rightarrow> nat" where
  "to_close ph = (case ph of PhClose ds \<Rightarrow> length ds | _ \<Rightarrow> 0)"

definition left_to_do :: "ping_run \<Rightarrow> nat \<times> nat \<times> nat" where
  "left_to_do s = (phase_rank (pg_phase s), to_close (pg_phase s), card (pg_loops s) + card (pg_receiving s))"

abbreviation "smaller \<equiv> less_than <*lex*> less_than <*lex*> less_than"

lemma finite_loops:
  assumes "ping_inv cfg s"
  shows "finite (pg_loops s)" "finite (pg_receiving s)"
proof -
  have i: "pg_loops s \<subseteq> dom (pg_monitors s) \<times> UNIV" "finite (dom (pg_monitors s))" "(\<lambda>d. (d, ReaderLoop)) ` pg_receiving s \<subseteq> pg_loops s"
    using assms by (auto simp: ping_inv_def loop_inv_def)
  have "(UNIV :: ping_loop set) = {SenderLoop, ReaderLoop, CheckerLoop}" by (auto intro: ping_loop.exhaust)
  then have "finite (UNIV :: ping_loop set)" using finite.simps by metis
  then show f: "finite (pg_loops s)" using i(1,2) by (meson finite_SigmaI finite_subset)
  show "finite (pg_receiving s)" using finite_subset[OF i(3) f] by (rule finite_imageD) (simp add: inj_on_def)
qed

lemma join_step:
  assumes "ping_inv cfg s" "pg_cancelled s" "pg_phase s = PhJoin" "pg_loops s \<noteq> {}"
  shows "\<exists>s'. ping_step cfg peers built s s' \<and> pg_phase s' = PhJoin \<and> card (pg_loops s') + card (pg_receiving s') < card (pg_loops s) + card (pg_receiving s)"
proof -
  note f = finite_loops[OF assms(1)]
  obtain d l where l: "(d, l) \<in> pg_loops s" using assms(4) by fastforce
  show ?thesis
  proof (cases "l = ReaderLoop \<and> d \<in> pg_receiving s")
    case True
    then have "card (pg_receiving s - {d}) < card (pg_receiving s)" using f(2) by (meson card_Diff1_less)
    then show ?thesis using receive_failed[of s d cfg peers built] True assms(3) by (intro exI[of _ "s\<lparr>pg_receiving := pg_receiving s - {d}\<rparr>"]) simp
  next
    case False
    have "card (pg_loops s - {(d, l)}) < card (pg_loops s)" using f(1) l by (meson card_Diff1_less)
    moreover have "ticker_ok cfg l" using assms(1) by (simp add: ping_inv_def)
    ultimately show ?thesis using loop_returns[of s d l cfg peers built] l False assms(2,3)
      by (intro exI[of _ "s\<lparr>pg_loops := pg_loops s - {(d, l)}\<rparr>"]) simp
  qed
qed

text \<open>A cancelled run that has not returned has a step of its own that brings it closer.\<close>

lemma closer:
  assumes "ping_inv cfg s" "pg_cancelled s" "pg_phase s \<noteq> PhDone" "built \<noteq> None"
  shows "\<exists>s'. ping_step cfg peers built s s' \<and> (left_to_do s', left_to_do s) \<in> smaller"
proof (cases "pg_phase s")
  case PhDelay
  then show ?thesis using delay_cancelled[of s cfg peers built] assms(2) by (intro exI[of _ "s\<lparr>pg_phase := PhDone\<rparr>"]) (simp add: left_to_do_def)
next
  case PhBuild
  obtain ms where "built = Some ms" using assms(4) by blast
  with PhBuild show ?thesis using build_nothing[of s peers cfg built] build[of s peers built ms _ cfg, OF _ _ _ refl]
    by (cases "nothing_to_monitor peers") (force simp: left_to_do_def)+
next
  case PhMonitor
  obtain ds where "distinct ds" "set ds = dom (pg_monitors s)"
    using assms(1) finite_distinct_list by (metis ping_inv_def loop_inv_def)
  with PhMonitor show ?thesis using stop[of s ds cfg peers built] assms(2) by (force simp: left_to_do_def)
next
  case (PhClose ds)
  then show ?thesis using close[of s _ _ cfg peers built] all_closed[of s cfg peers built]
    by (cases ds) (force simp: left_to_do_def to_close_def)+
next
  case PhJoin
  then show ?thesis
  proof (cases "pg_loops s = {}")
    case True
    with PhJoin show ?thesis using joined[of s cfg peers built] by (force simp: left_to_do_def)
  next
    case False
    from join_step[OF assms(1,2) PhJoin this] PhJoin show ?thesis by (force simp: left_to_do_def to_close_def)
  qed
qed (use assms(1,3) in \<open>auto simp: ping_inv_def\<close>)

lemma comes_to_end:
  assumes "ping_inv cfg s" "pg_cancelled s" "built = Some ms" "finite (dom ms)"
  shows "\<exists>s'. ping_reach cfg peers built s s' \<and> pg_phase s' = PhDone"
  using assms(1,2)
proof (induction "left_to_do s" arbitrary: s rule: wf_induct_rule[OF wf_lex_prod[OF wf_less_than wf_lex_prod[OF wf_less_than wf_less_than]]])
  case (1 s)
  show ?case
  proof (cases "pg_phase s = PhDone")
    case False
    then obtain s' where s': "ping_step cfg peers built s s'" "(left_to_do s', left_to_do s) \<in> smaller"
      using closer[OF 1(2,3), of built peers] assms(3) by blast
    moreover have "ping_inv cfg s'" "pg_cancelled s'" using ping_inv_step[OF s'(1) 1(2)] cancelled_stays[OF s'(1) 1(3)] assms(3,4) by auto
    ultimately show ?thesis using 1(1)[of s'] by (auto intro: converse_rtranclp_into_rtranclp)
  qed blast
qed

lemma build_monitors_finite:
  "build_monitors cfg draws resolve newConn grp ks ms = Some ms' \<Longrightarrow> finite (dom ms) \<Longrightarrow> finite (dom ms')"
  by (induction ks arbitrary: ms) (auto simp: bind_eq_Some_conv split: option.splits if_splits)

lemma Ping_Execute_finite: "Ping_Execute cfg draws resolve newConn ks peers = Some ms \<Longrightarrow> finite (dom ms)"
  by (auto simp: Ping_Execute_def Let_def split: res.splits if_splits dest: build_monitors_finite)

lemma ticker_ok_all: "(\<forall>l. ticker_ok cfg l) \<longleftrightarrow> 0 < pm_Interval cfg \<and> 2 \<le> pm_Timeout cfg"
proof -
  have "(\<forall>l. ticker_ok cfg l) \<longleftrightarrow> ticker_ok cfg SenderLoop \<and> ticker_ok cfg CheckerLoop \<and> ticker_ok cfg ReaderLoop"
    by (metis ping_loop.exhaust)
  also have "\<dots> \<longleftrightarrow> 0 < pm_Interval cfg \<and> 2 \<le> pm_Timeout cfg" by (auto simp: ticker_ok_def)
  finally show ?thesis .
qed

text \<open>C30. The ping monitor stops clean. Whenever its context is cancelled, during the delay, the set-up or the monitoring, the
  run can come to its end whatever its loops are doing, and no loop panics on the way. When it has returned, no loop of any
  device still runs or waits for a packet, every socket that was opened has been closed exactly once, and no
  monitor is left for a later run. The interval must be positive and the timeout at least two nanoseconds; the checks
  of the configuration let one nanosecond pass.\<close>

theorem ping_monitor_stops_clean:
  assumes "0 < pm_Interval cfg" "2 \<le> pm_Timeout cfg" "Ping_Execute cfg draws resolve newConn ks peers = Some ms"
    "ping_reach cfg peers (Some ms) ping_init s"
  shows "pg_phase s \<noteq> PhCrash
    \<and> (pg_cancelled s \<longrightarrow> (\<exists>s'. ping_reach cfg peers (Some ms) s s' \<and> pg_phase s' = PhDone))
    \<and> (pg_phase s = PhDone \<longrightarrow> pg_loops s = {} \<and> pg_receiving s = {} \<and> pg_monitors s = Map.empty
         \<and> distinct (pg_closed s) \<and> set (pg_closed s) = pg_opened s)"
proof -
  have f: "finite (dom ms)" by (rule Ping_Execute_finite[OF assms(3)])
  have "ping_inv cfg s" by (rule ping_inv_reach[OF assms(4) ping_inv_init]) (use assms(1,2) f in \<open>simp_all add: ticker_ok_all\<close>)
  moreover from this have "pg_phase s = PhDone \<longrightarrow> pg_receiving s = {}" by (auto simp: ping_inv_def loop_inv_def phase_inv_def)
  ultimately show ?thesis using comes_to_end[OF _ _ refl f, of cfg s peers]
    by (auto simp: ping_inv_def phase_inv_def)
qed

theorem ping_monitor_stops_clean_witness:
  "\<exists>ms s'. Ping_Execute ex_cfg (\<lambda>_. [7]) (\<lambda>_. Ok (AddrFrom4 [10, 0, 0, 2])) (\<lambda>_. Ok ()) [''wg0''] (Ok [ex_peer]) = Some ms
     \<and> ping_reach ex_cfg (Ok [ex_peer]) (Some ms) (ping_init\<lparr>pg_phase := PhBuild, pg_cancelled := True\<rparr>) s' \<and> pg_phase s' = PhDone"
proof -
  have "\<not> Option.is_none ex_monitors" by code_simp
  then obtain ms where ms: "Ping_Execute ex_cfg (\<lambda>_. [7]) (\<lambda>_. Ok (AddrFrom4 [10, 0, 0, 2])) (\<lambda>_. Ok ()) [''wg0''] (Ok [ex_peer]) = Some ms"
    by (auto simp: ex_monitors_def Option.is_none_def)
  have c: "0 < pm_Interval ex_cfg" "2 \<le> pm_Timeout ex_cfg" by code_simp+
  have "ping_step ex_cfg (Ok [ex_peer]) (Some ms) ping_init (ping_init\<lparr>pg_phase := PhBuild\<rparr>)" by (rule delay_over) (simp add: ping_init_def)
  moreover have "ping_step ex_cfg (Ok [ex_peer]) (Some ms) (ping_init\<lparr>pg_phase := PhBuild\<rparr>) (ping_init\<lparr>pg_phase := PhBuild, pg_cancelled := True\<rparr>)"
    using cancel[of "ping_init\<lparr>pg_phase := PhBuild\<rparr>" ex_cfg "Ok [ex_peer]" "Some ms"] by simp
  ultimately have "ping_reach ex_cfg (Ok [ex_peer]) (Some ms) ping_init (ping_init\<lparr>pg_phase := PhBuild, pg_cancelled := True\<rparr>)"
    by (meson converse_rtranclp_into_rtranclp r_into_rtranclp)
  from ping_monitor_stops_clean[OF c ms this] show ?thesis using ms by auto
qed

end
