(* ===== verification/Ping_Socket.thy ===== *)
theory Ping_Socket
  imports Gostd
begin

text \<open>
  The sockets of the ping monitor (\<^verbatim>\<open>ping_monitor_linux.go\<close>, \<^verbatim>\<open>ping_monitor_darwinbsd.go\<close>,
  \<^verbatim>\<open>ping_monitor_windows.go\<close>): opening one with all its error paths, sending, receiving and closing.
  System calls are arguments; what is opened and closed is recorded in order.
\<close>

section \<open>Linux\<close>

text \<open>The descriptor (the file object takes it over), and the packet connection, which has a copy of its own. The raw
  connection is a view of the packet connection.\<close>

datatype resource = Descriptor | PacketConn

datatype socket_op = Opened resource | Closed resource

record icmp_env =
  ie_socket :: "unit res"
  ie_bind :: "unit res"
  ie_fileConn :: "unit res"
  ie_rawConn :: "unit res"
  ie_closeDescriptor :: "unit res"
  ie_closeConn :: "unit res"

definition NewICMPConn_linux :: "icmp_env \<Rightarrow> string \<Rightarrow> socket_op list \<times> unit res" where
  "NewICMPConn_linux env deviceName =
     (case ie_socket env of
        Panic \<Rightarrow> ([], Panic)
      | Err e \<Rightarrow> ([], Err (ErrWrap ''failed to create raw ICMP socket'' [e]))
      | Ok _ \<Rightarrow>
          (case (if deviceName = [] then Ok () else ie_bind env) of
             Panic \<Rightarrow> ([Opened Descriptor], Panic)
           | Err e \<Rightarrow>
               ([Opened Descriptor, Closed Descriptor],
                case ie_closeDescriptor env of
                  Err e2 \<Rightarrow> Err (ErrWrap (''failed to close syscall socket '' @ deviceName) [e2])
                | _ \<Rightarrow> Err (ErrWrap (''failed to bind socket to device '' @ deviceName @ '': %w (requires CAP_NET_RAW capability)'') [e]))
           | Ok _ \<Rightarrow>
               (case ie_fileConn env of
                  Panic \<Rightarrow> ([Opened Descriptor], Panic)
                | Err e \<Rightarrow>
                    ([Opened Descriptor, Closed Descriptor],
                     case ie_closeDescriptor env of
                       Err e2 \<Rightarrow> Err (ErrWrap ''failed to close filePacketConn'' [e2])
                     | _ \<Rightarrow> Err (ErrWrap ''failed to create PacketConn from file'' [e]))
                | Ok _ \<Rightarrow>
                    (case ie_rawConn env of
                       Panic \<Rightarrow> ([Opened Descriptor, Opened PacketConn], Panic)
                     | Err e \<Rightarrow>
                         (case ie_closeConn env of
                            Err e2 \<Rightarrow> ([Opened Descriptor, Opened PacketConn, Closed PacketConn], Err (ErrWrap ''failed to close netConn'' [e2]))
                          | _ \<Rightarrow>
                              ([Opened Descriptor, Opened PacketConn, Closed PacketConn, Closed Descriptor],
                               case ie_closeDescriptor env of
                                 Err e2 \<Rightarrow> Err (ErrWrap ''failed to close file'' [e2])
                               | _ \<Rightarrow> Err (ErrWrap ''failed to create IPv4 raw connection'' [e])))
                     | Ok _ \<Rightarrow> ([Opened Descriptor, Opened PacketConn], Ok ())))))"

text \<open>The header that the connection writes before the packet, and the destination's type check.\<close>

record ipv4_header =
  ih_Version :: int
  ih_Len :: int
  ih_TotalLen :: int
  ih_TTL :: int
  ih_Protocol :: int
  ih_Dst :: "byte list"

datatype net_addr = IPAddr "byte list" | OtherNetAddr string

definition Send_linux :: "(ipv4_header \<Rightarrow> byte list \<Rightarrow> unit res) \<Rightarrow> byte list \<Rightarrow> net_addr \<Rightarrow> unit res" where
  "Send_linux writeTo packet dst =
     (case dst of
        OtherNetAddr t \<Rightarrow> Err (ErrNew (''address must be *net.IPAddr, got '' @ t))
      | IPAddr ip \<Rightarrow> writeTo \<lparr>ih_Version = 4, ih_Len = 20, ih_TotalLen = 20 + int (length packet), ih_TTL = 64, ih_Protocol = 1, ih_Dst = ip\<rparr> packet)"

text \<open>A connection whose parts may be missing; \<open>None\<close> is a missing connection.\<close>

definition SetReadDeadline :: "(int \<Rightarrow> unit res) option \<Rightarrow> int \<Rightarrow> unit res" where
  "SetReadDeadline conn t = (case conn of Some f \<Rightarrow> f t | None \<Rightarrow> Err (ErrNew ''connection not initialized''))"

text \<open>A read fills the buffer from its start: header and payload. The payload is then moved to the start of the
  buffer. The result is the buffer, the payload's length and the source.\<close>

definition Recv_linux ::
  "(int \<Rightarrow> unit res) option \<Rightarrow> int \<Rightarrow> duration \<Rightarrow> (byte list \<times> nat \<times> nat \<times> byte list) res \<Rightarrow> (byte list \<times> nat \<times> byte list) res" where
  "Recv_linux conn now timeout readFrom =
     bind_res (if 0 < timeout then SetReadDeadline conn (now + timeout) else Ok ()) (\<lambda>_.
     bind_res readFrom (\<lambda>(buffer, hdr, n, src).
     let payload = take n (drop hdr buffer) in
     Ok (payload @ drop (length payload) buffer, length payload, src)))"

text \<open>The parts that are there are both closed; the first error counts.\<close>

definition Close_linux :: "unit res option \<Rightarrow> unit res option \<Rightarrow> socket_op list \<times> unit res" where
  "Close_linux conn file =
     ((if conn = None then [] else [Closed PacketConn]) @ (if file = None then [] else [Closed Descriptor]),
      case conn of Some (Err e) \<Rightarrow> Err e | _ \<Rightarrow> (case file of Some r \<Rightarrow> r | None \<Rightarrow> Ok ()))"

section \<open>The other systems\<close>

definition NewICMPConn_bsd :: "unit res \<Rightarrow> string \<Rightarrow> socket_op list \<times> unit res" where
  "NewICMPConn_bsd listen deviceName =
     (case listen of
        Ok _ \<Rightarrow> ([Opened PacketConn], Ok ())
      | r \<Rightarrow> ([], wrap_err ''failed to create ICMP connection'' r))"

definition Send_bsd :: "(byte list \<Rightarrow> net_addr \<Rightarrow> nat res) \<Rightarrow> byte list \<Rightarrow> net_addr \<Rightarrow> unit res" where
  "Send_bsd writeTo packet dst = bind_res (writeTo packet dst) (\<lambda>_. Ok ())"

definition Recv_bsd ::
  "(int \<Rightarrow> unit res) option \<Rightarrow> int \<Rightarrow> duration \<Rightarrow> (byte list \<times> nat \<times> byte list) res \<Rightarrow> (byte list \<times> nat \<times> byte list) res" where
  "Recv_bsd conn now timeout readFrom =
     bind_res (if 0 < timeout then SetReadDeadline conn (now + timeout) else Ok ()) (\<lambda>_. readFrom)"

definition Close_bsd :: "unit res option \<Rightarrow> unit res" where
  "Close_bsd conn = (case conn of Some r \<Rightarrow> r | None \<Rightarrow> Ok ())"

definition ErrICMPNotImplemented :: error where
  "ErrICMPNotImplemented = ErrNew ''ICMP ping monitoring is not implemented on windows yet''"

definition NewICMPConn_windows :: "string \<Rightarrow> socket_op list \<times> unit res" where
  "NewICMPConn_windows deviceName = ([], Err ErrICMPNotImplemented)"

section \<open>Nothing stays open\<close>

text \<open>What is open after a sequence of operations.\<close>

fun open_after :: "socket_op list \<Rightarrow> resource set \<Rightarrow> resource set" where
  "open_after [] R = R"
| "open_after (Opened r # ops) R = open_after ops (insert r R)"
| "open_after (Closed r # ops) R = open_after ops (R - {r})"

lemma open_after_append: "open_after (ops @ ops') R = open_after ops' (open_after ops R)"
  by (induction ops R rule: open_after.induct) simp_all

text \<open>A ping socket is opened whole or not at all. A failed attempt leaves nothing open, provided that closing the packet
  connection works when the raw connection cannot be made (otherwise the descriptor stays open); a successful one has
  both parts open, and closing it closes both even when closing the first fails, whose error is then the result.\<close>

theorem ping_socket_no_leak:
  assumes "NewICMPConn_linux env deviceName = (ops, out)"
  shows "(\<forall>e. out = Err e \<longrightarrow> is_Ok (ie_closeConn env) \<longrightarrow> open_after ops {} = {})
    \<and> (out = Ok () \<longrightarrow> open_after ops {} = {Descriptor, PacketConn} \<and> (deviceName \<noteq> [] \<longrightarrow> ie_bind env = Ok ())
        \<and> open_after (ops @ fst (Close_linux (Some c) (Some f))) {} = {}
        \<and> (snd (Close_linux (Some c) (Some f)) = Ok () \<longrightarrow> f = Ok () \<and> (\<forall>e. c \<noteq> Err e)))"
  using assms
  by (auto simp: NewICMPConn_linux_def Close_linux_def open_after_append split: res.splits if_splits)

text \<open>The one path that leaks: the raw connection cannot be made and closing the packet connection fails.\<close>

lemma ping_socket_leak:
  "open_after (fst (NewICMPConn_linux \<lparr>ie_socket = Ok (), ie_bind = Ok (), ie_fileConn = Ok (), ie_rawConn = Err e, ie_closeDescriptor = Ok (),
      ie_closeConn = Err e'\<rparr> d)) {} = {Descriptor}"
  by (auto simp: NewICMPConn_linux_def)

text \<open>What is received is the payload, at the start of the buffer, which keeps its length.\<close>

lemma Recv_linux_payload:
  assumes "Recv_linux conn now timeout (Ok (buffer, hdr, n, src)) = Ok (buffer', k, src')" "hdr + n \<le> length buffer"
  shows "k = n \<and> src' = src \<and> take k buffer' = take n (drop hdr buffer) \<and> length buffer' = length buffer"
  using assms by (auto simp: Recv_linux_def Let_def)

theorem ping_socket_no_leak_witness:
  "open_after (fst (NewICMPConn_linux \<lparr>ie_socket = Ok (), ie_bind = Err (ErrNew ''EPERM''), ie_fileConn = Ok (), ie_rawConn = Ok (),
      ie_closeDescriptor = Ok (), ie_closeConn = Ok ()\<rparr> ''wg0'')) {} = {}"
proof -
  let ?e = "\<lparr>ie_socket = Ok (), ie_bind = Err (ErrNew ''EPERM''), ie_fileConn = Ok (), ie_rawConn = Ok (), ie_closeDescriptor = Ok (), ie_closeConn = Ok ()\<rparr>"
  obtain ops e where n: "NewICMPConn_linux ?e ''wg0'' = (ops, Err e)" by (simp add: NewICMPConn_linux_def)
  from ping_socket_no_leak[OF n] n show ?thesis by simp
qed

end
