(* ===== verification/Stunwire.thy ===== *)
theory Stunwire
  imports Netip
begin

text \<open>
  The STUN binding codec (\<^verbatim>\<open>internal/stunwire/stun.go\<close>): the recogniser
  \<open>IsSTUN\<close>, the request builder, and the bounded response parser with its attribute loop. Every
  index and slice expression of the source appears as an operation that panics out of range, so
  the theorem that the parser never panics is about the guards the source really has. A reference
  encoder written from the message format gives the round-trip theorems.
\<close>

section \<open>Constants and recognition\<close>

type_synonym TxnID = "byte list"

definition stunHeaderSize :: nat where "stunHeaderSize = 20"
definition stunMagicCookie :: u32 where "stunMagicCookie = 0x2112A442"
definition stunBindingRequest :: u16 where "stunBindingRequest = 0x0001"
definition stunBindingSuccess :: u16 where "stunBindingSuccess = 0x0101"
definition attrMappedAddress :: u16 where "attrMappedAddress = 0x0001"
definition attrXorMappedAddress :: u16 where "attrXorMappedAddress = 0x0020"

lemmas stun_consts = stunHeaderSize_def stunMagicCookie_def stunBindingRequest_def
  stunBindingSuccess_def attrMappedAddress_def attrXorMappedAddress_def

text \<open>The conjunction of \<^verbatim>\<open>IsSTUN\<close> in the source's order, each operand evaluated
  only when the ones before it hold.\<close>

definition IsSTUN_res :: "byte list \<Rightarrow> bool res" where
  "IsSTUN_res b =
     and_res (Ok (20 \<le> length b))
     (and_res (Ok (length b \<le> 2048))
     (and_res (bind_res (index b 0) (\<lambda>b0. Ok (b0 AND 0xc0 = 0)))
     (and_res (bind_res (bind_res (slice b 4 8) Uint32) (\<lambda>c. Ok (c = stunMagicCookie)))
     (and_res (bind_res (bind_res (slice b 2 4) Uint16) (\<lambda>l. Ok (unat l mod 4 = 0)))
              (bind_res (bind_res (slice b 2 4) Uint16) (\<lambda>l. Ok (20 + unat l = length b)))))))"

definition IsSTUN :: "byte list \<Rightarrow> bool" where
  "IsSTUN b \<longleftrightarrow> IsSTUN_res b = Ok True"

text \<open>\<^verbatim>\<open>TxnIDOf\<close> leaves the zero id when the packet is shorter than a header.\<close>

definition TxnIDOf :: "byte list \<Rightarrow> TxnID" where
  "TxnIDOf b = (if 20 \<le> length b then take 12 (drop 8 b) else replicate 12 0)"

text \<open>\<^verbatim>\<open>BuildRequest\<close>: the argument is what \<^verbatim>\<open>rand.Read\<close> gives.\<close>

definition BuildRequest :: "byte list res \<Rightarrow> (byte list \<times> TxnID) res" where
  "BuildRequest rnd =
     (case rnd of
        Panic \<Rightarrow> Panic
      | Err e \<Rightarrow> Err (ErrWrap ''stun: txn id'' [e])
      | Ok txn \<Rightarrow>
          Ok (to_be 2 (unat stunBindingRequest) @ to_be 2 0 @ to_be 4 (unat stunMagicCookie) @ txn, txn))"

section \<open>Parsing\<close>

text \<open>\<^verbatim>\<open>decodeAddress\<close>. The address bytes are copied and masked byte by byte; the mask
  is the cookie for IPv4 and the cookie followed by the transaction id for IPv6.\<close>

definition cookie_bytes :: "byte list" where
  "cookie_bytes = to_be 4 (unat stunMagicCookie)"

definition rawAddr :: "byte list \<Rightarrow> TxnID \<Rightarrow> bool \<Rightarrow> byte \<Rightarrow> byte list res" where
  "rawAddr value txn xored family =
     (if family = 0x01 then
        if length value \<noteq> 8 then Err (ErrNew ''stun: short IPv4 attribute'')
        else bind_res (slice value 4 8) (\<lambda>r. Ok (if xored then xor_bytes r cookie_bytes else r))
      else if family = 0x02 then
        if length value \<noteq> 20 then Err (ErrNew ''stun: short IPv6 attribute'')
        else bind_res (slice value 4 20) (\<lambda>r. Ok (if xored then xor_bytes r (cookie_bytes @ txn) else r))
      else Err (ErrNew (''stun: unknown address family 0x'' @ hex_encode [family])))"

definition decodeAddress :: "byte list \<Rightarrow> TxnID \<Rightarrow> bool \<Rightarrow> addrport res" where
  "decodeAddress value txn xored =
     (if length value < 8 then Err (ErrNew ''stun: short address attribute'')
      else bind_res (index value 0) (\<lambda>v0.
      if v0 \<noteq> 0 then Err (ErrNew ''stun: short address attribute'')
      else bind_res (index value 1) (\<lambda>family.
      bind_res (bind_res (slice value 2 4) Uint16) (\<lambda>port0.
      let port = (if xored then port0 XOR ucast (drop_bit 16 stunMagicCookie) else port0) in
      bind_res (rawAddr value txn xored family) (\<lambda>raw.
      case AddrFromSlice raw of
        None \<Rightarrow> Err (ErrNew ''stun: invalid address'')
      | Some addr \<Rightarrow>
          if port = 0 \<or> \<not> IsGlobalUnicast addr \<or> Is4In6 addr
          then Err (ErrNew ''stun: invalid mapped endpoint'')
          else Ok (AddrPort addr port))))))"

text \<open>The attribute loop. The state is the rest of the message and the two addresses found so
  far; an address not found yet is the zero \<^verbatim>\<open>netip.AddrPort\<close>.\<close>

definition ap_IsValid :: "addrport \<Rightarrow> bool" where
  "ap_IsValid ap = IsValid (ap_addr ap)"

definition padded :: "nat \<Rightarrow> nat" where
  "padded len = nat ((int len + 3) AND NOT 3)"

definition take_value :: "u16 \<Rightarrow> addrport \<Rightarrow> addrport \<times> addrport \<Rightarrow> (addrport \<times> addrport) res" where
  "take_value kind value acc =
     (case acc of (mapped, xmapped) \<Rightarrow>
        if kind = attrXorMappedAddress then
          if ap_IsValid xmapped then Err (ErrNew ''duplicate mapped address'') else Ok (mapped, value)
        else
          if ap_IsValid mapped then Err (ErrNew ''duplicate mapped address'') else Ok (value, xmapped))"

function parse_attrs :: "byte list \<Rightarrow> TxnID \<Rightarrow> addrport \<times> addrport \<Rightarrow> (addrport \<times> addrport) res" where
  "parse_attrs attrs txn acc =
     (if attrs = [] then Ok acc
      else if length attrs < 4 then Err (ErrNew ''truncated STUN attribute'')
      else bind_res (bind_res (slice attrs 0 2) Uint16) (\<lambda>kind.
      bind_res (bind_res (slice attrs 2 4) Uint16) (\<lambda>l.
      let len = unat l in
      if length attrs < padded len + 4 then Err (ErrNew ''truncated STUN attribute padding'')
      else bind_res
        (if kind = attrXorMappedAddress \<or> kind = attrMappedAddress then
           bind_res (slice attrs 4 (4 + len)) (\<lambda>v.
           bind_res (decodeAddress v txn (kind = attrXorMappedAddress)) (\<lambda>value.
           take_value kind value acc))
         else Ok acc) (\<lambda>acc'.
      bind_res (slice attrs (4 + padded len) (length attrs)) (\<lambda>rest.
      parse_attrs rest txn acc')))))"
  by pat_completeness auto
termination
  by (relation "measure (\<lambda>(attrs, _, _). length attrs)") auto

declare parse_attrs.simps [simp del]

definition ParseResponse :: "byte list \<Rightarrow> TxnID \<Rightarrow> addrport res" where
  "ParseResponse msg txn =
     bind_res (IsSTUN_res msg) (\<lambda>is.
     if \<not> is \<or> TxnIDOf msg \<noteq> txn then Err (ErrNew ''invalid STUN binding response'')
     else bind_res (bind_res (slice msg 0 2) Uint16) (\<lambda>ty.
     if ty \<noteq> stunBindingSuccess then Err (ErrNew ''invalid STUN binding response'')
     else bind_res (slice msg stunHeaderSize (length msg)) (\<lambda>attrs.
     bind_res (parse_attrs attrs txn (AddrPortZero, AddrPortZero)) (\<lambda>(mapped, xmapped).
     if ap_IsValid xmapped then Ok xmapped
     else if ap_IsValid mapped then Ok mapped
     else Err (ErrNew ''missing STUN mapped address'')))))"

section \<open>Recognition\<close>

lemma IsSTUN_res_def': "IsSTUN_res b = Ok (IsSTUN b)"
  by (simp add: IsSTUN_def IsSTUN_res_def and_res_def index_def slice_def Uint16_def Uint32_def)

lemma IsSTUN_iff:
  "IsSTUN b \<longleftrightarrow> 20 \<le> length b \<and> length b \<le> 2048 \<and> b ! 0 AND 0xc0 = 0
     \<and> (word_of_nat (be_nat (take 4 (drop 4 b))) :: u32) = stunMagicCookie
     \<and> unat (word_of_nat (be_nat (take 2 (drop 2 b))) :: u16) mod 4 = 0
     \<and> 20 + unat (word_of_nat (be_nat (take 2 (drop 2 b))) :: u16) = length b"
  by (auto simp: IsSTUN_def IsSTUN_res_def index_def slice_def Uint16_def Uint32_def)

lemma length_TxnIDOf [simp]: "length (TxnIDOf b) = 12"
  by (simp add: TxnIDOf_def)

text \<open>A packet of at least 32 bytes whose second and third bytes are zero is never taken for STUN:
  its length field says 20.\<close>

lemma length_field_zero: "b ! 2 = 0 \<Longrightarrow> b ! 3 = 0 \<Longrightarrow> 20 \<le> length b \<Longrightarrow> be_nat (take 2 (drop 2 b)) = 0"
proof -
  assume "b ! 2 = 0" "b ! 3 = 0" "20 \<le> length b"
  then have "take 2 (drop 2 b) = [0, 0]"
    by (intro nth_equalityI) (auto simp: nth_Cons' less_Suc_eq numeral_2_eq_2 numeral_3_eq_3)
  then show ?thesis by simp
qed

section \<open>The parser cannot panic\<close>

lemma and_not_mask: "x AND NOT (mask n) = push_bit n (drop_bit n x)" for x :: int
  by (rule bit_eqI) (auto simp: bit_simps)

lemma padded_eq: "padded len = (len + 3) div 4 * 4"
proof -
  have "(int len + 3) AND NOT 3 = (int len + 3) div 4 * 4"
    using and_not_mask [of "int len + 3" 2]
    by (simp add: mask_eq_exp_minus_1 push_bit_eq_mult drop_bit_eq_div)
  then show ?thesis
    by (simp add: padded_def nat_mult_distrib nat_div_distrib nat_add_distrib)
qed

lemma padded_ge: "len \<le> padded len" "padded len < len + 4"
  by (simp_all add: padded_eq)

lemma rawAddr_ne_Panic: "rawAddr value txn xored family \<noteq> Panic"
  by (auto simp: rawAddr_def slice_def)

lemma decodeAddress_ne_Panic [simp]: "decodeAddress value txn xored \<noteq> Panic"
  by (auto simp: decodeAddress_def Let_def index_def slice_def Uint16_def rawAddr_ne_Panic
      bind_res_eq_Panic split: option.splits if_splits)

lemma take_value_ne_Panic [simp]: "take_value kind value acc \<noteq> Panic"
  by (simp add: take_value_def split: prod.splits)

text \<open>What one attribute does to the two addresses, and the loop as a recursion over the message
  without the bounds checks that its guards make redundant.\<close>

definition absorb :: "u16 \<Rightarrow> byte list \<Rightarrow> TxnID \<Rightarrow> addrport \<times> addrport \<Rightarrow> (addrport \<times> addrport) res" where
  "absorb kind v txn acc =
     (if kind = attrXorMappedAddress \<or> kind = attrMappedAddress
      then bind_res (decodeAddress v txn (kind = attrXorMappedAddress)) (\<lambda>value. take_value kind value acc)
      else Ok acc)"

lemma be_nat_2_lt: "be_nat (take 2 bs) < 65536"
proof -
  have "be_nat (take 2 bs) < 256 ^ length (take 2 bs)" by (rule be_nat_bound)
  also have "\<dots> \<le> 256 ^ 2" by (rule power_increasing) simp_all
  finally show ?thesis by simp
qed

lemma unat_u16_be [simp]: "unat (word_of_nat (be_nat (take 2 bs)) :: u16) = be_nat (take 2 bs)"
  using be_nat_2_lt [of bs] by (simp add: unat_of_nat)

lemma parse_attrs_Nil [simp]: "parse_attrs [] txn acc = Ok acc"
  by (simp add: parse_attrs.simps)

lemma parse_attrs_short:
  "attrs \<noteq> [] \<Longrightarrow> length attrs < 4 \<Longrightarrow> parse_attrs attrs txn acc = Err (ErrNew ''truncated STUN attribute'')"
  by (simp add: parse_attrs.simps)

lemma parse_attrs_step:
  assumes "4 \<le> length attrs" and len: "len = be_nat (take 2 (drop 2 attrs))"
    and kind: "kind = word_of_nat (be_nat (take 2 attrs))"
  shows "parse_attrs attrs txn acc =
    (if length attrs < padded len + 4 then Err (ErrNew ''truncated STUN attribute padding'')
     else bind_res (absorb kind (take len (drop 4 attrs)) txn acc)
       (\<lambda>acc'. parse_attrs (drop (4 + padded len) attrs) txn acc'))"
proof -
  have "attrs \<noteq> []" "\<not> length attrs < 4" using assms(1) by auto
  moreover have "padded len + 4 \<le> length attrs \<Longrightarrow> slice attrs 4 (4 + len) = Ok (take len (drop 4 attrs))"
    using padded_ge(1) [of len] by (simp add: slice_def)
  moreover have "padded len + 4 \<le> length attrs \<Longrightarrow>
      slice attrs (4 + padded len) (length attrs) = Ok (drop (4 + padded len) attrs)"
    by (simp add: slice_def)
  ultimately show ?thesis
    using assms by (subst parse_attrs.simps) (simp add: slice_def Uint16_def absorb_def Let_def)
qed

lemma absorb_ne_Panic [simp]: "absorb kind v txn acc \<noteq> Panic"
  by (simp add: absorb_def bind_res_eq_Panic)

lemma parse_attrs_ne_Panic [simp]: "parse_attrs attrs txn acc \<noteq> Panic"
proof (induction "length attrs" arbitrary: attrs acc rule: less_induct)
  case less
  consider "attrs = []" | "attrs \<noteq> []" "length attrs < 4" | "4 \<le> length attrs" by linarith
  then show ?case
  proof cases
    case 3
    then show ?thesis
      using less by (simp add: parse_attrs_step bind_res_eq_Panic)
  qed (simp_all add: parse_attrs_short)
qed

lemma ParseResponse_ne_Panic [simp]: "ParseResponse msg txn \<noteq> Panic"
  by (auto simp: ParseResponse_def IsSTUN_res_def' bind_res_eq_Panic slice_def Uint16_def IsSTUN_iff stun_consts)

text \<open>The response parser never panics: whatever bytes arrive from the network and whatever
  transaction id is expected, every index and slice it takes is in range, and it returns an
  address or an error.\<close>

theorem ParseResponse_no_panic:
  "(\<exists>ap. ParseResponse msg txn = Ok ap) \<or> (\<exists>e. ParseResponse msg txn = Err e)"
  using ParseResponse_ne_Panic by (cases "ParseResponse msg txn") auto

section \<open>What an accepted response says\<close>

definition mapped_ok :: "addrport \<Rightarrow> bool" where
  "mapped_ok ap \<longleftrightarrow> IsGlobalUnicast (ap_addr ap) \<and> \<not> Is4In6 (ap_addr ap) \<and> Zone (ap_addr ap) = [] \<and> ap_port ap \<noteq> 0"

lemma decodeAddress_sound: "decodeAddress value txn xored = Ok ap \<Longrightarrow> mapped_ok ap"
  by (auto simp: decodeAddress_def mapped_ok_def Let_def AddrFromSlice_def AddrFrom4_def AddrFrom16_def
      split: if_splits option.splits)

definition found_ok :: "addrport \<Rightarrow> bool" where
  "found_ok ap \<longleftrightarrow> ap_IsValid ap \<longrightarrow> mapped_ok ap"

lemma absorb_sound:
  "absorb kind v txn (m, x) = Ok (m', x') \<Longrightarrow> found_ok m \<Longrightarrow> found_ok x \<Longrightarrow> found_ok m' \<and> found_ok x'"
  by (auto simp: absorb_def take_value_def found_ok_def dest: decodeAddress_sound split: if_splits)

lemma parse_attrs_sound:
  "parse_attrs attrs txn (m, x) = Ok (m', x') \<Longrightarrow> found_ok m \<Longrightarrow> found_ok x \<Longrightarrow> found_ok m' \<and> found_ok x'"
proof (induction "length attrs" arbitrary: attrs m x rule: less_induct)
  case less
  consider "attrs = []" | "attrs \<noteq> []" "length attrs < 4" | "4 \<le> length attrs" by linarith
  then show ?case
  proof cases
    case 3
    then obtain m1 x1 where s: "absorb (word_of_nat (be_nat (take 2 attrs)))
        (take (be_nat (take 2 (drop 2 attrs))) (drop 4 attrs)) txn (m, x) = Ok (m1, x1)"
      and r: "parse_attrs (drop (4 + padded (be_nat (take 2 (drop 2 attrs)))) attrs) txn (m1, x1) = Ok (m', x')"
      using less.prems(1) by (auto simp: parse_attrs_step split: if_splits)
    show ?thesis
      using absorb_sound [OF s less.prems(2,3)] 3 by (intro less.hyps [OF _ r]) simp_all
  qed (use less.prems in \<open>simp_all add: parse_attrs_short\<close>)
qed

lemma ParseResponse_Ok:
  assumes "ParseResponse msg txn = Ok ap"
  shows "IsSTUN msg \<and> length msg \<le> 2048 \<and> TxnIDOf msg = txn
    \<and> be_nat (take 2 msg) = unat stunBindingSuccess \<and> mapped_ok ap"
proof -
  obtain m x where a: "IsSTUN msg" "TxnIDOf msg = txn"
      "word_of_nat (be_nat (take 2 msg)) = stunBindingSuccess"
      "parse_attrs (drop 20 msg) txn (AddrPortZero, AddrPortZero) = Ok (m, x)"
    and r: "(if ap_IsValid x then Ok x else if ap_IsValid m then Ok m
             else Err (ErrNew ''missing STUN mapped address'')) = Ok ap"
    using assms by (auto simp: ParseResponse_def IsSTUN_res_def' Uint16_eq_Ok stunHeaderSize_def split: if_splits)
  have "be_nat (take 2 msg) = unat stunBindingSuccess"
    using arg_cong [OF a(3), of unat] by simp
  moreover have "found_ok m \<and> found_ok x"
    by (rule parse_attrs_sound [OF a(4)]) (simp_all add: found_ok_def ap_IsValid_def)
  ultimately show ?thesis
    using a r by (auto simp: found_ok_def IsSTUN_iff split: if_splits)
qed

text \<open>C17. An accepted response is well formed and answers this request: it is a STUN message of at
  most 2048 bytes, carries the expected transaction id and the binding-success type, and the
  address it yields is a usable public endpoint: global unicast, not a 4-in-6 form, without zone,
  and with a port that is not zero.\<close>

theorem ParseResponse_sound:
  assumes "ParseResponse msg txn = Ok ap"
  shows "IsSTUN msg \<and> length msg \<le> 2048 \<and> TxnIDOf msg = txn
    \<and> be_nat (take 2 msg) = unat stunBindingSuccess \<and> mapped_ok ap"
  using assms by (rule ParseResponse_Ok)

definition sample_txn :: TxnID where
  "sample_txn = [1, 2, 3, 4, 5, 6, 7, 8, 9, 10, 11, 12]"

definition sample_response :: "byte list" where
  "sample_response =
     [1, 1, 0, 12, 33, 18, 164, 66, 1, 2, 3, 4, 5, 6, 7, 8, 9, 10, 11, 12,
      0, 32, 0, 8, 0, 1, 33, 39, 41, 26, 172, 74]"

lemma sample_response_parses: "ParseResponse sample_response sample_txn = Ok (AddrPort (V4 0x08080808) 53)"
  by code_simp

theorem ParseResponse_sound_witness:
  "ParseResponse sample_response sample_txn = Ok (AddrPort (V4 0x08080808) 53)
    \<and> IsSTUN sample_response \<and> mapped_ok (AddrPort (V4 0x08080808) 53)"
  using sample_response_parses ParseResponse_sound [OF sample_response_parses] by blast

section \<open>Round trips with a reference encoder\<close>

text \<open>The wire format as the protocol defines it: a 20-byte header and attributes, each with its
  type, the length of its value, and the value padded to four bytes.\<close>

definition enc_attr :: "u16 \<times> byte list \<Rightarrow> byte list" where
  "enc_attr a = to_be 2 (unat (fst a)) @ to_be 2 (length (snd a)) @ snd a
     @ replicate (padded (length (snd a)) - length (snd a)) 0"

definition enc_attrs :: "(u16 \<times> byte list) list \<Rightarrow> byte list" where
  "enc_attrs as = concat (map enc_attr as)"

definition enc_message :: "u16 \<Rightarrow> TxnID \<Rightarrow> (u16 \<times> byte list) list \<Rightarrow> byte list" where
  "enc_message ty txn as =
     to_be 2 (unat ty) @ to_be 2 (length (enc_attrs as)) @ cookie_bytes @ txn @ enc_attrs as"

definition enc_address :: "bool \<Rightarrow> TxnID \<Rightarrow> addrport \<Rightarrow> byte list" where
  "enc_address xored txn ap =
     (let raw = AsSlice (ap_addr ap);
          mask = (if xored then cookie_bytes @ txn else replicate 16 0);
          pmask = (if xored then ucast (drop_bit 16 stunMagicCookie) else 0)
      in [0, if Is4 (ap_addr ap) then 0x01 else 0x02]
         @ to_be 2 (unat (ap_port ap XOR pmask)) @ xor_bytes raw mask)"

text \<open>The meaning of a list of attributes: the address attributes are absorbed in order, every
  other attribute is skipped.\<close>

fun attrs_meaning :: "(u16 \<times> byte list) list \<Rightarrow> TxnID \<Rightarrow> addrport \<times> addrport \<Rightarrow> (addrport \<times> addrport) res" where
  "attrs_meaning [] txn acc = Ok acc"
| "attrs_meaning ((k, v) # as) txn acc = bind_res (absorb k v txn acc) (attrs_meaning as txn)"

lemma length_enc_attr: "length (enc_attr (k, v)) = 4 + padded (length v)"
  using padded_ge(1) [of "length v"] by (simp add: enc_attr_def)

lemma length_enc_attrs_mod: "length (enc_attrs as) mod 4 = 0"
proof (induction as)
  case (Cons a as)
  then show ?case
    by (cases a) (simp add: enc_attrs_def length_enc_attr padded_eq, presburger)
qed (simp add: enc_attrs_def)

lemma parse_attrs_enc:
  "\<forall>a \<in> set as. length (snd a) < 65536 \<Longrightarrow> parse_attrs (enc_attrs as) txn acc = attrs_meaning as txn acc"
proof (induction as arbitrary: acc)
  case Nil
  then show ?case by (simp add: enc_attrs_def)
next
  case (Cons a as)
  obtain k v where a: "a = (k, v)" by fastforce
  let ?m = "enc_attr (k, v) @ enc_attrs as"
  have len: "be_nat (take 2 (drop 2 ?m)) = length v"
    using Cons.prems a by (simp add: enc_attr_def be_nat_to_be)
  have kind: "word_of_nat (be_nat (take 2 ?m)) = k"
    by (simp add: enc_attr_def be_nat_to_be)
  have "parse_attrs ?m txn acc = bind_res (absorb k (take (length v) (drop 4 ?m)) txn acc)
      (\<lambda>acc'. parse_attrs (drop (4 + padded (length v)) ?m) txn acc')"
    by (subst parse_attrs_step [OF _ len [symmetric] kind [symmetric]]) (simp_all add: length_enc_attr)
  moreover have "take (length v) (drop 4 ?m) = v"
    by (simp add: enc_attr_def)
  moreover have "drop (4 + padded (length v)) ?m = enc_attrs as"
    by (simp add: length_enc_attr)
  ultimately show ?case
    using Cons a by (auto simp: enc_attrs_def intro!: bind_res_cong)
qed

lemma length_snd_enc_attrs: "a \<in> set as \<Longrightarrow> length (snd a) \<le> length (enc_attrs as)"
proof (induction as)
  case (Cons b as)
  then show ?case
    using padded_ge(1) [of "length (snd b)"]
    by (cases b) (auto simp: enc_attrs_def length_enc_attr)
qed simp

lemma enc_message_facts:
  assumes "length txn = 12" "length (enc_attrs as) \<le> 2028" "to_be 2 (unat ty) ! 0 AND 0xc0 = 0"
  shows "IsSTUN (enc_message ty txn as)" "TxnIDOf (enc_message ty txn as) = txn"
    "drop 20 (enc_message ty txn as) = enc_attrs as"
    "be_nat (take 2 (enc_message ty txn as)) = unat ty"
proof -
  have "(to_be 2 (unat ty) @ xs) ! 0 = to_be 2 (unat ty) ! 0" for xs
    by (simp add: nth_append)
  then show "IsSTUN (enc_message ty txn as)"
    using assms length_enc_attrs_mod [of as]
    by (simp add: IsSTUN_iff enc_message_def cookie_bytes_def be_nat_to_be unat_of_nat)
qed (use assms in \<open>simp_all add: enc_message_def TxnIDOf_def cookie_bytes_def be_nat_to_be\<close>)

lemma ParseResponse_enc:
  assumes "length txn = 12" "length (enc_attrs as) \<le> 2028"
  shows "ParseResponse (enc_message stunBindingSuccess txn as) txn =
    bind_res (attrs_meaning as txn (AddrPortZero, AddrPortZero)) (\<lambda>(mapped, xmapped).
      if ap_IsValid xmapped then Ok xmapped else if ap_IsValid mapped then Ok mapped
      else Err (ErrNew ''missing STUN mapped address''))"
proof -
  let ?m = "enc_message stunBindingSuccess txn as"
  have "to_be 2 (unat stunBindingSuccess) ! 0 AND 0xc0 = (0 :: byte)"
    by (simp add: to_be_2 stunBindingSuccess_def)
  note f = enc_message_facts [OF assms this]
  have "length ?m = 20 + length (enc_attrs as)"
    using assms(1) by (simp add: enc_message_def cookie_bytes_def)
  moreover have "parse_attrs (enc_attrs as) txn acc = attrs_meaning as txn acc" for acc
    using assms(2) by (intro parse_attrs_enc) (auto dest: length_snd_enc_attrs)
  ultimately show ?thesis
    using f by (simp add: ParseResponse_def IsSTUN_res_def' slice_def Uint16_def stunHeaderSize_def)
qed

lemma length_AsSlice: "IsValid a \<Longrightarrow> length (AsSlice a) = (if Is4 a then 4 else 16)"
  by (cases a) auto

lemma xor_bytes_zeros: "length xs \<le> n \<Longrightarrow> xor_bytes xs (replicate n 0) = xs"
proof (induction xs arbitrary: n)
  case (Cons x xs)
  then show ?case by (cases n) (simp_all add: xor_bytes_def)
qed (simp add: xor_bytes_def)

lemma xor_bytes_take: "length xs \<le> length ms \<Longrightarrow> xor_bytes xs (ms @ ns) = xor_bytes xs ms"
  by (simp add: xor_bytes_def zip_append1 zip_append2)

lemma xor_xor_cancel: "(p XOR q) XOR q = p" for p q :: u16
  by (simp add: xor.assoc)

lemma rawAddr_enc:
  assumes "length txn = 12" "IsValid (ap_addr ap)"
  shows "rawAddr (enc_address xored txn ap) txn xored (if Is4 (ap_addr ap) then 0x01 else 0x02)
    = Ok (AsSlice (ap_addr ap))"
  using assms length_AsSlice [OF assms(2)]
  by (auto simp: rawAddr_def enc_address_def Let_def slice_def cookie_bytes_def numeral_2_eq_2
      xor_bytes_zeros xor_bytes_take xor_bytes_twice)

lemma decodeAddress_enc:
  assumes "length txn = 12" "mapped_ok ap"
  shows "decodeAddress (enc_address xored txn ap) txn xored = Ok ap"
proof -
  let ?e = "enc_address xored txn ap"
  have v: "IsValid (ap_addr ap)" and z: "Zone (ap_addr ap) = []"
    using assms(2) by (auto simp: mapped_ok_def IsGlobalUnicast_valid)
  have nz: "ap_addr ap \<noteq> AddrZero"
    using v by auto
  have l: "8 \<le> length ?e"
    using length_AsSlice [OF v] assms(1) by (auto simp: enc_address_def Let_def cookie_bytes_def)
  have hd: "?e ! 0 = 0" "?e ! 1 = (if Is4 (ap_addr ap) then 0x01 else 0x02)"
    by (simp_all add: enc_address_def Let_def)
  have "take 2 (drop 2 ?e) = to_be 2 (unat (ap_port ap XOR (if xored then ucast (drop_bit 16 stunMagicCookie) else 0)))"
    by (simp add: enc_address_def Let_def numeral_2_eq_2)
  then have p: "bind_res (slice ?e 2 4) Uint16
      = Ok (ap_port ap XOR (if xored then ucast (drop_bit 16 stunMagicCookie) else 0))"
    using l by (simp add: slice_def)
  have "0 < length ?e" "1 < length ?e"
    using l by linarith+
  then show ?thesis
    using l p hd rawAddr_enc [OF assms(1) v] AddrFromSlice_AsSlice [OF nz z] assms(2)
    by (cases xored) (simp_all add: decodeAddress_def index_def mapped_ok_def xor_xor_cancel)
qed

lemma kinds_distinct [simp]:
  "attrXorMappedAddress \<noteq> attrMappedAddress" "attrMappedAddress \<noteq> attrXorMappedAddress"
  by (simp_all add: stun_consts)

lemma absorb_other: "k \<noteq> attrXorMappedAddress \<Longrightarrow> k \<noteq> attrMappedAddress \<Longrightarrow> absorb k v txn acc = Ok acc"
  by (simp add: absorb_def)

lemma attrs_meaning_other:
  "\<forall>a \<in> set as. fst a \<noteq> attrXorMappedAddress \<and> fst a \<noteq> attrMappedAddress \<Longrightarrow>
    attrs_meaning (as @ bs) txn acc = attrs_meaning bs txn acc"
  by (induction as) (auto simp: absorb_other)

text \<open>Round trip: a response that carries an XOR-MAPPED-ADDRESS between any other attributes,
  encoded as the protocol prescribes, is parsed to exactly that address, for IPv4 and IPv6. A
  plain MAPPED-ADDRESS is accepted too, but the XOR form wins when both are present.\<close>

theorem ParseResponse_roundtrip:
  assumes "length txn = 12" "mapped_ok ap" "mapped_ok ap'"
    and others: "\<forall>a \<in> set pre \<union> set mid \<union> set post. fst a \<noteq> attrXorMappedAddress \<and> fst a \<noteq> attrMappedAddress"
    and x: "x = (attrXorMappedAddress, enc_address True txn ap)"
    and m: "m = (attrMappedAddress, enc_address False txn ap')"
    and "length (enc_attrs (pre @ x # mid @ m # post)) \<le> 2028"
  shows "ParseResponse (enc_message stunBindingSuccess txn (pre @ x # mid @ m # post)) txn = Ok ap
    \<and> ParseResponse (enc_message stunBindingSuccess txn (pre @ m # mid @ x # post)) txn = Ok ap
    \<and> ParseResponse (enc_message stunBindingSuccess txn (pre @ x # post)) txn = Ok ap
    \<and> ParseResponse (enc_message stunBindingSuccess txn (pre @ m # post)) txn = Ok ap'"
proof -
  have o: "attrs_meaning (pre @ bs) txn acc = attrs_meaning bs txn acc"
    "attrs_meaning (mid @ bs) txn acc = attrs_meaning bs txn acc"
    "attrs_meaning post txn acc = Ok acc" for bs acc
    using attrs_meaning_other [of pre] attrs_meaning_other [of mid] attrs_meaning_other [of post "[]"] others
    by auto
  have d: "decodeAddress (enc_address b txn ap) txn b = Ok ap"
    "decodeAddress (enc_address b txn ap') txn b = Ok ap'" for b
    using assms decodeAddress_enc by auto
  have v: "ap_IsValid ap" "ap_IsValid ap'"
    using assms(2,3) by (auto simp: ap_IsValid_def mapped_ok_def IsGlobalUnicast_valid)
  have l: "length (enc_attrs (pre @ m # mid @ x # post)) \<le> 2028"
    "length (enc_attrs (pre @ x # post)) \<le> 2028" "length (enc_attrs (pre @ m # post)) \<le> 2028"
    using assms(7) by (auto simp: enc_attrs_def)
  show ?thesis
    using d v l assms(1,7)
    by (simp add: ParseResponse_enc o x m absorb_def take_value_def ap_IsValid_def)
qed

lemma sample_aps: "mapped_ok (AddrPort (V4 0x08080808) 53)" "mapped_ok (AddrPort (V6 0x20010db8000000000000000000000001 []) 51820)"
  by code_simp+

theorem ParseResponse_roundtrip_witness:
  "ParseResponse (enc_message stunBindingSuccess sample_txn
      ([(0x8022, [1, 2, 3])] @ (attrXorMappedAddress, enc_address True sample_txn (AddrPort (V6 0x20010db8000000000000000000000001 []) 51820))
        # [] @ (attrMappedAddress, enc_address False sample_txn (AddrPort (V4 0x08080808) 53)) # []))
      sample_txn = Ok (AddrPort (V6 0x20010db8000000000000000000000001 []) 51820)"
  by (rule ParseResponse_roundtrip [THEN conjunct1, OF _ sample_aps(2) sample_aps(1) _ refl refl]) code_simp+

text \<open>A second address attribute of the same kind is refused, so a response cannot carry two
  candidates and let the parser pick.\<close>

theorem ParseResponse_duplicate:
  assumes "length txn = 12" "mapped_ok ap" "k = attrXorMappedAddress \<or> k = attrMappedAddress"
    and others: "\<forall>a \<in> set pre. fst a \<noteq> attrXorMappedAddress \<and> fst a \<noteq> attrMappedAddress"
    and "length (enc_attrs (pre @ (k, enc_address (k = attrXorMappedAddress) txn ap)
          # (k, enc_address (k = attrXorMappedAddress) txn ap) # post)) \<le> 2028"
  shows "ParseResponse (enc_message stunBindingSuccess txn (pre @ (k, enc_address (k = attrXorMappedAddress) txn ap)
          # (k, enc_address (k = attrXorMappedAddress) txn ap) # post)) txn = Err (ErrNew ''duplicate mapped address'')"
  using assms(1,2,3,5) decodeAddress_enc [OF assms(1,2)] attrs_meaning_other [OF others]
  by (auto simp: ParseResponse_enc absorb_def take_value_def ap_IsValid_def mapped_ok_def IsGlobalUnicast_valid)

theorem ParseResponse_duplicate_witness:
  "ParseResponse (enc_message stunBindingSuccess sample_txn
     ([] @ (attrMappedAddress, enc_address (attrMappedAddress = attrXorMappedAddress) sample_txn (AddrPort (V4 0x08080808) 53))
         # (attrMappedAddress, enc_address (attrMappedAddress = attrXorMappedAddress) sample_txn (AddrPort (V4 0x08080808) 53)) # []))
     sample_txn = Err (ErrNew ''duplicate mapped address'')"
  by (rule ParseResponse_duplicate [OF _ sample_aps(1)]) code_simp+

text \<open>What the node sends is not mistaken for an answer: a request is a well-formed STUN message
  with the fresh transaction id, and parsing it as a response is an error.\<close>

theorem BuildRequest_correct:
  assumes "length rnd = 12"
  shows "\<exists>msg. BuildRequest (Ok rnd) = Ok (msg, rnd) \<and> length msg = stunHeaderSize \<and> IsSTUN msg
     \<and> TxnIDOf msg = rnd \<and> ParseResponse msg rnd = Err (ErrNew ''invalid STUN binding response'')"
proof -
  let ?m = "enc_message stunBindingRequest rnd []"
  have "BuildRequest (Ok rnd) = Ok (?m, rnd)"
    by (simp add: BuildRequest_def enc_message_def enc_attrs_def cookie_bytes_def)
  moreover have "to_be 2 (unat stunBindingRequest) ! 0 AND 0xc0 = (0 :: byte)"
    by (simp add: to_be_2 stunBindingRequest_def)
  note f = enc_message_facts [OF assms _ this, of "[]", simplified, unfolded enc_attrs_def, simplified]
  moreover have "length ?m = 20"
    using assms by (simp add: enc_message_def enc_attrs_def cookie_bytes_def)
  ultimately show ?thesis
    by (auto simp: ParseResponse_def IsSTUN_res_def' slice_def Uint16_def stun_consts)
qed

theorem BuildRequest_correct_witness:
  "\<exists>msg. BuildRequest (Ok sample_txn) = Ok (msg, sample_txn) \<and> length msg = stunHeaderSize \<and> IsSTUN msg
     \<and> TxnIDOf msg = sample_txn \<and> ParseResponse msg sample_txn = Err (ErrNew ''invalid STUN binding response'')"
  by (rule BuildRequest_correct) code_simp

text \<open>STUN and WireGuard share a socket without ambiguity: a WireGuard message (its first byte
  the type, three reserved zero bytes, at least 32 bytes long) is never recognised as STUN.\<close>

theorem wireguard_not_STUN:
  assumes "32 \<le> length b" "b ! 1 = 0" "b ! 2 = 0" "b ! 3 = 0"
  shows "\<not> IsSTUN b"
  using length_field_zero [OF assms(3,4)] assms(1) by (auto simp: IsSTUN_iff)

theorem wireguard_not_STUN_witness: "\<not> IsSTUN ([4, 0, 0, 0] @ replicate 28 0x21)"
  by (rule wireguard_not_STUN) code_simp+

end
