(* ===== verification/Queue.thy ===== *)
theory Queue
  imports Prelude
begin

text \<open>
  The bounded queue (\<^verbatim>\<open>internal/queue/queue.go\<close>), a buffered Go channel: sending appends,
  receiving takes from the front, sending to a full channel blocks or, with the non-blocking form,
  is refused, and sending to or closing a closed channel panics. A hand-over to a receiver that is
  already waiting is the send followed by the receive. The program only makes channels of capacity
  1 and 100, so the rendezvous of an unbuffered channel does not arise.

  The contract that the controllers rely on is the locale \<open>bounded_queue\<close>; a trace relation gives
  the first-in-first-out theorem over every interleaving of senders and receivers.
\<close>

section \<open>Operations\<close>

definition TriggerQueueSize :: nat where "TriggerQueueSize = 1"
definition PeerQueueSize :: nat where "PeerQueueSize = 100"

record 'a Queue =
  chan :: "'a list"
  chan_cap :: nat
  chan_closed :: bool

definition NewBuffered :: "nat \<Rightarrow> 'a Queue" where
  "NewBuffered n = \<lparr>chan = [], chan_cap = n, chan_closed = False\<rparr>"

text \<open>\<open>None\<close> means that the sender blocks.\<close>

definition Enqueue :: "'a Queue \<Rightarrow> 'a \<Rightarrow> 'a Queue res option" where
  "Enqueue q x =
     (if chan_closed q then Some Panic
      else if length (chan q) < chan_cap q then Some (Ok (q\<lparr>chan := chan q @ [x]\<rparr>))
      else None)"

definition TryEnqueue :: "'a Queue \<Rightarrow> 'a \<Rightarrow> (bool \<times> 'a Queue) res" where
  "TryEnqueue q x =
     (if chan_closed q then Panic
      else if length (chan q) < chan_cap q then Ok (True, q\<lparr>chan := chan q @ [x]\<rparr>)
      else Ok (False, q))"

text \<open>A receive from \<^verbatim>\<open>Dequeue()\<close>: \<open>None\<close> blocks, \<open>Some (None, q)\<close> is the zero value of a
  closed and drained channel.\<close>

definition Dequeue :: "'a Queue \<Rightarrow> ('a option \<times> 'a Queue) option" where
  "Dequeue q =
     (case chan q of
        x # xs \<Rightarrow> Some (Some x, q\<lparr>chan := xs\<rparr>)
      | [] \<Rightarrow> if chan_closed q then Some (None, q) else None)"

definition Len :: "'a Queue \<Rightarrow> nat" where
  "Len q = length (chan q)"

definition Close_queue :: "'a Queue \<Rightarrow> 'a Queue res" where
  "Close_queue q = (if chan_closed q then Panic else Ok (q\<lparr>chan_closed := True\<rparr>))"

section \<open>The contract\<close>

locale bounded_queue =
  fixes content :: "'q \<Rightarrow> 'a list"
    and capacity :: "'q \<Rightarrow> nat"
    and offer :: "'q \<Rightarrow> 'a \<Rightarrow> (bool \<times> 'q) res"
    and recv :: "'q \<Rightarrow> ('a option \<times> 'q) option"
  assumes offer_taken: "offer q x = Ok (True, q') \<Longrightarrow>
      content q' = content q @ [x] \<and> length (content q) < capacity q \<and> capacity q' = capacity q"
    and offer_refused: "offer q x = Ok (False, q') \<Longrightarrow> q' = q \<and> capacity q \<le> length (content q)"
    and recv_some: "recv q = Some (Some x, q') \<Longrightarrow> content q = x # content q' \<and> capacity q' = capacity q"
    and recv_ready: "content q \<noteq> [] \<Longrightarrow> \<exists>x q'. recv q = Some (Some x, q')"
begin

text \<open>A trace of accepted and refused sends and of receives.\<close>

inductive trace :: "'q \<Rightarrow> 'a list \<Rightarrow> 'a list \<Rightarrow> 'q \<Rightarrow> bool" where
  start: "trace q [] [] q"
| sent: "trace q ins outs q1 \<Longrightarrow> offer q1 x = Ok (True, q2) \<Longrightarrow> trace q (ins @ [x]) outs q2"
| refused: "trace q ins outs q1 \<Longrightarrow> offer q1 x = Ok (False, q2) \<Longrightarrow> trace q ins outs q2"
| received: "trace q ins outs q1 \<Longrightarrow> recv q1 = Some (Some x, q2) \<Longrightarrow> trace q ins (outs @ [x]) q2"

lemma fifo: "trace q ins outs q' \<Longrightarrow> content q @ ins = outs @ content q'"
proof (induction rule: trace.induct)
  case (received q ins outs q1 x q2)
  then show ?case using recv_some by fastforce
qed (auto dest: offer_taken offer_refused)

lemma bounded: "trace q ins outs q' \<Longrightarrow> length (content q) \<le> capacity q \<Longrightarrow>
    capacity q' = capacity q \<and> length (content q') \<le> capacity q'"
proof (induction rule: trace.induct)
  case (received q ins outs q1 x q2)
  then show ?case using recv_some [of q1 x q2] by simp
qed (auto dest: offer_taken offer_refused)

text \<open>A request is never lost: whatever the answer of an offer, something is waiting afterwards.\<close>

lemma offer_leaves_work: "0 < capacity q \<Longrightarrow> offer q x = Ok (b, q') \<Longrightarrow> content q' \<noteq> []"
  using offer_taken offer_refused by (cases b) fastforce+

end

interpretation channel: bounded_queue chan chan_cap TryEnqueue Dequeue
  by unfold_locales (auto simp: TryEnqueue_def Dequeue_def split: if_splits list.splits)

lemmas queue_defs = NewBuffered_def Enqueue_def TryEnqueue_def Dequeue_def Len_def Close_queue_def

section \<open>Properties\<close>

text \<open>The traces of the channel, from a new queue.\<close>

definition queue_trace :: "nat \<Rightarrow> 'a list \<Rightarrow> 'a list \<Rightarrow> 'a Queue \<Rightarrow> bool" where
  "queue_trace n ins outs q = channel.trace (NewBuffered n) ins outs q"



text \<open>A refresh request is coalesced, never lost: on a trigger queue of size one a non-blocking
  send returns at once, and afterwards exactly one request is waiting, the new one or the one that
  was already there.\<close>

theorem trigger_coalesces:
  assumes "chan_cap q = TriggerQueueSize" "length (chan q) \<le> chan_cap q" "\<not> chan_closed q"
  shows "\<exists>b q'. TryEnqueue q x = Ok (b, q') \<and> Len q' = 1 \<and> (b \<longleftrightarrow> Len q = 0)
     \<and> chan q' = (if b then [x] else chan q)"
  using assms by (cases "chan q") (auto simp: queue_defs TriggerQueueSize_def)

theorem trigger_coalesces_witness:
  "\<exists>b q'. TryEnqueue (NewBuffered TriggerQueueSize) ''refresh'' = Ok (b, q') \<and> Len q' = 1 \<and> (b \<longleftrightarrow> Len (NewBuffered TriggerQueueSize :: string Queue) = 0)
     \<and> chan q' = (if b then [''refresh''] else chan (NewBuffered TriggerQueueSize))"
  by (rule trigger_coalesces) (simp_all add: queue_defs)

end
