(* ===== verification/Demux.thy ===== *)
theory Demux
  imports Stunwire Queue
begin

text \<open>
  The packet demultiplexer of the proxy (\<^verbatim>\<open>internal/wgproxy/demux.go\<close>): the registry of
  pending STUN transactions and the two maps between peers and their outer addresses. Each method
  takes its mutex for the whole of its work, so each is one step. The contract that the relay relies
  on, a one-to-one mapping that only explicit programming changes, is the locale \<open>peer_mapping\<close>.
\<close>

section \<open>Types and constants\<close>

type_synonym PeerKey = "byte list"

definition zero_key :: PeerKey where "zero_key = replicate 32 0"

definition stunHeaderLen :: nat where "stunHeaderLen = 20"
definition stunBindingError :: u16 where "stunBindingError = 0x0111"

definition ErrTxnExists :: error where "ErrTxnExists = ErrNew ''wgproxy: transaction already registered''"

datatype Bucket = BucketSTUN | BucketRelay | BucketDrop

record Decision =
  dec_Bucket :: Bucket
  dec_Peer :: PeerKey

text \<open>A pending transaction: the server it was sent to and its reply channel, of capacity one.\<close>

record pendingTxn =
  txn_server :: addrport
  txn_reply :: "byte list Queue"

type_synonym TxnRegistry = "TxnID \<rightharpoonup> pendingTxn"

definition NewTxnRegistry :: TxnRegistry where "NewTxnRegistry = Map.empty"

text \<open>Addresses compare equal once the 4-in-6 form is stripped.\<close>

definition normalize :: "addrport \<Rightarrow> addrport" where
  "normalize ap = AddrPort (Unmap (ap_addr ap)) (ap_port ap)"

section \<open>The transaction registry\<close>

definition Register :: "TxnRegistry \<Rightarrow> TxnID \<Rightarrow> addrport \<Rightarrow> TxnRegistry res" where
  "Register r i server =
     (if r i \<noteq> None then Err ErrTxnExists
      else Ok (r(i \<mapsto> \<lparr>txn_server = normalize server, txn_reply = NewBuffered 1\<rparr>)))"

definition Unregister :: "TxnRegistry \<Rightarrow> TxnID \<Rightarrow> TxnRegistry" where
  "Unregister r i = r(i := None)"

definition route :: "TxnRegistry \<Rightarrow> addrport \<Rightarrow> byte list \<Rightarrow> (bool \<times> TxnRegistry) res" where
  "route r src b =
     bind_res (bind_res (slice b 0 2) Uint16) (\<lambda>msgType.
     if msgType \<noteq> stunBindingSuccess \<and> msgType \<noteq> stunBindingError then Ok (False, r)
     else bind_res (slice b 8 stunHeaderLen) (\<lambda>i.
     case r i of
       None \<Rightarrow> Ok (False, r)
     | Some txn \<Rightarrow>
         if txn_server txn \<noteq> normalize src then Ok (False, r)
         else (case ParseResponse b i of
                 Panic \<Rightarrow> Panic
               | Err _ \<Rightarrow> Ok (False, r)
               | Ok _ \<Rightarrow>
                   bind_res (TryEnqueue (txn_reply txn) b) (\<lambda>(sent, q).
                   Ok (sent, if sent then r(i \<mapsto> txn\<lparr>txn_reply := q\<rparr>) else r)))))"

section \<open>The demultiplexer\<close>

record Demux =
  txns :: TxnRegistry
  peerBySrc :: "addrport \<rightharpoonup> PeerKey"
  srcByPeer :: "PeerKey \<rightharpoonup> addrport"
  droppedSTUN :: u64
  droppedOther :: u64
  demux_log :: "(u64 \<times> addrport \<times> string) list"

definition NewDemux :: Demux where
  "NewDemux = \<lparr>txns = NewTxnRegistry, peerBySrc = Map.empty, srcByPeer = Map.empty,
     droppedSTUN = 0, droppedOther = 0, demux_log = []\<rparr>"

text \<open>A Go map read of a key that is absent yields the zero key.\<close>

definition owner_of :: "(addrport \<rightharpoonup> PeerKey) \<Rightarrow> addrport \<Rightarrow> PeerKey" where
  "owner_of m a = (case m a of None \<Rightarrow> zero_key | Some k \<Rightarrow> k)"

definition Program :: "Demux \<Rightarrow> PeerKey \<Rightarrow> addrport \<Rightarrow> Demux res" where
  "Program d peer remote0 =
     (let remote = normalize remote0 in
      if (case peerBySrc d remote of Some owner \<Rightarrow> owner \<noteq> peer | None \<Rightarrow> False)
      then Err (ErrNew ''endpoint already belongs to another peer'')
      else
        let by_src = (case srcByPeer d peer of
              Some old \<Rightarrow> if owner_of (peerBySrc d) old = peer then (peerBySrc d)(old := None) else peerBySrc d
            | None \<Rightarrow> peerBySrc d)
        in Ok (d\<lparr>srcByPeer := (srcByPeer d)(peer \<mapsto> remote), peerBySrc := by_src(remote \<mapsto> peer)\<rparr>))"

definition Unprogram :: "Demux \<Rightarrow> PeerKey \<Rightarrow> Demux" where
  "Unprogram d peer =
     (case srcByPeer d peer of
        None \<Rightarrow> d
      | Some old \<Rightarrow>
          d\<lparr>peerBySrc := (if owner_of (peerBySrc d) old = peer then (peerBySrc d)(old := None) else peerBySrc d),
            srcByPeer := (srcByPeer d)(peer := None)\<rparr>)"

text \<open>The first three conjuncts of the stunwire recogniser, without its length checks.\<close>

definition isSTUNShaped :: "byte list \<Rightarrow> bool res" where
  "isSTUNShaped b =
     and_res (Ok (stunHeaderLen \<le> length b))
     (and_res (bind_res (index b 0) (\<lambda>b0. Ok (b0 AND 0xC0 = 0)))
              (bind_res (bind_res (slice b 4 8) Uint32) (\<lambda>c. Ok (c = stunMagicCookie))))"

text \<open>Counting a drop; a line is logged for the first and for every 1024th.\<close>

definition countDrop :: "u64 \<Rightarrow> addrport \<Rightarrow> string \<Rightarrow> (u64 \<times> addrport \<times> string) list \<Rightarrow> u64 \<times> (u64 \<times> addrport \<times> string) list" where
  "countDrop counter src msg log =
     (let n = counter + 1 in (n, if n = 1 \<or> n mod 1024 = 0 then log @ [(n, src, msg)] else log))"

definition Classify :: "Demux \<Rightarrow> addrport \<Rightarrow> byte list \<Rightarrow> (Decision \<times> Demux) res" where
  "Classify d src b =
     bind_res (isSTUNShaped b) (\<lambda>shaped.
     if shaped then
       bind_res (route (txns d) src b) (\<lambda>(ok, r).
       let d1 = d\<lparr>txns := r\<rparr>;
           d2 = (if ok then d1
                 else let (n, l) = countDrop (droppedSTUN d1) src ''dropped unmatched STUN-shaped packet'' (demux_log d1)
                      in d1\<lparr>droppedSTUN := n, demux_log := l\<rparr>)
       in Ok (\<lparr>dec_Bucket = BucketSTUN, dec_Peer = zero_key\<rparr>, d2))
     else
       (case peerBySrc d (normalize src) of
          Some peer \<Rightarrow> Ok (\<lparr>dec_Bucket = BucketRelay, dec_Peer = peer\<rparr>, d)
        | None \<Rightarrow>
            let (n, l) = countDrop (droppedOther d) src ''dropped unattributable packet'' (demux_log d)
            in Ok (\<lparr>dec_Bucket = BucketDrop, dec_Peer = zero_key\<rparr>, d\<lparr>droppedOther := n, demux_log := l\<rparr>)))"

section \<open>The mapping contract\<close>

text \<open>Two views of one relation. \<open>owner\<close> is what an inbound packet is looked up in, \<open>source\<close> what
  the relay sends to; programming is refused when the address belongs to another peer.\<close>

locale peer_mapping =
  fixes good :: "'d \<Rightarrow> bool"
    and owner :: "'d \<Rightarrow> 'a \<Rightarrow> 'p option"
    and source :: "'d \<Rightarrow> 'p \<Rightarrow> 'a option"
    and program :: "'d \<Rightarrow> 'p \<Rightarrow> 'a \<Rightarrow> 'd res"
    and unprogram :: "'d \<Rightarrow> 'p \<Rightarrow> 'd"
    and norm :: "'a \<Rightarrow> 'a"
  assumes inverse: "good d \<Longrightarrow> source d p = Some a \<longleftrightarrow> owner d a = Some p"
    and program_good: "good d \<Longrightarrow> program d p a = Ok d' \<Longrightarrow> good d'"
    and program_source: "good d \<Longrightarrow> program d p a = Ok d' \<Longrightarrow> source d' = (source d)(p \<mapsto> norm a)"
    and program_refuses: "good d \<Longrightarrow> is_Ok (program d p a) \<longleftrightarrow> owner d (norm a) \<in> {None, Some p}"
    and unprogram_good: "good d \<Longrightarrow> good (unprogram d p)"
    and unprogram_source: "good d \<Longrightarrow> source (unprogram d p) = (source d)(p := None)"
begin

lemma source_inj: "good d \<Longrightarrow> source d p = Some a \<Longrightarrow> source d q = Some a \<Longrightarrow> p = q"
  by (metis inverse option.inject)

lemma program_owner:
  assumes "good d" "program d p a = Ok d'"
  shows "owner d' (norm a) = Some p" "\<And>b. owner d' b = Some q \<Longrightarrow> b \<noteq> norm a \<Longrightarrow> owner d b = Some q \<and> q \<noteq> p"
proof -
  have g: "good d'" and s: "source d' = (source d)(p \<mapsto> norm a)"
    using assms program_good program_source by blast+
  show "owner d' (norm a) = Some p"
    using s by (simp flip: inverse [OF g])
  show "owner d b = Some q \<and> q \<noteq> p" if "owner d' b = Some q" "b \<noteq> norm a" for b
    using that s inverse [OF g] inverse [OF assms(1)] by (metis fun_upd_other fun_upd_same option.inject)
qed

text \<open>Programming the same address again changes nothing in either view.\<close>

lemma program_again:
  assumes "good d" "program d p a = Ok d1"
  shows "\<exists>d2. program d1 p a = Ok d2 \<and> source d2 = source d1"
proof -
  have g: "good d1" by (rule program_good [OF assms])
  have "owner d1 (norm a) = Some p" by (rule program_owner(1) [OF assms])
  then have "is_Ok (program d1 p a)" using program_refuses [OF g] by simp
  then obtain d2 where "program d1 p a = Ok d2" by (auto simp: is_Ok_iff)
  moreover from this have "source d2 = source d1"
    using program_source [OF g] program_source [OF assms] by simp
  ultimately show ?thesis by blast
qed

end

section \<open>The maps implement the contract\<close>

definition demux_ok :: "Demux \<Rightarrow> bool" where
  "demux_ok d \<longleftrightarrow> (\<forall>p a. srcByPeer d p = Some a \<longleftrightarrow> peerBySrc d a = Some p)
     \<and> (\<forall>p a. srcByPeer d p = Some a \<longrightarrow> normalize a = a)"

lemma normalize_idem [simp]: "normalize (normalize a) = normalize a"
  by (simp add: normalize_def)

lemma demux_okD: "demux_ok d \<Longrightarrow> srcByPeer d p = Some a \<longleftrightarrow> peerBySrc d a = Some p"
  by (simp add: demux_ok_def)

lemma owner_of_source: "demux_ok d \<Longrightarrow> srcByPeer d p = Some a \<Longrightarrow> owner_of (peerBySrc d) a = p"
  by (auto simp: owner_of_def demux_okD)

lemma Program_eq:
  assumes "demux_ok d" "Program d p a = Ok d'"
  shows "srcByPeer d' = (srcByPeer d)(p \<mapsto> normalize a)"
    and "peerBySrc d' = (\<lambda>b. if b = normalize a then Some p else if srcByPeer d p = Some b then None else peerBySrc d b)"
    and "peerBySrc d (normalize a) \<in> {None, Some p}"
  using assms(2) owner_of_source [OF assms(1)]
  by (auto simp: Program_def Let_def fun_eq_iff split: option.splits if_splits)

lemma Unprogram_eq:
  assumes "demux_ok d"
  shows "srcByPeer (Unprogram d p) = (srcByPeer d)(p := None)"
    and "peerBySrc (Unprogram d p) = (\<lambda>b. if srcByPeer d p = Some b then None else peerBySrc d b)"
  using owner_of_source [OF assms]
  by (auto simp: Unprogram_def fun_eq_iff split: option.splits)

lemma Program_ok:
  assumes "demux_ok d" "Program d p a = Ok d'"
  shows "demux_ok d'"
proof -
  note e = Program_eq [OF assms]
  have "srcByPeer d' q = Some b \<longleftrightarrow> peerBySrc d' b = Some q" for q b
    using e(3) demux_okD [OF assms(1)] unfolding e(1,2) by (auto split: if_splits)
  moreover have "srcByPeer d' q = Some b \<Longrightarrow> normalize b = b" for q b
    using assms(1) unfolding e(1) by (auto simp: demux_ok_def split: if_splits)
  ultimately show ?thesis
    by (simp add: demux_ok_def)
qed

lemma Unprogram_ok: "demux_ok d \<Longrightarrow> demux_ok (Unprogram d p)"
  by (auto simp: demux_ok_def Unprogram_eq split: if_splits)

interpretation demux: peer_mapping demux_ok peerBySrc srcByPeer Program Unprogram normalize
proof unfold_locales
  show "is_Ok (Program d p a) \<longleftrightarrow> peerBySrc d (normalize a) \<in> {None, Some p}" if "demux_ok d" for d p a
    by (auto simp: Program_def Let_def split: option.splits)
qed (simp_all add: demux_okD Program_ok Program_eq Unprogram_ok Unprogram_eq)

section \<open>Routing STUN responses\<close>

lemma isSTUNShaped_eq:
  "isSTUNShaped b = Ok (20 \<le> length b \<and> b ! 0 AND 0xC0 = 0
     \<and> (word_of_nat (be_nat (take 4 (drop 4 b))) :: u32) = stunMagicCookie)"
  by (auto simp: isSTUNShaped_def stunHeaderLen_def index_def slice_def Uint32_def)

definition registry_ok :: "TxnRegistry \<Rightarrow> bool" where
  "registry_ok r \<longleftrightarrow> (\<forall>i t. r i = Some t \<longrightarrow> \<not> chan_closed (txn_reply t) \<and> chan_cap (txn_reply t) = 1
     \<and> length (chan (txn_reply t)) \<le> 1
     \<and> (\<forall>b \<in> set (chan (txn_reply t)). is_Ok (ParseResponse b i)))"

text \<open>What routing does, on every branch: it delivers exactly when the transaction is pending, was
  sent to the packet's source, the packet is a valid response to it, and nothing was delivered
  before; then only that transaction's channel changes.\<close>

definition deliverable :: "TxnRegistry \<Rightarrow> addrport \<Rightarrow> byte list \<Rightarrow> bool" where
  "deliverable r src b \<longleftrightarrow> (\<exists>t. r (TxnIDOf b) = Some t \<and> txn_server t = normalize src
     \<and> is_Ok (ParseResponse b (TxnIDOf b)) \<and> chan (txn_reply t) = [])"

lemma route_eq:
  assumes "registry_ok r" "20 \<le> length b"
  shows "route r src b = Ok (if deliverable r src b
     then (True, r(TxnIDOf b \<mapsto> (the (r (TxnIDOf b)))\<lparr>txn_reply := (txn_reply (the (r (TxnIDOf b))))\<lparr>chan := [b]\<rparr>\<rparr>))
     else (False, r))"
proof -
  have ty: "bind_res (slice b 0 2) Uint16 = Ok (word_of_nat (be_nat (take 2 b)))"
    using assms(2) by (simp add: slice_def Uint16_def)
  have i: "slice b 8 stunHeaderLen = Ok (TxnIDOf b)"
    using assms(2) by (simp add: TxnIDOf_def stunHeaderLen_def)
  have s: "is_Ok (ParseResponse b (TxnIDOf b)) \<Longrightarrow> (word_of_nat (be_nat (take 2 b)) :: u16) = stunBindingSuccess"
    by (auto simp: is_Ok_iff ParseResponse_def Uint16_eq_Ok split: if_splits)
  show ?thesis
  proof (cases "r (TxnIDOf b)")
    case None
    then show ?thesis
      unfolding route_def ty bind_res.simps i by (simp add: deliverable_def)
  next
    case (Some t)
    then have t: "\<not> chan_closed (txn_reply t)" "chan_cap (txn_reply t) = 1"
      using assms(1) by (auto simp: registry_ok_def)
    show ?thesis
      unfolding route_def ty bind_res.simps i
      using Some s t ParseResponse_ne_Panic
      by (cases "ParseResponse b (TxnIDOf b)"; cases "chan (txn_reply t)")
        (auto simp: deliverable_def TryEnqueue_def)
  qed
qed

lemma Classify_eq:
  assumes "registry_ok (txns d)"
  shows "\<exists>dn d'. Classify d src b = Ok (dn, d')
    \<and> peerBySrc d' = peerBySrc d \<and> srcByPeer d' = srcByPeer d
    \<and> (if isSTUNShaped b = Ok True then
         dn = \<lparr>dec_Bucket = BucketSTUN, dec_Peer = zero_key\<rparr>
         \<and> route (txns d) src b = Ok (deliverable (txns d) src b, txns d')
         \<and> droppedSTUN d' = droppedSTUN d + (if deliverable (txns d) src b then 0 else 1)
         \<and> droppedOther d' = droppedOther d
       else
         txns d' = txns d \<and> droppedSTUN d' = droppedSTUN d
         \<and> (case peerBySrc d (normalize src) of
              Some p \<Rightarrow> dn = \<lparr>dec_Bucket = BucketRelay, dec_Peer = p\<rparr> \<and> droppedOther d' = droppedOther d
            | None \<Rightarrow> dn = \<lparr>dec_Bucket = BucketDrop, dec_Peer = zero_key\<rparr> \<and> droppedOther d' = droppedOther d + 1))"
proof (cases "isSTUNShaped b = Ok True")
  case True
  then have "20 \<le> length b" by (simp add: isSTUNShaped_eq)
  note r = route_eq [OF assms this, of src]
  show ?thesis
    using True by (simp add: Classify_def r countDrop_def Let_def split: if_splits)
next
  case False
  then have "isSTUNShaped b = Ok False" by (simp add: isSTUNShaped_eq)
  then show ?thesis
    by (simp add: Classify_def countDrop_def Let_def split: option.splits)
qed

section \<open>All reachable states\<close>

text \<open>The operations of the package, in any order and interleaving.\<close>

inductive demux_step :: "Demux \<Rightarrow> Demux \<Rightarrow> bool" where
  program: "Program d p a = Ok d' \<Longrightarrow> demux_step d d'"
| unprogram: "demux_step d (Unprogram d p)"
| classify: "Classify d src b = Ok (dn, d') \<Longrightarrow> demux_step d d'"
| register: "Register (txns d) i server = Ok r \<Longrightarrow> demux_step d (d\<lparr>txns := r\<rparr>)"
| unregister: "demux_step d (d\<lparr>txns := Unregister (txns d) i\<rparr>)"
| receive: "txns d i = Some t \<Longrightarrow> Dequeue (txn_reply t) = Some (Some b, q) \<Longrightarrow>
    demux_step d (d\<lparr>txns := (txns d)(i \<mapsto> t\<lparr>txn_reply := q\<rparr>)\<rparr>)"

inductive demux_reach :: "Demux \<Rightarrow> bool" where
  init: "demux_reach NewDemux"
| step: "demux_reach d \<Longrightarrow> demux_step d d' \<Longrightarrow> demux_reach d'"

definition demux_inv :: "Demux \<Rightarrow> bool" where
  "demux_inv d \<longleftrightarrow> demux_ok d \<and> registry_ok (txns d)"

lemma route_registry_ok:
  assumes "registry_ok r" "20 \<le> length b" "route r src b = Ok (sent, r')"
  shows "registry_ok r'"
proof -
  have "r' = (if deliverable r src b
     then r(TxnIDOf b \<mapsto> (the (r (TxnIDOf b)))\<lparr>txn_reply := (txn_reply (the (r (TxnIDOf b))))\<lparr>chan := [b]\<rparr>\<rparr>)
     else r)"
    using route_eq [OF assms(1,2), of src] assms(3) by (auto split: if_splits)
  then show ?thesis
    using assms(1) by (auto simp: registry_ok_def deliverable_def split: if_splits)
qed

lemma Program_txns: "Program d p a = Ok d' \<Longrightarrow> txns d' = txns d"
  by (auto simp: Program_def Let_def split: if_splits)

lemma Unprogram_txns [simp]: "txns (Unprogram d p) = txns d"
  by (simp add: Unprogram_def split: option.splits)

lemma demux_step_inv:
  assumes "demux_inv d" "demux_step d d'"
  shows "demux_inv d'"
  using assms(2)
proof cases
  case (program p a)
  then show ?thesis
    using assms(1) by (auto simp: demux_inv_def Program_txns dest: Program_ok)
next
  case (unprogram p)
  then show ?thesis
    using assms(1) by (auto simp: demux_inv_def intro: Unprogram_ok)
next
  case (classify src b dn)
  have r: "registry_ok (txns d)" using assms(1) by (simp add: demux_inv_def)
  note c = Classify_eq [OF r, of src b]
  have "isSTUNShaped b = Ok True \<Longrightarrow> 20 \<le> length b"
    by (simp add: isSTUNShaped_eq)
  then have "registry_ok (txns d')"
    using c classify r route_registry_ok [OF r, of b src] by (auto split: if_splits)
  then show ?thesis
    using c classify assms(1) by (auto simp: demux_inv_def demux_ok_def)
next
  case (register i server r)
  then show ?thesis
    using assms(1) by (auto simp: demux_inv_def demux_ok_def registry_ok_def Register_def NewBuffered_def split: if_splits)
next
  case (unregister i)
  then show ?thesis
    using assms(1) by (auto simp: demux_inv_def demux_ok_def registry_ok_def Unregister_def)
next
  case (receive i t b q)
  then have "length (chan (txn_reply t)) \<le> 1" "chan (txn_reply t) = b # chan q" "q = (txn_reply t)\<lparr>chan := chan q\<rparr>"
    using assms(1) by (auto simp: demux_inv_def registry_ok_def Dequeue_def split: list.splits if_splits)
  then have "chan (txn_reply t) = [b]" "q = (txn_reply t)\<lparr>chan := []\<rparr>"
    by simp_all
  with receive show ?thesis
    using assms(1) by (auto simp: demux_inv_def demux_ok_def registry_ok_def)
qed

lemma demux_reach_inv: "demux_reach d \<Longrightarrow> demux_inv d"
proof (induction rule: demux_reach.induct)
  case init
  show ?case by (simp add: demux_inv_def demux_ok_def registry_ok_def NewDemux_def NewTxnRegistry_def)
qed (rule demux_step_inv)

section \<open>Properties\<close>

text \<open>C12. In every reachable state of the demultiplexer, whatever the order of programming,
  unprogramming, registrations, inbound packets and deliveries, the two maps are inverse to each
  other: no outer address is attributed to two peers, no peer is reached at an address that is
  attributed to someone else, and every recorded address is in normal form.\<close>

theorem demux_mapping_consistent:
  assumes "demux_reach d"
  shows "(srcByPeer d p = Some a \<longleftrightarrow> peerBySrc d a = Some p)
    \<and> (srcByPeer d p = Some a \<longrightarrow> normalize a = a)
    \<and> (srcByPeer d p = Some a \<and> srcByPeer d q = Some a \<longrightarrow> p = q)"
  using demux_reach_inv [OF assms] demux.source_inj [of d p a q]
  by (auto simp: demux_inv_def demux_ok_def)

definition sample_ap :: addrport where "sample_ap = AddrPort (V4 0xC0000207) 51820"

definition sample_demux :: Demux where
  "sample_demux = (case Program NewDemux zero_key sample_ap of Ok d \<Rightarrow> d | _ \<Rightarrow> NewDemux)"

lemma sample_demux_reach: "demux_reach sample_demux"
proof -
  have "Program NewDemux zero_key sample_ap = Ok sample_demux"
    by (simp add: sample_demux_def Program_def NewDemux_def Let_def)
  then show ?thesis
    by (intro demux_reach.step [OF demux_reach.init] demux_step.program)
qed

theorem demux_mapping_consistent_witness:
  "srcByPeer sample_demux zero_key = Some sample_ap \<and> peerBySrc sample_demux sample_ap = Some zero_key"
proof -
  have "srcByPeer sample_demux zero_key = Some sample_ap"
    by (simp add: sample_demux_def Program_def NewDemux_def sample_ap_def normalize_def Let_def)
  with demux_mapping_consistent [OF sample_demux_reach, of zero_key sample_ap] show ?thesis by blast
qed

text \<open>Classifying a packet never panics and never changes a mapping (a source address is not
  learned from traffic), and a packet is handed to the relay exactly when it is not STUN-shaped and
  its source was programmed for that peer.\<close>

theorem Classify_relays_programmed_only:
  assumes "demux_reach d"
  shows "\<exists>dn d'. Classify d src b = Ok (dn, d') \<and> peerBySrc d' = peerBySrc d \<and> srcByPeer d' = srcByPeer d
    \<and> (dec_Bucket dn = BucketRelay \<longleftrightarrow> isSTUNShaped b = Ok False \<and> srcByPeer d (dec_Peer dn) = Some (normalize src))
    \<and> (dec_Bucket dn = BucketDrop \<longleftrightarrow> isSTUNShaped b = Ok False \<and> peerBySrc d (normalize src) = None)"
proof -
  have inv: "demux_inv d" by (rule demux_reach_inv [OF assms])
  then have "registry_ok (txns d)" by (simp add: demux_inv_def)
  from Classify_eq [OF this, of src b] inv show ?thesis
    by (auto simp: demux_inv_def demux_okD isSTUNShaped_eq split: if_splits option.splits)
qed

theorem Classify_relays_programmed_only_witness:
  "\<exists>dn d'. Classify sample_demux sample_ap [4, 0, 0, 0] = Ok (dn, d')
     \<and> peerBySrc d' = peerBySrc sample_demux \<and> srcByPeer d' = srcByPeer sample_demux
     \<and> (dec_Bucket dn = BucketRelay \<longleftrightarrow> isSTUNShaped [4, 0, 0, 0] = Ok False \<and> srcByPeer sample_demux (dec_Peer dn) = Some (normalize sample_ap))
     \<and> (dec_Bucket dn = BucketDrop \<longleftrightarrow> isSTUNShaped [4, 0, 0, 0] = Ok False \<and> peerBySrc sample_demux (normalize sample_ap) = None)"
  by (rule Classify_relays_programmed_only [OF sample_demux_reach])


lemma sample_txn_reach: "demux_reach (sample_demux\<lparr>txns := [sample_txn \<mapsto> \<lparr>txn_server = sample_ap, txn_reply = NewBuffered 1\<rparr>]\<rparr>)"
proof -
  have "Register (txns sample_demux) sample_txn sample_ap
      = Ok [sample_txn \<mapsto> \<lparr>txn_server = sample_ap, txn_reply = NewBuffered 1\<rparr>]"
    by (simp add: sample_demux_def Program_def NewDemux_def NewTxnRegistry_def Let_def Register_def normalize_def sample_ap_def)
  then show ?thesis
    by (intro demux_reach.step [OF sample_demux_reach] demux_step.register)
qed

lemma sample_reply_delivered:
  "\<exists>d. demux_reach d \<and> txns d sample_txn = Some \<lparr>txn_server = sample_ap, txn_reply = (NewBuffered 1)\<lparr>chan := [sample_response]\<rparr>\<rparr>"
proof -
  let ?d = "sample_demux\<lparr>txns := [sample_txn \<mapsto> \<lparr>txn_server = sample_ap, txn_reply = NewBuffered 1\<rparr>]\<rparr>"
  have r: "registry_ok (txns ?d)" using demux_reach_inv [OF sample_txn_reach] by (simp add: demux_inv_def)
  have s: "isSTUNShaped sample_response = Ok True" "TxnIDOf sample_response = sample_txn" "20 \<le> length sample_response"
    by code_simp+
  have "deliverable (txns ?d) sample_ap sample_response"
    using s sample_response_parses by (simp add: deliverable_def NewBuffered_def sample_ap_def normalize_def)
  then obtain dn d' where "Classify ?d sample_ap sample_response = Ok (dn, d')"
    "txns d' sample_txn = Some \<lparr>txn_server = sample_ap, txn_reply = (NewBuffered 1)\<lparr>chan := [sample_response]\<rparr>\<rparr>"
    using Classify_eq [OF r, of sample_ap sample_response] route_eq [OF r s(3), of sample_ap] s by (auto, metis fun_upd_same)
  then show ?thesis
    using demux_reach.step [OF sample_txn_reach demux_step.classify] by blast
qed


text \<open>The recogniser of the demultiplexer is wider than the codec's: it leaves out the length
  checks, so a WireGuard data message from a programmed peer whose receiver index happens to equal
  the magic cookie is taken for STUN and dropped, although it is no STUN message.\<close>

theorem Classify_drops_cookie_index:
  assumes "demux_reach d" "32 \<le> length b" "take 8 b = [4, 0, 0, 0, 0x21, 0x12, 0xA4, 0x42]"
  shows "\<not> IsSTUN b \<and> (\<exists>d'. Classify d src b = Ok (\<lparr>dec_Bucket = BucketSTUN, dec_Peer = zero_key\<rparr>, d')
    \<and> droppedSTUN d' = droppedSTUN d + 1)"
proof -
  obtain r where b: "b = [4, 0, 0, 0, 0x21, 0x12, 0xA4, 0x42] @ r"
    using append_take_drop_id [of 8 b] unfolding assms(3) by metis
  have n: "b ! 0 = 4" "b ! 2 = 0" "b ! 3 = 0" "take 4 (drop 4 b) = [0x21, 0x12, 0xA4, 0x42]"
    by (simp_all add: b)
  have "isSTUNShaped b = Ok True"
    using n assms(2) by (simp add: isSTUNShaped_eq stunMagicCookie_def)
  moreover have "\<not> IsSTUN b"
    using length_field_zero [OF n(2,3)] assms(2) by (auto simp: IsSTUN_iff)
  moreover from this have "\<not> deliverable (txns d) src b"
    by (auto simp: deliverable_def is_Ok_iff ParseResponse_def IsSTUN_res_def')
  moreover have "registry_ok (txns d)"
    using demux_reach_inv [OF assms(1)] by (simp add: demux_inv_def)
  ultimately show ?thesis
    using Classify_eq [of d src b] by auto
qed

theorem Classify_drops_cookie_index_witness:
  "\<not> IsSTUN ([4, 0, 0, 0, 0x21, 0x12, 0xA4, 0x42] @ replicate 24 7)
   \<and> (\<exists>d'. Classify sample_demux sample_ap ([4, 0, 0, 0, 0x21, 0x12, 0xA4, 0x42] @ replicate 24 7)
         = Ok (\<lparr>dec_Bucket = BucketSTUN, dec_Peer = zero_key\<rparr>, d') \<and> droppedSTUN d' = droppedSTUN sample_demux + 1)"
  by (rule Classify_drops_cookie_index [OF sample_demux_reach]) simp_all

end
