(* ===== verification/Mobile_Bind.thy ===== *)
theory Mobile_Bind
  imports Demux
begin

text \<open>
  The datagram sockets of the mobile core (\<^verbatim>\<open>internal/mobilebind\<close>): one pair of sockets carries
  WireGuard and STUN, and the receive path separates the two. The operating system is an argument: what
  opening a socket, protecting it and writing to it return. A discovery and the arrival of datagrams
  interleave; they are run together over a sequence of events, in which the network, the scheduler and
  the clock are free.
\<close>

section \<open>Separating STUN from WireGuard (demux.go)\<close>

definition mb_IsSTUN_res :: "byte list \<Rightarrow> bool res" where
  "mb_IsSTUN_res b =
     (if length b < stunHeaderSize then Ok False
      else bind_res (index b 0) (\<lambda>b0.
      if b0 AND 0xC0 \<noteq> 0 then Ok False
      else bind_res (bind_res (slice b 4 8) Uint32) (\<lambda>cookie.
      if cookie \<noteq> stunMagicCookie then Ok False
      else bind_res (bind_res (slice b 2 4) Uint16) (\<lambda>l.
      let msgLen = unat l in
      Ok (msgLen mod 4 = 0 \<and> stunHeaderSize + msgLen = length b \<and> length b \<le> 2048)))))"

definition mb_TxnIDOf :: "byte list \<Rightarrow> TxnID res" where
  "mb_TxnIDOf b = slice b 8 20"

text \<open>Unlike the registry of the desktop relay, this one replaces a transaction that is already there.\<close>

definition mb_Register :: "TxnRegistry \<Rightarrow> TxnID \<Rightarrow> addrport \<Rightarrow> TxnRegistry" where
  "mb_Register r i server =
     r(i \<mapsto> \<lparr>txn_server = AddrPort (Unmap (ap_addr server)) (ap_port server), txn_reply = NewBuffered 1\<rparr>)"

definition mb_Unregister :: "TxnRegistry \<Rightarrow> TxnID \<Rightarrow> TxnRegistry" where
  "mb_Unregister r i = r(i := None)"

definition Dispatch :: "TxnRegistry \<Rightarrow> byte list \<Rightarrow> addrport \<Rightarrow> (bool \<times> TxnRegistry) res" where
  "Dispatch r b src =
     bind_res (mb_IsSTUN_res b) (\<lambda>is.
     if \<not> is then Ok (False, r)
     else bind_res (mb_TxnIDOf b) (\<lambda>i.
     case r i of
       None \<Rightarrow> Ok (False, r)
     | Some txn \<Rightarrow>
         if txn_server txn \<noteq> AddrPort (Unmap (ap_addr src)) (ap_port src) then Ok (False, r)
         else (case ParseResponse b i of
                 Panic \<Rightarrow> Panic
               | Err _ \<Rightarrow> Ok (False, r)
               | Ok _ \<Rightarrow>
                   bind_res (TryEnqueue (txn_reply txn) b) (\<lambda>(_, q).
                   Ok (True, r(i \<mapsto> txn\<lparr>txn_reply := q\<rparr>))))))"

section \<open>The sockets (bind.go)\<close>

record UDPConn =
  conn_id :: nat
  conn_port :: u16

text \<open>\<open>protector\<close> excludes a socket from the tunnel.\<close>

record Bind =
  b_protector :: "(int \<Rightarrow> bool) option"
  b_registry :: TxnRegistry
  conn4 :: "UDPConn option"
  conn6 :: "UDPConn option"
  b_open :: bool

definition New_bind :: "(int \<Rightarrow> bool) option \<Rightarrow> Bind" where
  "New_bind protector =
     \<lparr>b_protector = protector, b_registry = NewTxnRegistry, conn4 = None, conn6 = None, b_open = False\<rparr>"

text \<open>The answers of the operating system while a socket is opened: its descriptor, whether the
  descriptor can be used, and the bound socket.\<close>

record listen_env =
  le_fd :: "string \<Rightarrow> int"
  le_control :: "string \<Rightarrow> unit res"
  le_listen :: "string \<Rightarrow> u16 \<Rightarrow> UDPConn res"

definition protect_socket :: "(int \<Rightarrow> bool) option \<Rightarrow> int \<Rightarrow> unit res \<Rightarrow> unit res" where
  "protect_socket protector fd ctl =
     (case protector of
        None \<Rightarrow> Ok ()
      | Some protect \<Rightarrow>
          bind_res ctl (\<lambda>_.
          if \<not> protect (sint (word_of_int fd :: 32 word)) then Err (ErrNew ''socket protect failed'') else Ok ()))"

text \<open>\<^verbatim>\<open>net.ListenConfig\<close> runs the control function before binding and gives up when it fails.\<close>

definition bind_listen :: "listen_env \<Rightarrow> Bind \<Rightarrow> string \<Rightarrow> u16 \<Rightarrow> UDPConn res" where
  "bind_listen env b net port =
     bind_res (protect_socket (b_protector b) (le_fd env net) (le_control env net)) (\<lambda>_. le_listen env net port)"

definition ErrBindAlreadyOpen :: error where "ErrBindAlreadyOpen = ErrNew ''bind is already open''"

text \<open>The result names the sockets that get a receive function, and the port.\<close>

definition Open_bind :: "listen_env \<Rightarrow> Bind \<Rightarrow> u16 \<Rightarrow> (Bind \<times> UDPConn list \<times> u16) res" where
  "Open_bind env b port =
     (if b_open b then Err ErrBindAlreadyOpen
      else case bind_listen env b ''udp4'' port of
        Panic \<Rightarrow> Panic
      | Err e \<Rightarrow> Err (ErrWrap ''listen udp4'' [e])
      | Ok c4 \<Rightarrow>
          let actualPort = conn_port c4 in
          (case bind_listen env b ''udp6'' actualPort of
             Panic \<Rightarrow> Panic
           | Err _ \<Rightarrow> Ok (b\<lparr>conn4 := Some c4, conn6 := None, b_open := True\<rparr>, [c4], actualPort)
           | Ok c6 \<Rightarrow> Ok (b\<lparr>conn4 := Some c4, conn6 := Some c6, b_open := True\<rparr>, [c4, c6], actualPort)))"

text \<open>A receive function on the results of its reads; \<open>None\<close> when it is still blocked after them.\<close>

fun receiveFunc :: "TxnRegistry \<Rightarrow> (byte list \<times> addrport) res list \<Rightarrow> (TxnRegistry \<times> (byte list \<times> addrport) res) option" where
  "receiveFunc r [] = None"
| "receiveFunc r (Panic # reads) = Some (r, Panic)"
| "receiveFunc r (Err e # reads) = Some (r, Err e)"
| "receiveFunc r (Ok (pkt, src) # reads) =
     (case mb_IsSTUN_res pkt of
        Ok True \<Rightarrow>
          (case Dispatch r pkt src of
             Ok (_, r') \<Rightarrow> receiveFunc r' reads
           | Err e \<Rightarrow> Some (r, Err e) | Panic \<Rightarrow> Some (r, Panic))
      | Ok False \<Rightarrow> Some (r, Ok (pkt, src))
      | Err e \<Rightarrow> Some (r, Err e) | Panic \<Rightarrow> Some (r, Panic))"

definition Close_bind :: "(UDPConn \<Rightarrow> unit res) \<Rightarrow> Bind \<Rightarrow> Bind \<times> unit res" where
  "Close_bind close b =
     (let closed = (\<lambda>c. case c of None \<Rightarrow> Ok () | Some s \<Rightarrow> close s) in
      (b\<lparr>conn4 := None, conn6 := None, b_open := False\<rparr>, errors_Join [closed (conn4 b), closed (conn6 b)]))"

definition connFor :: "Bind \<Rightarrow> addr \<Rightarrow> UDPConn option" where
  "connFor b a =
     (if Is4 a \<or> Is4In6 a then conn4 b
      else case conn6 b of Some c \<Rightarrow> Some c | None \<Rightarrow> conn4 b)"

definition net_ErrClosed :: error where "net_ErrClosed = ErrNew ''use of closed network connection''"
definition ErrWrongEndpointType :: error where "ErrWrongEndpointType = ErrNew ''endpoint type does not correspond with bind type''"

text \<open>A datagram that left: the socket, the payload and the destination.\<close>

type_synonym sent = "UDPConn \<times> byte list \<times> addrport"

fun send_loop :: "(UDPConn \<Rightarrow> addrport \<Rightarrow> byte list \<Rightarrow> unit res) \<Rightarrow> UDPConn \<Rightarrow> addrport \<Rightarrow> byte list list \<Rightarrow> sent list \<times> unit res" where
  "send_loop write c ap [] = ([], Ok ())"
| "send_loop write c ap (buf # bufs) =
     (case write c ap buf of
        Ok _ \<Rightarrow> (case send_loop write c ap bufs of (ds, r) \<Rightarrow> ((c, buf, ap) # ds, r))
      | Err e \<Rightarrow> ([], Err e) | Panic \<Rightarrow> ([], Panic))"

text \<open>The endpoint is \<open>None\<close> when it is not one this bind made.\<close>

definition Send :: "(UDPConn \<Rightarrow> addrport \<Rightarrow> byte list \<Rightarrow> unit res) \<Rightarrow> Bind \<Rightarrow> byte list list \<Rightarrow> addrport option \<Rightarrow> sent list \<times> unit res" where
  "Send write b bufs ep =
     (case ep of
        None \<Rightarrow> ([], Err ErrWrongEndpointType)
      | Some ap \<Rightarrow>
          (case connFor b (ap_addr ap) of
             None \<Rightarrow> ([], Err net_ErrClosed)
           | Some c \<Rightarrow> send_loop write c ap bufs))"

definition SendTo :: "(UDPConn \<Rightarrow> addrport \<Rightarrow> byte list \<Rightarrow> unit res) \<Rightarrow> Bind \<Rightarrow> addrport \<Rightarrow> byte list \<Rightarrow> sent list \<times> unit res" where
  "SendTo write b ap payload =
     (case connFor b (ap_addr ap) of
        None \<Rightarrow> ([], Err net_ErrClosed)
      | Some c \<Rightarrow>
          (case write c ap payload of
             Ok _ \<Rightarrow> ([(c, payload, ap)], Ok ()) | Err e \<Rightarrow> ([], Err e) | Panic \<Rightarrow> ([], Panic)))"

definition ParseEndpoint :: "string \<Rightarrow> addrport res" where
  "ParseEndpoint s = ParseAddrPort s"

definition BatchSize :: nat where "BatchSize = 1"

section \<open>Discovery over the shared sockets (stun.go)\<close>

definition stunInitialRTO :: duration where "stunInitialRTO = 500 * millisecond"
definition stunMaxRetries :: nat where "stunMaxRetries = 4"
definition ErrStunTimeout :: error where "ErrStunTimeout = ErrNew ''stun: no response''"

text \<open>A running discovery: the bind with its registry, the requests sent so far, the current
  retransmission time, the running timers in the order they were set, and the result once it is known.\<close>

record discovery =
  dv_bind :: Bind
  dv_attempt :: nat
  dv_rto :: duration
  dv_timers :: "duration list"
  dv_sent :: "sent list"
  dv_relayed :: "(byte list \<times> addrport) list"
  dv_result :: "addrport res option"

text \<open>Returning runs the deferred \<^verbatim>\<open>Unregister\<close>.\<close>

definition discover_return :: "TxnID \<Rightarrow> addrport res \<Rightarrow> discovery \<Rightarrow> discovery" where
  "discover_return txn result d =
     d\<lparr>dv_bind := (dv_bind d)\<lparr>b_registry := mb_Unregister (b_registry (dv_bind d)) txn\<rparr>, dv_result := Some result\<rparr>"

text \<open>The head of the loop over the attempts. \<open>write n\<close> is the outcome of the write of attempt \<open>n\<close>.\<close>

definition next_attempt ::
  "(nat \<Rightarrow> UDPConn \<Rightarrow> addrport \<Rightarrow> byte list \<Rightarrow> unit res) \<Rightarrow> addrport \<Rightarrow> byte list \<Rightarrow> TxnID \<Rightarrow> discovery \<Rightarrow> discovery" where
  "next_attempt write dst req txn d =
     (if \<not> dv_attempt d < stunMaxRetries then discover_return txn (Err ErrStunTimeout) d
      else case SendTo (write (dv_attempt d)) (dv_bind d) dst req of
        (ds, Ok _) \<Rightarrow> d\<lparr>dv_attempt := dv_attempt d + 1, dv_sent := dv_sent d @ ds, dv_timers := dv_timers d @ [dv_rto d]\<rparr>
      | (ds, Err e) \<Rightarrow> discover_return txn (Err (ErrWrap ''stun: send'' [e])) d
      | (ds, Panic) \<Rightarrow> discover_return txn Panic d)"

definition Discover ::
  "(nat \<Rightarrow> UDPConn \<Rightarrow> addrport \<Rightarrow> byte list \<Rightarrow> unit res) \<Rightarrow> byte list res \<Rightarrow> addrport \<Rightarrow> Bind \<Rightarrow> (byte list \<times> TxnID \<times> discovery) res" where
  "Discover write rnd dst b =
     (if \<not> ap_IsValid dst then Err (ErrNew ''stun: invalid destination'')
      else bind_res (BuildRequest rnd) (\<lambda>(req, txn).
        Ok (req, txn, next_attempt write dst req txn
          \<lparr>dv_bind = b\<lparr>b_registry := mb_Register (b_registry b) txn dst\<rparr>, dv_attempt = 0, dv_rto = stunInitialRTO,
           dv_timers = [], dv_sent = [], dv_relayed = [], dv_result = None\<rparr>)))"

text \<open>What can happen next: a datagram arrives on a socket, the waiting goroutine takes a reply from its
  channel, its context ends, its timer fires.\<close>

datatype discover_event = Arrives "byte list" addrport | TakesReply | CtxDone error | TimerFires

definition discover_step ::
  "(nat \<Rightarrow> UDPConn \<Rightarrow> addrport \<Rightarrow> byte list \<Rightarrow> unit res) \<Rightarrow> addrport \<Rightarrow> byte list \<Rightarrow> TxnID \<Rightarrow> discover_event \<Rightarrow> discovery \<Rightarrow> discovery" where
  "discover_step write dst req txn ev d =
     (case ev of
        Arrives pkt src \<Rightarrow>
          (case receiveFunc (b_registry (dv_bind d)) [Ok (pkt, src)] of
             None \<Rightarrow>
               (case Dispatch (b_registry (dv_bind d)) pkt src of
                  Ok (_, r) \<Rightarrow> d\<lparr>dv_bind := (dv_bind d)\<lparr>b_registry := r\<rparr>\<rparr>
                | _ \<Rightarrow> d)
           | Some (r, Ok x) \<Rightarrow> d\<lparr>dv_relayed := dv_relayed d @ [x]\<rparr>
           | Some (r, _) \<Rightarrow> d)
      | TakesReply \<Rightarrow>
          if dv_result d \<noteq> None then d
          else (case b_registry (dv_bind d) txn of
             None \<Rightarrow> d
           | Some t \<Rightarrow>
               (case Dequeue (txn_reply t) of
                  Some (Some resp, q) \<Rightarrow>
                    let d1 = d\<lparr>dv_bind := (dv_bind d)\<lparr>b_registry := (b_registry (dv_bind d))(txn \<mapsto> t\<lparr>txn_reply := q\<rparr>)\<rparr>\<rparr> in
                    (case ParseResponse resp txn of
                       Ok ap \<Rightarrow> discover_return txn (Ok ap) d1
                     | Err _ \<Rightarrow> d1
                     | Panic \<Rightarrow> discover_return txn Panic d1)
                | _ \<Rightarrow> d))
      | CtxDone e \<Rightarrow> if dv_result d \<noteq> None then d else discover_return txn (Err e) d
      | TimerFires \<Rightarrow>
          if dv_result d \<noteq> None then d
          else next_attempt write dst req txn (d\<lparr>dv_rto := dv_rto d * 2\<rparr>))"

definition discover_run ::
  "(nat \<Rightarrow> UDPConn \<Rightarrow> addrport \<Rightarrow> byte list \<Rightarrow> unit res) \<Rightarrow> addrport \<Rightarrow> byte list \<Rightarrow> TxnID \<Rightarrow> discover_event list \<Rightarrow> discovery \<Rightarrow> discovery" where
  "discover_run write dst req txn evs d = fold (discover_step write dst req txn) evs d"

section \<open>The separation agrees with the codec and the desktop relay\<close>

lemma mb_IsSTUN_res_eq: "mb_IsSTUN_res b = Ok (IsSTUN b)"
  by (auto simp: mb_IsSTUN_res_def IsSTUN_iff stunHeaderSize_def index_def slice_def Uint16_def Uint32_def Let_def)

lemma mb_TxnIDOf_eq: "IsSTUN b \<Longrightarrow> mb_TxnIDOf b = Ok (TxnIDOf b)"
  by (simp add: mb_TxnIDOf_def IsSTUN_iff TxnIDOf_def)

lemma Dispatch_not_STUN: "\<not> IsSTUN b \<Longrightarrow> Dispatch r b src = Ok (False, r)"
  by (simp add: Dispatch_def mb_IsSTUN_res_eq)

text \<open>What a dispatch does to a consistent registry: a valid reply from the right server is acknowledged,
  and put into the channel when the channel is empty.\<close>

definition answers_txn :: "TxnRegistry \<Rightarrow> addrport \<Rightarrow> byte list \<Rightarrow> bool" where
  "answers_txn r src b \<longleftrightarrow> (\<exists>t. r (TxnIDOf b) = Some t \<and> txn_server t = normalize src \<and> is_Ok (ParseResponse b (TxnIDOf b)))"

lemma Dispatch_eq:
  assumes "registry_ok r" "IsSTUN b"
  shows "Dispatch r b src = Ok (answers_txn r src b,
     if deliverable r src b
     then r(TxnIDOf b \<mapsto> (the (r (TxnIDOf b)))\<lparr>txn_reply := (txn_reply (the (r (TxnIDOf b))))\<lparr>chan := [b]\<rparr>\<rparr>) else r)"
proof (cases "r (TxnIDOf b)")
  case (Some t)
  have q: "\<not> chan_closed (txn_reply t)" "chan_cap (txn_reply t) = 1" using assms(1) Some by (auto simp: registry_ok_def)
  have c: "txn_reply t = (txn_reply t)\<lparr>chan := chan (txn_reply t)\<rparr>" "r = r(TxnIDOf b \<mapsto> t)" using Some by auto
  show ?thesis
    using Some q c(2) assms(2)
    by (cases "ParseResponse b (TxnIDOf b)"; cases "chan (txn_reply t)")
      (auto simp: Dispatch_def mb_IsSTUN_res_eq mb_TxnIDOf_eq answers_txn_def deliverable_def normalize_def[symmetric] TryEnqueue_def)
qed (use assms(2) in \<open>auto simp: Dispatch_def mb_IsSTUN_res_eq mb_TxnIDOf_eq answers_txn_def deliverable_def\<close>)

lemma Dispatch_route:
  assumes "registry_ok r" "IsSTUN b" "Dispatch r b src = Ok (ok, r')"
  shows "\<exists>sent. route r src b = Ok (sent, r')"
  using Dispatch_eq[OF assms(1,2)] route_eq[OF assms(1), of b src] assms(2,3) by (auto simp: IsSTUN_iff)

lemma Dispatch_ok: "registry_ok r \<Longrightarrow> \<exists>ok r'. Dispatch r b src = Ok (ok, r') \<and> registry_ok r'"
  using Dispatch_eq[of r b src] Dispatch_not_STUN[of b r src] Dispatch_route[of r b src] route_registry_ok[of r b src]
  by (cases "IsSTUN b") (force simp: IsSTUN_iff)+

text \<open>C38. The mobile receive path is the desktop relay's, packet by packet. Its recogniser is the codec's,
  for every byte string; a packet that is not STUN leaves the transactions alone; and a packet that is
  leaves them exactly as the desktop's routing does, only that a second valid reply to a transaction is
  acknowledged although it is not delivered.\<close>

theorem mobile_demux_agrees:
  assumes "registry_ok r"
  shows "mb_IsSTUN_res b = Ok (IsSTUN b)
    \<and> (\<exists>acked r'. Dispatch r b src = Ok (acked, r') \<and> registry_ok r'
        \<and> (if IsSTUN b then \<exists>sent. route r src b = Ok (sent, r') \<and> (sent \<longrightarrow> acked)
             \<and> (acked \<and> \<not> sent \<longleftrightarrow> answers_txn r src b \<and> \<not> deliverable r src b)
           else r' = r \<and> \<not> acked))"
proof (cases "IsSTUN b")
  case True
  obtain acked r' where d: "Dispatch r b src = Ok (acked, r')" "registry_ok r'" using Dispatch_ok[OF assms] by blast
  have len: "20 \<le> length b" using True by (simp add: IsSTUN_iff)
  have a: "acked = answers_txn r src b" using Dispatch_eq[OF assms True] d(1) by simp
  obtain sent where s: "route r src b = Ok (sent, r')" using Dispatch_route[OF assms True d(1)] by blast
  then have "sent = deliverable r src b" using route_eq[OF assms len, of src] by (auto split: if_splits)
  moreover have "deliverable r src b \<Longrightarrow> answers_txn r src b" by (auto simp: deliverable_def answers_txn_def)
  ultimately show ?thesis using d s a True by (auto simp: mb_IsSTUN_res_eq)
qed (use assms Dispatch_not_STUN in \<open>auto simp: mb_IsSTUN_res_eq\<close>)

section \<open>The receive path\<close>

text \<open>WireGuard never sees a STUN packet and misses nothing else: a receive function hands over the first
  datagram that is not STUN, and everything before it was STUN; it does not fail unless a read does.\<close>

theorem receive_separates:
  assumes "registry_ok r"
  shows "(receiveFunc r reads = Some (r', Ok (pkt, src)) \<longrightarrow>
      registry_ok r' \<and> \<not> IsSTUN pkt \<and> (\<exists>before rest. reads = before @ Ok (pkt, src) # rest
         \<and> (\<forall>x\<in>set before. \<exists>p s. x = Ok (p, s) \<and> IsSTUN p)))
    \<and> (receiveFunc r reads = None \<longleftrightarrow> (\<forall>x\<in>set reads. \<exists>p s. x = Ok (p, s) \<and> IsSTUN p))
    \<and> (receiveFunc r reads = Some (r', Err e) \<longrightarrow> Err e \<in> set reads)
    \<and> (receiveFunc r reads = Some (r', Panic) \<longrightarrow> Panic \<in> set reads)"
  using assms
proof (induction r reads rule: receiveFunc.induct)
  case (4 r p s reads)
  obtain ok r1 where d: "Dispatch r p s = Ok (ok, r1)" "registry_ok r1" using Dispatch_ok[OF 4(2)] by blast
  show ?case
  proof (cases "IsSTUN p")
    case True
    have e: "receiveFunc r (Ok (p, s) # reads) = receiveFunc r1 reads" using True d(1) by (simp add: mb_IsSTUN_res_eq)
    have "\<exists>before rest. Ok (p, s) # reads = before @ Ok (pkt, src) # rest \<and> (\<forall>x\<in>set before. \<exists>p s. x = Ok (p, s) \<and> IsSTUN p)"
      if "reads = before @ Ok (pkt, src) # rest" "\<forall>x\<in>set before. \<exists>p s. x = Ok (p, s) \<and> IsSTUN p" for before rest
      using that True by (intro exI[of _ "Ok (p, s) # before"] exI[of _ rest]) auto
    with 4(1)[OF _ _ d(1) refl d(2)] True e show ?thesis by (simp add: mb_IsSTUN_res_eq) blast
  next
    case False
    then have e: "receiveFunc r (Ok (p, s) # reads) = Some (r, Ok (p, s))" by (simp add: mb_IsSTUN_res_eq)
    have "\<exists>before rest. Ok (p, s) # reads = before @ Ok (p, s) # rest \<and> (\<forall>x\<in>set before. \<exists>p s. x = Ok (p, s) \<and> IsSTUN p)"
      by (intro exI[of _ "[]"] exI[of _ reads]) simp
    with e False 4(2) show ?thesis by auto
  qed
qed auto

section \<open>Discoveries\<close>

text \<open>The invariant of a discovery for \<open>dst\<close> on the sockets of \<open>b\<close>. \<open>A\<close> holds the datagrams that have arrived.\<close>

definition disc_inv :: "Bind \<Rightarrow> addrport \<Rightarrow> byte list \<Rightarrow> TxnID \<Rightarrow> (byte list \<times> addrport) set \<Rightarrow> discovery \<Rightarrow> bool" where
  "disc_inv b dst req txn A d \<longleftrightarrow>
     registry_ok (b_registry (dv_bind d)) \<and> conn4 (dv_bind d) = conn4 b \<and> conn6 (dv_bind d) = conn6 b \<and>
     dv_attempt d \<le> stunMaxRetries \<and> length (dv_sent d) = dv_attempt d \<and>
     (\<forall>x\<in>set (dv_sent d). \<exists>c. connFor b (ap_addr dst) = Some c \<and> x = (c, req, dst)) \<and>
     dv_timers d = map (\<lambda>k. stunInitialRTO * 2 ^ k) [0..<dv_attempt d] \<and>
     (\<forall>x\<in>set (dv_relayed d). x \<in> A \<and> \<not> IsSTUN (fst x)) \<and>
     (case dv_result d of
        None \<Rightarrow> 0 < dv_attempt d \<and> dv_rto d * 2 = stunInitialRTO * 2 ^ dv_attempt d \<and>
          (\<exists>t. b_registry (dv_bind d) txn = Some t \<and> txn_server t = normalize dst \<and>
             (\<forall>p\<in>set (chan (txn_reply t)). \<exists>src. (p, src) \<in> A \<and> normalize src = normalize dst))
      | Some r \<Rightarrow> b_registry (dv_bind d) txn = None \<and> r \<noteq> Panic \<and>
          (\<forall>ap. r = Ok ap \<longrightarrow> (\<exists>pkt src. (pkt, src) \<in> A \<and> normalize src = normalize dst \<and> ParseResponse pkt txn = Ok ap)))"

lemma registry_ok_delete: "registry_ok r \<Longrightarrow> registry_ok (mb_Unregister r i)"
  by (simp add: registry_ok_def mb_Unregister_def)

lemma registry_ok_register: "registry_ok r \<Longrightarrow> registry_ok (mb_Register r i server)"
  by (simp add: registry_ok_def mb_Register_def NewBuffered_def)

lemma connFor_cong: "conn4 b = conn4 b' \<Longrightarrow> conn6 b = conn6 b' \<Longrightarrow> connFor b a = connFor b' a"
  by (simp add: connFor_def split: option.split)

text \<open>A return with an error, or with the address of a reply that arrived.\<close>

lemma discover_return_inv:
  assumes "registry_ok (b_registry (dv_bind d))" "conn4 (dv_bind d) = conn4 b" "conn6 (dv_bind d) = conn6 b"
    "dv_attempt d \<le> stunMaxRetries" "length (dv_sent d) = dv_attempt d"
    "\<forall>x\<in>set (dv_sent d). \<exists>c. connFor b (ap_addr dst) = Some c \<and> x = (c, req, dst)"
    "dv_timers d = map (\<lambda>k. stunInitialRTO * 2 ^ k) [0..<dv_attempt d]"
    "\<forall>x\<in>set (dv_relayed d). x \<in> A \<and> \<not> IsSTUN (fst x)" "r \<noteq> Panic"
    "\<forall>ap. r = Ok ap \<longrightarrow> (\<exists>pkt src. (pkt, src) \<in> A \<and> normalize src = normalize dst \<and> ParseResponse pkt txn = Ok ap)"
  shows "disc_inv b dst req txn A (discover_return txn r d)"
  using assms registry_ok_delete[OF assms(1), of txn]
  by (simp add: disc_inv_def discover_return_def mb_Unregister_def)

lemma next_attempt_inv:
  assumes reg: "registry_ok (b_registry (dv_bind d))" and c: "conn4 (dv_bind d) = conn4 b" "conn6 (dv_bind d) = conn6 b"
    and n: "dv_attempt d \<le> stunMaxRetries" "length (dv_sent d) = dv_attempt d"
    and s: "\<forall>x\<in>set (dv_sent d). \<exists>c. connFor b (ap_addr dst) = Some c \<and> x = (c, req, dst)"
    and t: "dv_timers d = map (\<lambda>k. stunInitialRTO * 2 ^ k) [0..<dv_attempt d]"
    and rel: "\<forall>x\<in>set (dv_relayed d). x \<in> A \<and> \<not> IsSTUN (fst x)"
    and rto: "dv_rto d = stunInitialRTO * 2 ^ dv_attempt d" and res: "dv_result d = None"
    and txn: "\<exists>t. b_registry (dv_bind d) txn = Some t \<and> txn_server t = normalize dst \<and>
       (\<forall>p\<in>set (chan (txn_reply t)). \<exists>src. (p, src) \<in> A \<and> normalize src = normalize dst)"
    and w: "\<forall>k c. write k c dst req \<noteq> Panic"
  shows "disc_inv b dst req txn A (next_attempt write dst req txn d)"
proof -
  have ret: "disc_inv b dst req txn A (discover_return txn (Err e) d)" for e
    by (rule discover_return_inv[OF reg c n s t rel]) simp_all
  show ?thesis
  proof (cases "dv_attempt d < stunMaxRetries")
    case True
    note cf = connFor_cong[OF c, of "ap_addr dst"]
    show ?thesis
    proof (cases "connFor b (ap_addr dst)")
      case None
      with True ret cf show ?thesis by (simp add: next_attempt_def SendTo_def)
    next
      case (Some cn)
      show ?thesis
        using True ret cf Some w reg c n s t rel rto res txn
        by (cases "write (dv_attempt d) cn dst req") (auto simp: next_attempt_def SendTo_def disc_inv_def)
    qed
  qed (use ret in \<open>simp add: next_attempt_def\<close>)
qed

lemma Discover_inv:
  assumes "Discover write rnd dst b = Ok (req, txn, d)" "registry_ok (b_registry b)" "\<forall>k c. write k c dst req \<noteq> Panic"
  shows "disc_inv b dst req txn A d"
proof -
  have d: "d = next_attempt write dst req txn
      \<lparr>dv_bind = b\<lparr>b_registry := mb_Register (b_registry b) txn dst\<rparr>, dv_attempt = 0, dv_rto = stunInitialRTO,
       dv_timers = [], dv_sent = [], dv_relayed = [], dv_result = None\<rparr>"
    using assms(1) by (auto simp: Discover_def split: if_splits)
  show ?thesis
    unfolding d by (rule next_attempt_inv)
      (use assms(2,3) registry_ok_register[OF assms(2)] in \<open>auto simp: mb_Register_def NewBuffered_def normalize_def\<close>)
qed

lemma disc_inv_mono: "disc_inv b dst req txn A d \<Longrightarrow> A \<subseteq> B \<Longrightarrow> disc_inv b dst req txn B d"
  unfolding disc_inv_def by (auto split: option.splits; blast)

text \<open>What arrives changes the transaction at most by the datagram itself, when it came from the server.\<close>

lemma Dispatch_entry:
  assumes "registry_ok r" "Dispatch r pkt src = Ok (ok, r')"
  shows "r' i = r i \<or> (\<exists>t. r i = Some t \<and> txn_server t = normalize src \<and> r' i = Some (t\<lparr>txn_reply := (txn_reply t)\<lparr>chan := [pkt]\<rparr>\<rparr>))"
proof (cases "IsSTUN pkt")
  case True
  then show ?thesis using Dispatch_eq[OF assms(1) True, of src] assms(2) by (auto simp: deliverable_def split: if_splits)
qed (use Dispatch_not_STUN assms(2) in auto)

fun arrived :: "discover_event \<Rightarrow> (byte list \<times> addrport) set" where
  "arrived (Arrives pkt src) = {(pkt, src)}"
| "arrived _ = {}"

lemma step_arrives:
  assumes "disc_inv b dst req txn A d"
  shows "disc_inv b dst req txn (A \<union> {(pkt, src)}) (discover_step write dst req txn (Arrives pkt src) d)"
proof -
  note i = disc_inv_mono[OF assms, of "A \<union> {(pkt, src)}", OF Un_upper1]
  let ?r = "b_registry (dv_bind d)"
  have reg: "registry_ok ?r" using assms by (simp add: disc_inv_def)
  obtain ok r' where d: "Dispatch ?r pkt src = Ok (ok, r')" "registry_ok r'" using Dispatch_ok[OF reg] by blast
  show ?thesis
  proof (cases "IsSTUN pkt")
    case True
    then have s: "discover_step write dst req txn (Arrives pkt src) d = d\<lparr>dv_bind := (dv_bind d)\<lparr>b_registry := r'\<rparr>\<rparr>"
      using d(1) by (simp add: discover_step_def mb_IsSTUN_res_eq)
    from Dispatch_entry[OF reg d(1), of txn] show ?thesis
    proof
      assume "r' txn = ?r txn"
      then show ?thesis using i d(2) unfolding s by (cases "dv_result d") (simp_all add: disc_inv_def)
    next
      assume "\<exists>t. ?r txn = Some t \<and> txn_server t = normalize src \<and> r' txn = Some (t\<lparr>txn_reply := (txn_reply t)\<lparr>chan := [pkt]\<rparr>\<rparr>)"
      then obtain t where t: "?r txn = Some t" "txn_server t = normalize src"
        "r' txn = Some (t\<lparr>txn_reply := (txn_reply t)\<lparr>chan := [pkt]\<rparr>\<rparr>)" by blast
      then have "dv_result d = None" "normalize src = normalize dst" using i by (auto simp: disc_inv_def split: option.splits)
      with i t d(2) show ?thesis unfolding s by (auto simp: disc_inv_def)
    qed
  next
    case False
    then show ?thesis using i by (auto simp: discover_step_def mb_IsSTUN_res_eq disc_inv_def split: option.splits)
  qed
qed

text \<open>A reply that is in the channel is valid, so taking it ends the discovery.\<close>

lemma takes_reply_ends:
  assumes "disc_inv b dst req txn A d" "dv_result d = None" "b_registry (dv_bind d) txn = Some t" "chan (txn_reply t) = p # ps"
  shows "\<exists>ap. ParseResponse p txn = Ok ap \<and> discover_step write dst req txn TakesReply d =
    discover_return txn (Ok ap) (d\<lparr>dv_bind := (dv_bind d)\<lparr>b_registry := (b_registry (dv_bind d))(txn \<mapsto> t\<lparr>txn_reply := (txn_reply t)\<lparr>chan := ps\<rparr>\<rparr>)\<rparr>\<rparr>)"
proof -
  have "is_Ok (ParseResponse p txn)" using assms(1,3,4) by (auto simp: disc_inv_def registry_ok_def)
  then obtain ap where "ParseResponse p txn = Ok ap" by (auto simp: is_Ok_iff)
  then show ?thesis using assms(2-4) by (auto simp: discover_step_def Dequeue_def)
qed

lemma step_takes:
  assumes "disc_inv b dst req txn A d"
  shows "disc_inv b dst req txn A (discover_step write dst req txn TakesReply d)"
proof (cases "dv_result d")
  case None
  then obtain t where t: "b_registry (dv_bind d) txn = Some t" "txn_server t = normalize dst"
    "\<forall>p\<in>set (chan (txn_reply t)). \<exists>src. (p, src) \<in> A \<and> normalize src = normalize dst"
    using assms by (auto simp: disc_inv_def)
  have q: "\<not> chan_closed (txn_reply t)" using assms t(1) by (auto simp: disc_inv_def registry_ok_def)
  show ?thesis
  proof (cases "chan (txn_reply t)")
    case Nil
    then show ?thesis using assms None t(1) q by (simp add: discover_step_def Dequeue_def)
  next
    case (Cons p ps)
    obtain ap where ap: "ParseResponse p txn = Ok ap" "discover_step write dst req txn TakesReply d =
      discover_return txn (Ok ap) (d\<lparr>dv_bind := (dv_bind d)\<lparr>b_registry := (b_registry (dv_bind d))(txn \<mapsto> t\<lparr>txn_reply := (txn_reply t)\<lparr>chan := ps\<rparr>\<rparr>)\<rparr>\<rparr>)"
      using takes_reply_ends[OF assms None t(1) Cons] by blast
    have "registry_ok ((b_registry (dv_bind d))(txn \<mapsto> t\<lparr>txn_reply := (txn_reply t)\<lparr>chan := ps\<rparr>\<rparr>))"
      using assms t(1) Cons by (fastforce simp: disc_inv_def registry_ok_def)
    then show ?thesis
      unfolding ap(2) by (intro discover_return_inv) (use assms t(3) Cons ap(1) in \<open>auto simp: disc_inv_def\<close>)
  qed
qed (use assms in \<open>simp add: discover_step_def\<close>)

lemma discover_step_inv:
  assumes "disc_inv b dst req txn A d" "\<forall>k c. write k c dst req \<noteq> Panic"
  shows "disc_inv b dst req txn (A \<union> arrived ev) (discover_step write dst req txn ev d)"
proof (cases ev)
  case (CtxDone e)
  show ?thesis
  proof (cases "dv_result d")
    case None
    have "disc_inv b dst req txn A (discover_return txn (Err e) d)"
      by (rule discover_return_inv) (use assms(1) in \<open>auto simp: disc_inv_def\<close>)
    with None CtxDone show ?thesis by (simp add: discover_step_def)
  qed (use assms(1) CtxDone in \<open>simp add: discover_step_def\<close>)
next
  case TimerFires
  show ?thesis
  proof (cases "dv_result d")
    case None
    have "disc_inv b dst req txn A (next_attempt write dst req txn (d\<lparr>dv_rto := dv_rto d * 2\<rparr>))"
      by (rule next_attempt_inv) (use assms None in \<open>auto simp: disc_inv_def\<close>)
    with None TimerFires show ?thesis by (simp add: discover_step_def)
  qed (use assms(1) TimerFires in \<open>simp add: discover_step_def\<close>)
qed (use assms(1) step_arrives step_takes in simp_all)

lemma discover_run_inv:
  assumes "disc_inv b dst req txn A d" "\<forall>k c. write k c dst req \<noteq> Panic"
  shows "disc_inv b dst req txn (A \<union> \<Union> (arrived ` set evs)) (discover_run write dst req txn evs d)"
  using assms(1)
proof (induction evs arbitrary: A d)
  case (Cons ev evs)
  have "disc_inv b dst req txn (A \<union> arrived ev) (discover_step write dst req txn ev d)"
    using Cons.prems assms(2) by (rule discover_step_inv)
  from Cons.IH[OF this] show ?case
    by (simp add: discover_run_def Un_assoc)
qed (simp add: discover_run_def)

lemma arrived_iff: "(pkt, src) \<in> \<Union> (arrived ` set evs) \<longleftrightarrow> Arrives pkt src \<in> set evs"
proof
  assume "(pkt, src) \<in> \<Union> (arrived ` set evs)"
  then obtain ev where ev: "ev \<in> set evs" "(pkt, src) \<in> arrived ev" by blast
  have "ev = Arrives pkt src" by (cases ev) (use ev(2) in auto)
  then show "Arrives pkt src \<in> set evs" using ev(1) by simp
qed force

section \<open>Properties of a discovery\<close>

lemma Discover_run_inv:
  assumes "Discover write rnd dst b = Ok (req, txn, d)" "registry_ok (b_registry b)" "\<forall>k c. write k c dst req \<noteq> Panic"
  shows "disc_inv b dst req txn (\<Union> (arrived ` set evs)) (discover_run write dst req txn evs d)"
  using discover_run_inv[of b dst req txn "{}" d "write" evs] Discover_inv[OF assms, of "{}"] assms(3) by simp

text \<open>The packets of a run that belong to WireGuard, in the order they arrive.\<close>

fun tunnel_packets :: "discover_event list \<Rightarrow> (byte list \<times> addrport) list" where
  "tunnel_packets [] = []"
| "tunnel_packets (Arrives pkt src # evs) = (if IsSTUN pkt then tunnel_packets evs else (pkt, src) # tunnel_packets evs)"
| "tunnel_packets (_ # evs) = tunnel_packets evs"

lemma relayed_step:
  "dv_relayed (discover_step write dst req txn ev d) = dv_relayed d @ tunnel_packets [ev]"
  by (cases ev) (auto simp: discover_step_def next_attempt_def discover_return_def mb_IsSTUN_res_eq Let_def
      split: option.splits res.splits prod.splits)

lemma relayed_run: "dv_relayed (discover_run write dst req txn evs d) = dv_relayed d @ tunnel_packets evs"
proof (induction evs arbitrary: d)
  case (Cons ev evs)
  have "tunnel_packets (ev # evs) = tunnel_packets [ev] @ tunnel_packets evs" by (cases ev) simp_all
  with Cons relayed_step[of "write" dst req txn ev d] show ?case by (simp add: discover_run_def)
qed (simp add: discover_run_def)

lemma Discover_relays_nothing: "Discover write rnd dst b = Ok (req, txn, d) \<Longrightarrow> dv_relayed d = []"
  by (auto simp: Discover_def next_attempt_def discover_return_def split: if_splits res.splits prod.splits)

text \<open>C22. A discovered address is one that the asked server reported, about the socket WireGuard uses. Whatever
  arrives and however the steps interleave: a result comes from a datagram that arrived from the server's
  own address and is a valid response to this request, and is global unicast with a port; at most four
  requests leave, all from the socket that carries WireGuard to that family; WireGuard receives exactly the packets
  that are not STUN, each once and in the order they arrive; and after the return the transaction is gone. The call never panics.\<close>

theorem mobile_discovery_sound:
  assumes "registry_ok (b_registry b)" "\<forall>k c. write k c dst req \<noteq> Panic" "Discover write rnd dst b = Ok (req, txn, d0)"
    "d = discover_run write dst req txn evs d0"
  shows "(dv_result d = Some (Ok ap) \<longrightarrow>
      (\<exists>pkt src. Arrives pkt src \<in> set evs \<and> normalize src = normalize dst \<and> ParseResponse pkt txn = Ok ap \<and> mapped_ok ap))
    \<and> length (dv_sent d) \<le> 4 \<and> (\<forall>x\<in>set (dv_sent d). \<exists>c. connFor b (ap_addr dst) = Some c \<and> x = (c, req, dst))
    \<and> dv_relayed d = tunnel_packets evs
    \<and> (dv_result d \<noteq> None \<longrightarrow> dv_result d \<noteq> Some Panic \<and> b_registry (dv_bind d) txn = None)"
proof -
  have "disc_inv b dst req txn (\<Union> (arrived ` set evs)) d"
    using Discover_run_inv[OF assms(3,1,2), of evs] assms(4) by simp
  moreover have "dv_relayed d = tunnel_packets evs"
    using relayed_run[of "write" dst req txn evs d0] Discover_relays_nothing[OF assms(3)] assms(4) by simp
  ultimately show ?thesis
    using ParseResponse_Ok by (fastforce simp: disc_inv_def arrived_iff[symmetric] stunMaxRetries_def)
qed

lemma dv_result_step: "dv_result d \<noteq> None \<Longrightarrow> dv_result (discover_step write dst req txn ev d) = dv_result d"
  by (auto simp: discover_step_def split: discover_event.splits option.splits res.splits)

lemma dv_result_run: "dv_result d \<noteq> None \<Longrightarrow> dv_result (discover_run write dst req txn evs d) = dv_result d"
  by (induction evs arbitrary: d) (auto simp: discover_run_def dv_result_step)

lemma attempt_step:
  "dv_result (discover_step write dst req txn ev d) = None \<Longrightarrow>
     dv_attempt (discover_step write dst req txn ev d) = dv_attempt d + (if ev = TimerFires then 1 else 0)"
  by (auto simp: discover_step_def next_attempt_def discover_return_def Let_def
      split: discover_event.splits option.splits res.splits if_splits prod.splits)

lemma attempt_run:
  "dv_result (discover_run write dst req txn evs d) = None \<Longrightarrow>
     dv_attempt (discover_run write dst req txn evs d) = dv_attempt d + length (filter (\<lambda>ev. ev = TimerFires) evs)"
proof (induction evs arbitrary: d)
  case (Cons ev evs)
  let ?d = "discover_step write dst req txn ev d"
  have run: "discover_run write dst req txn (ev # evs) d = discover_run write dst req txn evs ?d" by (simp add: discover_run_def)
  have "dv_result ?d = None" using Cons.prems dv_result_run[of ?d] run by (metis)
  from attempt_step[OF this] Cons.IH[of ?d] Cons.prems show ?case unfolding run by auto
qed (simp add: discover_run_def)

text \<open>C37. A discovery returns. It sends at most four requests, one for each timer it sets; its timers run for half a second,
  one, two and four, so that it takes at most seven and a half seconds of waiting, below the ten the controller allows; once the timer has fired four
  times there is a result. And when a valid reply arrives from the server while it is waiting, taking the
  channel's content ends it with an address.\<close>

theorem mobile_discovery_returns:
  assumes "registry_ok (b_registry b)" "\<forall>k c. write k c dst req \<noteq> Panic" "Discover write rnd dst b = Ok (req, txn, d0)"
    "d = discover_run write dst req txn evs d0"
  shows "(4 \<le> length (filter (\<lambda>ev. ev = TimerFires) evs) \<longrightarrow> dv_result d \<noteq> None)
    \<and> (\<exists>k\<le>4. dv_timers d = take k [500 * millisecond, 1 * second, 2 * second, 4 * second] \<and> length (dv_sent d) = k
          \<and> (\<forall>x\<in>set (dv_sent d). \<exists>c. x = (c, req, dst)))
    \<and> sum_list (dv_timers d) \<le> 7500 * millisecond
    \<and> (dv_result d = None \<and> ParseResponse pkt txn = Ok ap \<and> normalize src = normalize dst \<longrightarrow>
        (\<exists>ap'. dv_result (discover_run write dst req txn [Arrives pkt src, TakesReply] d) = Some (Ok ap')))"
proof -
  have inv: "disc_inv b dst req txn (\<Union> (arrived ` set evs)) d"
    using Discover_run_inv[OF assms(3,1,2), of evs] assms(4) by simp
  have returned: "dv_result d \<noteq> None" if "4 \<le> length (filter (\<lambda>ev. ev = TimerFires) evs)"
  proof
    assume n: "dv_result d = None"
    then have "0 < dv_attempt d0" using Discover_inv[OF assms(3,1,2), of "{}"] dv_result_run[of d0 "write" dst req txn evs] assms(4)
      by (auto simp: disc_inv_def split: option.splits)
    then show False using attempt_run[of "write" dst req txn evs d0] n assms(4) inv that
      by (simp add: disc_inv_def stunMaxRetries_def)
  qed
  define k where "k = dv_attempt d"
  have k: "k = 0 \<or> k = 1 \<or> k = 2 \<or> k = 3 \<or> k = 4" "dv_timers d = map (\<lambda>k. stunInitialRTO * 2 ^ k) [0..<k]"
    using inv by (auto simp: disc_inv_def stunMaxRetries_def k_def)
  then have "dv_timers d = take k [500 * millisecond, 1 * second, 2 * second, 4 * second]" "sum_list (dv_timers d) \<le> 7500 * millisecond"
    by (elim disjE; simp add: stunInitialRTO_def millisecond_def second_def upt_rec[of _ "Suc _"] upt_rec[of _ "numeral _"])+
  moreover have "k \<le> 4" "length (dv_sent d) = k" "\<forall>x\<in>set (dv_sent d). \<exists>c. x = (c, req, dst)"
    using inv by (auto simp: disc_inv_def stunMaxRetries_def k_def)
  ultimately have timers: "(\<exists>k\<le>4. dv_timers d = take k [500 * millisecond, 1 * second, 2 * second, 4 * second] \<and> length (dv_sent d) = k
          \<and> (\<forall>x\<in>set (dv_sent d). \<exists>c. x = (c, req, dst)))
    \<and> sum_list (dv_timers d) \<le> 7500 * millisecond" by blast
  have "\<exists>ap'. dv_result (discover_run write dst req txn [Arrives pkt src, TakesReply] d) = Some (Ok ap')"
    if n: "dv_result d = None" and p: "ParseResponse pkt txn = Ok ap" and s: "normalize src = normalize dst"
  proof -
    let ?d = "discover_step write dst req txn (Arrives pkt src) d"
    have inv': "disc_inv b dst req txn (\<Union> (arrived ` set evs) \<union> {(pkt, src)}) ?d" by (rule step_arrives[OF inv])
    have stun: "IsSTUN pkt" "TxnIDOf pkt = txn" using ParseResponse_Ok[OF p] by simp_all
    have reg: "registry_ok (b_registry (dv_bind d))" using inv by (simp add: disc_inv_def)
    obtain t where t: "b_registry (dv_bind d) txn = Some t" "txn_server t = normalize dst" using inv n by (auto simp: disc_inv_def)
    have d1: "?d = d\<lparr>dv_bind := (dv_bind d)\<lparr>b_registry := b_registry (dv_bind ?d)\<rparr>\<rparr>" "\<exists>t'. b_registry (dv_bind ?d) txn = Some t' \<and> chan (txn_reply t') \<noteq> []"
      using stun t s p n Dispatch_eq[OF reg stun(1), of src]
      by (auto simp: discover_step_def mb_IsSTUN_res_eq deliverable_def is_Ok_iff)
    then obtain t' q qs where t': "b_registry (dv_bind ?d) txn = Some t'" "chan (txn_reply t') = q # qs" by (auto simp: neq_Nil_conv)
    have n': "dv_result ?d = None" using d1(1) n by (metis discovery.select_convs(7) discovery.surjective discovery.update_convs(1))
    from takes_reply_ends[OF inv' n' t', of "write"] show ?thesis by (auto simp: discover_run_def discover_return_def)
  qed
  with returned timers show ?thesis by blast
qed

section \<open>A concrete run\<close>

definition sample_bind :: Bind where
  "sample_bind = (New_bind None)\<lparr>conn4 := Some \<lparr>conn_id = 4, conn_port = 51820\<rparr>, b_open := True\<rparr>"

definition sample_server :: addrport where "sample_server = AddrPort (V4 0x01010101) 3478"

text \<open>A WireGuard packet, a retransmission, and the reply, which arrives in the 4-in-6 form.\<close>

definition sample_events :: "discover_event list" where
  "sample_events = [Arrives (4 # replicate 31 0) sample_server, TimerFires,
     Arrives sample_response (AddrPort (V6 0xFFFF01010101 []) 3478), TakesReply]"

lemma sample_bind_registry: "registry_ok (b_registry sample_bind)"
  by (simp add: sample_bind_def New_bind_def NewTxnRegistry_def registry_ok_def)

theorem mobile_demux_agrees_witness:
  "mb_IsSTUN_res sample_response = Ok True \<and> (\<exists>acked sent r'. Dispatch NewTxnRegistry sample_response sample_server = Ok (acked, r')
     \<and> route NewTxnRegistry sample_server sample_response = Ok (sent, r'))"
proof -
  have "registry_ok NewTxnRegistry" by (simp add: NewTxnRegistry_def registry_ok_def)
  moreover have "IsSTUN sample_response" using ParseResponse_Ok[OF sample_response_parses] by simp
  ultimately show ?thesis using mobile_demux_agrees[of NewTxnRegistry sample_response sample_server] by auto
qed

theorem mobile_discovery_sound_witness:
  "\<exists>req txn d0 pkt src. Discover (\<lambda>_ _ _ _. Ok ()) (Ok sample_txn) sample_server sample_bind = Ok (req, txn, d0)
     \<and> dv_result (discover_run (\<lambda>_ _ _ _. Ok ()) sample_server req txn sample_events d0) = Some (Ok (AddrPort (V4 0x08080808) 53))
     \<and> Arrives pkt src \<in> set sample_events \<and> normalize src = normalize sample_server \<and> ParseResponse pkt txn = Ok (AddrPort (V4 0x08080808) 53)"
proof -
  let ?w = "\<lambda>(_::nat) (_::UDPConn) (_::addrport) (_::byte list). Ok () :: unit res"
  have w: "\<forall>k c. ?w k c sample_server req \<noteq> Panic" for req by simp
  obtain req txn d0 where d: "Discover ?w (Ok sample_txn) sample_server sample_bind = Ok (req, txn, d0)"
    by (simp add: Discover_def BuildRequest_def sample_server_def ap_IsValid_def)
  have "(case Discover ?w (Ok sample_txn) sample_server sample_bind of
      Ok (req, txn, d0) \<Rightarrow> dv_result (discover_run ?w sample_server req txn sample_events d0) = Some (Ok (AddrPort (V4 0x08080808) 53))
    | _ \<Rightarrow> False)" by code_simp
  then have r: "dv_result (discover_run ?w sample_server req txn sample_events d0) = Some (Ok (AddrPort (V4 0x08080808) 53))"
    unfolding d by simp
  from mobile_discovery_sound[OF sample_bind_registry w d refl, of sample_events "AddrPort (V4 0x08080808) 53"] r d show ?thesis by blast
qed

theorem mobile_discovery_returns_witness:
  "\<exists>req txn d0. Discover (\<lambda>_ _ _ _. Ok ()) (Ok sample_txn) sample_server sample_bind = Ok (req, txn, d0)
     \<and> dv_result (discover_run (\<lambda>_ _ _ _. Ok ()) sample_server req txn (replicate 4 TimerFires) d0) \<noteq> None"
proof -
  let ?w = "\<lambda>(_::nat) (_::UDPConn) (_::addrport) (_::byte list). Ok () :: unit res"
  have w: "\<forall>k c. ?w k c sample_server req \<noteq> Panic" for req by simp
  obtain req txn d0 where d: "Discover ?w (Ok sample_txn) sample_server sample_bind = Ok (req, txn, d0)"
    by (simp add: Discover_def BuildRequest_def sample_server_def ap_IsValid_def)
  from mobile_discovery_returns[OF sample_bind_registry w d refl, of "replicate 4 TimerFires"] d show ?thesis by auto
qed

theorem receive_separates_witness:
  "\<exists>r'. receiveFunc NewTxnRegistry [Ok (sample_response, sample_server), Ok ([4], sample_server)] = Some (r', Ok ([4], sample_server)) \<and> \<not> IsSTUN [4]"
proof -
  have reg: "registry_ok NewTxnRegistry" by (simp add: NewTxnRegistry_def registry_ok_def)
  have s: "IsSTUN sample_response" "\<not> IsSTUN [4]" using ParseResponse_Ok[OF sample_response_parses] by (simp_all add: IsSTUN_iff)
  then obtain r' where "receiveFunc NewTxnRegistry [Ok (sample_response, sample_server), Ok ([4], sample_server)] = Some (r', Ok ([4], sample_server))"
    using Dispatch_ok[OF reg, of sample_response sample_server] by (auto simp: mb_IsSTUN_res_eq)
  with receive_separates[OF reg, of "[Ok (sample_response, sample_server), Ok ([4], sample_server)]" r' "[4]" sample_server] show ?thesis by blast
qed

end
