(* ===== verification/Config.thy ===== *)
theory Config
  imports Entity Validation Gotext Ping_Monitor
begin

text \<open>
  The configuration (\<^verbatim>\<open>internal/config/config.go\<close>, \<^verbatim>\<open>internal/config/device.go\<close>) and the
  plugin definition check (\<^verbatim>\<open>pluginapi/types.go\<close>): finding the file, the check of the YAML tree,
  defaults, the STUN server list, the limits, and the accessors the rest of the program uses. A Go map
  is the list of its entries in the iteration order of the moment. The file system, the environment,
  the YAML parser, the decoder into structs, the log library and the Unicode lower-case mapping are
  the fields of an argument.
\<close>

section \<open>Paths and environment variables\<close>

text \<open>\<^verbatim>\<open>filepath.Clean\<close> and \<^verbatim>\<open>filepath.Join\<close> of two elements on Unix, and
  \<^verbatim>\<open>os.ExpandEnv\<close>.\<close>

fun clean_stack :: "bool \<Rightarrow> string list \<Rightarrow> string list \<Rightarrow> string list" where
  "clean_stack rooted [] out = rev out"
| "clean_stack rooted (c # cs) out =
     (if c = [] \<or> c = ''.'' then clean_stack rooted cs out
      else if c = ''..'' then
        (case out of
           [] \<Rightarrow> clean_stack rooted cs (if rooted then [] else [c])
         | t # ts \<Rightarrow> clean_stack rooted cs (if t = ''..'' then c # out else ts))
      else clean_stack rooted cs (c # out))"

definition path_Clean :: "string \<Rightarrow> string" where
  "path_Clean s =
     (let rooted = (s \<noteq> [] \<and> hd s = CHR ''/'');
          body = join ''/'' (clean_stack rooted (Split (CHR ''/'') s) []);
          p = (if rooted then CHR ''/'' # body else body)
      in if p = [] then ''.'' else p)"

definition path_Join :: "string \<Rightarrow> string \<Rightarrow> string" where
  "path_Join a b =
     (if a \<noteq> [] then path_Clean (a @ ''/'' @ b) else if b \<noteq> [] then path_Clean b else [])"

definition isShellSpecialVar :: "char \<Rightarrow> bool" where
  "isShellSpecialVar c \<longleftrightarrow> c \<in> set ''*#$@!?-0123456789''"

definition isAlphaNum :: "char \<Rightarrow> bool" where
  "isAlphaNum c \<longleftrightarrow> c = CHR ''_'' \<or> (let n = of_char c :: nat in 48 \<le> n \<and> n \<le> 57 \<or> 65 \<le> n \<and> n \<le> 90 \<or> 97 \<le> n \<and> n \<le> 122)"

definition getShellName :: "string \<Rightarrow> string \<times> nat" where
  "getShellName s =
     (case s of
        [] \<Rightarrow> ([], 0)
      | c # r \<Rightarrow>
          if c = CHR ''{'' then
            if 2 < length s \<and> isShellSpecialVar (s ! 1) \<and> s ! 2 = CHR ''}'' then ([s ! 1], 3)
            else (case cut (CHR ''}'') r of
                    None \<Rightarrow> ([], 1)
                  | Some (name, _) \<Rightarrow> if name = [] then ([], 2) else (name, length name + 2))
          else if isShellSpecialVar c then ([c], 1)
          else (takeWhile isAlphaNum s, length (takeWhile isAlphaNum s)))"

function os_Expand :: "(string \<Rightarrow> string) \<Rightarrow> string \<Rightarrow> string" where
  "os_Expand env [] = []"
| "os_Expand env (c # cs) =
     (if c = CHR ''$'' \<and> cs \<noteq> [] then
        (case getShellName cs of (name, w) \<Rightarrow>
          (if name = [] then (if 0 < w then [] else [c]) else env name) @ os_Expand env (drop w cs))
      else c # os_Expand env cs)"
  by pat_completeness auto
termination by (relation "measure (\<lambda>(_, s). length s)") auto

section \<open>Constants and data\<close>

definition DefaultRefreshInterval :: duration where "DefaultRefreshInterval = 3 * minute"
definition DefaultStunServer :: string where "DefaultStunServer = ''stun.l.google.com:19302''"
definition DefaultPingInterval :: duration where "DefaultPingInterval = 1 * second"
definition DefaultPingTimeout :: duration where "DefaultPingTimeout = 1 * second"
definition DefaultPingFixedRetries :: int where "DefaultPingFixedRetries = 3"
definition LogFormatConsole :: string where "LogFormatConsole = ''console''"
definition LogFormatJSON :: string where "LogFormatJSON = ''json''"
definition DefaultLogFormat :: string where "DefaultLogFormat = LogFormatConsole"
definition DefaultLogLevel :: string where "DefaultLogLevel = ''info''"
definition LogFormats :: "string list" where "LogFormats = [LogFormatConsole, LogFormatJSON]"
definition ConfigFileNames :: "string list" where "ConfigFileNames = [''config.yaml'', ''config.yml'']"
definition defaultSearchPaths :: "string list" where
  "defaultSearchPaths = [''$STUNMESH_CONFIG_DIR'', ''/etc/stunmesh'', ''$HOME/.stunmesh'', ''.'']"

definition ErrReadConfig :: error where "ErrReadConfig = ErrNew ''failed to read config''"
definition ErrUnmarshalConfig :: error where "ErrUnmarshalConfig = ErrNew ''failed to unmarshal config''"
definition ErrNoStunServers :: error where
  "ErrNoStunServers = ErrNew ''stun.addresses has no usable entries (empty list or only empty strings) and no stun.address is set''"

text \<open>The dynamic values of a plugin's configuration, and the definition they fill. A float stands for the
  duration that its number of seconds converts to.\<close>

datatype yvalue =
    YNil | YString string | YBool bool | YInt int | YFloat duration | YStrings "string list"
  | YList "yvalue list" | YMap "(string \<times> yvalue) list"

record PluginDefinition =
  def_Type :: string
  def_Config :: "(string \<times> yvalue) list"

record Logger =
  Level :: string
  Format :: string

text \<open>A slice that may be nil, distinct from an empty one.\<close>

record Stun =
  stun_Address :: string
  stun_Addresses :: "string list option"

record PingConfig =
  pc_Enabled :: bool
  pc_Target :: string
  pc_Interval :: duration
  pc_Timeout :: duration

record ConfigPeer =
  Description :: string
  cp_PublicKey :: string
  cp_Plugin :: string
  cp_Protocol :: string
  cp_Ping :: "PingConfig option"

record ProxyCfg =
  px_Listen :: int
  px_Enabled :: "bool option"
  px_Fib :: int

record Interface =
  if_Protocol :: string
  if_Proxy :: ProxyCfg
  ListenInterfaces :: "string list"
  ListenDefaultRoute :: bool
  if_Peers :: "(string \<times> ConfigPeer) list"

type_synonym Interfaces = "(string \<times> Interface) list"

record PingMonitorSection =
  pms_Interval :: duration
  pms_Timeout :: duration
  pms_FixedRetries :: int

record Config =
  cfg_Interfaces :: Interfaces
  cfg_Plugins :: "(string \<times> PluginDefinition) list"
  cfg_RefreshInterval :: duration
  cfg_Log :: Logger
  cfg_Stun :: Stun
  cfg_PingMonitor :: PingMonitorSection

text \<open>YAML syntax trees: kind, tag, value, anchor, children.\<close>

datatype yaml_kind = DocumentNode | SequenceNode | MappingNode | ScalarNode | AliasNode
datatype yaml_node = YNode (n_Kind: yaml_kind) (n_Tag: string) (n_Value: string) (n_Anchor: string) (n_Content: "yaml_node list")

section \<open>STUN servers\<close>

fun dedup_loop :: "string set \<Rightarrow> string list \<Rightarrow> string list \<Rightarrow> string list" where
  "dedup_loop seen servers [] = servers"
| "dedup_loop seen servers (a # as) =
     (if a = [] then dedup_loop seen servers as
      else if a \<in> seen then dedup_loop seen servers as
      else dedup_loop (insert a seen) (servers @ [a]) as)"

definition GetServers :: "Stun \<Rightarrow> string list" where
  "GetServers s =
     (let servers = dedup_loop {} [] (stun_Address s # (case stun_Addresses s of None \<Rightarrow> [] | Some l \<Rightarrow> l))
      in if servers = [] then [DefaultStunServer] else servers)"

section \<open>The YAML tree\<close>

fun even_entries :: "'a list \<Rightarrow> 'a list" where
  "even_entries [] = []"
| "even_entries [x] = [x]"
| "even_entries (x # y # xs) = x # even_entries xs"

fun mapping_keys_ok :: "(string \<Rightarrow> string) \<Rightarrow> string set \<Rightarrow> yaml_node list \<Rightarrow> bool" where
  "mapping_keys_ok toLower seen [] = True"
| "mapping_keys_ok toLower seen (k # ks) =
     (let name = toLower (n_Value k) in
      if n_Kind k \<noteq> ScalarNode \<or> n_Tag k \<noteq> ''!!str'' \<or> name \<in> seen then False
      else mapping_keys_ok toLower (insert name seen) ks)"

fun visit :: "(string \<Rightarrow> string) \<Rightarrow> yaml_node \<Rightarrow> nat \<Rightarrow> bool" where
  "visit toLower (YNode kind tag val anchor content) depth =
     (if 16 < depth \<or> kind = AliasNode \<or> anchor \<noteq> [] then False
      else if kind = ScalarNode \<and> tag \<noteq> ''!!str'' \<and> tag \<noteq> ''!!bool'' \<and> tag \<noteq> ''!!int'' then False
      else if kind = MappingNode \<and> \<not> mapping_keys_ok toLower {} (even_entries content) then False
      else list_all (\<lambda>c. visit toLower c (depth + 1)) content)"

definition io_EOF :: error where "io_EOF = ErrNew ''EOF''"

text \<open>The first decoded document and the result of decoding once more.\<close>

definition validateYAML :: "(string \<Rightarrow> string) \<Rightarrow> yaml_node res \<times> yaml_node res \<Rightarrow> unit res" where
  "validateYAML toLower docs =
     bind_res (replace_err (fst docs) ErrUnmarshalConfig) (\<lambda>root.
     if snd docs \<noteq> Err io_EOF then Err ErrUnmarshalConfig
     else if visit toLower root 0 then Ok () else Err ErrUnmarshalConfig)"

section \<open>Limits\<close>

fun definition_loop :: "(string \<times> yvalue) list \<Rightarrow> unit res" where
  "definition_loop [] = Ok ()"
| "definition_loop ((name, v) # rest) =
     (if name \<in> {''name'', ''endpoint'', ''endpoints'', ''timeout''} then definition_loop rest
      else if name = ''dedup'' then
        (if v \<noteq> YBool False then Err (ErrNew ''OpenDHT publication dedup must be disabled'') else definition_loop rest)
      else Err (ErrNew ''unsupported OpenDHT configuration field''))"

definition ValidateDefinition :: "PluginDefinition \<Rightarrow> unit res" where
  "ValidateDefinition d =
     (if def_Type d \<noteq> ''builtin'' \<or> map_of (def_Config d) ''name'' \<noteq> Some (YString ''opendht'')
      then Err (ErrNew ''only built-in OpenDHT is supported'')
      else definition_loop (def_Config d))"

definition logLevels :: "string list \<Rightarrow> string list" where
  "logLevels names = filter (\<lambda>n. n \<noteq> []) names"

fun validate_each :: "('a \<Rightarrow> unit res) \<Rightarrow> 'a list \<Rightarrow> unit res" where
  "validate_each f [] = Ok ()"
| "validate_each f (x # xs) = bind_res (f x) (\<lambda>_. validate_each f xs)"

definition validate_peer :: "string \<Rightarrow> string \<times> ConfigPeer \<Rightarrow> unit res" where
  "validate_peer ifaceName = (\<lambda>(peerName, p).
     bind_res (replace_err (PublicKey (cp_PublicKey p)) (ErrNew ''invalid peer public_key'')) (\<lambda>_.
     if (case cp_Ping p of None \<Rightarrow> False
         | Some g \<Rightarrow> pc_Interval g < 0 \<or> 5 * minute < pc_Interval g \<or> pc_Timeout g < 0 \<or> minute < pc_Timeout g)
     then Err (ErrNew ''invalid peer ping limits'')
     else if cp_Protocol p \<noteq> [] \<and> cp_Protocol p \<notin> {''ipv4'', ''ipv6'', ''prefer_ipv4'', ''prefer_ipv6''}
     then Err (ErrNew (''invalid peer protocol '' @ [CHR 0x27] @ cp_Protocol p @ [CHR 0x27] @ '' for peer '' @ [CHR 0x27] @ peerName
            @ [CHR 0x27] @ '' on interface '' @ [CHR 0x27] @ ifaceName @ [CHR 0x27]
            @ '', must be one of: ipv4, ipv6, prefer_ipv4, prefer_ipv6''))
     else Ok ()))"

definition validate_interface :: "string \<times> Interface \<Rightarrow> unit res" where
  "validate_interface = (\<lambda>(ifaceName, i).
     if 15 < length ifaceName \<or> ContainsAny ifaceName [CHR 0x00, CHR 0x0D, CHR 0x0A, CHR ''/'', CHR '' '', CHR 0x09]
     then Err (ErrNew ''invalid interface name'')
     else if MaxPeers < length (if_Peers i) then Err (ErrNew ''too many interface peers'')
     else if px_Listen (if_Proxy i) < 0 \<or> 65535 < px_Listen (if_Proxy i)
     then Err (ErrNew (''invalid proxy listen port '' @ Itoa (px_Listen (if_Proxy i)) @ '' for interface '' @ [CHR 0x27]
            @ ifaceName @ [CHR 0x27] @ '', must be between 0 and 65535''))
     else if px_Fib (if_Proxy i) < 0 \<or> 65535 < px_Fib (if_Proxy i)
     then Err (ErrNew (''invalid proxy fib '' @ Itoa (px_Fib (if_Proxy i)) @ '' for interface '' @ [CHR 0x27]
            @ ifaceName @ [CHR 0x27] @ '', must be between 0 and 65535''))
     else if px_Enabled (if_Proxy i) = Some False
     then Err (ErrNew (''invalid proxy.enabled '' @ [CHR 0x27] @ ''false'' @ [CHR 0x27] @ '' for interface '' @ [CHR 0x27]
            @ ifaceName @ [CHR 0x27] @ '': raw STUN mode was removed; shared UDP proxy is required''))
     else if if_Protocol i \<noteq> [] \<and> if_Protocol i \<notin> {''ipv4'', ''ipv6'', ''dualstack''}
     then Err (ErrNew (''invalid interface protocol '' @ [CHR 0x27] @ if_Protocol i @ [CHR 0x27] @ '' for interface '' @ [CHR 0x27]
            @ ifaceName @ [CHR 0x27] @ '', must be one of: ipv4, ipv6, dualstack''))
     else validate_each (validate_peer ifaceName) (if_Peers i))"

text \<open>\<open>parseLevel\<close> is the log library's own judgement on a level name, \<open>levels\<close> its names.\<close>

definition validateConfig :: "(string \<Rightarrow> bool) \<Rightarrow> string list \<Rightarrow> Config \<Rightarrow> unit res" where
  "validateConfig parseLevel levels cfg =
     (let p = cfg_PingMonitor cfg; servers = (case stun_Addresses (cfg_Stun cfg) of None \<Rightarrow> [] | Some l \<Rightarrow> l) in
      if cfg_RefreshInterval cfg < second \<or> 240 * second < cfg_RefreshInterval cfg
      then Err (ErrNew (''refresh_interval must be within 1'' @ [CHR 0xE2, CHR 0x80, CHR 0x93] @ ''240 seconds''))
      else if pms_Interval p \<le> 0 \<or> 5 * minute < pms_Interval p \<or> pms_Timeout p \<le> 0 \<or> minute < pms_Timeout p
              \<or> pms_FixedRetries p < 1 \<or> 10 < pms_FixedRetries p
      then Err (ErrNew ''invalid ping monitor limits'')
      else if 8 < length (cfg_Interfaces cfg) \<or> MaxStores < length (cfg_Plugins cfg) \<or> MaxServers < length servers
      then Err (ErrNew ''configuration count limit exceeded'')
      else bind_res (validate_each Server servers) (\<lambda>_.
      bind_res (validate_each (\<lambda>(_, d). ValidateDefinition d) (cfg_Plugins cfg)) (\<lambda>_.
      if Format (cfg_Log cfg) \<noteq> [] \<and> Format (cfg_Log cfg) \<notin> set LogFormats
      then Err (ErrNew (''invalid log format '' @ [CHR 0x27] @ Format (cfg_Log cfg) @ [CHR 0x27]
             @ '', must be one of: '' @ join '', '' LogFormats))
      else if Level (cfg_Log cfg) \<noteq> [] \<and> \<not> parseLevel (Level (cfg_Log cfg))
      then Err (ErrNew (''invalid log level '' @ [CHR 0x27] @ Level (cfg_Log cfg) @ [CHR 0x27]
             @ '', must be one of: '' @ join '', '' (logLevels levels)))
      else validate_each validate_interface (cfg_Interfaces cfg))))"

section \<open>Loading\<close>

text \<open>What loading needs from outside: the environment, the file system, the YAML parser, the decoder
  into the struct (given the defaults already there), the log library and the lower-case mapping.\<close>

record world =
  w_env :: "string \<Rightarrow> string"
  w_stat :: "string \<Rightarrow> bool"
  w_open :: "string \<Rightarrow> unit res"
  w_read :: "string \<Rightarrow> string res"
  w_yaml :: "string \<Rightarrow> yaml_node res \<times> yaml_node res"
  w_unmarshal :: "string \<Rightarrow> yvalue res"
  w_decode :: "yvalue \<Rightarrow> Config \<Rightarrow> Config res"
  w_parseLevel :: "string \<Rightarrow> bool"
  w_levels :: "string list"
  w_toLower :: "string \<Rightarrow> string"

definition candidates :: "string \<Rightarrow> string list" where
  "candidates dir = map (path_Join dir) ConfigFileNames"

fun search :: "world \<Rightarrow> string list \<Rightarrow> string" where
  "search w [] = []"
| "search w (p # ps) =
     (let expanded = os_Expand (w_env w) p in
      if expanded = [] then search w ps
      else case find (w_stat w) (candidates expanded) of Some c \<Rightarrow> c | None \<Rightarrow> search w ps)"

definition findConfigFile :: "world \<Rightarrow> string \<Rightarrow> string \<Rightarrow> string list \<Rightarrow> string" where
  "findConfigFile w configFile configDir paths =
     (if configFile \<noteq> [] then configFile
      else if configDir \<noteq> [] then
        (case find (w_stat w) (candidates configDir) of
           Some c \<Rightarrow> c
         | None \<Rightarrow> path_Join configDir (ConfigFileNames ! 0))
      else search w paths)"

definition defaults :: Config where
  "defaults =
     \<lparr>cfg_Interfaces = [], cfg_Plugins = [], cfg_RefreshInterval = DefaultRefreshInterval,
      cfg_Log = \<lparr>Level = DefaultLogLevel, Format = DefaultLogFormat\<rparr>,
      cfg_Stun = \<lparr>stun_Address = [], stun_Addresses = None\<rparr>,
      cfg_PingMonitor = \<lparr>pms_Interval = DefaultPingInterval, pms_Timeout = DefaultPingTimeout,
        pms_FixedRetries = DefaultPingFixedRetries\<rparr>\<rparr>"

definition readConfig :: "world \<Rightarrow> string \<Rightarrow> Config res" where
  "readConfig w path =
     (if path = [] then Ok defaults
      else case w_open w path of
        Panic \<Rightarrow> Panic
      | Err e \<Rightarrow> Err (ErrWrap ''failed to read config'' [ErrReadConfig, e])
      | Ok _ \<Rightarrow>
          bind_res (replace_err (w_read w path) ErrReadConfig) (\<lambda>contents.
          let data = take (MaxConfigBytes + 1) contents in
          if MaxConfigBytes < length data then Err ErrReadConfig
          else bind_res (validateYAML (w_toLower w) (w_yaml w data)) (\<lambda>_.
          bind_res (replace_err (w_unmarshal w data) ErrUnmarshalConfig) (\<lambda>raw.
          replace_err (w_decode w raw defaults) ErrUnmarshalConfig))))"

definition resolveStun :: "Config \<Rightarrow> Config res" where
  "resolveStun cfg =
     (let s = cfg_Stun cfg;
          effective = length (filter (\<lambda>a. a \<noteq> []) (case stun_Addresses s of None \<Rightarrow> [] | Some l \<Rightarrow> l)) in
      bind_res
        (if stun_Addresses s = None \<and> stun_Address s = [] then Ok (s\<lparr>stun_Addresses := Some [DefaultStunServer]\<rparr>)
         else if effective = 0 \<and> stun_Address s = [] then Err ErrNoStunServers else Ok s) (\<lambda>s1.
      Ok (cfg\<lparr>cfg_Stun := s1\<lparr>stun_Addresses := Some (GetServers s1), stun_Address := []\<rparr>\<rparr>)))"

definition load :: "world \<Rightarrow> string \<Rightarrow> string \<Rightarrow> string list \<Rightarrow> Config res" where
  "load w configFile configDir paths =
     bind_res (readConfig w (findConfigFile w configFile configDir paths)) (\<lambda>cfg.
     bind_res (resolveStun cfg) (\<lambda>cfg1.
     let cfg2 = cfg1\<lparr>cfg_Log := \<lparr>Level = (if Level (cfg_Log cfg1) = [] then DefaultLogLevel else Level (cfg_Log cfg1)),
                               Format = (if Format (cfg_Log cfg1) = [] then DefaultLogFormat else Format (cfg_Log cfg1))\<rparr>\<rparr>
     in bind_res (validateConfig (w_parseLevel w) (w_levels w) cfg2) (\<lambda>_. Ok cfg2)))"

definition Load :: "world \<Rightarrow> string \<Rightarrow> string \<Rightarrow> Config res" where
  "Load w configFile configDir = load w configFile configDir defaultSearchPaths"

section \<open>Accessors (device.go)\<close>

definition Peer_GetProtocol :: "ConfigPeer \<Rightarrow> string" where
  "Peer_GetProtocol p = (if cp_Protocol p = [] then ''ipv4'' else cp_Protocol p)"

definition IsEnabled :: "ProxyCfg \<Rightarrow> string \<Rightarrow> bool" where
  "IsEnabled p goos = (case px_Enabled p of Some b \<Rightarrow> b | None \<Rightarrow> True)"

definition Interface_GetProtocol :: "Interface \<Rightarrow> string" where
  "Interface_GetProtocol i = (if if_Protocol i = [] then ''ipv4'' else if_Protocol i)"

definition device :: "Interfaces \<Rightarrow> string \<Rightarrow> Interface option" where
  "device is deviceName = map_of is deviceName"

definition GetInterfaceProtocol :: "Interfaces \<Rightarrow> string \<Rightarrow> string" where
  "GetInterfaceProtocol is deviceName =
     (case device is deviceName of None \<Rightarrow> ''ipv4'' | Some i \<Rightarrow> Interface_GetProtocol i)"

definition GetListenConfig :: "Interfaces \<Rightarrow> string \<Rightarrow> string list \<times> bool" where
  "GetListenConfig is deviceName =
     (case device is deviceName of None \<Rightarrow> ([], False) | Some i \<Rightarrow> (ListenInterfaces i, ListenDefaultRoute i))"

definition GetProxyListenPort :: "Interfaces \<Rightarrow> string \<Rightarrow> u16" where
  "GetProxyListenPort is deviceName =
     (case device is deviceName of None \<Rightarrow> 0 | Some i \<Rightarrow> word_of_int (px_Listen (if_Proxy i)))"

definition GetProxyFib :: "Interfaces \<Rightarrow> string \<Rightarrow> int" where
  "GetProxyFib is deviceName = (case device is deviceName of None \<Rightarrow> 0 | Some i \<Rightarrow> px_Fib (if_Proxy i))"

definition GetProxyEnabled :: "Interfaces \<Rightarrow> string \<Rightarrow> string \<Rightarrow> bool" where
  "GetProxyEnabled is deviceName goos =
     (case device is deviceName of None \<Rightarrow> True | Some i \<Rightarrow> IsEnabled (if_Proxy i) goos)"

definition TunnelInterfaceNames :: "Interfaces \<Rightarrow> string list" where
  "TunnelInterfaceNames is = map fst is"

text \<open>\<^verbatim>\<open>base64.StdEncoding\<close> without \<^verbatim>\<open>Strict\<close>: the unused bits before the padding may be
  anything.\<close>

fun b64_quads_loose :: "string \<Rightarrow> byte list res" where
  "b64_quads_loose [] = Ok []"
| "b64_quads_loose (c1 # c2 # c3 # c4 # cs) =
     (case (b64_val c1, b64_val c2) of
        (Some v1, Some v2) \<Rightarrow>
          if c3 = CHR ''='' then
            (if c4 = CHR ''='' \<and> cs = [] then Ok [word_of_nat (v1 * 4 + v2 div 16)] else Err err_b64)
          else (case b64_val c3 of
            None \<Rightarrow> Err err_b64
          | Some v3 \<Rightarrow>
              if c4 = CHR ''='' then
                (if cs = [] then Ok [word_of_nat (v1 * 4 + v2 div 16), word_of_nat (v2 mod 16 * 16 + v3 div 4)]
                 else Err err_b64)
              else (case b64_val c4 of
                None \<Rightarrow> Err err_b64
              | Some v4 \<Rightarrow>
                  bind_res (b64_quads_loose cs) (\<lambda>bs.
                    Ok (word_of_nat (v1 * 4 + v2 div 16) # word_of_nat (v2 mod 16 * 16 + v3 div 4)
                        # word_of_nat (v3 mod 4 * 64 + v4) # bs))))
      | _ \<Rightarrow> Err err_b64)"
| "b64_quads_loose _ = Err err_b64"

definition b64_decode_loose :: "string \<Rightarrow> byte list res" where
  "b64_decode_loose s = b64_quads_loose (filter (\<lambda>c. c \<noteq> CHR 0x0D \<and> c \<noteq> CHR 0x0A) s)"

definition config_peer :: "string \<Rightarrow> byte list \<Rightarrow> ConfigPeer \<Rightarrow> Peer option" where
  "config_peer deviceName localPublicKey p =
     (case b64_decode_loose (cp_PublicKey p) of
        Ok k \<Rightarrow>
          if length k \<noteq> 32 then None
          else Some (NewPeer (NewPeerId localPublicKey k) deviceName (copy_key k) (cp_Plugin p) (Peer_GetProtocol p)
            (case cp_Ping p of
               Some g \<Rightarrow> \<lparr>Enabled = pc_Enabled g, Target = pc_Target g, Interval = pc_Interval g, Timeout = pc_Timeout g\<rparr>
             | None \<Rightarrow> \<lparr>Enabled = False, Target = [], Interval = 0, Timeout = 0\<rparr>))
      | _ \<Rightarrow> None)"

definition GetConfigPeers :: "Interfaces \<Rightarrow> string \<Rightarrow> byte list \<Rightarrow> Peer list res" where
  "GetConfigPeers is deviceName localPublicKey =
     (case device is deviceName of
        None \<Rightarrow> Ok []
      | Some i \<Rightarrow> Ok (List.map_filter (\<lambda>(_, p). config_peer deviceName localPublicKey p) (if_Peers i)))"

text \<open>The settings the ping monitor reads.\<close>

definition ping_settings :: "Config \<Rightarrow> PingMonitorConfig" where
  "ping_settings cfg =
     \<lparr>pm_Interval = pms_Interval (cfg_PingMonitor cfg), pm_Timeout = pms_Timeout (cfg_PingMonitor cfg),
      FixedRetries = pms_FixedRetries (cfg_PingMonitor cfg), RefreshInterval = cfg_RefreshInterval cfg\<rparr>"

section \<open>Lemmas\<close>

lemma validate_each_Ok [simp]: "validate_each f xs = Ok () \<longleftrightarrow> (\<forall>x\<in>set xs. f x = Ok ())"
  by (induction xs) auto

lemma remdups_snoc: "remdups (ys @ [x]) = filter (\<lambda>y. y \<noteq> x) (remdups ys) @ [x]"
  by (induction ys) auto

lemma filter_filter_not: "x \<in> A \<Longrightarrow> filter (\<lambda>a. a \<notin> A) (filter (\<lambda>y. y \<noteq> x) xs) = filter (\<lambda>a. a \<notin> A) xs"
  by (auto intro!: filter_cong)

lemma dedup_loop_eq:
  "set servers = seen \<Longrightarrow>
     dedup_loop seen servers as = servers @ filter (\<lambda>a. a \<notin> seen) (rev (remdups (rev (filter (\<lambda>a. a \<noteq> []) as))))"
  by (induction seen servers as rule: dedup_loop.induct)
    (auto simp: remdups_snoc rev_filter conj_commute filter_filter_not intro!: filter_cong)

lemma GetServers_eq:
  "GetServers s =
     (let usable = filter (\<lambda>a. a \<noteq> []) (stun_Address s # (case stun_Addresses s of None \<Rightarrow> [] | Some l \<Rightarrow> l))
      in if usable = [] then [DefaultStunServer] else rev (remdups (rev usable)))"
  by (simp add: GetServers_def dedup_loop_eq Let_def remdups_snoc) (simp add: rev_filter [symmetric] filter_empty_conv)

inductive node_at :: "yaml_node \<Rightarrow> nat \<Rightarrow> yaml_node \<Rightarrow> bool" where
  node_root: "node_at r 0 r"
| node_child: "node_at r d n \<Longrightarrow> c \<in> set (n_Content n) \<Longrightarrow> node_at r (Suc d) c"

definition node_ok :: "(string \<Rightarrow> string) \<Rightarrow> yaml_node \<Rightarrow> bool" where
  "node_ok toLower n \<longleftrightarrow>
     n_Kind n \<noteq> AliasNode \<and> n_Anchor n = [] \<and>
     (n_Kind n = ScalarNode \<longrightarrow> n_Tag n \<in> {''!!str'', ''!!bool'', ''!!int''}) \<and>
     (n_Kind n = MappingNode \<longrightarrow>
        (\<forall>k\<in>set (even_entries (n_Content n)). n_Kind k = ScalarNode \<and> n_Tag k = ''!!str'') \<and>
        distinct (map (\<lambda>k. toLower (n_Value k)) (even_entries (n_Content n))))"

lemma mapping_keys_ok_iff:
  "mapping_keys_ok toLower seen ks \<longleftrightarrow>
     (\<forall>k\<in>set ks. n_Kind k = ScalarNode \<and> n_Tag k = ''!!str'') \<and>
     distinct (map (\<lambda>k. toLower (n_Value k)) ks) \<and> (\<lambda>k. toLower (n_Value k)) ` set ks \<inter> seen = {}"
  by (induction toLower seen ks rule: mapping_keys_ok.induct) (auto simp: Let_def)

lemma visit_step:
  "visit toLower n d \<longleftrightarrow> d \<le> 16 \<and> node_ok toLower n \<and> (\<forall>c\<in>set (n_Content n). visit toLower c (Suc d))"
  by (cases n) (auto simp: node_ok_def mapping_keys_ok_iff list_all_iff)

declare visit.simps [simp del]

text \<open>Reachability from the root and from a child agree.\<close>

lemma node_at_under: "node_at c d n \<Longrightarrow> c \<in> set (n_Content r) \<Longrightarrow> node_at r (Suc d) n"
  by (induction rule: node_at.induct) (auto intro: node_at.intros)

lemma visit_sound: "node_at r d n \<Longrightarrow> visit toLower r k \<Longrightarrow> visit toLower n (k + d)"
proof (induction rule: node_at.induct)
  case (node_child r d n c)
  then have "visit toLower n (k + d)" by simp
  then have "visit toLower c (Suc (k + d))"
    using node_child.hyps(2) unfolding visit_step[of toLower n] by simp
  then show ?case by simp
qed simp

lemma visit_complete:
  "(\<And>d n. node_at r d n \<Longrightarrow> k + d \<le> 16 \<and> node_ok toLower n) \<Longrightarrow> visit toLower r k"
proof (induction r arbitrary: k)
  case (YNode kind tag val anchor content)
  let ?r = "YNode kind tag val anchor content"
  have "visit toLower c (Suc k)" if "c \<in> set content" for c
    using YNode.IH[OF that, of "Suc k"] YNode.prems node_at_under[of c _ _ ?r] that by fastforce
  then show ?case using YNode.prems[OF node_root] by (subst visit_step) simp
qed

section \<open>Properties\<close>

text \<open>The server list is the usable entries of the deprecated address and of the list, each once, in
  the order of first occurrence, and the default server when there are none; so it is never empty, has
  no duplicate and no empty entry.\<close>

theorem GetServers_first_occurrences:
  "GetServers s =
     (let usable = filter (\<lambda>a. a \<noteq> []) (stun_Address s # (case stun_Addresses s of None \<Rightarrow> [] | Some l \<Rightarrow> l))
      in if usable = [] then [DefaultStunServer] else rev (remdups (rev usable)))
    \<and> GetServers s \<noteq> [] \<and> distinct (GetServers s) \<and> [] \<notin> set (GetServers s)"
  by (auto simp: GetServers_eq Let_def DefaultStunServer_def)

text \<open>The YAML check accepts exactly one document followed by the end of the input, none of whose
  nodes, to any depth, is an alias or carries an anchor, whose scalars are strings, booleans or
  integers, whose mapping keys are strings that differ even when case is ignored, and which is at most
  sixteen levels deep.\<close>

theorem validateYAML_iff:
  "validateYAML toLower docs = Ok () \<longleftrightarrow>
     (\<exists>root. fst docs = Ok root \<and> snd docs = Err io_EOF \<and>
        (\<forall>d n. node_at root d n \<longrightarrow> d \<le> 16 \<and> node_ok toLower n))"
proof -
  have "visit toLower root 0 \<longleftrightarrow> (\<forall>d n. node_at root d n \<longrightarrow> d \<le> 16 \<and> node_ok toLower n)" for root
    using visit_sound[of root _ _ toLower 0] visit_complete[of root 0 toLower] visit_step
    by (metis add_0)
  then show ?thesis by (auto simp: validateYAML_def split: res.splits)
qed

text \<open>What a loaded configuration guarantees to the rest of the program.\<close>

definition peer_ok :: "ConfigPeer \<Rightarrow> bool" where
  "peer_ok p \<longleftrightarrow> is_Ok (PublicKey (cp_PublicKey p)) \<and>
     Peer_GetProtocol p \<in> {''ipv4'', ''ipv6'', ''prefer_ipv4'', ''prefer_ipv6''}"

definition interface_ok :: "string \<times> Interface \<Rightarrow> bool" where
  "interface_ok x \<longleftrightarrow>
     length (fst x) \<le> 15 \<and> length (if_Peers (snd x)) \<le> 32 \<and>
     0 \<le> px_Listen (if_Proxy (snd x)) \<and> px_Listen (if_Proxy (snd x)) \<le> 65535 \<and>
     0 \<le> px_Fib (if_Proxy (snd x)) \<and> px_Fib (if_Proxy (snd x)) \<le> 65535 \<and>
     px_Enabled (if_Proxy (snd x)) \<noteq> Some False \<and>
     Interface_GetProtocol (snd x) \<in> {''ipv4'', ''ipv6'', ''dualstack''} \<and>
     list_all (\<lambda>(_, p). peer_ok p) (if_Peers (snd x))"

definition config_ok :: "Config \<Rightarrow> bool" where
  "config_ok cfg \<longleftrightarrow>
     second \<le> cfg_RefreshInterval cfg \<and> cfg_RefreshInterval cfg \<le> 240 * second \<and>
     0 < pms_Interval (cfg_PingMonitor cfg) \<and> 0 < pms_Timeout (cfg_PingMonitor cfg) \<and>
     1 \<le> pms_FixedRetries (cfg_PingMonitor cfg) \<and> pms_FixedRetries (cfg_PingMonitor cfg) \<le> 10 \<and>
     stun_Address (cfg_Stun cfg) = [] \<and>
     (case stun_Addresses (cfg_Stun cfg) of None \<Rightarrow> False
      | Some servers \<Rightarrow> servers \<noteq> [] \<and> distinct servers \<and> length servers \<le> 8 \<and> list_all (\<lambda>s. is_Ok (Server s)) servers) \<and>
     list_all (\<lambda>(_, d). def_Type d = ''builtin'' \<and> map_of (def_Config d) ''name'' = Some (YString ''opendht'')) (cfg_Plugins cfg) \<and>
     length (cfg_Interfaces cfg) \<le> 8 \<and> list_all interface_ok (cfg_Interfaces cfg)"

lemma resolveStun_Ok:
  "resolveStun cfg = Ok cfg1 \<Longrightarrow>
     \<exists>s. stun_Address (cfg_Stun cfg1) = [] \<and> stun_Addresses (cfg_Stun cfg1) = Some (GetServers s)"
  by (auto simp: resolveStun_def Let_def split: if_splits)

lemma load_Ok:
  assumes "load w configFile configDir paths = Ok cfg"
  shows "validateConfig (w_parseLevel w) (w_levels w) cfg = Ok ()"
    and "\<exists>s. stun_Address (cfg_Stun cfg) = [] \<and> stun_Addresses (cfg_Stun cfg) = Some (GetServers s)"
proof -
  obtain x xa where "resolveStun x = Ok xa" "cfg_Stun cfg = cfg_Stun xa"
    and v: "validateConfig (w_parseLevel w) (w_levels w) cfg = Ok ()"
    using assms by (auto simp: load_def Let_def)
  then show "\<exists>s. stun_Address (cfg_Stun cfg) = [] \<and> stun_Addresses (cfg_Stun cfg) = Some (GetServers s)"
    using resolveStun_Ok by metis
  show "validateConfig (w_parseLevel w) (w_levels w) cfg = Ok ()" by (rule v)
qed

lemma ValidateDefinition_Ok:
  "ValidateDefinition d = Ok () \<Longrightarrow> def_Type d = ''builtin'' \<and> map_of (def_Config d) ''name'' = Some (YString ''opendht'')"
  by (auto simp: ValidateDefinition_def split: if_splits)

lemma validate_peer_Ok: "validate_peer n (pn, p) = Ok () \<Longrightarrow> peer_ok p"
  by (auto simp: validate_peer_def Peer_GetProtocol_def peer_ok_def split: if_splits res.splits)

lemma validate_interface_Ok: "validate_interface (name, i) = Ok () \<Longrightarrow> interface_ok (name, i)"
  by (auto simp: validate_interface_def MaxPeers_def Interface_GetProtocol_def interface_ok_def list_all_iff
      validate_peer_Ok split: if_splits)

lemma validateConfig_Ok:
  assumes "validateConfig pl lv cfg = Ok ()"
  shows "second \<le> cfg_RefreshInterval cfg" "cfg_RefreshInterval cfg \<le> 240 * second"
    "0 < pms_Interval (cfg_PingMonitor cfg)" "0 < pms_Timeout (cfg_PingMonitor cfg)"
    "1 \<le> pms_FixedRetries (cfg_PingMonitor cfg)" "pms_FixedRetries (cfg_PingMonitor cfg) \<le> 10"
    "stun_Addresses (cfg_Stun cfg) = Some servers \<Longrightarrow> length servers \<le> 8 \<and> (\<forall>s\<in>set servers. Server s = Ok ())"
    "\<forall>(_, d)\<in>set (cfg_Plugins cfg). ValidateDefinition d = Ok ()"
    "length (cfg_Interfaces cfg) \<le> 8" "\<forall>x\<in>set (cfg_Interfaces cfg). validate_interface x = Ok ()"
  using assms
  by (auto simp: validateConfig_def Let_def MaxServers_def split: if_splits)


lemma load_interfaces: "load w configFile configDir paths = Ok cfg \<Longrightarrow> list_all interface_ok (cfg_Interfaces cfg)"
  using validateConfig_Ok(10)[OF load_Ok(1)] validate_interface_Ok by (force simp: list_all_iff)

lemma b64_quads_loose_strict: "b64_quads s = Ok bs \<Longrightarrow> b64_quads_loose s = Ok bs"
  by (induction s arbitrary: bs rule: b64_quads.induct) (auto split: option.splits if_splits)

lemma PublicKey_decodes: "PublicKey text = Ok k \<Longrightarrow> b64_decode_loose text = Ok k \<and> length k = 32"
  using b64_quads_loose_strict
  by (auto simp: PublicKey_def Key_def b64_decode_def b64_decode_loose_def split: if_splits res.splits)

lemma config_peer_total:
  assumes "peer_ok p"
  shows "\<exists>q. config_peer name localKey p = Some q \<and> PublicKey (cp_PublicKey p) = Ok (p_publicKey q) \<and>
    p_id q = NewPeerId localKey (p_publicKey q) \<and> p_deviceName q = name \<and> p_plugin q = cp_Plugin p"
proof -
  obtain k where k: "PublicKey (cp_PublicKey p) = Ok k"
    using assms by (cases "PublicKey (cp_PublicKey p)") (auto simp: peer_ok_def)
  show ?thesis using k PublicKey_decodes[OF k] by (auto simp: config_peer_def NewPeer_def)
qed

lemma map_filter_total:
  "list_all (\<lambda>(_, p). peer_ok p) xs \<Longrightarrow>
     List.map_filter (\<lambda>(_, p). config_peer name localKey p) xs = map (\<lambda>(_, p). the (config_peer name localKey p)) xs"
  using config_peer_total[of _ name localKey] by (induction xs) (fastforce simp: List.map_filter_simps)+

text \<open>No configured peer is lost on the way to the entities: for a loaded configuration the accessor
  returns one peer per entry, in the order of the entries, with the device's name, the decoded key and
  the entry's plugin; and the listen port is the configured number, not a truncation of it.\<close>

theorem GetConfigPeers_complete:
  assumes "load w configFile configDir paths = Ok cfg" "map_of (cfg_Interfaces cfg) name = Some i"
  shows "\<exists>ps. GetConfigPeers (cfg_Interfaces cfg) name localKey = Ok ps \<and> length ps = length (if_Peers i) \<and>
      (\<forall>n < length ps. PublicKey (cp_PublicKey (snd (if_Peers i ! n))) = Ok (p_publicKey (ps ! n)) \<and>
         p_id (ps ! n) = NewPeerId localKey (p_publicKey (ps ! n)) \<and> p_deviceName (ps ! n) = name \<and>
         p_plugin (ps ! n) = cp_Plugin (snd (if_Peers i ! n)))
      \<and> uint (GetProxyListenPort (cfg_Interfaces cfg) name) = px_Listen (if_Proxy i)"
proof -
  have "interface_ok (name, i)"
    using load_interfaces[OF assms(1)] map_of_SomeD[OF assms(2)] by (simp add: list_all_iff)
  then have ok: "list_all (\<lambda>(_, p). peer_ok p) (if_Peers i)" "0 \<le> px_Listen (if_Proxy i)" "px_Listen (if_Proxy i) \<le> 65535"
    by (simp_all add: interface_ok_def)
  have "GetConfigPeers (cfg_Interfaces cfg) name localKey = Ok (map (\<lambda>(_, p). the (config_peer name localKey p)) (if_Peers i))"
    using assms(2) map_filter_total[OF ok(1)] by (simp add: GetConfigPeers_def device_def)
  moreover have "\<exists>q. config_peer name localKey (snd (if_Peers i ! n)) = Some q \<and>
      PublicKey (cp_PublicKey (snd (if_Peers i ! n))) = Ok (p_publicKey q) \<and>
      p_id q = NewPeerId localKey (p_publicKey q) \<and> p_deviceName q = name \<and> p_plugin q = cp_Plugin (snd (if_Peers i ! n))"
    if "n < length (if_Peers i)" for n
    using config_peer_total[of "snd (if_Peers i ! n)" name localKey] ok(1) that by (simp add: list_all_length split_beta)
  moreover have "uint (GetProxyListenPort (cfg_Interfaces cfg) name) = px_Listen (if_Proxy i)"
    using ok(2,3) assms(2) by (simp add: GetProxyListenPort_def device_def uint_word_of_int take_bit_eq_mod)
  ultimately show ?thesis by (fastforce simp: split_beta)
qed

lemma path_Clean_nonempty: "path_Clean s \<noteq> []"
  by (simp add: path_Clean_def Let_def)

lemma path_Join_nonempty: "b \<noteq> [] \<Longrightarrow> path_Join a b \<noteq> []"
  by (simp add: path_Join_def path_Clean_nonempty)

lemma candidates_nonempty: "c \<in> set (candidates d) \<Longrightarrow> c \<noteq> []"
  using path_Join_nonempty[of "''config.yaml''" d] path_Join_nonempty[of "''config.yml''" d]
  by (auto simp: candidates_def ConfigFileNames_def)

lemma find_candidates: "find P (candidates d) \<noteq> Some []"
proof
  assume "find P (candidates d) = Some []"
  then have "[] \<in> set (candidates d)" by (auto simp: find_Some_iff in_set_conv_nth)
  then show False using candidates_nonempty by blast
qed

text \<open>An explicit choice of file or directory is never silently replaced: when the given file, or the
  primary file of a directory that has none of the candidates, cannot be opened, loading fails with the
  read error, whatever the search paths hold. The built-in defaults stand in for a file only when
  nothing was asked for and no candidate exists on any search path.\<close>

theorem explicit_config_never_replaced:
  "(configFile \<noteq> [] \<longrightarrow> w_open w configFile = Err e \<longrightarrow>
      load w configFile configDir paths = Err (ErrWrap ''failed to read config'' [ErrReadConfig, e])) \<and>
   (configDir \<noteq> [] \<longrightarrow> (\<forall>c\<in>set (candidates configDir). \<not> w_stat w c) \<longrightarrow> w_open w (path_Join configDir ''config.yaml'') = Err e \<longrightarrow>
      load w [] configDir paths = Err (ErrWrap ''failed to read config'' [ErrReadConfig, e])) \<and>
   (findConfigFile w configFile configDir paths = [] \<longrightarrow>
      configFile = [] \<and> configDir = [] \<and>
      (\<forall>p\<in>set paths. os_Expand (w_env w) p \<noteq> [] \<longrightarrow> (\<forall>c\<in>set (candidates (os_Expand (w_env w) p)). \<not> w_stat w c)))"
proof -
  have search: "search w ps = [] \<Longrightarrow> \<forall>p\<in>set ps. os_Expand (w_env w) p \<noteq> [] \<longrightarrow>
      (\<forall>c\<in>set (candidates (os_Expand (w_env w) p)). \<not> w_stat w c)" for ps
    by (induction ps) (auto simp: Let_def find_None_iff find_candidates split: if_splits option.splits)
  have dir: "configDir \<noteq> [] \<Longrightarrow> findConfigFile w [] configDir paths \<noteq> []"
    using path_Join_nonempty[of "''config.yaml''" configDir]
    by (auto simp: findConfigFile_def find_candidates ConfigFileNames_def split: option.splits)
  have none: "find (w_stat w) (candidates configDir) = None" if "\<forall>c\<in>set (candidates configDir). \<not> w_stat w c"
    using that by (auto simp: find_None_iff)
  show ?thesis
    using search[of paths] dir none path_Join_nonempty[of "''config.yaml''" configDir]
    by (cases "configFile = []"; cases "configDir = []")
      (auto simp: load_def readConfig_def findConfigFile_def ConfigFileNames_def)
qed

section \<open>Witnesses\<close>

text \<open>A file with one interface, in a world where the file exists.\<close>

definition ex_interface :: Interface where
  "ex_interface =
     \<lparr>if_Protocol = ''dualstack'', if_Proxy = \<lparr>px_Listen = 51821, px_Enabled = None, px_Fib = 0\<rparr>,
      ListenInterfaces = [], ListenDefaultRoute = False,
      if_Peers = []\<rparr>"

definition ex_world :: world where
  "ex_world =
     \<lparr>w_env = (\<lambda>_. []), w_stat = (\<lambda>p. p = ''/etc/stunmesh/config.yaml''),
      w_open = (\<lambda>p. if p = ''/etc/stunmesh/config.yaml'' then Ok () else Err (ErrNew ''no such file'')),
      w_read = (\<lambda>_. Ok ''interfaces: ...''),
      w_yaml = (\<lambda>_. (Ok (YNode DocumentNode [] [] [] []), Err io_EOF)),
      w_unmarshal = (\<lambda>_. Ok (YMap [])),
      w_decode = (\<lambda>_ c. Ok (c\<lparr>cfg_Interfaces := [(''wg0'', ex_interface)]\<rparr>)),
      w_parseLevel = (\<lambda>l. l = ''info''), w_levels = [''info''], w_toLower = (\<lambda>s. s)\<rparr>"

definition ex_config :: Config where
  "ex_config = defaults\<lparr>cfg_Interfaces := [(''wg0'', ex_interface)],
     cfg_Stun := \<lparr>stun_Address = [], stun_Addresses = Some [DefaultStunServer]\<rparr>\<rparr>"

lemma ex_load: "load ex_world [] [] defaultSearchPaths = Ok ex_config"
  by code_simp


theorem GetConfigPeers_complete_witness:
  "\<exists>ps. GetConfigPeers [(''wg0'', ex_interface)] ''wg0'' (replicate 32 1) = Ok ps \<and> length ps = 0 \<and>
     uint (GetProxyListenPort [(''wg0'', ex_interface)] ''wg0'') = 51821"
proof -
  have m: "map_of (cfg_Interfaces ex_config) ''wg0'' = Some ex_interface" by (simp add: ex_config_def)
  have "cfg_Interfaces ex_config = [(''wg0'', ex_interface)]" "length (if_Peers ex_interface) = 0"
    "px_Listen (if_Proxy ex_interface) = 51821" by (simp_all add: ex_config_def ex_interface_def)
  then show ?thesis using GetConfigPeers_complete[OF ex_load m, of "replicate 32 1"] by auto
qed

theorem explicit_config_never_replaced_witness:
  "load ex_world ''/root/missing.yaml'' [] defaultSearchPaths =
     Err (ErrWrap ''failed to read config'' [ErrReadConfig, ErrNew ''no such file''])"
proof -
  have "w_open ex_world ''/root/missing.yaml'' = Err (ErrNew ''no such file'')" by (simp add: ex_world_def)
  then show ?thesis using explicit_config_never_replaced[of "''/root/missing.yaml''" ex_world] by simp
qed

end
