(* ===== verification/Gojson.thy ===== *)
theory Gojson
  imports Gotext
begin

text \<open>
  What the program uses of \<^verbatim>\<open>encoding/json\<close> and \<^verbatim>\<open>unicode/utf8\<close>: the grammar of a JSON
  document with the unquoting of strings, the compact printing of \<^verbatim>\<open>json.Marshal\<close> with its HTML-safe
  quoting, and the name folding of the struct decoder. The parser has fuel; a lemma shows that any fuel
  above twice the length of the text gives the same answer. A round trip holds for ASCII strings.
\<close>

section \<open>UTF-8\<close>

abbreviation code :: "char \<Rightarrow> nat" where "code c \<equiv> of_char c"

definition cont :: "nat \<Rightarrow> nat \<Rightarrow> char \<Rightarrow> bool" where
  "cont lo hi c \<longleftrightarrow> lo \<le> code c \<and> code c \<le> hi"

text \<open>The number of bytes of the well-formed sequence at the head, 0 when there is none.\<close>

fun utf8_len :: "string \<Rightarrow> nat" where
  "utf8_len [] = 0"
| "utf8_len (a # s) =
     (let n = code a in
      if n < 0x80 then 1
      else if 0xC2 \<le> n \<and> n \<le> 0xDF then
        (case s of b # _ \<Rightarrow> if cont 0x80 0xBF b then 2 else 0 | _ \<Rightarrow> 0)
      else if 0xE0 \<le> n \<and> n \<le> 0xEF then
        (case s of b # c # _ \<Rightarrow>
           if cont (if n = 0xE0 then 0xA0 else 0x80) (if n = 0xED then 0x9F else 0xBF) b \<and> cont 0x80 0xBF c then 3 else 0
         | _ \<Rightarrow> 0)
      else if 0xF0 \<le> n \<and> n \<le> 0xF4 then
        (case s of b # c # d # _ \<Rightarrow>
           if cont (if n = 0xF0 then 0x90 else 0x80) (if n = 0xF4 then 0x8F else 0xBF) b \<and> cont 0x80 0xBF c \<and> cont 0x80 0xBF d
           then 4 else 0
         | _ \<Rightarrow> 0)
      else 0)"

definition utf8_rune :: "string \<Rightarrow> nat" where
  "utf8_rune s =
     (let d = (\<lambda>i. code (s ! i) mod 64) in
      case utf8_len s of
        Suc 0 \<Rightarrow> code (s ! 0)
      | Suc (Suc 0) \<Rightarrow> code (s ! 0) mod 32 * 64 + d 1
      | Suc (Suc (Suc 0)) \<Rightarrow> code (s ! 0) mod 16 * 4096 + d 1 * 64 + d 2
      | Suc (Suc (Suc (Suc 0))) \<Rightarrow> code (s ! 0) mod 8 * 262144 + d 1 * 4096 + d 2 * 64 + d 3
      | _ \<Rightarrow> 0xFFFD)"

definition utf8_encode :: "nat \<Rightarrow> string" where
  "utf8_encode r =
     (if r < 0x80 then [char_of r]
      else if r < 0x800 then [char_of (0xC0 + r div 64), char_of (0x80 + r mod 64)]
      else if r < 0x10000 then [char_of (0xE0 + r div 4096), char_of (0x80 + r div 64 mod 64), char_of (0x80 + r mod 64)]
      else [char_of (0xF0 + r div 262144), char_of (0x80 + r div 4096 mod 64), char_of (0x80 + r div 64 mod 64),
            char_of (0x80 + r mod 64)])"

definition replacement :: string where "replacement = [CHR 0xEF, CHR 0xBF, CHR 0xBD]"

text \<open>The runes of a text; an ill-formed byte counts as the replacement character.\<close>

function runes :: "string \<Rightarrow> nat list" where
  "runes [] = []"
| "runes (c # cs) =
     (let n = utf8_len (c # cs) in
      if n = 0 then 0xFFFD # runes cs else utf8_rune (c # cs) # runes (drop (n - 1) cs))"
  by pat_completeness auto
termination by (relation "measure length") auto

section \<open>Strings\<close>

definition hex4 :: "string \<Rightarrow> nat option" where
  "hex4 s = (case s of
      a # b # c # d # _ \<Rightarrow>
        (case (hex_val a, hex_val b, hex_val c, hex_val d) of
           (Some w, Some x, Some y, Some z) \<Rightarrow> Some (((w * 16 + x) * 16 + y) * 16 + z)
         | _ \<Rightarrow> None)
    | _ \<Rightarrow> None)"

definition getu4 :: "string \<Rightarrow> nat option" where
  "getu4 s = (case s of a # b # r \<Rightarrow> if a = CHR 0x5C \<and> b = CHR ''u'' then hex4 r else None | _ \<Rightarrow> None)"

text \<open>One step of unquoting: the bytes produced and the number of bytes consumed.\<close>

definition str_step :: "string \<Rightarrow> (string \<times> nat) option" where
  "str_step s = (case s of
      [] \<Rightarrow> None
    | c # cs \<Rightarrow>
        if c = CHR 0x5C then
          (case cs of
             [] \<Rightarrow> None
           | e # _ \<Rightarrow>
               if e = CHR 0x22 \<or> e = CHR 0x5C \<or> e = CHR ''/'' then Some ([e], 2)
               else if e = CHR ''b'' then Some ([CHR 0x08], 2)
               else if e = CHR ''f'' then Some ([CHR 0x0C], 2)
               else if e = CHR ''n'' then Some ([CHR 0x0A], 2)
               else if e = CHR ''r'' then Some ([CHR 0x0D], 2)
               else if e = CHR ''t'' then Some ([CHR 0x09], 2)
               else if e = CHR ''u'' then
                 (case getu4 s of
                    None \<Rightarrow> None
                  | Some r \<Rightarrow>
                      if 0xD800 \<le> r \<and> r < 0xE000 then
                        (case getu4 (drop 6 s) of
                           Some r1 \<Rightarrow>
                             if r < 0xDC00 \<and> 0xDC00 \<le> r1 \<and> r1 < 0xE000
                             then Some (utf8_encode ((r - 0xD800) * 1024 + (r1 - 0xDC00) + 0x10000), 12)
                             else Some (replacement, 6)
                         | None \<Rightarrow> Some (replacement, 6))
                      else Some (utf8_encode r, 6))
               else None)
        else if code c < 0x20 then None
        else if code c < 0x80 then Some ([c], 1)
        else let n = utf8_len s in if n = 0 then Some (replacement, 1) else Some (take n s, n))"

text \<open>The rest of a string after its opening quote: its content and what follows the closing quote.\<close>

function str_body :: "string \<Rightarrow> (string \<times> string) option" where
  "str_body [] = None"
| "str_body (c # cs) =
     (if c = CHR 0x22 then Some ([], cs)
      else case str_step (c # cs) of
        None \<Rightarrow> None
      | Some (d, n) \<Rightarrow> map_option (\<lambda>(t, r). (d @ t, r)) (str_body (drop (n - 1) cs)))"
  by pat_completeness auto
termination by (relation "measure length") auto

definition quote_ascii :: "char \<Rightarrow> string" where
  "quote_ascii c =
     (if c = CHR 0x22 \<or> c = CHR 0x5C then [CHR 0x5C, c]
      else if c = CHR 0x08 then [CHR 0x5C, CHR ''b'']
      else if c = CHR 0x0C then [CHR 0x5C, CHR ''f'']
      else if c = CHR 0x0A then [CHR 0x5C, CHR ''n'']
      else if c = CHR 0x0D then [CHR 0x5C, CHR ''r'']
      else if c = CHR 0x09 then [CHR 0x5C, CHR ''t'']
      else if code c < 0x20 \<or> c = CHR ''<'' \<or> c = CHR ''>'' \<or> c = CHR ''&''
      then [CHR 0x5C, CHR ''u'', CHR ''0'', CHR ''0'', hex_char (code c div 16), hex_char (code c mod 16)]
      else [c])"

function quote_body :: "string \<Rightarrow> string" where
  "quote_body [] = []"
| "quote_body (c # cs) =
     (if code c < 0x80 then quote_ascii c @ quote_body cs
      else
        let n = utf8_len (c # cs) in
        if n = 0 then CHR 0x5C # ''ufffd'' @ quote_body cs
        else (if take n (c # cs) = [CHR 0xE2, CHR 0x80, CHR 0xA8] then CHR 0x5C # ''u2028''
              else if take n (c # cs) = [CHR 0xE2, CHR 0x80, CHR 0xA9] then CHR 0x5C # ''u2029''
              else take n (c # cs)) @ quote_body (drop (n - 1) cs))"
  by pat_completeness auto
termination by (relation "measure length") auto

definition quote :: "string \<Rightarrow> string" where
  "quote s = CHR 0x22 # quote_body s @ [CHR 0x22]"

section \<open>Documents\<close>

datatype json = JNull | JBool bool | JNum string | JStr string | JArr "json list" | JObj "(string \<times> json) list"

definition is_ws :: "char \<Rightarrow> bool" where
  "is_ws c \<longleftrightarrow> c = CHR '' '' \<or> c = CHR 0x09 \<or> c = CHR 0x0D \<or> c = CHR 0x0A"

definition skip_ws :: "string \<Rightarrow> string" where "skip_ws s = dropWhile is_ws s"

definition is_digit :: "char \<Rightarrow> bool" where "is_digit c \<longleftrightarrow> 48 \<le> code c \<and> code c \<le> 57"

definition digits :: "string \<Rightarrow> string \<times> string" where "digits s = (takeWhile is_digit s, dropWhile is_digit s)"

text \<open>The parts of a number, each empty when absent; \<open>None\<close> when the part is malformed.\<close>

definition lex_int :: "string \<Rightarrow> (string \<times> string) option" where
  "lex_int s = (case s of
      c # cs \<Rightarrow>
        if c = CHR ''0'' then Some ([c], cs)
        else if is_digit c then Some (digits s)
        else None
    | [] \<Rightarrow> None)"

definition lex_frac :: "string \<Rightarrow> (string \<times> string) option" where
  "lex_frac s = (case s of
      c # cs \<Rightarrow>
        if c = CHR ''.'' then (case digits cs of (ds, r) \<Rightarrow> if ds = [] then None else Some (c # ds, r))
        else Some ([], s)
    | [] \<Rightarrow> Some ([], []))"

definition lex_exp :: "string \<Rightarrow> (string \<times> string) option" where
  "lex_exp s = (case s of
      c # cs \<Rightarrow>
        if c = CHR ''e'' \<or> c = CHR ''E'' then
          (case (case cs of g # r \<Rightarrow> if g = CHR ''+'' \<or> g = CHR ''-'' then ([g], r) else ([], cs) | [] \<Rightarrow> ([], [])) of
             (g, r) \<Rightarrow> (case digits r of (ds, r') \<Rightarrow> if ds = [] then None else Some (c # g @ ds, r')))
        else Some ([], s)
    | [] \<Rightarrow> Some ([], []))"

definition lex_num :: "string \<Rightarrow> (string \<times> string) option" where
  "lex_num s =
     (case (case s of c # cs \<Rightarrow> if c = CHR ''-'' then ([c], cs) else ([], s) | [] \<Rightarrow> ([], [])) of (g, s0) \<Rightarrow>
      Option.bind (lex_int s0) (\<lambda>(i, s1).
      Option.bind (lex_frac s1) (\<lambda>(f, s2).
      Option.bind (lex_exp s2) (\<lambda>(e, s3). Some (g @ i @ f @ e, s3)))))"

definition lex_word :: "string \<Rightarrow> 'a \<Rightarrow> string \<Rightarrow> ('a \<times> string) option" where
  "lex_word w v s = (if HasPrefix s w then Some (v, drop (length w) s) else None)"

fun jvalue :: "nat \<Rightarrow> string \<Rightarrow> (json \<times> string) option"
  and jelems :: "nat \<Rightarrow> string \<Rightarrow> (json list \<times> string) option"
  and jmembers :: "nat \<Rightarrow> string \<Rightarrow> ((string \<times> json) list \<times> string) option" where
  "jvalue 0 s = None"
| "jvalue (Suc f) s =
     (case skip_ws s of
        [] \<Rightarrow> None
      | c # cs \<Rightarrow>
          if c = CHR ''{'' then
            (case skip_ws cs of
               [] \<Rightarrow> None
             | d # ds \<Rightarrow>
                 if d = CHR ''}'' then Some (JObj [], ds)
                 else map_option (\<lambda>(ms, r). (JObj ms, r)) (jmembers f (d # ds)))
          else if c = CHR ''['' then
            (case skip_ws cs of
               [] \<Rightarrow> None
             | d # ds \<Rightarrow>
                 if d = CHR '']'' then Some (JArr [], ds)
                 else map_option (\<lambda>(vs, r). (JArr vs, r)) (jelems f (d # ds)))
          else if c = CHR 0x22 then map_option (\<lambda>(t, r). (JStr t, r)) (str_body cs)
          else if c = CHR ''t'' then lex_word ''true'' (JBool True) (c # cs)
          else if c = CHR ''f'' then lex_word ''false'' (JBool False) (c # cs)
          else if c = CHR ''n'' then lex_word ''null'' JNull (c # cs)
          else map_option (\<lambda>(t, r). (JNum t, r)) (lex_num (c # cs)))"
| "jelems 0 s = None"
| "jelems (Suc f) s =
     (case jvalue f s of
        None \<Rightarrow> None
      | Some (v, r) \<Rightarrow>
          (case skip_ws r of
             [] \<Rightarrow> None
           | c # cs \<Rightarrow>
               if c = CHR '']'' then Some ([v], cs)
               else if c = CHR '','' then map_option (\<lambda>(vs, r'). (v # vs, r')) (jelems f cs)
               else None))"
| "jmembers 0 s = None"
| "jmembers (Suc f) s =
     (case skip_ws s of
        [] \<Rightarrow> None
      | q # qs \<Rightarrow>
          if q \<noteq> CHR 0x22 then None
          else case str_body qs of
            None \<Rightarrow> None
          | Some (k, r0) \<Rightarrow>
              (case skip_ws r0 of
                 [] \<Rightarrow> None
               | c # r1 \<Rightarrow>
                   if c \<noteq> CHR '':'' then None
                   else case jvalue f r1 of
                     None \<Rightarrow> None
                   | Some (v, r2) \<Rightarrow>
                       (case skip_ws r2 of
                          [] \<Rightarrow> None
                        | d # ds \<Rightarrow>
                            if d = CHR ''}'' then Some ([(k, v)], ds)
                            else if d = CHR '','' then map_option (\<lambda>(ms, r'). ((k, v) # ms, r')) (jmembers f ds)
                            else None)))"

definition json_document :: "string \<Rightarrow> json option" where
  "json_document s =
     (case jvalue (2 * length s + 1) s of
        Some (v, r) \<Rightarrow> if skip_ws r = [] then Some v else None
      | None \<Rightarrow> None)"

text \<open>Compact printing.\<close>

fun json_print :: "json \<Rightarrow> string" where
  "json_print JNull = ''null''"
| "json_print (JBool b) = (if b then ''true'' else ''false'')"
| "json_print (JNum t) = t"
| "json_print (JStr t) = quote t"
| "json_print (JArr vs) = ''['' @ join '','' (map json_print vs) @ '']''"
| "json_print (JObj ms) = ''{'' @ join '','' (map (\<lambda>(k, v). quote k @ '':'' @ json_print v) ms) @ ''}''"

section \<open>Folding of names\<close>

text \<open>The Unicode data that the lower-casing and the folding of names consult above ASCII.\<close>

record unicode =
  uc_lower :: "nat \<Rightarrow> nat"
  uc_fold :: "nat \<Rightarrow> nat"

definition lower_rune :: "unicode \<Rightarrow> nat \<Rightarrow> nat" where
  "lower_rune u r = (if r < 0x80 then (if 65 \<le> r \<and> r \<le> 90 then r + 32 else r) else uc_lower u r)"

definition ToLower :: "unicode \<Rightarrow> string \<Rightarrow> string" where
  "ToLower u s = concat (map (\<lambda>r. utf8_encode (lower_rune u r)) (runes s))"

definition fold_rune :: "unicode \<Rightarrow> nat \<Rightarrow> nat" where
  "fold_rune u r = (if r < 0x80 then (if 97 \<le> r \<and> r \<le> 122 then r - 32 else r) else uc_fold u r)"

definition foldName :: "unicode \<Rightarrow> string \<Rightarrow> string" where
  "foldName u s = concat (map (\<lambda>r. utf8_encode (fold_rune u r)) (runes s))"

section \<open>Fuel\<close>

lemma length_skip_ws: "length (skip_ws s) \<le> length s"
  by (simp add: skip_ws_def length_dropWhile_le)

lemma skip_ws_Cons_length: "skip_ws s = c # cs \<Longrightarrow> length cs < length s"
  using length_skip_ws[of s] by simp

lemma str_body_length: "str_body s = Some (t, r) \<Longrightarrow> length r < length s"
proof (induction s arbitrary: t rule: str_body.induct)
  case (2 c cs)
  show ?case
  proof (cases "c = CHR 0x22")
    case False
    then obtain d n t' where "str_step (c # cs) = Some (d, n)" "str_body (drop (n - 1) cs) = Some (t', r)"
      using 2(2) by (auto split: option.splits prod.splits)
    then show ?thesis using 2(1)[OF False] by fastforce
  qed (use 2(2) in auto)
qed simp

lemma length_digits: "length (snd (digits s)) \<le> length s"
  by (simp add: digits_def length_dropWhile_le)

lemma lex_int_length: "lex_int s = Some (t, r) \<Longrightarrow> length r < length s"
  using length_dropWhile_le[of is_digit "tl s"]
  by (cases s) (auto simp: lex_int_def digits_def split: if_splits)

lemma lex_frac_length: "lex_frac s = Some (t, r) \<Longrightarrow> length r \<le> length s"
  using length_dropWhile_le[of is_digit "tl s"]
  by (cases s) (auto simp: lex_frac_def digits_def split: if_splits)

lemma lex_exp_length: "lex_exp s = Some (t, r) \<Longrightarrow> length r \<le> length s"
  using length_dropWhile_le[of is_digit "tl s"] length_dropWhile_le[of is_digit "tl (tl s)"]
  by (cases s; cases "tl s") (auto simp: lex_exp_def digits_def split: if_splits)

lemma lex_num_length: "lex_num s = Some (t, r) \<Longrightarrow> length r < length s"
proof -
  assume *: "lex_num s = Some (t, r)"
  obtain g s0 where g: "(case s of c # cs \<Rightarrow> if c = CHR ''-'' then ([c], cs) else ([], s) | [] \<Rightarrow> ([], [])) = (g, s0)"
    by fastforce
  have "length s0 \<le> length s" using g by (auto split: list.splits if_splits)
  moreover obtain i s1 f s2 e where "lex_int s0 = Some (i, s1)" "lex_frac s1 = Some (f, s2)" "lex_exp s2 = Some (e, r)"
    using * g by (auto simp: lex_num_def Option.bind_eq_Some_conv)
  ultimately show ?thesis
    using lex_int_length lex_frac_length lex_exp_length by (meson le_trans less_le_trans order_le_less_trans)
qed

lemma lex_word_length: "w \<noteq> [] \<Longrightarrow> lex_word w v s = Some (x, r) \<Longrightarrow> length r < length s"
  by (auto simp: lex_word_def HasPrefix_def split: if_splits)
    (metis diff_less length_drop length_greater_0_conv list.size(3) take_Nil)

lemmas step_lengths = skip_ws_Cons_length str_body_length lex_num_length

lemma jvalue_jelems_jmembers_length:
  shows "jvalue f s = Some (v, r) \<Longrightarrow> length r < length s"
    and "jelems f s = Some (vs, r) \<Longrightarrow> length r < length s"
    and "jmembers f s = Some (ms, r) \<Longrightarrow> length r < length s"
proof (induction f s and f s and f s arbitrary: v r and vs r and ms r rule: jvalue_jelems_jmembers.induct)
  case (2 f s)
  obtain c cs where sk: "skip_ws s = c # cs" using 2(3) by (auto split: list.splits)
  have word: "lex_word w x (c # cs) = Some (v, r) \<Longrightarrow> length r < length s" if "w \<noteq> []" for w and x :: json
    using lex_word_length[OF that] skip_ws_Cons_length[OF sk] length_skip_ws[of s] sk by fastforce
  show ?case
  proof (cases "c = CHR ''{'' \<or> c = CHR ''[''")
    case True
    then obtain d ds where sk2: "skip_ws cs = d # ds" using 2(3) sk by (auto split: list.splits if_splits)
    have "length r < Suc (length ds)" using 2 sk sk2 True by (auto split: if_splits)
    then show ?thesis using skip_ws_Cons_length[OF sk] skip_ws_Cons_length[OF sk2] by linarith
  next
    case False
    have "length r < length (c # cs)"
      using False 2(3) sk lex_word_length[of _ _ "c # cs"] str_body_length[of cs] lex_num_length[of "c # cs"]
      by (auto split: if_splits) (fastforce dest: less_SucI)+
    then show ?thesis using length_skip_ws[of s] sk by simp
  qed
next
  case (4 f s)
  obtain w r0 where v: "jvalue f s = Some (w, r0)" using 4(3) by (auto split: option.splits)
  obtain c cs where sk: "skip_ws r0 = c # cs" using 4(3) v by (auto split: list.splits)
  have "length r \<le> length cs" using 4(2)[OF v refl sk] 4(3) v sk by (fastforce split: if_splits)
  then show ?case using 4(1)[OF v] skip_ws_Cons_length[OF sk] by linarith
next
  case (6 f s)
  obtain qs where q: "skip_ws s = CHR 0x22 # qs" using 6(3) by (auto split: list.splits if_splits)
  obtain k r0 where k: "str_body qs = Some (k, r0)" using 6(3) q by (auto split: option.splits)
  obtain r1 where r1: "skip_ws r0 = CHR '':'' # r1" using 6(3) q k by (auto split: list.splits if_splits)
  obtain w r2 where w: "jvalue f r1 = Some (w, r2)" using 6(3) q k r1 by (auto split: option.splits)
  obtain d ds where d: "skip_ws r2 = d # ds" using 6(3) q k r1 w by (auto split: list.splits)
  have "length r2 < length r1" using 6(1) q k r1 w by simp
  moreover have "length r \<le> length ds" using 6(2,3) q k r1 w d by (fastforce split: if_splits)
  ultimately show ?case
    using skip_ws_Cons_length[OF q] str_body_length[OF k] skip_ws_Cons_length[OF r1] skip_ws_Cons_length[OF d] by linarith
qed simp_all

text \<open>More fuel does not change the answer, once there is twice the length of the text.\<close>

lemma fuel_step:
  "(\<forall>s. 2 * length s < f \<longrightarrow> jvalue (Suc f) s = jvalue f s) \<and>
   (\<forall>s. 2 * length s + 1 < f \<longrightarrow> jelems (Suc f) s = jelems f s) \<and>
   (\<forall>s. 2 * length s < f \<longrightarrow> jmembers (Suc f) s = jmembers f s)"
proof (induction f)
  case (Suc f)
  then have IHv: "\<And>s. 2 * length s < f \<Longrightarrow> jvalue (Suc f) s = jvalue f s"
    and IHe: "\<And>s. 2 * length s + 1 < f \<Longrightarrow> jelems (Suc f) s = jelems f s"
    and IHm: "\<And>s. 2 * length s < f \<Longrightarrow> jmembers (Suc f) s = jmembers f s" by blast+
  have V: "jvalue (Suc (Suc f)) s = jvalue (Suc f) s" if "2 * length s < Suc f" for s
  proof -
    have "jelems (Suc f) (d # ds) = jelems f (d # ds)" "jmembers (Suc f) (d # ds) = jmembers f (d # ds)"
      if "skip_ws s = c # cs" "skip_ws cs = d # ds" for c cs d ds
      using \<open>2 * length s < Suc f\<close> skip_ws_Cons_length[OF that(1)] length_skip_ws[of cs] that(2)
      by (intro IHe IHm; simp)+
    then show ?thesis
      by (subst (1 2) jvalue.simps) (simp split: list.split del: jvalue.simps jelems.simps jmembers.simps)
  qed
  have E: "jelems (Suc (Suc f)) s = jelems (Suc f) s" if "2 * length s + 1 < Suc f" for s
  proof -
    have "jvalue (Suc f) s = jvalue f s" using that by (intro IHv) simp
    moreover have "jelems (Suc f) cs = jelems f cs" if "jvalue f s = Some (v, r)" "skip_ws r = c # cs" for v r c cs
      using \<open>2 * length s + 1 < Suc f\<close> jvalue_jelems_jmembers_length(1)[OF that(1)] skip_ws_Cons_length[OF that(2)]
      by (intro IHe) simp
    ultimately show ?thesis
      by (subst (1 2) jelems.simps) (simp split: list.split option.split del: jvalue.simps jelems.simps jmembers.simps)
  qed
  have M: "jmembers (Suc (Suc f)) s = jmembers (Suc f) s" if "2 * length s < Suc f" for s
  proof -
    have v: "jvalue (Suc f) r1 = jvalue f r1"
      if "skip_ws s = q # qs" "str_body qs = Some (k, r0)" "skip_ws r0 = c # r1" for q qs k r0 c r1
      using \<open>2 * length s < Suc f\<close> skip_ws_Cons_length[OF that(1)] str_body_length[OF that(2)] skip_ws_Cons_length[OF that(3)]
      by (intro IHv) simp
    have "jmembers (Suc f) ds = jmembers f ds"
      if "skip_ws s = q # qs" "str_body qs = Some (k, r0)" "skip_ws r0 = c # r1" "jvalue f r1 = Some (w, r2)" "skip_ws r2 = d # ds"
      for q qs k r0 c r1 w r2 d ds
      using \<open>2 * length s < Suc f\<close> skip_ws_Cons_length[OF that(1)] str_body_length[OF that(2)] skip_ws_Cons_length[OF that(3)]
        jvalue_jelems_jmembers_length(1)[OF that(4)] skip_ws_Cons_length[OF that(5)]
      by (intro IHm) simp
    with v show ?thesis
      by (subst (1 2) jmembers.simps) (simp split: list.split option.split del: jvalue.simps jelems.simps jmembers.simps)
  qed
  from V E M show ?case by blast
qed simp

text \<open>The answer of the parser does not depend on the fuel, from twice the length of the text on.\<close>

lemma jvalue_fuel: "2 * length s < f \<Longrightarrow> jvalue f s = jvalue (2 * length s + 1) s"
proof (induction f)
  case (Suc f)
  then show ?case using fuel_step[of f] by (cases "2 * length s = f") (auto simp del: jvalue.simps)
qed simp

section \<open>Round trip\<close>

definition ascii :: "string \<Rightarrow> bool" where "ascii s \<longleftrightarrow> (\<forall>c\<in>set s. code c < 0x80)"

lemma str_step_quote_ascii:
  assumes "code c < 0x80"
  shows "str_step (quote_ascii c @ r) = Some ([c], length (quote_ascii c))"
proof -
  have hex: "hex_val (hex_char (code c div 16)) = Some (code c div 16)" "hex_val (hex_char (code c mod 16)) = Some (code c mod 16)"
    using assms by simp_all
  have zero: "hex_val (CHR ''0'') = Some 0" by code_simp
  have u: "getu4 (CHR 0x5C # CHR ''u'' # CHR ''0'' # CHR ''0'' # hex_char (code c div 16) # hex_char (code c mod 16) # r) = Some (code c)"
    using hex zero by (simp add: getu4_def hex4_def)
  have enc: "utf8_encode (code c) = [c]" using assms by (simp add: utf8_encode_def)
  show ?thesis
  proof (cases "code c < 0x20 \<or> c = CHR ''<'' \<or> c = CHR ''>'' \<or> c = CHR ''&''")
    case True
    have "\<not> (0xD800 \<le> code c)" using assms by simp
    then show ?thesis using True u enc by (auto simp: str_step_def quote_ascii_def)
  next
    case False
    then show ?thesis using assms by (auto simp: str_step_def quote_ascii_def)
  qed
qed

lemma quote_ascii_hd: "\<exists>a b. quote_ascii c = a # b \<and> a \<noteq> CHR 0x22"
  by (auto simp: quote_ascii_def)

lemma str_body_quote_body: "ascii s \<Longrightarrow> str_body (quote_body s @ CHR 0x22 # r) = Some (s, r)"
proof (induction s)
  case (Cons c cs)
  then have c: "code c < 0x80" "ascii cs" by (auto simp: ascii_def)
  obtain a b where ab: "quote_ascii c = a # b" "a \<noteq> CHR 0x22" using quote_ascii_hd by blast
  have "str_step (a # b @ quote_body cs @ CHR 0x22 # r) = Some ([c], Suc (length b))"
    using str_step_quote_ascii[OF c(1), of "quote_body cs @ CHR 0x22 # r"] ab by simp
  then show ?case using c Cons.IH ab by simp
qed simp

definition tail_ok :: "string \<Rightarrow> bool" where
  "tail_ok r \<longleftrightarrow> r = [] \<or> hd r = CHR '','' \<or> hd r = CHR '']'' \<or> hd r = CHR ''}''"

definition num_ok :: "string \<Rightarrow> bool" where
  "num_ok t \<longleftrightarrow> t \<noteq> [] \<and> (is_digit (hd t) \<or> hd t = CHR ''-'') \<and> (\<forall>r. tail_ok r \<longrightarrow> lex_num (t @ r) = Some (t, r))"

fun json_plain :: "json \<Rightarrow> bool" where
  "json_plain (JNum t) = num_ok t"
| "json_plain (JStr t) = ascii t"
| "json_plain (JArr vs) = (\<forall>v\<in>set vs. json_plain v)"
| "json_plain (JObj ms) = (\<forall>(k, v)\<in>set ms. ascii k \<and> json_plain v)"
| "json_plain _ = True"

definition reads_back :: "json \<Rightarrow> bool" where
  "reads_back v \<longleftrightarrow> (\<forall>f r. tail_ok r \<longrightarrow> 2 * length (json_print v) < f \<longrightarrow> jvalue f (json_print v @ r) = Some (v, r))"

lemma jelems_print:
  "vs \<noteq> [] \<Longrightarrow> \<forall>v\<in>set vs. reads_back v \<Longrightarrow> 2 * length (join '','' (map json_print vs)) + 1 < f \<Longrightarrow>
     jelems f (join '','' (map json_print vs) @ CHR '']'' # r) = Some (vs, r)"
proof (induction vs arbitrary: f)
  case (Cons v vs)
  obtain f' where f: "f = Suc f'" using Cons.prems(3) by (cases f) auto
  show ?case
  proof (cases vs)
    case Nil
    have "jvalue f' (json_print v @ CHR '']'' # r) = Some (v, CHR '']'' # r)"
      using Cons.prems(2,3) f Nil by (simp add: reads_back_def tail_ok_def)
    then show ?thesis using f Nil by (simp add: skip_ws_def is_ws_def)
  next
    case (Cons w ws)
    let ?rest = "join '','' (map json_print vs) @ CHR '']'' # r"
    have len: "length (join '','' (map json_print (v # vs))) = length (json_print v) + 1 + length (join '','' (map json_print vs))"
      using Cons by simp
    have "jvalue f' (json_print v @ CHR '','' # ?rest) = Some (v, CHR '','' # ?rest)"
      using Cons.prems(2,3) f len by (simp add: reads_back_def tail_ok_def)
    moreover have "jelems f' ?rest = Some (vs, r)"
      using Cons.IH[of f'] Cons.prems(2,3) f len Cons by simp
    ultimately show ?thesis using f Cons by (simp add: skip_ws_def is_ws_def)
  qed
qed simp

definition member_print :: "string \<times> json \<Rightarrow> string" where
  "member_print m = quote (fst m) @ '':'' @ json_print (snd m)"

lemma json_print_JObj: "json_print (JObj ms) = ''{'' @ join '','' (map member_print ms) @ ''}''"
  by (auto simp: member_print_def intro!: arg_cong[where f = "join '',''"] map_cong)

lemma jmember_print:
  assumes "ascii k" "reads_back v" "2 * length (member_print (k, v)) < Suc f" "tail_ok (d # ds)"
  shows "jmembers (Suc f) (member_print (k, v) @ d # ds) =
    (if d = CHR ''}'' then Some ([(k, v)], ds)
     else if d = CHR '','' then map_option (\<lambda>(ms, r'). ((k, v) # ms, r')) (jmembers f ds) else None)"
proof -
  have "str_body (quote_body k @ CHR 0x22 # '':'' @ json_print v @ d # ds) = Some (k, '':'' @ json_print v @ d # ds)"
    using str_body_quote_body[OF assms(1)] by blast
  moreover have "jvalue f (json_print v @ d # ds) = Some (v, d # ds)"
    using assms(2,3,4) by (simp add: reads_back_def member_print_def quote_def)
  moreover have "skip_ws (d # ds) = d # ds"
    using assms(4) by (auto simp: tail_ok_def skip_ws_def is_ws_def)
  ultimately show ?thesis
    by (simp add: member_print_def quote_def skip_ws_def is_ws_def)
qed

lemma jmembers_print:
  "ms \<noteq> [] \<Longrightarrow> \<forall>(k, v)\<in>set ms. ascii k \<and> reads_back v \<Longrightarrow> 2 * length (join '','' (map member_print ms)) < f \<Longrightarrow>
     jmembers f (join '','' (map member_print ms) @ CHR ''}'' # r) = Some (ms, r)"
proof (induction ms arbitrary: f)
  case (Cons m ms)
  obtain k v where m: "m = (k, v)" by fastforce
  obtain f' where f: "f = Suc f'" using Cons.prems(3) by (cases f) auto
  have kv: "ascii k" "reads_back v" using Cons.prems(2) m by auto
  show ?case
  proof (cases ms)
    case Nil
    then show ?thesis using jmember_print[OF kv, of f' "CHR ''}''" r] Cons.prems(3) f m by (simp add: tail_ok_def del: jmembers.simps)
  next
    case rest: (Cons w ws)
    have len: "length (join '','' (map member_print (m # ms))) = length (member_print m) + 1 + length (join '','' (map member_print ms))"
      using rest by simp
    have "jmembers f' (join '','' (map member_print ms) @ CHR ''}'' # r) = Some (ms, r)"
      using Cons.IH[of f'] Cons.prems(2,3) f len rest by simp
    then show ?thesis
      using jmember_print[OF kv, of f' "CHR '',''" "join '','' (map member_print ms) @ CHR ''}'' # r"] Cons.prems(3) f m len rest
      by (simp add: tail_ok_def del: jmembers.simps)
  qed
qed simp

lemma first_char:
  "json_plain v \<Longrightarrow> \<exists>c cs. json_print v = c # cs \<and> \<not> is_ws c \<and> c \<noteq> CHR '']'' \<and> c \<noteq> CHR ''}''"
  by (cases v) (auto simp: quote_def is_ws_def num_ok_def is_digit_def neq_Nil_conv)

lemma join_first: "join sep (x # xs) = x @ (if xs = [] then [] else sep @ join sep xs)"
  by (cases xs) auto

lemma reads_backI:
  "(\<And>f r. tail_ok r \<Longrightarrow> 2 * length (json_print v) < Suc f \<Longrightarrow> jvalue (Suc f) (json_print v @ r) = Some (v, r)) \<Longrightarrow> reads_back v"
  unfolding reads_back_def by (metis less_nat_zero_code not0_implies_Suc)

lemma reads_back_plain: "json_plain v \<Longrightarrow> reads_back v"
proof (induction v)
  case (JNum t)
  then obtain c cs where t: "t = c # cs" "is_digit c \<or> c = CHR ''-''" by (auto simp: num_ok_def neq_Nil_conv)
  show ?case
  proof (rule reads_backI)
    fix f r assume "tail_ok r"
    then have "lex_num (c # cs @ r) = Some (t, r)" using JNum t by (auto simp: num_ok_def)
    moreover have "c \<notin> {CHR ''{'', CHR ''['', CHR 0x22, CHR ''t'', CHR ''f'', CHR ''n''}" "\<not> is_ws c"
      using t(2) by (auto simp: is_digit_def is_ws_def)
    ultimately show "jvalue (Suc f) (json_print (JNum t) @ r) = Some (JNum t, r)"
      using t(1) by (simp add: skip_ws_def)
  qed
next
  case (JStr t)
  then show ?case using str_body_quote_body[of t] by (intro reads_backI) (simp add: quote_def skip_ws_def is_ws_def)
next
  case (JArr vs)
  show ?case
  proof (rule reads_backI)
    fix f r assume *: "2 * length (json_print (JArr vs)) < Suc f"
    show "jvalue (Suc f) (json_print (JArr vs) @ r) = Some (JArr vs, r)"
    proof (cases vs)
      case (Cons w ws)
      obtain c cs where c: "json_print w = c # cs" "\<not> is_ws c" "c \<noteq> CHR '']''" using first_char[of w] JArr.prems Cons by auto
      have "jelems f (join '','' (map json_print vs) @ CHR '']'' # r) = Some (vs, r)"
        using JArr * Cons by (intro jelems_print) (auto simp del: join.simps)
      then show ?thesis using Cons c by (simp add: join_first skip_ws_def is_ws_def del: join.simps)
    qed (simp add: skip_ws_def is_ws_def)
  qed
next
  case (JObj ms)
  show ?case
  proof (rule reads_backI)
    fix f r assume *: "2 * length (json_print (JObj ms)) < Suc f"
    show "jvalue (Suc f) (json_print (JObj ms) @ r) = Some (JObj ms, r)"
    proof (cases ms)
      case (Cons m ms')
      have rb: "\<forall>(k, v)\<in>set ms. ascii k \<and> reads_back v" using JObj by (fastforce simp: snds.simps)
      have "jmembers f (join '','' (map member_print ms) @ CHR ''}'' # r) = Some (ms, r)"
        using * rb Cons by (intro jmembers_print) (simp_all add: json_print_JObj del: join.simps json_print.simps)
      then show ?thesis
        unfolding json_print_JObj using Cons
        by (simp add: join_first member_print_def quote_def skip_ws_def is_ws_def del: join.simps)
    qed (simp add: skip_ws_def is_ws_def)
  qed
next
  case (JBool b)
  show ?case by (rule reads_backI) (simp add: skip_ws_def is_ws_def lex_word_def HasPrefix_def)
next
  case JNull
  show ?case by (rule reads_backI) (simp add: skip_ws_def is_ws_def lex_word_def HasPrefix_def)
qed

text \<open>Printing and parsing a document of ASCII strings gives it back.\<close>

lemma json_document_print: "json_plain v \<Longrightarrow> json_document (json_print v) = Some v"
proof -
  assume "json_plain v"
  then have "jvalue (2 * length (json_print v) + 1) (json_print v @ []) = Some (v, [])"
    by (intro reads_back_plain[unfolded reads_back_def, rule_format]) (simp_all add: tail_ok_def)
  then show ?thesis unfolding json_document_def by (simp add: skip_ws_def del: jvalue.simps One_nat_def add_Suc_right)
qed

end
