(* ===== verification/Record_Codec.thy ===== *)
theory Record_Codec
  imports Discovery Gojson
begin

text \<open>
  The strict JSON boundary (\<^verbatim>\<open>DecodeJSON\<close> in \<^verbatim>\<open>internal/validation/validation.go\<close>) and the text form
  of a discovery record (\<^verbatim>\<open>Encode\<close> and \<^verbatim>\<open>Decode\<close> in \<^verbatim>\<open>internal/discovery/record.go\<close>). The token
  loop of the check is written on the parsed document: the tokens of a well-formed text are those of
  its tree. Texts that are not well-formed JSON are all refused with one error here, where the code
  names the token it stumbles on.
\<close>

section \<open>The strict check\<close>

text \<open>A number token is converted to a 64-bit float; the conversion fails when the value rounds beyond
  the largest one.\<close>

definition exp_val :: "string \<Rightarrow> int" where
  "exp_val s = (case s of
      [] \<Rightarrow> 0
    | _ # r \<Rightarrow>
        (case r of
           g # ds \<Rightarrow>
             if g = CHR ''-'' then - int (the (digits_val ds 0))
             else if g = CHR ''+'' then int (the (digits_val ds 0))
             else int (the (digits_val r 0))
         | [] \<Rightarrow> 0))"

definition float_ok :: "string \<Rightarrow> bool" where
  "float_ok t =
     (let s = (if t \<noteq> [] \<and> hd t = CHR ''-'' then tl t else t);
          (i, r) = digits s;
          (f, r') = (case r of c # x \<Rightarrow> if c = CHR ''.'' then digits x else ([], r) | [] \<Rightarrow> ([], []));
          m = the (digits_val (i @ f) 0);
          e = exp_val r' - int (length f);
          limit = 2 ^ 1024 - 2 ^ 970 :: nat
      in if m = 0 then True else if 0 \<le> e then m * 10 ^ nat e < limit else m < limit * 10 ^ nat (- e))"

fun check_json :: "unicode \<Rightarrow> nat \<Rightarrow> json \<Rightarrow> unit res"
  and check_members :: "unicode \<Rightarrow> nat \<Rightarrow> string set \<Rightarrow> (string \<times> json) list \<Rightarrow> unit res"
  and check_elems :: "unicode \<Rightarrow> nat \<Rightarrow> json list \<Rightarrow> unit res" where
  "check_json u depth v =
     (if 16 < depth then Err (ErrNew ''configuration nesting too deep'')
      else case v of
        JNull \<Rightarrow> Err (ErrNew ''invalid JSON value'')
      | JNum t \<Rightarrow> if float_ok t then Ok () else Err (ErrNew ''invalid JSON value'')
      | JObj ms \<Rightarrow> check_members u depth {} ms
      | JArr vs \<Rightarrow> check_elems u depth vs
      | _ \<Rightarrow> Ok ())"
| "check_members u depth seen [] = Ok ()"
| "check_members u depth seen ((k, v) # ms) =
     (let name = ToLower u k in
      if name \<in> seen then Err (ErrNew ''duplicate or invalid JSON field'')
      else bind_res (check_json u (depth + 1) v) (\<lambda>_. check_members u depth (insert name seen) ms))"
| "check_elems u depth [] = Ok ()"
| "check_elems u depth (v # vs) = bind_res (check_json u (depth + 1) v) (\<lambda>_. check_elems u depth vs)"

declare check_json.simps [simp del]

text \<open>\<open>decode\<close> is the typed second pass into the caller's variable.\<close>

definition DecodeJSON :: "unicode \<Rightarrow> (json \<Rightarrow> 'a res) \<Rightarrow> string \<Rightarrow> 'a res" where
  "DecodeJSON u decode raw =
     (if raw = [] \<or> MaxConfigBytes < length raw then Err (ErrNew ''configuration size outside bounds'')
      else case json_document raw of
        None \<Rightarrow> Err (ErrNew ''invalid JSON value'')
      | Some v \<Rightarrow>
          bind_res (check_json u 0 v) (\<lambda>_.
          replace_err (decode v) (ErrNew ''configuration schema mismatch'')))"

section \<open>Decoding into structs\<close>

text \<open>A member belongs to the field of exactly its name, or else to the one that folds to the same
  name. Unknown members and values of the wrong type are errors.\<close>

definition struct_field :: "unicode \<Rightarrow> string list \<Rightarrow> string \<Rightarrow> string option" where
  "struct_field u names k =
     (if k \<in> set names then Some k else find (\<lambda>n. foldName u n = foldName u k) names)"

definition err_schema :: error where "err_schema = ErrNew ''json: cannot unmarshal''"

fun decode_struct :: "unicode \<Rightarrow> string list \<Rightarrow> (string \<Rightarrow> json \<Rightarrow> 'r \<Rightarrow> 'r res) \<Rightarrow> (string \<times> json) list \<Rightarrow> 'r \<Rightarrow> 'r res" where
  "decode_struct u names set_field [] r = Ok r"
| "decode_struct u names set_field ((k, v) # ms) r =
     (case struct_field u names k of
        None \<Rightarrow> Err err_schema
      | Some n \<Rightarrow> bind_res (set_field n v r) (decode_struct u names set_field ms))"

definition json_string :: "json \<Rightarrow> string res" where
  "json_string v = (case v of JStr s \<Rightarrow> Ok s | _ \<Rightarrow> Err err_schema)"

definition json_int :: "json \<Rightarrow> int res" where
  "json_int v = (case v of JNum t \<Rightarrow> replace_err (Atoi t) err_schema | _ \<Rightarrow> Err err_schema)"

definition set_Record :: "string \<Rightarrow> json \<Rightarrow> Record \<Rightarrow> Record res" where
  "set_Record n v r =
     (if n = ''version'' then bind_res (json_int v) (\<lambda>i. Ok (r\<lparr>Version := i\<rparr>))
      else if n = ''ipv4'' then bind_res (json_string v) (\<lambda>s. Ok (r\<lparr>IPv4 := s\<rparr>))
      else bind_res (json_string v) (\<lambda>s. Ok (r\<lparr>IPv6 := s\<rparr>)))"

definition decode_Record :: "unicode \<Rightarrow> json \<Rightarrow> Record res" where
  "decode_Record u v = (case v of
      JObj ms \<Rightarrow> decode_struct u [''version'', ''ipv4'', ''ipv6''] set_Record ms \<lparr>Version = 0, IPv4 = [], IPv6 = []\<rparr>
    | _ \<Rightarrow> Err err_schema)"

section \<open>Records (record.go)\<close>

definition record_json :: "Record \<Rightarrow> json" where
  "record_json r = JObj ([(''version'', JNum (Itoa (Version r)))]
     @ (if IPv4 r = [] then [] else [(''ipv4'', JStr (IPv4 r))])
     @ (if IPv6 r = [] then [] else [(''ipv6'', JStr (IPv6 r))]))"

definition Encode :: "nat list \<Rightarrow> Record \<Rightarrow> string res" where
  "Encode order r0 =
     (let r = r0\<lparr>Version := 2\<rparr> in
      bind_res (validate order r) (\<lambda>_. Ok (json_print (record_json r))))"

definition Decode :: "unicode \<Rightarrow> nat list \<Rightarrow> string \<Rightarrow> Record res" where
  "Decode u order raw =
     (if MaxRecordBytes < length raw then Err (ErrNew ''discovery record too large'')
      else bind_res (replace_err (DecodeJSON u (decode_Record u) raw) (ErrNew ''invalid discovery schema'')) (\<lambda>r.
        bind_res (validate order r) (\<lambda>_. Ok r)))"

section \<open>Decoding never panics\<close>

lemma check_json_ne_Panic:
  "check_json u d v \<noteq> Panic" "check_members u d seen ms \<noteq> Panic" "check_elems u d vs \<noteq> Panic"
proof (induction u d v and u d seen ms and u d vs rule: check_json_check_members_check_elems.induct)
  case (1 u d v)
  then show ?case by (cases v) (auto simp: check_json.simps)
qed (auto simp: bind_res_eq_Panic Let_def)

lemma decode_struct_ne_Panic:
  "(\<And>n v r. set_field n v r \<noteq> Panic) \<Longrightarrow> decode_struct u names set_field ms r \<noteq> Panic"
  by (induction ms arbitrary: r) (auto simp: bind_res_eq_Panic split: option.splits)

lemma validate_ne_Panic [simp]: "validate order r \<noteq> Panic"
proof -
  have "validate_loop r ks \<noteq> Panic" for ks
    by (induction ks) (auto split: option.splits)
  then show ?thesis by (simp add: validate_def)
qed

lemma Decode_ne_Panic [simp]: "Decode u order raw \<noteq> Panic"
proof -
  have "set_Record n v r \<noteq> Panic" for n v r
    by (cases v) (auto simp: set_Record_def json_string_def json_int_def bind_res_eq_Panic)
  then have "decode_Record u v \<noteq> Panic" for v
    using decode_struct_ne_Panic[of set_Record] by (cases v) (auto simp: decode_Record_def)
  then have "DecodeJSON u (decode_Record u) raw \<noteq> Panic"
    by (auto simp: DecodeJSON_def bind_res_eq_Panic check_json_ne_Panic split: option.splits)
  then show ?thesis by (auto simp: Decode_def bind_res_eq_Panic)
qed

section \<open>Lemmas\<close>

lemma runes_ascii: "ascii s \<Longrightarrow> runes s = map of_char s"
  by (induction s) (auto simp: ascii_def utf8_rune_def Let_def)

definition lower_ascii :: "char \<Rightarrow> char" where
  "lower_ascii c = (if 65 \<le> code c \<and> code c \<le> 90 then char_of (code c + 32) else c)"

lemma ToLower_ascii: "ascii s \<Longrightarrow> ToLower u s = map lower_ascii s"
proof -
  assume a: "ascii s"
  have "utf8_encode (lower_rune u (code c)) = [lower_ascii c]" if "c \<in> set s" for c
    using a that by (auto simp: ascii_def lower_rune_def lower_ascii_def utf8_encode_def)
  then have m: "map (\<lambda>c. utf8_encode (lower_rune u (code c))) s = map (\<lambda>c. [lower_ascii c]) s"
    by (intro map_cong) auto
  have "concat (map (\<lambda>c. [lower_ascii c]) s) = map lower_ascii s" by (induction s) auto
  then show ?thesis unfolding ToLower_def runes_ascii[OF a] map_map comp_def m .
qed

text \<open>An accepted endpoint consists of hexadecimal digits, colons, dots and brackets.\<close>

definition ep_char :: "char \<Rightarrow> bool" where
  "ep_char c \<longleftrightarrow> hex_val c \<noteq> None \<or> c \<in> {CHR '':'', CHR ''.'', CHR ''['', CHR '']''}"

definition ep_text :: "string \<Rightarrow> bool" where "ep_text s \<longleftrightarrow> (\<forall>c\<in>set s. ep_char c)"

lemma ep_text_simps [simp]: "ep_text []" "ep_text (c # s) \<longleftrightarrow> ep_char c \<and> ep_text s" "ep_text (s @ t) \<longleftrightarrow> ep_text s \<and> ep_text t"
  by (auto simp: ep_text_def)

lemma ep_char_punct [simp]: "ep_char (CHR '':'')" "ep_char (CHR ''.'')" "ep_char (CHR ''['')" "ep_char (CHR '']'')"
  by (simp_all add: ep_char_def)

lemma ep_char_plain:
  assumes "ep_char c"
  shows "code c < 0x80" "quote_ascii c = [c]"
proof -
  have n: "48 \<le> code c \<and> code c \<le> 58 \<or> 65 \<le> code c \<and> code c \<le> 70 \<or> 97 \<le> code c \<and> code c \<le> 102 \<or>
      code c = 46 \<or> code c = 91 \<or> code c = 93"
    using assms by (auto simp: ep_char_def hex_val_def Let_def split: if_splits)
  then show "code c < 0x80" by linarith
  have "c \<noteq> CHR 0x22" "c \<noteq> CHR 0x5C" "c \<noteq> CHR 0x08" "c \<noteq> CHR 0x0C" "c \<noteq> CHR 0x0A" "c \<noteq> CHR 0x0D" "c \<noteq> CHR 0x09"
    "c \<noteq> CHR ''<''" "c \<noteq> CHR ''>''" "c \<noteq> CHR ''&''" "\<not> code c < 0x20"
    using n by (rule_tac notI, simp)+
  then show "quote_ascii c = [c]" unfolding quote_ascii_def by simp
qed

lemma ep_text_ascii: "ep_text s \<Longrightarrow> ascii s"
  by (auto simp: ep_text_def ascii_def ep_char_plain)

lemma ep_text_quote: "ep_text s \<Longrightarrow> quote_body s = s"
  by (induction s) (auto simp: ep_char_plain)

lemma digit_val_ep_text: "digit_val c = Some d \<Longrightarrow> ep_char c"
  by (auto simp: ep_char_def hex_val_def digit_val_def Let_def split: if_splits)

lemma hex_val_ep_text: "hex_val c = Some d \<Longrightarrow> ep_char c"
  by (simp add: ep_char_def)

lemma digits_val_ep_text: "digits_val s n = Some m \<Longrightarrow> ep_text s"
  by (induction s arbitrary: n) (auto simp: ep_text_def split: option.splits dest: digit_val_ep_text)

lemma parseIPv4_loop_ep_text: "parseIPv4_loop s prev v n fs = Ok x \<Longrightarrow> ep_text s"
  by (induction s prev v n fs rule: parseIPv4_loop.induct)
    (auto simp: ep_text_def split: option.splits if_splits dest: digit_val_ep_text)

lemma parseIPv4_ep_text: "parseIPv4 s = Ok a \<Longrightarrow> ep_text s"
  by (auto simp: parseIPv4_def parseIPv4Fields_def dest: parseIPv4_loop_ep_text)

lemma scan_hex_ep_text: "scan_hex s n acc = Ok (off, v, rest) \<Longrightarrow> ep_text rest \<Longrightarrow> ep_text s"
  by (induction s n acc rule: scan_hex.induct) (auto simp: ep_text_def split: option.splits if_splits dest: hex_val_ep_text)

lemma parseIPv6_loop_ep_text: "parseIPv6_loop s ip ell = Ok (r, ip', ell') \<Longrightarrow> ep_text r \<Longrightarrow> ep_text s"
proof (induction s ip ell rule: parseIPv6_loop.induct)
  case (1 s ip ell)
  show ?case
  proof (cases "16 \<le> length ip")
    case True
    then show ?thesis using 1(3,4) by (simp add: parseIPv6_loop.simps[of s])
  next
    case False
    obtain off acc rest where sc: "scan_hex s 0 0 = Ok (off, acc, rest)"
      using 1(3) False by (auto simp: parseIPv6_loop.simps[of s])
    show ?thesis
    proof (cases "rest \<noteq> [] \<and> hd rest = CHR ''.''")
      case True
      then show ?thesis using 1(3) False sc
        by (auto simp: parseIPv6_loop.simps[of s] parseIPv4Fields_def split: if_splits dest: parseIPv4_loop_ep_text)
    next
      case F: False
      have "ep_text rest"
        using 1 False sc F by (auto simp: parseIPv6_loop.simps[of s] Let_def split: if_splits list.splits)
      then show ?thesis by (rule scan_hex_ep_text[OF sc])
    qed
  qed
qed

lemma parseIPv6_ep_text: "parseIPv6 s = Ok a \<Longrightarrow> Zone a = [] \<Longrightarrow> ep_text s"
proof -
  assume *: "parseIPv6 s = Ok a" "Zone a = []"
  have c: "cut (CHR ''%'') s = None"
    using * by (auto simp: parseIPv6_def Let_def split: option.splits prod.splits if_splits)
  show "ep_text s"
  proof (cases "take 2 s = ''::''")
    case True
    then have s: "s = CHR '':'' # CHR '':'' # drop 2 s" by (metis append_Cons append_Nil append_take_drop_id)
    have "ep_text (drop 2 s)"
      using * c True by (auto simp: parseIPv6_def Let_def split: if_splits dest: parseIPv6_loop_ep_text)
    then have "ep_text (CHR '':'' # CHR '':'' # drop 2 s)" by simp
    then show ?thesis using s by metis
  next
    case False
    then show ?thesis using * c by (auto simp: parseIPv6_def Let_def split: if_splits dest: parseIPv6_loop_ep_text)
  qed
qed

lemma ParseAddr_ep_text: "ParseAddr s = Ok a \<Longrightarrow> Zone a = [] \<Longrightarrow> ep_text s"
proof -
  have "ParseAddr_scan s cs = Ok a \<Longrightarrow> Zone a = [] \<Longrightarrow> ep_text s" for cs
    by (induction cs) (auto split: if_splits dest: parseIPv4_ep_text parseIPv6_ep_text)
  then show "ParseAddr s = Ok a \<Longrightarrow> Zone a = [] \<Longrightarrow> ep_text s" by (simp add: ParseAddr_def)
qed

lemma split_last_eq: "split_last c s = Some (a, b) \<Longrightarrow> s = a @ c # b"
  by (induction s arbitrary: a b) (auto split: option.splits if_splits)

lemma splitAddrPort_ep_text: "splitAddrPort s = Ok (ip, port, v6) \<Longrightarrow> ep_text ip \<Longrightarrow> ep_text port \<Longrightarrow> ep_text s"
proof -
  assume *: "splitAddrPort s = Ok (ip, port, v6)" "ep_text ip" "ep_text port"
  obtain a where sp: "split_last (CHR '':'') s = Some (a, port)" "a \<noteq> []"
    using *(1) by (auto simp: splitAddrPort_def split: option.splits if_splits)
  have "ep_text a"
  proof (cases "hd a = CHR ''[''")
    case True
    then have "2 \<le> length a" "last a = CHR '']''" "ip = butlast (tl a)"
      using *(1) sp by (auto simp: splitAddrPort_def split: if_splits)
    then have "a = CHR ''['' # ip @ [CHR '']'']"
      using True by (cases a) (auto, metis append_butlast_last_id last.simps list.size(3) not_less_eq_eq zero_le)
    then show ?thesis using *(2) by simp
  next
    case False
    then show ?thesis using *(1,2) sp by (auto simp: splitAddrPort_def split: if_splits)
  qed
  then show ?thesis using *(3) split_last_eq[OF sp(1)] by simp
qed

lemma Endpoint_ep_text: "Endpoint text = Ok ep \<Longrightarrow> ep_text text \<and> length text \<le> 256"
  by (auto simp: Endpoint_eq_Ok ParseAddrPort_def ParseUint10_def split: if_splits option.splits
      dest!: ParseAddr_ep_text digits_val_ep_text intro: splitAddrPort_ep_text)

lemma validate_text:
  assumes "validate order r = Ok ()" "set order = {4, 6}"
  shows "Version r = 2" "ep_text (IPv4 r)" "ep_text (IPv6 r)" "length (IPv4 r) \<le> 256" "length (IPv6 r) \<le> 256"
    "IPv4 r \<noteq> [] \<or> IPv6 r \<noteq> []"
proof -
  have fam: "raw = [] \<or> family_ok f raw" if "validate_loop r fs = Ok ()" "f \<in> set fs" "family_text r f = Some raw" for f fs raw
    using that by (induction fs) (auto split: option.splits if_splits)
  have v: "Version r = 2" "IPv4 r \<noteq> [] \<or> IPv6 r \<noteq> []" "validate_loop r order = Ok ()"
    using assms(1) by (auto simp: validate_def split: if_splits)
  have ep: "ep_text raw \<and> length raw \<le> 256" if "raw = [] \<or> family_ok f raw" for f raw
    using that by (auto simp: family_ok_def split: res.splits dest: Endpoint_ep_text)
  show "Version r = 2" "IPv4 r \<noteq> [] \<or> IPv6 r \<noteq> []" by (fact v)+
  show "ep_text (IPv4 r)" "length (IPv4 r) \<le> 256" using ep[OF fam[OF v(3), of 4 "IPv4 r"]] assms(2) by (auto simp: family_text_def)
  show "ep_text (IPv6 r)" "length (IPv6 r) \<le> 256" using ep[OF fam[OF v(3), of 6 "IPv6 r"]] assms(2) by (auto simp: family_text_def)
qed

text \<open>The shape that the check enforces, node by node.\<close>

inductive json_at :: "json \<Rightarrow> nat \<Rightarrow> json \<Rightarrow> bool" where
  at_root: "json_at v 0 v"
| at_elem: "json_at v d (JArr vs) \<Longrightarrow> w \<in> set vs \<Longrightarrow> json_at v (Suc d) w"
| at_member: "json_at v d (JObj ms) \<Longrightarrow> (k, w) \<in> set ms \<Longrightarrow> json_at v (Suc d) w"

definition shape_ok :: "unicode \<Rightarrow> json \<Rightarrow> bool" where
  "shape_ok u w = (case w of
      JNull \<Rightarrow> False
    | JNum t \<Rightarrow> float_ok t
    | JObj ms \<Rightarrow> distinct (map (\<lambda>m. ToLower u (fst m)) ms)
    | _ \<Rightarrow> True)"

fun children :: "json \<Rightarrow> json list" where
  "children (JArr vs) = vs"
| "children (JObj ms) = map snd ms"
| "children _ = []"

lemma check_elems_Ok: "check_elems u d vs = Ok () \<longleftrightarrow> (\<forall>v\<in>set vs. check_json u (Suc d) v = Ok ())"
  by (induction vs) (auto)

lemma check_members_Ok:
  "check_members u d seen ms = Ok () \<longleftrightarrow>
     (\<forall>m\<in>set ms. check_json u (Suc d) (snd m) = Ok ()) \<and> distinct (map (\<lambda>m. ToLower u (fst m)) ms) \<and>
     (\<lambda>m. ToLower u (fst m)) ` set ms \<inter> seen = {}"
proof (induction ms arbitrary: seen)
  case (Cons m ms)
  show ?case by (cases m) (auto simp add: Let_def Cons.IH)
qed simp

lemma check_json_Ok:
  "check_json u d v = Ok () \<longleftrightarrow> d \<le> 16 \<and> shape_ok u v \<and> (\<forall>w\<in>set (children v). check_json u (Suc d) w = Ok ())"
  by (subst check_json.simps) (auto simp: shape_ok_def check_elems_Ok check_members_Ok split: json.split)

lemma at_children: "json_at v d w \<longleftrightarrow> (d = 0 \<and> w = v) \<or> (\<exists>c\<in>set (children v). \<exists>e. d = Suc e \<and> json_at c e w)"
proof
  show "json_at v d w \<Longrightarrow> (d = 0 \<and> w = v) \<or> (\<exists>c\<in>set (children v). \<exists>e. d = Suc e \<and> json_at c e w)"
    by (induction rule: json_at.induct) (force intro: json_at.intros)+
next
  have "json_at c e w \<Longrightarrow> c \<in> set (children v) \<Longrightarrow> json_at v (Suc e) w" for c e
  proof (induction rule: json_at.induct)
    case (at_root c)
    then show ?case using json_at.at_root[of v] by (cases v) (auto intro: json_at.intros)
  qed (auto intro: json_at.intros)
  then show "(d = 0 \<and> w = v) \<or> (\<exists>c\<in>set (children v). \<exists>e. d = Suc e \<and> json_at c e w) \<Longrightarrow> json_at v d w"
    by (auto intro: json_at.intros)
qed

lemma at_split:
  "(\<forall>d w. json_at v d w \<longrightarrow> P d w) \<longleftrightarrow> P 0 v \<and> (\<forall>c\<in>set (children v). \<forall>e w. json_at c e w \<longrightarrow> P (Suc e) w)"
  unfolding at_children[of v] by blast

lemma check_json_step:
  assumes "\<And>c k. c \<in> set (children v) \<Longrightarrow> check_json u k c = Ok () \<longleftrightarrow> (\<forall>d w. json_at c d w \<longrightarrow> k + d \<le> 16 \<and> shape_ok u w)"
  shows "check_json u k v = Ok () \<longleftrightarrow> (\<forall>d w. json_at v d w \<longrightarrow> k + d \<le> 16 \<and> shape_ok u w)"
  by (subst at_split) (simp add: check_json_Ok[of u k v] assms)

lemma check_json_iff: "check_json u k v = Ok () \<longleftrightarrow> (\<forall>d w. json_at v d w \<longrightarrow> k + d \<le> 16 \<and> shape_ok u w)"
proof (induction v arbitrary: k)
  case (JArr vs)
  show ?case by (rule check_json_step) (simp only: children.simps, rule JArr.IH)
next
  case (JObj ms)
  show ?case
  proof (rule check_json_step)
    fix c k assume "c \<in> set (children (JObj ms))"
    then obtain n where n: "(n, c) \<in> set ms" by auto
    show "check_json u k c = Ok () \<longleftrightarrow> (\<forall>d w. json_at c d w \<longrightarrow> k + d \<le> 16 \<and> shape_ok u w)"
      by (rule JObj.IH[OF n]) simp
  qed
next
  case JNull
  show ?case by (rule check_json_step) simp
next
  case (JBool b)
  show ?case by (rule check_json_step) simp
next
  case (JNum t)
  show ?case by (rule check_json_step) simp
next
  case (JStr t)
  show ?case by (rule check_json_step) simp
qed

section \<open>Properties\<close>

text \<open>What the strict decoder accepts: a non-empty text of bounded size that is one JSON document, in
  which no value to any depth is null, no number exceeds the float range, nothing is nested deeper than
  sixteen levels and no object has two members whose names differ at most in case; the result is then
  the typed decoding of that document.\<close>

theorem DecodeJSON_iff:
  "DecodeJSON u decode raw = Ok x \<longleftrightarrow>
     raw \<noteq> [] \<and> length raw \<le> MaxConfigBytes \<and>
     (\<exists>v. json_document raw = Some v \<and> decode v = Ok x \<and>
        (\<forall>d w. json_at v d w \<longrightarrow> d \<le> 16 \<and> shape_ok u w))"
proof -
  have "check_json u 0 v = Ok () \<longleftrightarrow> (\<forall>d w. json_at v d w \<longrightarrow> d \<le> 16 \<and> shape_ok u w)" for v
    using check_json_iff[of u 0 v] by simp
  then show ?thesis
    by (auto simp: DecodeJSON_def split: option.splits res.splits)
qed

lemma num_ok_2: "num_ok ''2''"
proof -
  have "lex_num (''2'' @ r) = Some (''2'', r)" if "tail_ok r" for r
  proof -
    have d: "takeWhile is_digit (CHR ''2'' # r) = ''2''" "dropWhile is_digit (CHR ''2'' # r) = r"
      using that by (cases r; auto simp: tail_ok_def is_digit_def)+
    have "lex_frac r = Some ([], r)" "lex_exp r = Some ([], r)"
      using that by (cases r; auto simp: tail_ok_def lex_frac_def lex_exp_def)+
    moreover have "lex_int (CHR ''2'' # r) = Some (''2'', r)"
      using d by (simp add: lex_int_def digits_def) (simp add: is_digit_def)
    ultimately show ?thesis by (simp add: lex_num_def)
  qed
  then show ?thesis by (simp add: num_ok_def is_digit_def)
qed

lemma Itoa_2: "Itoa 2 = ''2''" by code_simp

lemma float_ok_digit: "float_ok ''1''" "float_ok ''2''"
proof -
  have "digits ''1'' = (''1'', [])" "digits ''2'' = (''2'', [])" "digits_val ''1'' 0 = Some 1" "digits_val ''2'' 0 = Some 2"
    by code_simp+
  moreover have "(2::nat) < 2 ^ 1024 - 2 ^ 970" by simp
  ultimately show "float_ok ''1''" "float_ok ''2''" by (simp_all add: float_ok_def exp_val_def del: power_numeral)
qed

lemma ascii_names: "ascii ''version''" "ascii ''ipv4''" "ascii ''ipv6''"
  by (simp_all add: ascii_def)

lemma record_json_plain:
  "Version r = 2 \<Longrightarrow> ep_text (IPv4 r) \<Longrightarrow> ep_text (IPv6 r) \<Longrightarrow> json_plain (record_json r)"
  by (simp add: record_json_def Itoa_2 num_ok_2 ep_text_ascii ascii_names)

lemma check_record_json: "Version r = 2 \<Longrightarrow> check_json u 0 (record_json r) = Ok ()"
proof -
  have "map lower_ascii ''version'' = ''version''" "map lower_ascii ''ipv4'' = ''ipv4''" "map lower_ascii ''ipv6'' = ''ipv6''"
    by code_simp+
  then have "ToLower u ''version'' = ''version''" "ToLower u ''ipv4'' = ''ipv4''" "ToLower u ''ipv6'' = ''ipv6''"
    by (simp_all only: ToLower_ascii ascii_names)
  then show "Version r = 2 \<Longrightarrow> check_json u 0 (record_json r) = Ok ()"
    by (simp add: record_json_def Itoa_2 float_ok_digit check_json.simps)
qed

lemma decode_record_json: "Version r = 2 \<Longrightarrow> decode_Record u (record_json r) = Ok r"
proof -
  have "Atoi ''2'' = Ok 2" by code_simp
  then show "Version r = 2 \<Longrightarrow> decode_Record u (record_json r) = Ok r"
    by (cases r) (auto simp: decode_Record_def record_json_def Itoa_2 struct_field_def set_Record_def json_int_def json_string_def)
qed

lemma length_record_json:
  assumes "Version r = 2" "ep_text (IPv4 r)" "ep_text (IPv6 r)" "length (IPv4 r) \<le> 256" "length (IPv6 r) \<le> 256"
  shows "length (json_print (record_json r)) \<le> MaxRecordBytes" "json_print (record_json r) \<noteq> []"
proof -
  have "length (quote ''version'') = 9" "length (quote ''ipv4'') = 6" "length (quote ''ipv6'') = 6" by code_simp+
  then show "length (json_print (record_json r)) \<le> MaxRecordBytes" "json_print (record_json r) \<noteq> []"
    using assms by (simp_all add: record_json_def Itoa_2 MaxRecordBytes_def ep_text_quote quote_def)
qed

lemma validate_loop_Ok:
  "validate_loop r fs = Ok () \<longleftrightarrow> (\<forall>f\<in>set fs. \<forall>raw. family_text r f = Some raw \<longrightarrow> raw = [] \<or> family_ok f raw)"
  by (induction fs) (auto split: option.splits)

lemma validate_order: "set o1 = set o2 \<Longrightarrow> validate o1 r = Ok () \<longleftrightarrow> validate o2 r = Ok ()"
  by (simp add: validate_def validate_loop_Ok)

lemma Decode_record_json:
  assumes "validate order r = Ok ()" "set order = {4, 6}" "set order' = {4, 6}"
  shows "Decode u order' (json_print (record_json r)) = Ok r"
proof -
  note v = validate_text[OF assms(1,2)]
  have "DecodeJSON u (decode_Record u) (json_print (record_json r)) = Ok r"
    using length_record_json[OF v(1-5)] json_document_print[OF record_json_plain[OF v(1-3)]] check_record_json[OF v(1), of u] decode_record_json[OF v(1), of u]
    by (simp add: DecodeJSON_def MaxConfigBytes_def MaxRecordBytes_def)
  moreover have "validate order' r = Ok ()" using validate_order[of order order' r] assms by simp
  ultimately show ?thesis using length_record_json(1)[OF v(1-5)] by (simp add: Decode_def)
qed

text \<open>C18. Publishing and reading a record agree: whatever record passes the encoder is read back by the
  decoder as the same record (with the version the encoder writes), in whatever order either side
  walks its families.\<close>

theorem Record_roundtrip:
  assumes "Encode order r = Ok text" "set order = {4, 6}" "set order' = {4, 6}"
  shows "Decode u order' text = Ok (r\<lparr>Version := 2\<rparr>)"
  using assms Decode_record_json[OF _ assms(2,3), of "r\<lparr>Version := 2\<rparr>" u]
  by (auto simp: Encode_def Let_def)

definition ex_record :: Record where
  "ex_record = \<lparr>Version = 0, IPv4 = ''8.8.8.8:51820'', IPv6 = ''[2001:4860::1]:51820''\<rparr>"

definition ex_unicode :: unicode where
  "ex_unicode = \<lparr>uc_lower = (\<lambda>r. r), uc_fold = (\<lambda>r. if r = 0x17F then 0x53 else r)\<rparr>"

theorem Record_roundtrip_witness:
  "\<exists>text. Encode [4, 6] ex_record = Ok text \<and> Decode ex_unicode [6, 4] text = Ok (ex_record\<lparr>Version := 2\<rparr>)"
proof -
  have e: "Encode [4, 6] ex_record = Ok (json_print (record_json (ex_record\<lparr>Version := 2\<rparr>)))" by code_simp
  show ?thesis using Record_roundtrip[OF e, of "[6, 4]" ex_unicode] e by auto
qed

text \<open>A decoded record is exactly what the validation admits: the text is at most 1024 bytes, the version
  is 2, there is at least one endpoint, and each endpoint present is a valid numeric endpoint of its
  family with a global-unicast address. Nothing else can come out of the decoder.\<close>

theorem Decode_sound:
  assumes "Decode u order raw = Ok r" "set order = {4, 6}"
  shows "length raw \<le> 1024 \<and> Version r = 2 \<and> (IPv4 r \<noteq> [] \<or> IPv6 r \<noteq> []) \<and>
    (IPv4 r \<noteq> [] \<longrightarrow> (\<exists>ep. Endpoint (IPv4 r) = Ok ep \<and> Is4 (ap_addr ep) \<and> IsGlobalUnicast (ap_addr ep))) \<and>
    (IPv6 r \<noteq> [] \<longrightarrow> (\<exists>ep. Endpoint (IPv6 r) = Ok ep \<and> \<not> Is4 (ap_addr ep) \<and> IsGlobalUnicast (ap_addr ep)))"
proof -
  have v: "validate order r = Ok ()" and len: "length raw \<le> 1024"
    using assms(1) by (auto simp: Decode_def MaxRecordBytes_def split: if_splits)
  have fam: "raw' = [] \<or> family_ok f raw'" if "f \<in> {4, 6}" "family_text r f = Some raw'" for f raw'
    using v that assms(2) by (auto simp: validate_def validate_loop_Ok split: if_splits)
  have "IPv4 r = [] \<or> family_ok 4 (IPv4 r)" "IPv6 r = [] \<or> family_ok 6 (IPv6 r)"
    using fam[of 4 "IPv4 r"] fam[of 6 "IPv6 r"] by (simp_all add: family_text_def)
  then show ?thesis
    using validate_text(1,6)[OF v assms(2)] len by (auto simp: family_ok_def split: res.splits)
qed

theorem Decode_sound_witness:
  "Version (ex_record\<lparr>Version := 2\<rparr>) = 2 \<and> length (json_print (record_json (ex_record\<lparr>Version := 2\<rparr>))) \<le> 1024"
proof -
  have v: "validate [4, 6] (ex_record\<lparr>Version := 2\<rparr>) = Ok ()" by code_simp
  have d: "Decode ex_unicode [4, 6] (json_print (record_json (ex_record\<lparr>Version := 2\<rparr>))) = Ok (ex_record\<lparr>Version := 2\<rparr>)"
    by (rule Decode_record_json[OF v]) auto
  have "set [4, 6] = {4, 6 :: nat}" by simp
  from Decode_sound[OF d this] show ?thesis by blast
qed

definition long_s_record :: json where
  "long_s_record = JObj [(''version'', JNum ''1''), (''ver'' @ [CHR 0xC5, CHR 0xBF] @ ''ion'', JNum ''2''), (''ipv4'', JStr ''8.8.8.8:80'')]"

text \<open>The duplicate check and the struct decoder disagree about names: with the Unicode data's long s,
  which is its own lower case but folds to S, a document can hold two members that both set the version.
  It passes the check for duplicates, and the second member wins.\<close>

theorem duplicate_by_folding:
  assumes "uc_lower u 0x17F = 0x17F" "uc_fold u 0x17F = 0x53"
  shows "Decode u [4, 6] (json_print long_s_record) = Ok \<lparr>Version = 2, IPv4 = ''8.8.8.8:80'', IPv6 = []\<rparr>"
proof -
  let ?long = "''ver'' @ [CHR 0xC5, CHR 0xBF] @ ''ion''"
  have doc: "json_document (json_print long_s_record) = Some long_s_record"
    and len: "length (json_print long_s_record) \<le> 100 \<and> json_print long_s_record \<noteq> []"
    and val: "validate [4, 6] \<lparr>Version = 2, IPv4 = ''8.8.8.8:80'', IPv6 = []\<rparr> = Ok ()"
    by code_simp+
  have runes_long: "runes ?long = [118, 101, 114, 0x17F, 105, 111, 110]"
    and runes_names: "runes ''version'' = [118, 101, 114, 115, 105, 111, 110]" "runes ''ipv4'' = [105, 112, 118, 52]"
      "runes ''ipv6'' = [105, 112, 118, 54]"
    by code_simp+
  have lower: "ToLower u ?long = ?long" "ToLower u ''version'' = ''version''" "ToLower u ''ipv4'' = ''ipv4''"
    unfolding ToLower_def runes_long runes_names using assms(1) by (simp_all add: lower_rune_def utf8_encode_def char_of_def bit_0)
  have fold_eq: "foldName u ?long = foldName u ''version''"
    unfolding foldName_def runes_long runes_names using assms(2) by (simp add: fold_rune_def)
  have float: "float_ok ''1''" "float_ok ''2''" using float_ok_digit by simp_all
  have check: "check_json u 0 long_s_record = Ok ()"
    unfolding long_s_record_def using lower float by (simp add: check_json.simps)
  have "Atoi ''1'' = Ok 1" "Atoi ''2'' = Ok 2" by code_simp+
  then have "decode_Record u long_s_record = Ok \<lparr>Version = 2, IPv4 = ''8.8.8.8:80'', IPv6 = []\<rparr>"
    unfolding long_s_record_def decode_Record_def using fold_eq
    by (simp add: struct_field_def set_Record_def json_int_def json_string_def)
  then show ?thesis
    using doc len val check by (simp add: Decode_def DecodeJSON_def MaxRecordBytes_def MaxConfigBytes_def)
qed

theorem duplicate_by_folding_witness:
  "Decode ex_unicode [4, 6] (json_print long_s_record) = Ok \<lparr>Version = 2, IPv4 = ''8.8.8.8:80'', IPv6 = []\<rparr>"
  using duplicate_by_folding[of ex_unicode] by (simp add: ex_unicode_def)

end
