(* ===== verification/Opendht.thy ===== *)
theory Opendht
  imports Config Record_Codec "HOL-Library.List_Lexorder"
begin

text \<open>
  The endpoint store (\<^verbatim>\<open>internal/plugin/builtin/config.go\<close>, \<^verbatim>\<open>internal/plugin/builtin/opendht/opendht.go\<close>)
  and the plugin manager (\<^verbatim>\<open>internal/plugin/manager.go\<close>): typed access to a plugin's configuration, the
  construction of the store, the reading of untrusted proxy answers, lookups and publications. URL
  parsing, duration parsing and the HTTP exchange are arguments.
\<close>

section \<open>Typed configuration access (builtin/config.go)\<close>

type_synonym plugin_config = "(string \<times> yvalue) list"

definition GetString :: "plugin_config \<Rightarrow> string \<Rightarrow> string \<times> bool" where
  "GetString c key = (case map_of c key of
      None \<Rightarrow> ([], False)
    | Some v \<Rightarrow> (case v of YString s \<Rightarrow> (s, True) | _ \<Rightarrow> ([], False)))"

definition GetStringRequired :: "plugin_config \<Rightarrow> string \<Rightarrow> string res" where
  "GetStringRequired c key =
     (case GetString c key of (s, ok) \<Rightarrow> if ok then Ok s else Err (ErrNew (key @ '' is required'')))"

fun string_items :: "yvalue list \<Rightarrow> string list option" where
  "string_items [] = Some []"
| "string_items (v # vs) =
     (case v of YString s \<Rightarrow> map_option (\<lambda>r. s # r) (string_items vs) | _ \<Rightarrow> None)"

definition GetStringSlice :: "plugin_config \<Rightarrow> string \<Rightarrow> string list res" where
  "GetStringSlice c key = (case map_of c key of
      None \<Rightarrow> Ok []
    | Some v \<Rightarrow>
        (case v of
           YStrings l \<Rightarrow> Ok l
         | YList vs \<Rightarrow> (case string_items vs of Some l \<Rightarrow> Ok l | None \<Rightarrow> Err (ErrNew (key @ '' must be a list of strings'')))
         | _ \<Rightarrow> Err (ErrNew (key @ '' must be a list of strings''))))"

text \<open>The multiplication of a number of seconds wraps at 64 bits.\<close>

definition wrap64 :: "int \<Rightarrow> int" where
  "wrap64 i = (i + 2 ^ 63) mod 2 ^ 64 - 2 ^ 63"

definition GetDuration :: "(string \<Rightarrow> duration res) \<Rightarrow> plugin_config \<Rightarrow> string \<Rightarrow> (duration \<times> bool) res" where
  "GetDuration parseDuration c key = (case map_of c key of
      None \<Rightarrow> Ok (0, False)
    | Some v \<Rightarrow>
        (case v of
           YString s \<Rightarrow>
             (case parseDuration s of
                Ok d \<Rightarrow> Ok (d, True)
              | Err e \<Rightarrow> Err (ErrWrap (key @ '' is not a valid duration'') [e])
              | Panic \<Rightarrow> Panic)
         | YInt i \<Rightarrow> Ok (wrap64 (i * second), True)
         | YFloat d \<Rightarrow> Ok (d, True)
         | _ \<Rightarrow> Err (ErrNew (key @ '' must be a duration or a number of seconds''))))"

section \<open>Constructing the store\<close>

definition MaxResponseBytes :: nat where "MaxResponseBytes = 256 * 1024"
definition MaxRecords :: nat where "MaxRecords = 64"
definition MaxCandidates :: nat where "MaxCandidates = 4"
definition defaultTimeout :: duration where "defaultTimeout = 10 * second"

definition keyPattern :: "string \<Rightarrow> bool" where
  "keyPattern key \<longleftrightarrow> length key = 40 \<and> list_all (\<lambda>c. c \<in> set ''0123456789abcdef'') key"

definition errUnavailable :: error where "errUnavailable = ErrNew ''OpenDHT has no usable hint''"

record OpenDHTPlugin =
  endpoints :: "string list"
  client_Timeout :: duration

record envelope =
  Magic :: string
  env_Data :: string

record url =
  u_Scheme :: string
  u_Host :: string
  u_Hostname :: string
  u_Port :: string
  u_User :: bool
  u_RawQuery :: string
  u_Fragment :: string
  u_RawPath :: string
  u_Path :: string
  u_String :: string

definition TrimSuffix :: "string \<Rightarrow> string \<Rightarrow> string" where
  "TrimSuffix s p = (if HasSuffix s p then take (length s - length p) s else s)"

definition normalizeEndpoint :: "(string \<Rightarrow> url res) \<Rightarrow> string \<Rightarrow> string res" where
  "normalizeEndpoint urlParse endpoint =
     (case urlParse endpoint of
        Panic \<Rightarrow> Panic
      | Err _ \<Rightarrow> Err (ErrNew ''OpenDHT endpoint must be an HTTPS origin without credentials, path, query or fragment'')
      | Ok u \<Rightarrow>
          if 1024 < length endpoint \<or> u_Scheme u \<noteq> ''https'' \<or> u_Hostname u = [] \<or> u_User u \<or> u_RawQuery u \<noteq> []
             \<or> u_Fragment u \<noteq> [] \<or> u_RawPath u \<noteq> [] \<or> (u_Path u \<noteq> [] \<and> u_Path u \<noteq> ''/'')
          then Err (ErrNew ''OpenDHT endpoint must be an HTTPS origin without credentials, path, query or fragment'')
          else if u_Port u \<noteq> [] \<and> \<not> is_Ok (Server (u_Host u)) then Err (ErrNew ''invalid OpenDHT endpoint port'')
          else Ok (TrimSuffix (u_String u) ''/''))"

fun normalize_all :: "(string \<Rightarrow> url res) \<Rightarrow> string set \<Rightarrow> string list \<Rightarrow> string list \<Rightarrow> string list res" where
  "normalize_all urlParse seen out [] = Ok out"
| "normalize_all urlParse seen out (s # ss) =
     bind_res (normalizeEndpoint urlParse s) (\<lambda>e.
     if e \<notin> seen then normalize_all urlParse (insert e seen) (out @ [e]) ss
     else normalize_all urlParse seen out ss)"

definition NewOpenDHTPlugin ::
  "(string \<Rightarrow> url res) \<Rightarrow> (string \<Rightarrow> duration res) \<Rightarrow> plugin_config \<Rightarrow> OpenDHTPlugin res" where
  "NewOpenDHTPlugin urlParse parseDuration config =
     bind_res (ValidateDefinition \<lparr>def_Type = ''builtin'', def_Config = config\<rparr>) (\<lambda>_.
     bind_res (replace_err (GetStringSlice config ''endpoints'') (ErrNew ''invalid OpenDHT endpoints'')) (\<lambda>list0.
     let single = fst (GetString config ''endpoint'');
         all = (if single \<noteq> [] then single # list0 else list0)
     in if all = [] \<or> 8 < length all then Err (ErrNew ''OpenDHT requires one to eight proxy endpoints'')
     else bind_res (normalize_all urlParse {} [] all) (\<lambda>eps.
     bind_res (replace_err (GetDuration parseDuration config ''timeout'') (ErrNew ''invalid OpenDHT timeout'')) (\<lambda>(t, ok).
     let timeout = (if ok then t else defaultTimeout) in
     if timeout < second \<or> 20 * second < timeout then Err (ErrNew ''OpenDHT timeout must be between 1s and 20s'')
     else Ok \<lparr>endpoints = eps, client_Timeout = timeout\<rparr>))))"

section \<open>Answers of a proxy\<close>

text \<open>\<open>do\<close> is the outcome of building and sending a request: the status and the body.\<close>

definition request :: "(string \<Rightarrow> string \<Rightarrow> string \<Rightarrow> (int \<times> string) res) \<Rightarrow> string \<Rightarrow> string \<Rightarrow> string \<Rightarrow> string \<Rightarrow> string res" where
  "request do endpoint meth key body =
     bind_res (replace_err (do meth (endpoint @ ''/key/'' @ key) body) errUnavailable) (\<lambda>(status, resp).
     if status < 200 \<or> 300 \<le> status then Err errUnavailable
     else
       let b = take (MaxResponseBytes + 1) resp in
       if MaxResponseBytes < length b then Err errUnavailable else Ok b)"

definition set_envelope :: "string \<Rightarrow> json \<Rightarrow> envelope \<Rightarrow> envelope res" where
  "set_envelope n v e =
     (if n = ''magic'' then bind_res (json_string v) (\<lambda>s. Ok (e\<lparr>Magic := s\<rparr>))
      else bind_res (json_string v) (\<lambda>s. Ok (e\<lparr>env_Data := s\<rparr>)))"

definition decode_envelope :: "unicode \<Rightarrow> json \<Rightarrow> envelope res" where
  "decode_envelope u v = (case v of
      JObj ms \<Rightarrow> decode_struct u [''magic'', ''data''] set_envelope ms \<lparr>Magic = [], env_Data = []\<rparr>
    | _ \<Rightarrow> Err err_schema)"

text \<open>A map from names to raw values keeps the last value of a name.\<close>

definition decode_map :: "json \<Rightarrow> (string \<rightharpoonup> json) res" where
  "decode_map v = (case v of JObj ms \<Rightarrow> Ok (map_of (rev ms)) | _ \<Rightarrow> Err err_schema)"

definition bytes_str :: "byte list \<Rightarrow> string" where
  "bytes_str bs = map (\<lambda>b. char_of (unat b)) bs"

definition line_record :: "unicode \<Rightarrow> nat list \<Rightarrow> string \<Rightarrow> string option" where
  "line_record u order line =
     (case DecodeJSON u decode_map line of
        Ok outer \<Rightarrow>
          (case outer ''data'' of
             Some (JStr encoded) \<Rightarrow>
               if 4096 < length encoded then None
               else (case b64_decode encoded of
                  Ok raw \<Rightarrow>
                    (case DecodeJSON u (decode_envelope u) (bytes_str raw) of
                       Ok e \<Rightarrow>
                         if Magic e \<noteq> Namespace then None
                         else (case Decode u order (env_Data e) of
                            Ok r \<Rightarrow> (case Encode order r of Ok c \<Rightarrow> Some c | _ \<Rightarrow> None)
                          | _ \<Rightarrow> None)
                     | _ \<Rightarrow> None)
                | _ \<Rightarrow> None)
           | _ \<Rightarrow> None)
      | _ \<Rightarrow> None)"

text \<open>The loop over the lines: \<open>None\<close> when there are too many records.\<close>

fun candidate_loop :: "unicode \<Rightarrow> nat list \<Rightarrow> nat \<Rightarrow> string set \<Rightarrow> string list \<Rightarrow> string set option" where
  "candidate_loop u order count found [] = Some found"
| "candidate_loop u order count found (line # lines) =
     (if TrimSpace line = [] then candidate_loop u order count found lines
      else if MaxRecords < count + 1 then None
      else candidate_loop u order (count + 1)
        (case line_record u order line of Some c \<Rightarrow> insert c found | None \<Rightarrow> found) lines)"

definition dht_candidates :: "unicode \<Rightarrow> nat list \<Rightarrow> string \<Rightarrow> string list" where
  "dht_candidates u order data =
     (if MaxResponseBytes < length data then []
      else case candidate_loop u order 0 {} (Split (CHR 0x0A) data) of
        None \<Rightarrow> []
      | Some found \<Rightarrow> take MaxCandidates (sorted_list_of_set found))"

section \<open>Lookups and publications\<close>

text \<open>\<open>expired\<close> tells whether the context has ended when the exchange with an endpoint is over.\<close>

fun get_loop :: "unicode \<Rightarrow> nat list \<Rightarrow> (string \<Rightarrow> string \<Rightarrow> string \<Rightarrow> (int \<times> string) res) \<Rightarrow> (string \<Rightarrow> bool) \<Rightarrow> string \<Rightarrow> string list \<Rightarrow> string list res" where
  "get_loop u order do expired key [] = Err errUnavailable"
| "get_loop u order do expired key (ep # eps) =
     (let next = (if expired ep then Err errUnavailable else get_loop u order do expired key eps) in
      case request do ep ''GET'' key [] of
        Ok data \<Rightarrow> (let result = dht_candidates u order data in if result \<noteq> [] then Ok result else next)
      | Err _ \<Rightarrow> next
      | Panic \<Rightarrow> Panic)"

definition Store_Get :: "unicode \<Rightarrow> nat list \<Rightarrow> (string \<Rightarrow> string \<Rightarrow> string \<Rightarrow> (int \<times> string) res) \<Rightarrow> (string \<Rightarrow> bool) \<Rightarrow> OpenDHTPlugin \<Rightarrow> string \<Rightarrow> string list res" where
  "Store_Get u order do expired p key =
     (if \<not> keyPattern key then Err (ErrNew ''invalid discovery key'')
      else get_loop u order do expired key (endpoints p))"

definition envelope_json :: "string \<Rightarrow> json" where
  "envelope_json canonical = JObj [(''magic'', JStr Namespace), (''data'', JStr canonical)]"

definition value_json :: "string \<Rightarrow> json" where
  "value_json raw = JObj [(''data'', JStr (b64_encode (str_bytes raw)))]"

fun set_loop :: "(string \<Rightarrow> string \<Rightarrow> string \<Rightarrow> (int \<times> string) res) \<Rightarrow> (string \<Rightarrow> bool) \<Rightarrow> string \<Rightarrow> string \<Rightarrow> string list \<Rightarrow> unit res" where
  "set_loop do expired key body [] = Err errUnavailable"
| "set_loop do expired key body (ep # eps) =
     (case request do ep ''POST'' key body of
        Ok _ \<Rightarrow> Ok ()
      | Err _ \<Rightarrow> if expired ep then Err errUnavailable else set_loop do expired key body eps
      | Panic \<Rightarrow> Panic)"

text \<open>The body of a publication; a canonical text that fails to encode would be empty.\<close>

definition set_body :: "nat list \<Rightarrow> Record \<Rightarrow> string" where
  "set_body order r =
     (let canonical = (case Encode order r of Ok c \<Rightarrow> c | _ \<Rightarrow> []) in
      json_print (value_json (json_print (envelope_json canonical))))"

definition Store_Set :: "unicode \<Rightarrow> nat list \<Rightarrow> (string \<Rightarrow> string \<Rightarrow> string \<Rightarrow> (int \<times> string) res) \<Rightarrow> (string \<Rightarrow> bool) \<Rightarrow> OpenDHTPlugin \<Rightarrow> string \<Rightarrow> string \<Rightarrow> unit res" where
  "Store_Set u order do expired p key record =
     (if \<not> keyPattern key then Err (ErrNew ''invalid discovery key'')
      else bind_res (replace_err (Decode u order record) (ErrNew ''invalid discovery record'')) (\<lambda>r.
        set_loop do expired key (set_body order r) (endpoints p)))"

section \<open>The plugin manager\<close>

type_synonym plugin_manager = "string \<rightharpoonup> OpenDHTPlugin"

definition createPlugin :: "(string \<Rightarrow> url res) \<Rightarrow> (string \<Rightarrow> duration res) \<Rightarrow> PluginDefinition \<Rightarrow> OpenDHTPlugin res" where
  "createPlugin urlParse parseDuration d =
     bind_res (ValidateDefinition d) (\<lambda>_. NewOpenDHTPlugin urlParse parseDuration (def_Config d))"

fun create_all :: "(string \<Rightarrow> url res) \<Rightarrow> (string \<Rightarrow> duration res) \<Rightarrow> (string \<times> PluginDefinition) list \<Rightarrow> plugin_manager \<Rightarrow> plugin_manager res" where
  "create_all urlParse parseDuration [] m = Ok m"
| "create_all urlParse parseDuration ((name, d) # ds) m =
     (case createPlugin urlParse parseDuration d of
        Ok s \<Rightarrow> create_all urlParse parseDuration ds (m(name \<mapsto> s))
      | Err e \<Rightarrow> Err (ErrWrap ''store initialization failed'' [e])
      | Panic \<Rightarrow> Panic)"

text \<open>The manager after the call, and the call's outcome.\<close>

definition LoadPlugins ::
  "(string \<Rightarrow> url res) \<Rightarrow> (string \<Rightarrow> duration res) \<Rightarrow> (string \<times> PluginDefinition) list \<Rightarrow> plugin_manager \<Rightarrow> plugin_manager \<times> unit res" where
  "LoadPlugins urlParse parseDuration defs m =
     (if 8 < length defs then (m, Err (ErrNew ''too many OpenDHT stores''))
      else case create_all urlParse parseDuration defs Map.empty of
        Ok m' \<Rightarrow> (m', Ok ())
      | Err e \<Rightarrow> (m, Err e)
      | Panic \<Rightarrow> (m, Panic))"

definition GetPlugin :: "plugin_manager \<Rightarrow> string \<Rightarrow> OpenDHTPlugin res" where
  "GetPlugin m name = (case m name of Some s \<Rightarrow> Ok s | None \<Rightarrow> Err (ErrNew ''store not configured''))"

text \<open>A store closes its idle connections and reports no error, so neither does the manager.\<close>

definition Plugins_Close :: "plugin_manager \<Rightarrow> plugin_manager \<times> unit res" where
  "Plugins_Close m = (Map.empty, Ok ())"

section \<open>Lemmas\<close>

text \<open>Printable ASCII that the quoting of strings changes by at most a backslash.\<close>

definition safe_char :: "char \<Rightarrow> bool" where
  "safe_char c \<longleftrightarrow> 0x20 \<le> code c \<and> code c < 0x80 \<and> c \<noteq> CHR ''<'' \<and> c \<noteq> CHR ''>'' \<and> c \<noteq> CHR ''&''"

definition safe :: "string \<Rightarrow> bool" where "safe s \<longleftrightarrow> (\<forall>c\<in>set s. safe_char c)"

lemma safe_simps [simp]: "safe []" "safe (c # s) \<longleftrightarrow> safe_char c \<and> safe s" "safe (s @ t) \<longleftrightarrow> safe s \<and> safe t"
  by (auto simp: safe_def)

lemma safe_ascii: "safe s \<Longrightarrow> ascii s"
  by (auto simp: safe_def safe_char_def ascii_def)

lemma quote_ascii_safe:
  assumes "safe_char c"
  shows "quote_ascii c = (if c = CHR 0x22 \<or> c = CHR 0x5C then [CHR 0x5C, c] else [c])"
proof -
  have "c \<noteq> CHR 0x08" "c \<noteq> CHR 0x0C" "c \<noteq> CHR 0x0A" "c \<noteq> CHR 0x0D" "c \<noteq> CHR 0x09" "\<not> code c < 0x20"
    using assms by (auto simp: safe_char_def)
  then show ?thesis using assms by (simp add: quote_ascii_def safe_char_def)
qed

lemma quote_body_safe: "safe s \<Longrightarrow> safe (quote_body s) \<and> length (quote_body s) \<le> 2 * length s"
proof (induction s)
  case (Cons c s)
  then have c: "safe_char c" "code c < 0x80" by (auto simp: safe_char_def)
  have "safe_char (CHR 0x5C)" by (simp add: safe_char_def)
  then show ?case using Cons c quote_ascii_safe[OF c(1)] by auto
qed simp

lemma quote_safe: "safe s \<Longrightarrow> safe (quote s) \<and> length (quote s) \<le> 2 * length s + 2"
  using quote_body_safe[of s] by (simp add: quote_def safe_char_def)

lemma ep_text_safe: "ep_text s \<Longrightarrow> safe s"
proof -
  have "safe_char c" if "ep_char c" for c
    using that by (auto simp: ep_char_def hex_val_def safe_char_def Let_def split: if_splits)
  then show "ep_text s \<Longrightarrow> safe s" by (simp add: ep_text_def safe_def)
qed

lemma b64_encode_safe: "safe (b64_encode bs)"
proof -
  have "safe_char (b64_char i)" if "i < 64" for i
    using that by (auto simp: b64_char_def safe_char_def intro!: char_neq_of_nat)
  moreover have "safe_char (CHR ''='')" by (simp add: safe_char_def)
  ultimately show ?thesis
    by (induction bs rule: b64_encode.induct) (auto simp: byte_parts)
qed

lemma bytes_str_bytes: "bytes_str (str_bytes s) = s"
proof -
  have "char_of (unat (word_of_nat (of_char c) :: byte)) = c" for c :: char
    using nat_of_char_less_256[of c] by (simp add: unat_of_nat take_bit_eq_mod)
  then show ?thesis by (simp add: bytes_str_def str_bytes_def comp_def)
qed

lemma TrimSpace_braced: "TrimSpace (CHR ''{'' # s @ [CHR ''}'']) \<noteq> []"
proof -
  have "space_len (CHR ''{'' # t) = 0" for t by (simp add: space_len_def space_seqs_def HasPrefix_def)
  then have l: "trim_left (CHR ''{'' # t) = CHR ''{'' # t" for t by (subst trim_left.simps) simp
  have "list_all (\<lambda>q. q \<noteq> [] \<and> last q \<noteq> CHR ''}'') space_seqs" by code_simp
  moreover have "HasSuffix s q \<Longrightarrow> q \<noteq> [] \<Longrightarrow> last s = last q" for s q
    unfolding HasSuffix_def by (metis append_take_drop_id last_append)
  ultimately have "\<not> HasSuffix (CHR ''{'' # s @ [CHR ''}'']) q" if "q \<in> set space_seqs" for q
    using that by (fastforce simp: list_all_iff)
  then have "find (HasSuffix (CHR ''{'' # s @ [CHR ''}''])) space_seqs = None" by (auto simp: find_None_iff)
  then have "space_end (CHR ''{'' # s @ [CHR ''}'']) = 0" by (simp add: space_end_def)
  then have "trim_right (CHR ''{'' # s @ [CHR ''}'']) = CHR ''{'' # s @ [CHR ''}'']"
    by (subst trim_right.simps) simp
  then show ?thesis by (simp add: TrimSpace_def l)
qed

lemma safe_no_newline: "safe s \<Longrightarrow> CHR 0x0A \<notin> set s"
proof
  assume "safe s" "CHR 0x0A \<in> set s"
  then have "safe_char (CHR 0x0A)" by (simp add: safe_def)
  then show False by (simp add: safe_char_def)
qed

text \<open>Names in lower case stay themselves.\<close>

lemma ToLower_names: "ToLower u ''magic'' = ''magic''" "ToLower u ''data'' = ''data''"
proof -
  have "ascii ''magic''" "ascii ''data''" by (simp_all add: ascii_def)
  moreover have "map lower_ascii ''magic'' = ''magic''" "map lower_ascii ''data'' = ''data''" by code_simp+
  ultimately show "ToLower u ''magic'' = ''magic''" "ToLower u ''data'' = ''data''" by (simp_all only: ToLower_ascii)
qed

lemma ascii_words: "ascii ''magic''" "ascii ''data''" "ascii Namespace"
  by (simp_all add: ascii_def Namespace_def)

text \<open>The two wrappers of a publication read back.\<close>

lemma DecodeJSON_print:
  assumes "json_plain v" "json_print v \<noteq> []" "length (json_print v) \<le> MaxConfigBytes" "check_json u 0 v = Ok ()" "decode v = Ok x"
  shows "DecodeJSON u decode (json_print v) = Ok x"
  using assms json_document_print[OF assms(1)] by (simp add: DecodeJSON_def)

lemma length_quote_names: "length (quote ''magic'') = 7" "length (quote ''data'') = 6" "length (quote Namespace) = 19"
  by code_simp+

lemma envelope_reads_back:
  assumes "safe c" "length c \<le> 1000"
  shows "DecodeJSON u (decode_envelope u) (json_print (envelope_json c)) = Ok \<lparr>Magic = Namespace, env_Data = c\<rparr>"
    and "length (json_print (envelope_json c)) \<le> 2100" "safe (json_print (envelope_json c))"
proof -
  have len: "length (json_print (envelope_json c)) \<le> 2100"
    using assms quote_safe[OF assms(1)] length_quote_names by (simp add: envelope_json_def)
  have "safe (quote ''magic'')" "safe (quote ''data'')" "safe (quote Namespace)" by code_simp+
  then show "safe (json_print (envelope_json c))"
    using quote_safe[OF assms(1)] by (simp add: envelope_json_def safe_char_def)
  show "length (json_print (envelope_json c)) \<le> 2100" by (fact len)
  show "DecodeJSON u (decode_envelope u) (json_print (envelope_json c)) = Ok \<lparr>Magic = Namespace, env_Data = c\<rparr>"
  proof (rule DecodeJSON_print)
    show "json_plain (envelope_json c)" using assms by (simp add: envelope_json_def ascii_words safe_ascii)
    show "json_print (envelope_json c) \<noteq> []" by (simp add: envelope_json_def)
    show "length (json_print (envelope_json c)) \<le> MaxConfigBytes" using len by (simp add: MaxConfigBytes_def)
    show "check_json u 0 (envelope_json c) = Ok ()" by (simp add: envelope_json_def check_json.simps ToLower_names)
    show "decode_envelope u (envelope_json c) = Ok \<lparr>Magic = Namespace, env_Data = c\<rparr>"
      by (simp add: envelope_json_def decode_envelope_def struct_field_def set_envelope_def json_string_def)
  qed
qed

lemma value_reads_back:
  assumes "length raw \<le> 2100"
  shows "DecodeJSON u decode_map (json_print (value_json raw)) = Ok [''data'' \<mapsto> JStr (b64_encode (str_bytes raw))]"
    and "length (b64_encode (str_bytes raw)) \<le> 4096" "safe (json_print (value_json raw))"
    "length (json_print (value_json raw)) \<le> MaxResponseBytes" "TrimSpace (json_print (value_json raw)) \<noteq> []"
proof -
  let ?b = "b64_encode (str_bytes raw)"
  have "(length raw + 2) div 3 \<le> 700" using assms by linarith
  then have lb: "length ?b \<le> 2800" by (simp add: length_b64_encode)
  then show "length ?b \<le> 4096" by simp
  note qb = quote_safe[OF b64_encode_safe[of "str_bytes raw"]]
  have len: "length (json_print (value_json raw)) \<le> 6000"
    using lb qb length_quote_names by (simp add: value_json_def)
  then show "length (json_print (value_json raw)) \<le> MaxResponseBytes" by (simp add: MaxResponseBytes_def)
  have "safe (quote ''data'')" by code_simp
  then show "safe (json_print (value_json raw))" using qb by (simp add: value_json_def safe_char_def)
  have "json_print (value_json raw) = CHR ''{'' # (quote ''data'' @ '':'' @ quote ?b) @ [CHR ''}'']"
    by (simp add: value_json_def)
  then show "TrimSpace (json_print (value_json raw)) \<noteq> []" using TrimSpace_braced by metis
  show "DecodeJSON u decode_map (json_print (value_json raw)) = Ok [''data'' \<mapsto> JStr ?b]"
  proof (rule DecodeJSON_print)
    show "json_plain (value_json raw)" by (simp add: value_json_def ascii_words safe_ascii b64_encode_safe)
    show "json_print (value_json raw) \<noteq> []" by (simp add: value_json_def)
    show "length (json_print (value_json raw)) \<le> MaxConfigBytes" using len by (simp add: MaxConfigBytes_def)
    show "check_json u 0 (value_json raw) = Ok ()" by (simp add: value_json_def check_json.simps ToLower_names)
    show "decode_map (value_json raw) = Ok [''data'' \<mapsto> JStr ?b]" by (simp add: value_json_def decode_map_def)
  qed
qed

lemma record_safe:
  assumes "Version r = 2" "ep_text (IPv4 r)" "ep_text (IPv6 r)" "length (IPv4 r) \<le> 256" "length (IPv6 r) \<le> 256"
  shows "safe (json_print (record_json r))" "length (json_print (record_json r)) \<le> 1000"
proof -
  have n: "length (quote ''version'') = 9" "length (quote ''ipv4'') = 6" "length (quote ''ipv6'') = 6"
    "safe (quote ''version'')" "safe (quote ''ipv4'')" "safe (quote ''ipv6'')" by code_simp+
  note q = quote_safe[OF ep_text_safe[OF assms(2)]] quote_safe[OF ep_text_safe[OF assms(3)]]
  show "safe (json_print (record_json r))"
    using assms(1) n q by (auto simp: record_json_def Itoa_2 safe_char_def)
  show "length (json_print (record_json r)) \<le> 1000"
    using assms n by (simp add: record_json_def Itoa_2 ep_text_quote quote_def)
qed

lemma Encode_valid: "validate order r = Ok () \<Longrightarrow> Encode order r = Ok (json_print (record_json r))"
proof -
  assume v: "validate order r = Ok ()"
  then have "r\<lparr>Version := 2\<rparr> = r" by (cases r) (auto simp: validate_def split: if_splits)
  then show ?thesis using v by (simp add: Encode_def)
qed

lemma line_record_set_body:
  assumes "validate order r = Ok ()" "set order = {4, 6}"
  shows "line_record u order (set_body order r) = Some (json_print (record_json r))"
    and "set_body order r = json_print (value_json (json_print (envelope_json (json_print (record_json r)))))"
proof -
  note t = record_safe[OF validate_text(1-5)[OF assms]]
  show b: "set_body order r = json_print (value_json (json_print (envelope_json (json_print (record_json r)))))"
    using Encode_valid[OF assms(1)] by (simp add: set_body_def)
  note e = envelope_reads_back(1)[OF t, of u] envelope_reads_back(2)[OF t]
  show "line_record u order (set_body order r) = Some (json_print (record_json r))"
    unfolding b line_record_def
    using value_reads_back(1)[OF e(2), of u] value_reads_back(2)[OF e(2)] e(1) Decode_record_json[OF assms assms(2), of u] Encode_valid[OF assms(1)]
    by (simp add: bytes_str_bytes)
qed

section \<open>Properties\<close>

lemma candidates_set_body:
  assumes "validate order r = Ok ()" "set order = {4, 6}"
  shows "dht_candidates u order (set_body order r) = [json_print (record_json r)]"
proof -
  note t = record_safe[OF validate_text(1-5)[OF assms]]
  note v = value_reads_back[OF envelope_reads_back(2)[OF t]]
  note b = line_record_set_body[OF assms]
  have "Split (CHR 0x0A) (set_body order r) = [set_body order r]"
    using v(3) by (intro Split_single) (simp add: b(2) safe_no_newline)
  moreover have "TrimSpace (set_body order r) \<noteq> []" "length (set_body order r) \<le> MaxResponseBytes"
    using v(4,5) b(2) by simp_all
  ultimately show ?thesis
    using b(1)[of u] by (simp add: dht_candidates_def MaxRecords_def MaxCandidates_def)
qed

lemma lookup_body:
  assumes "validate order r = Ok ()" "set order = {4, 6}" "keyPattern key" "endpoints p = ep # eps"
    "do ''GET'' (ep @ ''/key/'' @ key) [] = Ok (200, set_body order r)"
  shows "Store_Get u order do expired p key = Ok [json_print (record_json r)]"
proof -
  note t = record_safe[OF validate_text(1-5)[OF assms(1,2)]]
  have "length (set_body order r) \<le> MaxResponseBytes"
    using value_reads_back(4)[OF envelope_reads_back(2)[OF t]] line_record_set_body(2)[OF assms(1,2)] by simp
  then have "request do ep ''GET'' key [] = Ok (set_body order r)"
    using assms(5) by (simp add: request_def Let_def)
  then show ?thesis
    using assms(3,4) candidates_set_body[OF assms(1,2), of u] by (simp add: Store_Get_def Let_def)
qed

lemma lookup_yields_published:
  assumes "Decode u order text = Ok r" "set order = {4, 6}" "keyPattern key" "endpoints p = ep # eps"
    "do ''GET'' (ep @ ''/key/'' @ key) [] = Ok (200, set_body order r)"
  shows "\<exists>c. Store_Get u order do expired p key = Ok [c] \<and> Decode u order c = Ok r"
proof -
  have v: "validate order r = Ok ()" using assms(1) by (auto simp: Decode_def split: if_splits)
  show ?thesis using lookup_body[where do = do and u = u and expired = expired, OF v assms(2-5)] Decode_record_json[OF v assms(2,2), of u] by blast
qed

text \<open>An answer that counts as success: a status of the two hundreds and a body within the bound.\<close>

definition accepts :: "(int \<times> string) res \<Rightarrow> bool" where
  "accepts a \<longleftrightarrow> (case a of Ok (n, resp) \<Rightarrow> 200 \<le> n \<and> n < 300 \<and> length resp \<le> MaxResponseBytes | _ \<Rightarrow> False)"

lemma request_accepts: "(\<exists>b. request do ep meth key body = Ok b) \<longleftrightarrow> accepts (do meth (ep @ ''/key/'' @ key) body)"
  by (cases "do meth (ep @ ''/key/'' @ key) body") (auto simp: request_def accepts_def Let_def min_def split: if_splits)

lemma request_Panic: "do meth (ep @ ''/key/'' @ key) body \<noteq> Panic \<Longrightarrow> request do ep meth key body \<noteq> Panic"
  by (cases "do meth (ep @ ''/key/'' @ key) body") (auto simp: request_def Let_def split: if_splits)

text \<open>A publication goes to the endpoints in order, up to the first that accepts it.\<close>

lemma set_loop_Ok:
  assumes "\<forall>url. do ''POST'' url body \<noteq> Panic"
  shows "set_loop do expired key body eps = Ok () \<longleftrightarrow> (\<exists>i<length eps. accepts (do ''POST'' (eps ! i @ ''/key/'' @ key) body)
     \<and> (\<forall>j<i. \<not> accepts (do ''POST'' (eps ! j @ ''/key/'' @ key) body) \<and> \<not> expired (eps ! j)))"
proof (induction eps)
  case (Cons ep eps)
  let ?a = "\<lambda>x. accepts (do ''POST'' (x @ ''/key/'' @ key) body)"
  have p: "request do ep ''POST'' key body \<noteq> Panic" using request_Panic assms by blast
  show ?case
  proof (cases "?a ep")
    case True
    then obtain b where "request do ep ''POST'' key body = Ok b" using request_accepts by blast
    then show ?thesis using True by (auto intro: exI[of _ 0])
  next
    case False
    then obtain e where "request do ep ''POST'' key body = Err e" using p request_accepts by (metis res.exhaust)
    then have "set_loop do expired key body (ep # eps) = Ok () \<longleftrightarrow> \<not> expired ep \<and> set_loop do expired key body eps = Ok ()" by simp
    also have "\<dots> \<longleftrightarrow> (\<exists>i<length (ep # eps). ?a ((ep # eps) ! i) \<and> (\<forall>j<i. \<not> ?a ((ep # eps) ! j) \<and> \<not> expired ((ep # eps) ! j)))"
      unfolding Cons.IH using False by (simp add: Ex_less_Suc2 All_less_Suc2) blast
    finally show ?thesis .
  qed
qed simp

lemma get_loop_skips:
  "\<forall>x\<in>set pre. (\<exists>e. do ''GET'' (x @ ''/key/'' @ key) [] = Err e) \<and> \<not> expired x \<Longrightarrow>
     get_loop u order do expired key (pre @ eps) = get_loop u order do expired key eps"
  by (induction pre) (auto simp: request_def Let_def)

text \<open>C19. What one node publishes another can read. Publishing a record posts one body, the record's own, under the key to the
  store's endpoints in order, and succeeds exactly if one of them accepts it before the time is up; an endpoint that fails only
  hands on to the next. A lookup of the key that meets this body, after endpoints that are down, yields one
  candidate, the canonical text that the encoder gives the record, and decoding it gives the record that was published.\<close>

theorem publish_lookup:
  assumes "set order = {4, 6}" "keyPattern key" "Decode u order text = Ok r" "\<forall>url. doA ''POST'' url (set_body order r) \<noteq> Panic"
  shows "(Store_Set u order doA expiredA p key text = Ok () \<longleftrightarrow>
        (\<exists>i<length (endpoints p). accepts (doA ''POST'' (endpoints p ! i @ ''/key/'' @ key) (set_body order r))
          \<and> (\<forall>j<i. \<not> accepts (doA ''POST'' (endpoints p ! j @ ''/key/'' @ key) (set_body order r)) \<and> \<not> expiredA (endpoints p ! j))))
    \<and> (\<forall>doB expiredB q pre ep eps. endpoints q = pre @ ep # eps
          \<and> (\<forall>x\<in>set pre. (\<exists>e. doB ''GET'' (x @ ''/key/'' @ key) [] = Err e) \<and> \<not> expiredB x)
          \<and> doB ''GET'' (ep @ ''/key/'' @ key) [] = Ok (200, set_body order r) \<longrightarrow>
        (\<exists>c. Store_Get u order doB expiredB q key = Ok [c] \<and> Encode order r = Ok c \<and> Decode u order c = Ok r))"
proof (intro conjI allI impI; (elim conjE)?)
  have "Store_Set u order doA expiredA p key text = set_loop doA expiredA key (set_body order r) (endpoints p)"
    using assms(2,3) by (simp add: Store_Set_def)
  then show "Store_Set u order doA expiredA p key text = Ok () \<longleftrightarrow>
        (\<exists>i<length (endpoints p). accepts (doA ''POST'' (endpoints p ! i @ ''/key/'' @ key) (set_body order r))
          \<and> (\<forall>j<i. \<not> accepts (doA ''POST'' (endpoints p ! j @ ''/key/'' @ key) (set_body order r)) \<and> \<not> expiredA (endpoints p ! j)))"
    using set_loop_Ok[where do = doA, OF assms(4)] by simp
next
  fix doB :: "string \<Rightarrow> string \<Rightarrow> string \<Rightarrow> (int \<times> string) res" and expiredB and q :: OpenDHTPlugin and pre ep eps
  assume q: "endpoints q = pre @ ep # eps" "\<forall>x\<in>set pre. (\<exists>e. doB ''GET'' (x @ ''/key/'' @ key) [] = Err e) \<and> \<not> expiredB x"
    and a: "doB ''GET'' (ep @ ''/key/'' @ key) [] = Ok (200, set_body order r)"
  have v: "validate order r = Ok ()" using assms(3) by (auto simp: Decode_def split: if_splits)
  have "Store_Get u order doB expiredB q key = Store_Get u order doB expiredB (q\<lparr>endpoints := ep # eps\<rparr>) key"
    using get_loop_skips[where do = doB, OF q(2)] by (simp add: Store_Get_def q(1))
  moreover obtain c where "Store_Get u order doB expiredB (q\<lparr>endpoints := ep # eps\<rparr>) key = Ok [c]" "c = json_print (record_json r)"
    using lookup_body[OF v assms(1,2), of "q\<lparr>endpoints := ep # eps\<rparr>" ep eps doB u expiredB] a by auto
  ultimately show "\<exists>c. Store_Get u order doB expiredB q key = Ok [c] \<and> Encode order r = Ok c \<and> Decode u order c = Ok r"
    using Encode_valid[OF v] Decode_record_json[OF v assms(1,1), of u] by auto
qed

definition canonical :: "nat list \<Rightarrow> string \<Rightarrow> bool" where
  "canonical order c \<longleftrightarrow> (\<exists>r. validate order r = Ok () \<and> c = json_print (record_json r))"

lemma line_record_canonical: "line_record u order l = Some c \<Longrightarrow> canonical order c"
proof -
  assume "line_record u order l = Some c"
  then obtain r d where "Decode u order d = Ok r" "Encode order r = Ok c"
    unfolding line_record_def by (auto split: res.split_asm option.split_asm json.split_asm if_split_asm)
  moreover from this have "validate order r = Ok ()" by (auto simp: Decode_def split: if_splits)
  ultimately show ?thesis using Encode_valid[of order r] by (auto simp: canonical_def)
qed

lemma candidate_loop_canonical:
  "candidate_loop u order n found ls = Some found' \<Longrightarrow> finite found \<Longrightarrow> \<forall>c\<in>found. canonical order c \<Longrightarrow>
     finite found' \<and> (\<forall>c\<in>found'. canonical order c)"
proof (induction ls arbitrary: n found)
  case (Cons l ls)
  show ?case
  proof (cases "TrimSpace l = []")
    case False
    define nxt where "nxt = (case line_record u order l of Some c \<Rightarrow> insert c found | None \<Rightarrow> found)"
    have "candidate_loop u order (n + 1) nxt ls = Some found'"
      using Cons.prems(1) False unfolding nxt_def by (simp split: if_splits)
    moreover have "finite nxt" "\<forall>c\<in>nxt. canonical order c"
      using Cons.prems(2,3) line_record_canonical[of u order l] by (auto simp: nxt_def split: option.split)
    ultimately show ?thesis by (rule Cons.IH)
  qed (use Cons in simp)
qed simp

text \<open>A proxy's answer, whatever it is, becomes at most four candidates, in strictly increasing order,
  and each of them is the canonical text of a record that passes the validation; answers beyond the size
  limit become none.\<close>

theorem candidates_sound:
  assumes "set order = {4, 6}"
  shows "length (dht_candidates u order data) \<le> 4 \<and> sorted_wrt (<) (dht_candidates u order data) \<and>
    (MaxResponseBytes < length data \<longrightarrow> dht_candidates u order data = []) \<and>
    (\<forall>c\<in>set (dht_candidates u order data). \<exists>r. validate order r = Ok () \<and> c = json_print (record_json r) \<and> Decode u order c = Ok r)"
proof (cases "MaxResponseBytes < length data")
  case False
  show ?thesis
  proof (cases "candidate_loop u order 0 {} (Split (CHR 0x0A) data)")
    case (Some found)
    have f: "finite found" "\<forall>c\<in>found. canonical order c" using candidate_loop_canonical[OF Some] by auto
    have eq: "dht_candidates u order data = take MaxCandidates (sorted_list_of_set found)"
      using False Some by (simp add: dht_candidates_def)
    have "set (take MaxCandidates (sorted_list_of_set found)) \<subseteq> found"
      using f(1) set_take_subset[of MaxCandidates "sorted_list_of_set found"] by simp
    moreover have "canonical order c \<Longrightarrow> \<exists>r. validate order r = Ok () \<and> c = json_print (record_json r) \<and> Decode u order c = Ok r" for c
      using Decode_record_json[OF _ assms assms, of _ u] by (auto simp: canonical_def)
    moreover have "sorted_wrt (<) (take MaxCandidates (sorted_list_of_set found))"
      by (intro sorted_wrt_take sorted_list_of_set.strict_sorted_key_list_of_set)
    ultimately show ?thesis
      unfolding eq using f(2) False by (auto simp: MaxCandidates_def)
  qed (use False in \<open>simp add: dht_candidates_def\<close>)
qed (simp add: dht_candidates_def)

lemma normalize_all_distinct:
  "normalize_all urlParse seen out ss = Ok eps \<Longrightarrow> set out = seen \<Longrightarrow> distinct out \<Longrightarrow>
     distinct eps \<and> length eps \<le> length out + length ss \<and> (ss \<noteq> [] \<or> out \<noteq> [] \<longrightarrow> eps \<noteq> [])"
proof (induction ss arbitrary: seen out)
  case (Cons s ss)
  obtain e where e: "normalizeEndpoint urlParse s = Ok e" using Cons.prems(1) by auto
  show ?case
  proof (cases "e \<in> seen")
    case True
    then have "out \<noteq> []" using Cons.prems(2) by auto
    then show ?thesis using Cons.IH[of seen out] Cons.prems e True by auto
  next
    case False
    then show ?thesis using Cons.IH[of "insert e seen" "out @ [e]"] Cons.prems e by auto
  qed
qed simp

text \<open>A store that is constructed has one to eight different endpoints and a timeout of one to twenty
  seconds, whatever the URL and duration parsers answer.\<close>

theorem NewOpenDHTPlugin_bounds:
  assumes "NewOpenDHTPlugin urlParse parseDuration config = Ok p"
  shows "endpoints p \<noteq> [] \<and> length (endpoints p) \<le> 8 \<and> distinct (endpoints p) \<and>
    second \<le> client_Timeout p \<and> client_Timeout p \<le> 20 * second"
proof -
  define all where "all = (\<lambda>list0. if fst (GetString config ''endpoint'') \<noteq> [] then fst (GetString config ''endpoint'') # list0 else list0)"
  obtain list0 where all: "all list0 \<noteq> []" "length (all list0) \<le> 8" "normalize_all urlParse {} [] (all list0) = Ok (endpoints p)"
    and t: "second \<le> client_Timeout p" "client_Timeout p \<le> 20 * second"
    using assms unfolding NewOpenDHTPlugin_def Let_def all_def[symmetric]
    by (auto simp: not_less fun_cong[OF all_def, symmetric] split: if_splits prod.splits)
  show ?thesis using normalize_all_distinct[OF all(3)] all(1,2) t by auto
qed

lemma create_all_dom: "create_all urlParse parseDuration defs m = Ok m' \<Longrightarrow> dom m' = dom m \<union> fst ` set defs"
proof (induction defs arbitrary: m)
  case (Cons d defs)
  obtain name x where d: "d = (name, x)" by fastforce
  obtain s where "createPlugin urlParse parseDuration x = Ok s" "create_all urlParse parseDuration defs (m(name \<mapsto> s)) = Ok m'"
    using Cons.prems d by (auto split: res.splits)
  from Cons.IH[OF this(2)] show ?case using d by auto
qed simp

text \<open>Loading is all or nothing: unless every definition yields a store, the manager keeps the stores it
  had; and after a success it serves exactly the names that were defined.\<close>

theorem LoadPlugins_atomic:
  "(snd (LoadPlugins urlParse parseDuration defs m) \<noteq> Ok () \<longrightarrow> fst (LoadPlugins urlParse parseDuration defs m) = m) \<and>
   (snd (LoadPlugins urlParse parseDuration defs m) = Ok () \<longrightarrow>
      (\<forall>name. is_Ok (GetPlugin (fst (LoadPlugins urlParse parseDuration defs m)) name) \<longleftrightarrow> name \<in> fst ` set defs))"
proof (cases "create_all urlParse parseDuration defs Map.empty")
  case (Ok m')
  have "is_Ok (GetPlugin m' name) \<longleftrightarrow> name \<in> dom m'" for name by (auto simp: GetPlugin_def split: option.splits)
  then show ?thesis using Ok create_all_dom[OF Ok] by (simp add: LoadPlugins_def)
qed (simp_all add: LoadPlugins_def)

section \<open>Witnesses\<close>

definition ex_hint :: Record where "ex_hint = ex_record\<lparr>Version := 2\<rparr>"

definition ex_plugin :: OpenDHTPlugin where
  "ex_plugin = \<lparr>endpoints = [''https://dht.example''], client_Timeout = 10 * second\<rparr>"

lemma ex_hint_valid: "validate [4, 6] ex_hint = Ok ()" by code_simp

lemma order_46: "set [4, 6] = {4, 6 :: nat}" by simp

text \<open>A store of two proxies of which the first is down.\<close>

definition ex_stores :: OpenDHTPlugin where
  "ex_stores = \<lparr>endpoints = [''https://down.example'', ''https://dht.example''], client_Timeout = 10 * second\<rparr>"

definition ex_answers :: "string \<Rightarrow> string \<Rightarrow> string \<Rightarrow> (int \<times> string) res" where
  "ex_answers meth url body =
     (if HasPrefix url ''https://down'' then Err (ErrNew ''connection refused'')
      else if meth = ''POST'' then Ok (200, []) else Ok (200, set_body [4, 6] ex_hint))"

theorem publish_lookup_witness:
  "Store_Set ex_unicode [4, 6] ex_answers (\<lambda>_. False) ex_stores (replicate 40 (CHR ''a'')) (json_print (record_json ex_hint)) = Ok ()
    \<and> (\<exists>c. Store_Get ex_unicode [4, 6] ex_answers (\<lambda>_. False) ex_stores (replicate 40 (CHR ''a'')) = Ok [c] \<and> Decode ex_unicode [4, 6] c = Ok ex_hint)"
proof -
  let ?k = "replicate 40 (CHR ''a'')" and ?b = "set_body [4, 6] ex_hint"
  have d: "Decode ex_unicode [4, 6] (json_print (record_json ex_hint)) = Ok ex_hint"
    by (rule Decode_record_json[OF ex_hint_valid order_46 order_46])
  have k: "keyPattern ?k" by code_simp
  have n: "\<forall>url. ex_answers ''POST'' url ?b \<noteq> Panic" by (simp add: ex_answers_def)
  have a: "ex_answers m (''https://down.example'' @ t) b = Err (ErrNew ''connection refused'')"
    "ex_answers ''POST'' (''https://dht.example'' @ t) b = Ok (200, [])" "ex_answers ''GET'' (''https://dht.example'' @ t) b = Ok (200, ?b)" for m t b
    by (simp_all add: ex_answers_def HasPrefix_def)
  note r = publish_lookup[where doA = ex_answers, OF order_46 k d n, of "\<lambda>_. False" ex_stores]
  have "\<exists>i<length (endpoints ex_stores). accepts (ex_answers ''POST'' (endpoints ex_stores ! i @ ''/key/'' @ ?k) ?b)
      \<and> (\<forall>j<i. \<not> accepts (ex_answers ''POST'' (endpoints ex_stores ! j @ ''/key/'' @ ?k) ?b) \<and> \<not> False)"
    by (rule exI[of _ 1]) (simp add: ex_stores_def a[simplified] accepts_def)
  then have "Store_Set ex_unicode [4, 6] ex_answers (\<lambda>_. False) ex_stores ?k (json_print (record_json ex_hint)) = Ok ()"
    using r[THEN conjunct1] by blast
  moreover have "\<exists>c. Store_Get ex_unicode [4, 6] ex_answers (\<lambda>_. False) ex_stores ?k = Ok [c] \<and> Encode [4, 6] ex_hint = Ok c \<and> Decode ex_unicode [4, 6] c = Ok ex_hint"
    by (rule r[THEN conjunct2, rule_format, of _ "[''https://down.example'']" "''https://dht.example''" "[]"])
      (simp add: ex_stores_def a[simplified])
  ultimately show ?thesis by blast
qed

theorem candidates_sound_witness:
  "length (dht_candidates ex_unicode [4, 6] (set_body [4, 6] ex_hint)) = 1 \<and>
   sorted_wrt (<) (dht_candidates ex_unicode [4, 6] (set_body [4, 6] ex_hint))"
  using candidates_sound[OF order_46, of ex_unicode "set_body [4, 6] ex_hint"]
    candidates_set_body[OF ex_hint_valid order_46, of ex_unicode] by simp

theorem NewOpenDHTPlugin_bounds_witness: "length (endpoints ex_plugin) \<le> 8"
proof -
  have "NewOpenDHTPlugin
      (\<lambda>s. Ok \<lparr>u_Scheme = ''https'', u_Host = ''dht.example'', u_Hostname = ''dht.example'', u_Port = [], u_User = False,
         u_RawQuery = [], u_Fragment = [], u_RawPath = [], u_Path = [], u_String = s\<rparr>)
      (\<lambda>_. Ok second) [(''name'', YString ''opendht''), (''endpoint'', YString ''https://dht.example'')] = Ok ex_plugin"
    by code_simp
  from NewOpenDHTPlugin_bounds[OF this] show ?thesis by blast
qed

theorem LoadPlugins_atomic_witness:
  "fst (LoadPlugins (\<lambda>_. Err (ErrNew ''bad'')) (\<lambda>_. Ok second) [(''a'', \<lparr>def_Type = ''exec'', def_Config = []\<rparr>)] [''dht'' \<mapsto> ex_plugin])
     = [''dht'' \<mapsto> ex_plugin]"
proof -
  have "snd (LoadPlugins (\<lambda>_. Err (ErrNew ''bad'')) (\<lambda>_. Ok second) [(''a'', \<lparr>def_Type = ''exec'', def_Config = []\<rparr>)] [''dht'' \<mapsto> ex_plugin]) \<noteq> Ok ()"
    by (simp add: LoadPlugins_def createPlugin_def ValidateDefinition_def)
  then show ?thesis using LoadPlugins_atomic by blast
qed

end
