(* ===== verification/Mobile_Config.thy ===== *)
theory Mobile_Config
  imports Opendht
begin

text \<open>
  The configuration of the mobile core (\<^verbatim>\<open>mobile/config.go\<close>, \<^verbatim>\<open>mobile/uapi.go\<close>, \<^verbatim>\<open>mobile/keys.go\<close>): the
  strict reading of the application's JSON into nested structs, every limit on it, and the text with
  which it configures the embedded WireGuard device. A reader of that text, written from the line format
  of the configuration protocol, gives the theorem that the device is told exactly what the
  configuration says. URL and duration parsing and the conversion of JSON numbers to durations are
  arguments, as in theory \<open>Opendht\<close>.
\<close>

section \<open>Structs (config.go)\<close>

record ifaceConfig =
  ic_PrivateKey :: string
  ic_Addresses :: "string list"
  ic_DNSServers :: "string list"
  ic_ListenPort :: int
  ic_MTU :: int
  ic_Protocol :: string

record peerConfig =
  mp_Name :: string
  mp_Description :: string
  mp_PublicKey :: string
  mp_PresharedKey :: string
  mp_AllowedIPs :: "string list"
  mp_Endpoint :: string
  mp_Plugin :: string
  mp_Protocol :: string
  mp_PersistentKeepalive :: int

record pluginDef =
  pd_Instance :: string
  pd_Type :: string
  pd_Name :: string
  pd_Config :: plugin_config

record tunnelConfig =
  tc_ID :: string
  tc_Name :: string
  tc_Interface :: ifaceConfig
  tc_Peers :: "peerConfig list"
  tc_Plugins :: "pluginDef list"
  tc_StunAddresses :: "string list"
  tc_RefreshIntervalSeconds :: int
  tc_LogLevel :: string

definition defaultStunServer :: string where "defaultStunServer = ''stun.l.google.com:19302''"

section \<open>Decoding the JSON document\<close>

text \<open>An array decodes into the slice that is there: the elements it already has are decoded over.\<close>

fun decode_slice :: "('a \<Rightarrow> json \<Rightarrow> 'a res) \<Rightarrow> 'a \<Rightarrow> 'a list \<Rightarrow> json list \<Rightarrow> 'a list res" where
  "decode_slice decode zero old [] = Ok []"
| "decode_slice decode zero old (v # vs) =
     bind_res (decode (case old of [] \<Rightarrow> zero | x # _ \<Rightarrow> x) v) (\<lambda>x.
     bind_res (decode_slice decode zero (tl old) vs) (\<lambda>xs. Ok (x # xs)))"

definition json_slice :: "('a \<Rightarrow> json \<Rightarrow> 'a res) \<Rightarrow> 'a \<Rightarrow> 'a list \<Rightarrow> json \<Rightarrow> 'a list res" where
  "json_slice decode zero old v = (case v of JArr vs \<Rightarrow> decode_slice decode zero old vs | _ \<Rightarrow> Err err_schema)"

definition json_strings :: "string list \<Rightarrow> json \<Rightarrow> string list res" where
  "json_strings = json_slice (\<lambda>_. json_string) []"

definition json_struct :: "unicode \<Rightarrow> string list \<Rightarrow> (string \<Rightarrow> json \<Rightarrow> 'r \<Rightarrow> 'r res) \<Rightarrow> 'r \<Rightarrow> json \<Rightarrow> 'r res" where
  "json_struct u names set_field r v = (case v of JObj ms \<Rightarrow> decode_struct u names set_field ms r | _ \<Rightarrow> Err err_schema)"

text \<open>A value of type \<^verbatim>\<open>any\<close>; \<open>num\<close> is the duration of a number of seconds. The last member of a name counts.\<close>

fun json_any :: "(string \<Rightarrow> duration) \<Rightarrow> json \<Rightarrow> yvalue"
  and json_anys :: "(string \<Rightarrow> duration) \<Rightarrow> json list \<Rightarrow> yvalue list"
  and json_entries :: "(string \<Rightarrow> duration) \<Rightarrow> (string \<times> json) list \<Rightarrow> (string \<times> yvalue) list" where
  "json_any num JNull = YNil"
| "json_any num (JBool b) = YBool b"
| "json_any num (JNum t) = YFloat (num t)"
| "json_any num (JStr s) = YString s"
| "json_any num (JArr vs) = YList (json_anys num vs)"
| "json_any num (JObj ms) = YMap (json_entries num ms)"
| "json_anys num [] = []"
| "json_anys num (v # vs) = json_any num v # json_anys num vs"
| "json_entries num [] = []"
| "json_entries num ((k, v) # ms) = (if k \<in> fst ` set ms then json_entries num ms else (k, json_any num v) # json_entries num ms)"

definition set_iface :: "string \<Rightarrow> json \<Rightarrow> ifaceConfig \<Rightarrow> ifaceConfig res" where
  "set_iface n v c =
     (if n = ''private_key'' then bind_res (json_string v) (\<lambda>s. Ok (c\<lparr>ic_PrivateKey := s\<rparr>))
      else if n = ''addresses'' then bind_res (json_strings (ic_Addresses c) v) (\<lambda>l. Ok (c\<lparr>ic_Addresses := l\<rparr>))
      else if n = ''dns_servers'' then bind_res (json_strings (ic_DNSServers c) v) (\<lambda>l. Ok (c\<lparr>ic_DNSServers := l\<rparr>))
      else if n = ''listen_port'' then bind_res (json_int v) (\<lambda>i. Ok (c\<lparr>ic_ListenPort := i\<rparr>))
      else if n = ''mtu'' then bind_res (json_int v) (\<lambda>i. Ok (c\<lparr>ic_MTU := i\<rparr>))
      else bind_res (json_string v) (\<lambda>s. Ok (c\<lparr>ic_Protocol := s\<rparr>)))"

definition set_peer :: "string \<Rightarrow> json \<Rightarrow> peerConfig \<Rightarrow> peerConfig res" where
  "set_peer n v c =
     (if n = ''name'' then bind_res (json_string v) (\<lambda>s. Ok (c\<lparr>mp_Name := s\<rparr>))
      else if n = ''description'' then bind_res (json_string v) (\<lambda>s. Ok (c\<lparr>mp_Description := s\<rparr>))
      else if n = ''public_key'' then bind_res (json_string v) (\<lambda>s. Ok (c\<lparr>mp_PublicKey := s\<rparr>))
      else if n = ''preshared_key'' then bind_res (json_string v) (\<lambda>s. Ok (c\<lparr>mp_PresharedKey := s\<rparr>))
      else if n = ''allowed_ips'' then bind_res (json_strings (mp_AllowedIPs c) v) (\<lambda>l. Ok (c\<lparr>mp_AllowedIPs := l\<rparr>))
      else if n = ''endpoint'' then bind_res (json_string v) (\<lambda>s. Ok (c\<lparr>mp_Endpoint := s\<rparr>))
      else if n = ''plugin'' then bind_res (json_string v) (\<lambda>s. Ok (c\<lparr>mp_Plugin := s\<rparr>))
      else if n = ''protocol'' then bind_res (json_string v) (\<lambda>s. Ok (c\<lparr>mp_Protocol := s\<rparr>))
      else bind_res (json_int v) (\<lambda>i. Ok (c\<lparr>mp_PersistentKeepalive := i\<rparr>)))"

definition set_plugin :: "(string \<Rightarrow> duration) \<Rightarrow> string \<Rightarrow> json \<Rightarrow> pluginDef \<Rightarrow> pluginDef res" where
  "set_plugin num n v c =
     (if n = ''instance'' then bind_res (json_string v) (\<lambda>s. Ok (c\<lparr>pd_Instance := s\<rparr>))
      else if n = ''type'' then bind_res (json_string v) (\<lambda>s. Ok (c\<lparr>pd_Type := s\<rparr>))
      else if n = ''name'' then bind_res (json_string v) (\<lambda>s. Ok (c\<lparr>pd_Name := s\<rparr>))
      else (case v of
              JObj ms \<Rightarrow> Ok (c\<lparr>pd_Config := json_entries num ms @ filter (\<lambda>(k, _). k \<notin> fst ` set ms) (pd_Config c)\<rparr>)
            | _ \<Rightarrow> Err err_schema))"

definition zero_peer :: peerConfig where
  "zero_peer = \<lparr>mp_Name = [], mp_Description = [], mp_PublicKey = [], mp_PresharedKey = [], mp_AllowedIPs = [],
     mp_Endpoint = [], mp_Plugin = [], mp_Protocol = [], mp_PersistentKeepalive = 0\<rparr>"

definition zero_plugin :: pluginDef where
  "zero_plugin = \<lparr>pd_Instance = [], pd_Type = [], pd_Name = [], pd_Config = []\<rparr>"

definition iface_fields :: "string list" where
  "iface_fields = [''private_key'', ''addresses'', ''dns_servers'', ''listen_port'', ''mtu'', ''protocol'']"
definition peer_fields :: "string list" where
  "peer_fields = [''name'', ''description'', ''public_key'', ''preshared_key'', ''allowed_ips'', ''endpoint'', ''plugin'',
     ''protocol'', ''persistent_keepalive'']"
definition plugin_fields :: "string list" where "plugin_fields = [''instance'', ''type'', ''name'', ''config'']"
definition tunnel_fields :: "string list" where
  "tunnel_fields = [''id'', ''name'', ''interface'', ''peers'', ''plugins'', ''stun'', ''refresh_interval_seconds'', ''log'']"

definition set_tunnel :: "unicode \<Rightarrow> (string \<Rightarrow> duration) \<Rightarrow> string \<Rightarrow> json \<Rightarrow> tunnelConfig \<Rightarrow> tunnelConfig res" where
  "set_tunnel u num n v c =
     (if n = ''id'' then bind_res (json_string v) (\<lambda>s. Ok (c\<lparr>tc_ID := s\<rparr>))
      else if n = ''name'' then bind_res (json_string v) (\<lambda>s. Ok (c\<lparr>tc_Name := s\<rparr>))
      else if n = ''interface'' then
        bind_res (json_struct u iface_fields set_iface (tc_Interface c) v) (\<lambda>i. Ok (c\<lparr>tc_Interface := i\<rparr>))
      else if n = ''peers'' then
        bind_res (json_slice (json_struct u peer_fields set_peer) zero_peer (tc_Peers c) v) (\<lambda>l. Ok (c\<lparr>tc_Peers := l\<rparr>))
      else if n = ''plugins'' then
        bind_res (json_slice (json_struct u plugin_fields (set_plugin num)) zero_plugin (tc_Plugins c) v) (\<lambda>l. Ok (c\<lparr>tc_Plugins := l\<rparr>))
      else if n = ''stun'' then
        bind_res (json_struct u [''addresses''] (\<lambda>_ v l. json_strings l v) (tc_StunAddresses c) v) (\<lambda>l. Ok (c\<lparr>tc_StunAddresses := l\<rparr>))
      else if n = ''refresh_interval_seconds'' then bind_res (json_int v) (\<lambda>i. Ok (c\<lparr>tc_RefreshIntervalSeconds := i\<rparr>))
      else bind_res (json_struct u [''level''] (\<lambda>_ v _. json_string v) (tc_LogLevel c) v) (\<lambda>s. Ok (c\<lparr>tc_LogLevel := s\<rparr>)))"

definition default_tunnel :: tunnelConfig where
  "default_tunnel = \<lparr>tc_ID = [], tc_Name = [],
     tc_Interface = \<lparr>ic_PrivateKey = [], ic_Addresses = [], ic_DNSServers = [], ic_ListenPort = 0, ic_MTU = 1420, ic_Protocol = []\<rparr>,
     tc_Peers = [], tc_Plugins = [], tc_StunAddresses = [], tc_RefreshIntervalSeconds = 180, tc_LogLevel = []\<rparr>"

section \<open>The device's configuration text (uapi.go)\<close>

definition keyToBytes :: "string \<Rightarrow> byte list res" where "keyToBytes b64 = Key b64"

definition keyToHex :: "string \<Rightarrow> string res" where
  "keyToHex b64 = bind_res (Key b64) (\<lambda>raw. Ok (hex_encode raw))"

definition nl :: string where "nl = [CHR 0x0A]"

fun allowed_lines :: "string list \<Rightarrow> string res" where
  "allowed_lines [] = Ok []"
| "allowed_lines (cidr # cidrs) =
     bind_res (ServiceRoute cidr) (\<lambda>r.
     bind_res (allowed_lines cidrs) (\<lambda>rest. Ok (''allowed_ip='' @ prefix_String r @ nl @ rest)))"

definition peer_text :: "byte list \<Rightarrow> peerConfig \<Rightarrow> string res" where
  "peer_text pub p =
     (if mp_PersistentKeepalive p < 0 \<or> 65535 < mp_PersistentKeepalive p \<or> MaxRoutes < length (mp_AllowedIPs p)
      then Err (ErrNew ''invalid keepalive or route count'')
      else bind_res (if mp_PresharedKey p \<noteq> [] then bind_res (keyToHex (mp_PresharedKey p)) (\<lambda>h. Ok (''preshared_key='' @ h @ nl)) else Ok []) (\<lambda>psk.
      bind_res (if mp_Endpoint p \<noteq> [] then bind_res (Endpoint (mp_Endpoint p)) (\<lambda>ep. Ok (''endpoint='' @ addrport_String ep @ nl)) else Ok []) (\<lambda>endpoint.
      bind_res (allowed_lines (mp_AllowedIPs p)) (\<lambda>routes.
      Ok (''public_key='' @ hex_encode pub @ nl @ psk @ endpoint
          @ (if 0 < mp_PersistentKeepalive p then ''persistent_keepalive_interval='' @ Itoa (mp_PersistentKeepalive p) @ nl else [])
          @ ''replace_allowed_ips=true'' @ nl @ routes)))))"

fun peers_lines :: "byte list set \<Rightarrow> peerConfig list \<Rightarrow> string res" where
  "peers_lines seen [] = Ok []"
| "peers_lines seen (p # ps) =
     bind_res (PublicKey (mp_PublicKey p)) (\<lambda>pub.
     if pub \<in> seen then Err (ErrNew ''duplicate peer public key'')
     else bind_res (peer_text pub p) (\<lambda>lines.
     bind_res (peers_lines (insert pub seen) ps) (\<lambda>rest. Ok (lines @ rest))))"

text \<open>The configuration is \<open>None\<close> for a nil pointer.\<close>

definition buildUAPI :: "tunnelConfig option \<Rightarrow> string res" where
  "buildUAPI c = (case c of
      None \<Rightarrow> Err (ErrNew ''invalid interface port or peer count'')
    | Some cfg \<Rightarrow>
        let i = tc_Interface cfg in
        if ic_ListenPort i < 0 \<or> 65535 < ic_ListenPort i \<or> MaxPeers < length (tc_Peers cfg)
        then Err (ErrNew ''invalid interface port or peer count'')
        else bind_res (keyToHex (ic_PrivateKey i)) (\<lambda>privHex.
        bind_res (peers_lines {} (tc_Peers cfg)) (\<lambda>ps.
        Ok (''private_key='' @ privHex @ nl
            @ (if 0 < ic_ListenPort i then ''listen_port='' @ Itoa (ic_ListenPort i) @ nl else [])
            @ ''replace_peers=true'' @ nl @ ps))))"

definition buildPeerEndpointUAPI :: "string \<Rightarrow> string \<Rightarrow> string res" where
  "buildPeerEndpointUAPI publicKeyB64 endpoint =
     bind_res (PublicKey publicKeyB64) (\<lambda>pub.
     bind_res (Endpoint endpoint) (\<lambda>ep.
     Ok (''public_key='' @ hex_encode pub @ nl @ ''update_only=true'' @ nl @ ''endpoint='' @ addrport_String ep @ nl)))"

section \<open>Reading a configuration\<close>

text \<open>The store definitions, with the instances seen so far; the result are all instances.\<close>

definition store_conf :: "pluginDef \<Rightarrow> plugin_config" where
  "store_conf d = (''name'', YString (pd_Name d)) # pd_Config d"

fun check_stores :: "(string \<Rightarrow> url res) \<Rightarrow> (string \<Rightarrow> duration res) \<Rightarrow> string set \<Rightarrow> pluginDef list \<Rightarrow> string set res" where
  "check_stores urlParse parseDuration stores [] = Ok stores"
| "check_stores urlParse parseDuration stores (d # ds) =
     (if pd_Instance d = [] \<or> pd_Instance d \<in> stores \<or> 128 < length (pd_Instance d)
      then Err (ErrNew ''invalid or duplicate store instance'')
      else if map_of (pd_Config d) ''name'' \<noteq> None then Err (ErrNew ''store name must not be overridden'')
      else bind_res (ValidateDefinition \<lparr>def_Type = pd_Type d, def_Config = store_conf d\<rparr>) (\<lambda>_.
      bind_res (NewOpenDHTPlugin urlParse parseDuration (store_conf d)) (\<lambda>_.
      check_stores urlParse parseDuration (insert (pd_Instance d) stores) ds)))"

fun check_peers :: "string set \<Rightarrow> string set \<Rightarrow> nat \<Rightarrow> peerConfig list \<Rightarrow> unit res" where
  "check_peers stores seen i [] = Ok ()"
| "check_peers stores seen i (p # ps) =
     (if mp_Plugin p \<noteq> [] \<and> mp_Plugin p \<notin> stores then Err (ErrNew ''unknown peer store'')
      else bind_res (wrap_err (''peer '' @ dec i @ '' public_key'') (PublicKey (mp_PublicKey p))) (\<lambda>_.
      if mp_PublicKey p \<in> seen then Err (ErrNew ''duplicate peer public key'')
      else bind_res (if mp_PresharedKey p \<noteq> []
                     then bind_res (wrap_err (''peer '' @ dec i @ '' preshared_key'') (keyToHex (mp_PresharedKey p))) (\<lambda>_. Ok ())
                     else Ok ()) (\<lambda>_.
      check_peers stores (insert (mp_PublicKey p) seen) (i + 1) ps)))"

fun check_protocols :: "nat \<Rightarrow> peerConfig list \<Rightarrow> unit res" where
  "check_protocols i [] = Ok ()"
| "check_protocols i (p # ps) =
     (if mp_Protocol p \<noteq> [] \<and> mp_Protocol p \<notin> {''ipv4'', ''ipv6'', ''prefer_ipv4'', ''prefer_ipv6''}
      then Err (ErrNew (''invalid protocol for peer '' @ dec i)) else check_protocols (i + 1) ps)"

definition zero_key_text :: string where "zero_key_text = replicate 43 (CHR ''A'') @ ''=''"

definition check_tunnel :: "(string \<Rightarrow> url res) \<Rightarrow> (string \<Rightarrow> duration res) \<Rightarrow> tunnelConfig \<Rightarrow> tunnelConfig res" where
  "check_tunnel urlParse parseDuration cfg =
     (let i = tc_Interface cfg; dash = [CHR 0xE2, CHR 0x80, CHR 0x93] in
      if ic_PrivateKey i = [] \<or> ic_PrivateKey i = zero_key_text then Err (ErrNew ''interface.private_key is required'')
      else bind_res (wrap_err ''interface.private_key'' (keyToHex (ic_PrivateKey i))) (\<lambda>_.
      if MaxPeers < length (tc_Peers cfg) \<or> MaxStores < length (tc_Plugins cfg) \<or> MaxServers < length (tc_StunAddresses cfg)
      then Err (ErrNew ''too many peers, stores or STUN servers'')
      else if tc_RefreshIntervalSeconds cfg < 60 \<or> 240 < tc_RefreshIntervalSeconds cfg
      then Err (ErrNew (''refresh interval must be within 60'' @ dash @ ''240 seconds''))
      else if ic_MTU i < 1280 \<or> 1500 < ic_MTU i then Err (ErrNew (''MTU must be within 1280'' @ dash @ ''1500''))
      else if MaxRoutes < length (ic_Addresses i) \<or> MaxServers < length (ic_DNSServers i)
      then Err (ErrNew ''too many interface addresses or DNS servers'')
      else bind_res (validate_each (\<lambda>a. replace_err (bind_res (Prefix_v a) (\<lambda>_. Ok ())) (ErrNew ''invalid interface address'')) (ic_Addresses i)) (\<lambda>_.
      bind_res (check_stores urlParse parseDuration {} (tc_Plugins cfg)) (\<lambda>stores.
      bind_res (check_peers stores {} 0 (tc_Peers cfg)) (\<lambda>_.
      if ic_Protocol i \<noteq> [] \<and> ic_Protocol i \<notin> {''ipv4'', ''ipv6'', ''dualstack''} then Err (ErrNew ''invalid interface protocol'')
      else bind_res (check_protocols 0 (tc_Peers cfg)) (\<lambda>_.
      let cfg1 = (if ic_Protocol i = [] then cfg\<lparr>tc_Interface := i\<lparr>ic_Protocol := ''ipv4''\<rparr>\<rparr> else cfg);
          cfg2 = (if tc_StunAddresses cfg1 = [] then cfg1\<lparr>tc_StunAddresses := [defaultStunServer]\<rparr> else cfg1)
      in bind_res (validate_each Server (tc_StunAddresses cfg2)) (\<lambda>_.
      bind_res (buildUAPI (Some cfg2)) (\<lambda>_. Ok cfg2))))))))"

definition parseConfig ::
  "unicode \<Rightarrow> (string \<Rightarrow> url res) \<Rightarrow> (string \<Rightarrow> duration res) \<Rightarrow> (string \<Rightarrow> duration) \<Rightarrow> string \<Rightarrow> tunnelConfig res" where
  "parseConfig u urlParse parseDuration num configJSON =
     bind_res (DecodeJSON u (json_struct u tunnel_fields (set_tunnel u num) default_tunnel) configJSON)
       (check_tunnel urlParse parseDuration)"

section \<open>Keys (keys.go)\<close>

text \<open>\<open>public\<close> is the WireGuard library's public key of a private one, \<open>generated\<close> its key generator's answer.\<close>

definition GeneratePrivateKey :: "byte list res \<Rightarrow> string res" where
  "GeneratePrivateKey generated = bind_res (replace_err generated (ErrNew ''key generation failed'')) (\<lambda>k. Ok (b64_encode k))"

definition mobile_PublicKey :: "(byte list \<Rightarrow> byte list) \<Rightarrow> string \<Rightarrow> string res" where
  "mobile_PublicKey public private =
     bind_res (replace_err (keyToBytes private) (ErrNew ''invalid local key'')) (\<lambda>raw. Ok (b64_encode (public raw)))"

definition mobile_ValidateConfig ::
  "unicode \<Rightarrow> (string \<Rightarrow> url res) \<Rightarrow> (string \<Rightarrow> duration res) \<Rightarrow> (string \<Rightarrow> duration) \<Rightarrow> string \<Rightarrow> unit res" where
  "mobile_ValidateConfig u urlParse parseDuration num text = bind_res (parseConfig u urlParse parseDuration num text) (\<lambda>_. Ok ())"

definition ValidatePublicKey :: "string \<Rightarrow> unit res" where
  "ValidatePublicKey key = bind_res (PublicKey key) (\<lambda>_. Ok ())"

section \<open>Reading the configuration text back\<close>

text \<open>The protocol's line format: each line is a name, an equals sign and a value.\<close>

datatype uapi_item =
    PrivateKeyItem "byte list" | ListenPortItem int | ReplacePeers | PublicKeyItem "byte list" | UpdateOnly
  | PresharedKeyItem "byte list" | EndpointItem addrport | KeepaliveItem int | ReplaceAllowedIPs | AllowedIPItem prefix

definition ok_opt :: "'a res \<Rightarrow> 'a option" where
  "ok_opt r = (case r of Ok x \<Rightarrow> Some x | _ \<Rightarrow> None)"

definition uapi_item :: "string \<Rightarrow> string \<Rightarrow> uapi_item option" where
  "uapi_item k v =
     (if k = ''private_key'' then map_option PrivateKeyItem (ok_opt (hex_decode v))
      else if k = ''listen_port'' then map_option ListenPortItem (ok_opt (Atoi v))
      else if k = ''replace_peers'' then (if v = ''true'' then Some ReplacePeers else None)
      else if k = ''public_key'' then map_option PublicKeyItem (ok_opt (hex_decode v))
      else if k = ''update_only'' then (if v = ''true'' then Some UpdateOnly else None)
      else if k = ''preshared_key'' then map_option PresharedKeyItem (ok_opt (hex_decode v))
      else if k = ''endpoint'' then map_option EndpointItem (ok_opt (ParseAddrPort v))
      else if k = ''persistent_keepalive_interval'' then map_option KeepaliveItem (ok_opt (Atoi v))
      else if k = ''replace_allowed_ips'' then (if v = ''true'' then Some ReplaceAllowedIPs else None)
      else if k = ''allowed_ip'' then map_option AllowedIPItem (ok_opt (ParsePrefix v))
      else None)"

definition uapi_line :: "string \<Rightarrow> uapi_item option" where
  "uapi_line l = (case cut (CHR ''='') l of None \<Rightarrow> None | Some (k, v) \<Rightarrow> uapi_item k v)"

definition uapi_read :: "string \<Rightarrow> uapi_item list option" where
  "uapi_read s = (let ls = Split (CHR 0x0A) s in if last ls = [] then those (map uapi_line (butlast ls)) else None)"

text \<open>What the device should be told.\<close>

fun the_Ok :: "'a res \<Rightarrow> 'a" where
  "the_Ok (Ok x) = x"

definition peer_items :: "peerConfig \<Rightarrow> uapi_item list" where
  "peer_items p =
     [PublicKeyItem (the_Ok (PublicKey (mp_PublicKey p)))]
     @ (if mp_PresharedKey p = [] then [] else [PresharedKeyItem (the_Ok (Key (mp_PresharedKey p)))])
     @ (if mp_Endpoint p = [] then [] else [EndpointItem (the_Ok (Endpoint (mp_Endpoint p)))])
     @ (if mp_PersistentKeepalive p = 0 then [] else [KeepaliveItem (mp_PersistentKeepalive p)])
     @ [ReplaceAllowedIPs] @ map (\<lambda>c. AllowedIPItem (the_Ok (ServiceRoute c))) (mp_AllowedIPs p)"

definition device_items :: "tunnelConfig \<Rightarrow> uapi_item list" where
  "device_items cfg =
     [PrivateKeyItem (the_Ok (Key (ic_PrivateKey (tc_Interface cfg))))]
     @ (if ic_ListenPort (tc_Interface cfg) = 0 then [] else [ListenPortItem (ic_ListenPort (tc_Interface cfg))])
     @ [ReplacePeers] @ concat (map peer_items (tc_Peers cfg))"

text \<open>A piece of text that reads as these items, whatever follows.\<close>

definition reads :: "string \<Rightarrow> uapi_item list \<Rightarrow> bool" where
  "reads t is \<longleftrightarrow> (\<forall>s. uapi_read (t @ s) = map_option ((@) is) (uapi_read s))"

lemma Split_ne_Nil [simp]: "Split c s \<noteq> []"
  by (cases s) (auto split: list.splits)

lemma readsI:
  assumes "CHR 0x0A \<notin> set v" "uapi_item k v = Some i" "CHR ''='' \<notin> set k" "CHR 0x0A \<notin> set k" "t = k @ ''='' @ v @ nl"
  shows "reads t [i]"
proof -
  let ?l = "k @ CHR ''='' # v"
  have s: "Split (CHR 0x0A) (?l @ CHR 0x0A # s) = ?l # Split (CHR 0x0A) s" for s
    by (rule Split_append) (use assms(1,4) in auto)
  have l: "uapi_line ?l = Some i" using assms(2) cut_append[OF assms(3)] by (simp add: uapi_line_def)
  have "uapi_read (t @ s) = map_option ((@) [i]) (uapi_read s)" for s
    using s[of s] l
    by (cases "those (map uapi_line (butlast (Split (CHR 0x0A) s)))") (auto simp: assms(5) nl_def uapi_read_def Let_def)
  then show ?thesis by (simp add: reads_def)
qed

lemma reads_Nil: "reads [] []"
  unfolding reads_def
proof
  show "uapi_read ([] @ s) = map_option ((@) []) (uapi_read s)" for s by (cases "uapi_read s") auto
qed

lemma reads_append: "reads t is \<Longrightarrow> reads t' is' \<Longrightarrow> reads (t @ t') (is @ is')"
proof -
  assume t: "reads t is" "reads t' is'"
  have "uapi_read ((t @ t') @ s) = map_option ((@) (is @ is')) (uapi_read s)" for s
    using t by (cases "uapi_read s") (auto simp: reads_def)
  then show ?thesis by (simp add: reads_def)
qed

lemma uapi_read_Nil: "uapi_read [] = Some []"
  by (simp add: uapi_read_def)

lemma reads_whole: "reads t is \<Longrightarrow> uapi_read t = Some is"
  using uapi_read_Nil by (fastforce simp: reads_def dest: spec[of _ "[]"])

text \<open>The printed values contain no line break and read back.\<close>

lemma newline_not_ep: "ep_text s \<Longrightarrow> CHR 0x0A \<notin> set s"
  by (auto simp: ep_text_def ep_char_def hex_val_def)

lemma hex_encode_ep: "ep_text (hex_encode bs)"
proof -
  have "ep_char (hex_char (unat b div 16))" "ep_char (hex_char (unat b mod 16))" for b :: byte
    using unat_byte_lt[of b] by (simp_all add: ep_char_def less_mult_imp_div_less)
  then show ?thesis by (induction bs) (auto simp: hex_encode_def ep_text_def)
qed

lemma dec_ep: "ep_text (dec n)"
  using set_dec[of _ n] digit_val_ep_text by (fastforce simp: ep_text_def)

lemma Itoa_ep: "0 \<le> i \<Longrightarrow> ep_text (Itoa i)"
  by (simp add: Itoa_def dec_ep)

lemma Atoi_Itoa: "0 \<le> i \<Longrightarrow> i < 2 ^ 63 \<Longrightarrow> Atoi (Itoa i) = Ok i"
  using Atoi_dec[of "nat i"] by (simp add: Itoa_def nat_less_iff)

lemma addr_String_ep: "plain_addr a \<Longrightarrow> ep_text (addr_String a)"
  using ParseAddr_ep_text[OF ParseAddr_addr_String[of a]] by (simp add: plain_addr_def)

lemma addrport_String_ep: "plain_addr (ap_addr ap) \<Longrightarrow> ep_text (addrport_String ap)"
  using addr_String_ep[of "ap_addr ap"] dec_ep
  by (cases ap) (auto simp: addrport_String_JoinHostPort JoinHostPort_def Itoa_def)

lemma ParsePrefix_prefix_String:
  assumes "plain_addr (pfx_addr p)" "0 \<le> pfx_bits p" "pfx_bits p \<le> int (BitLen (pfx_addr p))"
  shows "ParsePrefix (prefix_String p) = Ok p"
proof -
  have bl: "BitLen (pfx_addr p) = (if Is6 (pfx_addr p) then 128 else 32)" using assms(1) by (cases "pfx_addr p") (auto simp: plain_addr_def)
  obtain n where n: "pfx_bits p = int n" "n \<le> 128" using assms(2,3) bl by (cases "pfx_bits p") (auto split: if_splits)
  have sl: "split_last (CHR ''/'') (prefix_String p) = Some (addr_String (pfx_addr p), dec n)"
    using split_last_append[of "CHR ''/''" "dec n" "addr_String (pfx_addr p)"] dec_no_sep[of n] n(1) dec_ep[of n]
    by (auto simp: prefix_String_def Itoa_def ep_text_def ep_char_def hex_val_def)
  have hd: "1 < length (dec n) \<Longrightarrow> \<not> (hd (dec n) < CHR ''1'' \<or> CHR ''9'' < hd (dec n))"
  proof -
    have "list_all (\<lambda>n. 1 < length (dec n) \<longrightarrow> \<not> (hd (dec n) < CHR ''1'' \<or> CHR ''9'' < hd (dec n))) [0..<129]" by code_simp
    then show "1 < length (dec n) \<Longrightarrow> ?thesis" using n(2) by (simp add: list_all_iff)
  qed
  have at: "Atoi (dec n) = Ok (int n)" using Atoi_dec[of n] n(2) by simp
  have "without_zone (pfx_addr p) = pfx_addr p" using assms(1) by (cases "pfx_addr p") (auto simp: plain_addr_def)
  then show ?thesis
    using assms sl hd at n bl by (cases p) (auto simp: ParsePrefix_def plain_addr_def PrefixFrom_def)
qed

lemma plain_masked:
  assumes "plain_addr a" "b \<le> BitLen a" "Is6 a \<longrightarrow> 64 \<le> b"
  shows "plain_addr (mask_addr a b)"
proof (cases a)
  case (V6 w z)
  let ?k = "128 - b"
  let ?m = "unat w div 2 ^ ?k * 2 ^ ?k"
  have "unat w < 2 ^ 128" using unsigned_less[of w, where ?'a = nat] by simp
  then have lt: "?m < 2 ^ 128" using div_times_less_eq_dividend[of "unat w" "2 ^ ?k"] by linarith
  have "x < 2 ^ 128 \<Longrightarrow> unat (word_of_nat x :: 128 word) = x" for x by (simp add: unat_of_nat take_bit_eq_mod)
  from this[OF lt] have u: "unat (word_of_nat ?m :: 128 word) = ?m" .
  have "?m div 2 ^ 32 \<noteq> 65535"
  proof (cases "96 \<le> b")
    case True
    then have k: "2 ^ 32 = (2 ^ ?k :: nat) * 2 ^ (32 - ?k)" by (simp add: power_add[symmetric])
    have "?m div 2 ^ 32 = unat w div 2 ^ 32" unfolding k by (simp add: div_mult2_eq)
    then show ?thesis using assms(1) V6 by (simp add: plain_addr_def)
  next
    case False
    then have "?k = 32 + (?k - 32)" by simp
    then have k: "(2 ^ ?k :: nat) = 2 ^ 32 * 2 ^ (?k - 32)" by (metis power_add)
    have "?m div 2 ^ 32 = unat w div 2 ^ ?k * 2 ^ (?k - 32)" by (subst (2) k) simp
    moreover have "even (unat w div 2 ^ ?k * 2 ^ (?k - 32))" using False by simp
    ultimately show ?thesis by (metis odd_numeral)
  qed
  then show ?thesis using V6 u by (simp add: plain_addr_def del: of_nat_mult)
qed (use assms in \<open>auto simp: plain_addr_def\<close>)

lemma ServiceRoute_plain:
  assumes "ServiceRoute text = Ok r"
  shows "plain_addr (pfx_addr r)" "0 \<le> pfx_bits r" "pfx_bits r \<le> int (BitLen (pfx_addr r))"
proof -
  obtain q where q: "Prefix_v text = Ok q" "r = prefix_Masked q" "(if Is4 (pfx_addr q) then 24 else 64) \<le> pfx_bits q"
    using assms by (auto simp: ServiceRoute_def Let_def split: if_splits)
  note w = Prefix_v_wf[OF q(1)]
  have r: "pfx_addr r = mask_addr (pfx_addr q) (nat (pfx_bits q))" "pfx_bits r = pfx_bits q"
    using w q(2) by (auto simp: prefix_Masked_def)
  show "plain_addr (pfx_addr r)"
    unfolding r
  proof (rule plain_masked)
    show "plain_addr (pfx_addr q)" "nat (pfx_bits q) \<le> BitLen (pfx_addr q)" using w by (auto simp: plain_addr_def)
    show "Is6 (pfx_addr q) \<longrightarrow> 64 \<le> nat (pfx_bits q)" using q(3) by (cases "pfx_addr q") auto
  qed
  show "0 \<le> pfx_bits r" "pfx_bits r \<le> int (BitLen (pfx_addr r))" using w r by auto
qed

lemma reads_key: "reads (''private_key='' @ hex_encode k @ nl) [PrivateKeyItem k]" "reads (''public_key='' @ hex_encode k @ nl) [PublicKeyItem k]"
  "reads (''preshared_key='' @ hex_encode k @ nl) [PresharedKeyItem k]"
  by (rule readsI[of "hex_encode k" "''private_key''"] readsI[of "hex_encode k" "''public_key''"] readsI[of "hex_encode k" "''preshared_key''"];
      simp add: newline_not_ep hex_encode_ep uapi_item_def ok_opt_def)+

lemma reads_number: "0 \<le> i \<Longrightarrow> i \<le> 65535 \<Longrightarrow> reads (''listen_port='' @ Itoa i @ nl) [ListenPortItem i]"
  "0 \<le> i \<Longrightarrow> i \<le> 65535 \<Longrightarrow> reads (''persistent_keepalive_interval='' @ Itoa i @ nl) [KeepaliveItem i]"
  by (rule readsI[of "Itoa i" "''listen_port''"] readsI[of "Itoa i" "''persistent_keepalive_interval''"];
      simp add: newline_not_ep Itoa_ep uapi_item_def ok_opt_def Atoi_Itoa)+

lemma reads_flag: "reads (''replace_peers=true'' @ nl) [ReplacePeers]" "reads (''update_only=true'' @ nl) [UpdateOnly]"
  "reads (''replace_allowed_ips=true'' @ nl) [ReplaceAllowedIPs]"
  by (rule readsI[of "''true''" "''replace_peers''"] readsI[of "''true''" "''update_only''"] readsI[of "''true''" "''replace_allowed_ips''"];
      simp add: uapi_item_def)+

lemma reads_endpoint: "Endpoint text = Ok ep \<Longrightarrow> reads (''endpoint='' @ addrport_String ep @ nl) [EndpointItem ep]"
  using Endpoint_plain[of "text" ep] ParseAddrPort_addrport_String[of "ap_addr ep" "ap_port ep"] addrport_String_ep[of ep]
  by (intro readsI[of "addrport_String ep" "''endpoint''"]) (simp_all add: newline_not_ep uapi_item_def ok_opt_def)

lemma reads_route: "ServiceRoute text = Ok r \<Longrightarrow> reads (''allowed_ip='' @ prefix_String r @ nl) [AllowedIPItem r]"
proof -
  assume s: "ServiceRoute text = Ok r"
  have "CHR 0x0A \<notin> set (prefix_String r)"
    using ServiceRoute_plain[OF s] newline_not_ep[OF addr_String_ep] newline_not_ep[OF Itoa_ep] by (auto simp: prefix_String_def)
  then show ?thesis
    using ParsePrefix_prefix_String[OF ServiceRoute_plain[OF s]]
    by (intro readsI[of "prefix_String r" "''allowed_ip''"]) (simp_all add: uapi_item_def ok_opt_def)
qed

lemma reads_allowed:
  "allowed_lines cs = Ok t \<Longrightarrow> reads t (map (\<lambda>c. AllowedIPItem (the_Ok (ServiceRoute c))) cs) \<and> (\<forall>c\<in>set cs. is_Ok (ServiceRoute c))"
proof (induction cs arbitrary: t)
  case (Cons c cs)
  then obtain r rest where r: "ServiceRoute c = Ok r" "allowed_lines cs = Ok rest" "t = (''allowed_ip='' @ prefix_String r @ nl) @ rest"
    by auto
  show ?case using reads_append[OF reads_route[OF r(1)] conjunct1[OF Cons.IH[OF r(2)]]] r Cons.IH[OF r(2)] by simp
qed (simp add: reads_Nil)

text \<open>A peer that the printer accepts.\<close>

definition peer_printable :: "peerConfig \<Rightarrow> bool" where
  "peer_printable p \<longleftrightarrow> is_Ok (PublicKey (mp_PublicKey p)) \<and> (mp_PresharedKey p \<noteq> [] \<longrightarrow> is_Ok (Key (mp_PresharedKey p)))
     \<and> (mp_Endpoint p \<noteq> [] \<longrightarrow> is_Ok (Endpoint (mp_Endpoint p))) \<and> 0 \<le> mp_PersistentKeepalive p \<and> mp_PersistentKeepalive p \<le> 65535
     \<and> length (mp_AllowedIPs p) \<le> MaxRoutes \<and> (\<forall>c\<in>set (mp_AllowedIPs p). is_Ok (ServiceRoute c))"

lemma reads_peer:
  assumes "PublicKey (mp_PublicKey p) = Ok pub" "peer_text pub p = Ok t"
  shows "reads t (peer_items p) \<and> peer_printable p"
proof -
  obtain psk endpoint routes where k: "0 \<le> mp_PersistentKeepalive p" "mp_PersistentKeepalive p \<le> 65535" "length (mp_AllowedIPs p) \<le> MaxRoutes"
    and psk: "(if mp_PresharedKey p \<noteq> [] then bind_res (keyToHex (mp_PresharedKey p)) (\<lambda>h. Ok (''preshared_key='' @ h @ nl)) else Ok []) = Ok psk"
    and ep: "(if mp_Endpoint p \<noteq> [] then bind_res (Endpoint (mp_Endpoint p)) (\<lambda>ep. Ok (''endpoint='' @ addrport_String ep @ nl)) else Ok []) = Ok endpoint"
    and ro: "allowed_lines (mp_AllowedIPs p) = Ok routes"
    and t: "t = (''public_key='' @ hex_encode pub @ nl) @ psk @ endpoint
        @ (if 0 < mp_PersistentKeepalive p then ''persistent_keepalive_interval='' @ Itoa (mp_PersistentKeepalive p) @ nl else [])
        @ (''replace_allowed_ips=true'' @ nl) @ routes"
    using assms(2) by (auto simp: peer_text_def split: if_splits)
  have a: "reads psk (if mp_PresharedKey p = [] then [] else [PresharedKeyItem (the_Ok (Key (mp_PresharedKey p)))]) \<and>
      (mp_PresharedKey p \<noteq> [] \<longrightarrow> is_Ok (Key (mp_PresharedKey p)))"
    using psk reads_key(3) reads_Nil by (auto simp: keyToHex_def split: if_splits)
  have b: "reads endpoint (if mp_Endpoint p = [] then [] else [EndpointItem (the_Ok (Endpoint (mp_Endpoint p)))]) \<and>
      (mp_Endpoint p \<noteq> [] \<longrightarrow> is_Ok (Endpoint (mp_Endpoint p)))"
    using ep reads_endpoint reads_Nil by (auto split: if_splits)
  have c: "reads (if 0 < mp_PersistentKeepalive p then ''persistent_keepalive_interval='' @ Itoa (mp_PersistentKeepalive p) @ nl else [])
      (if mp_PersistentKeepalive p = 0 then [] else [KeepaliveItem (mp_PersistentKeepalive p)])"
    using reads_number(2)[OF k(1,2)] reads_Nil k(1) by auto
  note d = reads_allowed[OF ro]
  have "reads t (peer_items p)"
    unfolding t peer_items_def assms(1) the_Ok.simps
    by (intro reads_append reads_key reads_flag conjunct1[OF a] conjunct1[OF b] c conjunct1[OF d])
  then show ?thesis using a b d k assms(1) by (simp add: peer_printable_def)
qed

lemma reads_peers:
  "peers_lines seen ps = Ok t \<Longrightarrow> reads t (concat (map peer_items ps)) \<and> (\<forall>p\<in>set ps. peer_printable p)
     \<and> distinct (map (\<lambda>p. the_Ok (PublicKey (mp_PublicKey p))) ps) \<and> (\<forall>p\<in>set ps. the_Ok (PublicKey (mp_PublicKey p)) \<notin> seen)"
proof (induction ps arbitrary: seen t)
  case (Cons p ps)
  then obtain pub lines rest where l: "PublicKey (mp_PublicKey p) = Ok pub" "pub \<notin> seen" "peer_text pub p = Ok lines"
    "peers_lines (insert pub seen) ps = Ok rest" "t = lines @ rest"
    by (auto split: if_splits)
  note ih = Cons.IH[OF l(4)]
  show ?case using reads_append[OF conjunct1[OF reads_peer[OF l(1,3)]] conjunct1[OF ih]] reads_peer[OF l(1,3)] ih l by auto
qed (simp add: reads_Nil)

lemma buildUAPI_reads:
  assumes "buildUAPI (Some cfg) = Ok s"
  shows "uapi_read s = Some (device_items cfg)" "is_Ok (Key (ic_PrivateKey (tc_Interface cfg)))" "\<forall>p\<in>set (tc_Peers cfg). peer_printable p"
    "distinct (map (\<lambda>p. the_Ok (PublicKey (mp_PublicKey p))) (tc_Peers cfg))"
proof -
  from assms obtain k ps where b: "0 \<le> ic_ListenPort (tc_Interface cfg)" "ic_ListenPort (tc_Interface cfg) \<le> 65535"
    "Key (ic_PrivateKey (tc_Interface cfg)) = Ok k" "peers_lines {} (tc_Peers cfg) = Ok ps"
    "s = (''private_key='' @ hex_encode k @ nl)
        @ (if 0 < ic_ListenPort (tc_Interface cfg) then ''listen_port='' @ Itoa (ic_ListenPort (tc_Interface cfg)) @ nl else [])
        @ (''replace_peers=true'' @ nl) @ ps"
    by (auto simp: buildUAPI_def Let_def keyToHex_def split: if_splits)
  note p = reads_peers[OF b(4)]
  have "reads (if 0 < ic_ListenPort (tc_Interface cfg) then ''listen_port='' @ Itoa (ic_ListenPort (tc_Interface cfg)) @ nl else [])
      (if ic_ListenPort (tc_Interface cfg) = 0 then [] else [ListenPortItem (ic_ListenPort (tc_Interface cfg))])"
    using reads_number(1)[OF b(1,2)] reads_Nil b(1) by auto
  then have "reads s (device_items cfg)"
    unfolding b(5) device_items_def b(3) the_Ok.simps by (intro reads_append reads_key reads_flag conjunct1[OF p])
  then show "uapi_read s = Some (device_items cfg)" by (rule reads_whole)
  show "is_Ok (Key (ic_PrivateKey (tc_Interface cfg)))" using b(3) by simp
  show "\<forall>p\<in>set (tc_Peers cfg). peer_printable p" "distinct (map (\<lambda>p. the_Ok (PublicKey (mp_PublicKey p))) (tc_Peers cfg))" using p by blast+
qed

lemma buildPeerEndpointUAPI_reads:
  assumes "buildPeerEndpointUAPI key endpoint = Ok s"
  shows "\<exists>k ep. PublicKey key = Ok k \<and> Endpoint endpoint = Ok ep \<and> uapi_read s = Some [PublicKeyItem k, UpdateOnly, EndpointItem ep]"
proof -
  from assms obtain k ep where e: "PublicKey key = Ok k" "Endpoint endpoint = Ok ep"
    "s = (''public_key='' @ hex_encode k @ nl) @ (''update_only=true'' @ nl) @ (''endpoint='' @ addrport_String ep @ nl)"
    by (auto simp: buildPeerEndpointUAPI_def)
  have "reads s ([PublicKeyItem k] @ [UpdateOnly] @ [EndpointItem ep])"
    unfolding e(3) by (intro reads_append reads_key reads_flag reads_endpoint[OF e(2)])
  then show "\<exists>k ep. PublicKey key = Ok k \<and> Endpoint endpoint = Ok ep \<and> uapi_read s = Some [PublicKeyItem k, UpdateOnly, EndpointItem ep]"
    using e(1,2) reads_whole by fastforce
qed

text \<open>C21. The embedded device is told what the configuration says and nothing else. The text that is printed
  for a configuration reads back, line by line, as the private key, the port and, for each peer in turn,
  its key, preshared key, endpoint, keepalive and routes, as the validation functions understand them: no
  value can smuggle in a line. Each peer appears once. The text for an endpoint update names the peer,
  forbids creating it, and sets the endpoint.\<close>

theorem uapi_reads_back:
  "(buildUAPI (Some cfg) = Ok s \<longrightarrow>
      uapi_read s = Some (device_items cfg) \<and> is_Ok (Key (ic_PrivateKey (tc_Interface cfg))) \<and> (\<forall>p\<in>set (tc_Peers cfg). peer_printable p)
      \<and> distinct (map (\<lambda>p. the_Ok (PublicKey (mp_PublicKey p))) (tc_Peers cfg)))
    \<and> (buildPeerEndpointUAPI key endpoint = Ok s' \<longrightarrow>
      (\<exists>k ep. PublicKey key = Ok k \<and> Endpoint endpoint = Ok ep \<and> uapi_read s' = Some [PublicKeyItem k, UpdateOnly, EndpointItem ep]))"
  using buildUAPI_reads buildPeerEndpointUAPI_reads by blast

section \<open>What a configuration guarantees\<close>

lemma check_stores_Ok:
  assumes "check_stores urlParse parseDuration stores ds = Ok S"
  shows "S = stores \<union> pd_Instance ` set ds \<and> distinct (map pd_Instance ds) \<and> pd_Instance ` set ds \<inter> stores = {} \<and>
    (\<forall>d\<in>set ds. pd_Instance d \<noteq> [] \<and> length (pd_Instance d) \<le> 128 \<and> is_Ok (NewOpenDHTPlugin urlParse parseDuration (store_conf d)))"
  using assms
proof (induction ds arbitrary: stores)
  case (Cons d ds)
  then show ?case by (fastforce simp: is_Ok_iff split: if_splits)
qed simp

lemma check_peers_Ok:
  assumes "check_peers stores seen i ps = Ok ()"
  shows "distinct (map mp_PublicKey ps) \<and> mp_PublicKey ` set ps \<inter> seen = {} \<and> (\<forall>p\<in>set ps. mp_Plugin p = [] \<or> mp_Plugin p \<in> stores)"
  using assms
proof (induction ps arbitrary: seen i)
  case (Cons p ps)
  then show ?case by (fastforce split: if_splits)
qed simp

lemma check_protocols_Ok:
  "check_protocols i ps = Ok () \<Longrightarrow> \<forall>p\<in>set ps. mp_Protocol p \<in> {[], ''ipv4'', ''ipv6'', ''prefer_ipv4'', ''prefer_ipv6''}"
  by (induction ps arbitrary: i) (auto split: if_splits)

definition tunnel_ok :: "(string \<Rightarrow> url res) \<Rightarrow> (string \<Rightarrow> duration res) \<Rightarrow> tunnelConfig \<Rightarrow> bool" where
  "tunnel_ok urlParse parseDuration cfg \<longleftrightarrow>
     (let i = tc_Interface cfg in
      is_Ok (Key (ic_PrivateKey i)) \<and> ic_PrivateKey i \<noteq> zero_key_text \<and> 1280 \<le> ic_MTU i \<and> ic_MTU i \<le> 1500
      \<and> 0 \<le> ic_ListenPort i \<and> ic_ListenPort i \<le> 65535 \<and> ic_Protocol i \<in> {''ipv4'', ''ipv6'', ''dualstack''}
      \<and> length (ic_Addresses i) \<le> MaxRoutes \<and> (\<forall>a\<in>set (ic_Addresses i). is_Ok (Prefix_v a)) \<and> length (ic_DNSServers i) \<le> MaxServers)
     \<and> 60 \<le> tc_RefreshIntervalSeconds cfg \<and> tc_RefreshIntervalSeconds cfg \<le> 240
     \<and> tc_StunAddresses cfg \<noteq> [] \<and> length (tc_StunAddresses cfg) \<le> MaxServers \<and> (\<forall>s\<in>set (tc_StunAddresses cfg). is_Ok (Server s))
     \<and> length (tc_Plugins cfg) \<le> MaxStores \<and> distinct (map pd_Instance (tc_Plugins cfg))
     \<and> (\<forall>d\<in>set (tc_Plugins cfg). pd_Instance d \<noteq> [] \<and> length (pd_Instance d) \<le> 128 \<and> is_Ok (NewOpenDHTPlugin urlParse parseDuration (store_conf d)))
     \<and> length (tc_Peers cfg) \<le> MaxPeers \<and> distinct (map mp_PublicKey (tc_Peers cfg))
     \<and> (\<forall>p\<in>set (tc_Peers cfg). peer_printable p \<and> (mp_Plugin p = [] \<or> mp_Plugin p \<in> pd_Instance ` set (tc_Plugins cfg))
          \<and> mp_Protocol p \<in> {[], ''ipv4'', ''ipv6'', ''prefer_ipv4'', ''prefer_ipv6''})
     \<and> is_Ok (buildUAPI (Some cfg))"

lemma buildUAPI_Ok:
  assumes "buildUAPI (Some cfg) = Ok s"
  shows "0 \<le> ic_ListenPort (tc_Interface cfg) \<and> ic_ListenPort (tc_Interface cfg) \<le> 65535 \<and> (\<forall>p\<in>set (tc_Peers cfg). peer_printable p)
    \<and> length (tc_Peers cfg) \<le> MaxPeers"
  using assms reads_peers[of "{}" "tc_Peers cfg"] by (auto simp: buildUAPI_def Let_def split: if_splits)

text \<open>A guard that returns an error.\<close>

lemma guard_eq_Ok: "(if b then Err e else r) = Ok x \<longleftrightarrow> \<not> b \<and> r = Ok x"
  by simp

lemma check_tunnel_Ok:
  assumes "check_tunnel urlParse parseDuration cfg0 = Ok cfg"
  shows "tunnel_ok urlParse parseDuration cfg \<and> tc_Peers cfg = tc_Peers cfg0 \<and> tc_Plugins cfg = tc_Plugins cfg0"
proof -
  let ?i = "tc_Interface cfg0"
  obtain h stores s where c: "ic_PrivateKey ?i \<noteq> zero_key_text" "keyToHex (ic_PrivateKey ?i) = Ok h"
    "length (tc_Peers cfg0) \<le> MaxPeers" "length (tc_Plugins cfg0) \<le> MaxStores" "length (tc_StunAddresses cfg0) \<le> MaxServers"
    "60 \<le> tc_RefreshIntervalSeconds cfg0" "tc_RefreshIntervalSeconds cfg0 \<le> 240" "1280 \<le> ic_MTU ?i" "ic_MTU ?i \<le> 1500"
    "length (ic_Addresses ?i) \<le> MaxRoutes" "length (ic_DNSServers ?i) \<le> MaxServers"
    "validate_each (\<lambda>a. replace_err (bind_res (Prefix_v a) (\<lambda>_. Ok ())) (ErrNew ''invalid interface address'')) (ic_Addresses ?i) = Ok ()"
    "check_stores urlParse parseDuration {} (tc_Plugins cfg0) = Ok stores" "check_peers stores {} 0 (tc_Peers cfg0) = Ok ()"
    "check_protocols 0 (tc_Peers cfg0) = Ok ()" "\<not> (ic_Protocol ?i \<noteq> [] \<and> ic_Protocol ?i \<notin> {''ipv4'', ''ipv6'', ''dualstack''})"
    and d: "cfg = (let cfg1 = (if ic_Protocol ?i = [] then cfg0\<lparr>tc_Interface := ?i\<lparr>ic_Protocol := ''ipv4''\<rparr>\<rparr> else cfg0)
        in if tc_StunAddresses cfg1 = [] then cfg1\<lparr>tc_StunAddresses := [defaultStunServer]\<rparr> else cfg1)"
    and e: "validate_each Server (tc_StunAddresses cfg) = Ok ()" "buildUAPI (Some cfg) = Ok s"
    using assms unfolding check_tunnel_def Let_def guard_eq_Ok bind_res_eq_Ok wrap_err_Ok de_Morgan_disj not_less by force
  have f: "tc_Peers cfg = tc_Peers cfg0" "tc_Plugins cfg = tc_Plugins cfg0" "tc_RefreshIntervalSeconds cfg = tc_RefreshIntervalSeconds cfg0"
    "ic_PrivateKey (tc_Interface cfg) = ic_PrivateKey ?i" "ic_MTU (tc_Interface cfg) = ic_MTU ?i" "ic_Addresses (tc_Interface cfg) = ic_Addresses ?i"
    "ic_DNSServers (tc_Interface cfg) = ic_DNSServers ?i" "ic_Protocol (tc_Interface cfg) \<in> {''ipv4'', ''ipv6'', ''dualstack''}"
    "tc_StunAddresses cfg \<noteq> []" "length (tc_StunAddresses cfg) \<le> MaxServers"
    using c(5,16) by (auto simp: d Let_def MaxServers_def)
  have "\<forall>a\<in>set (ic_Addresses ?i). is_Ok (Prefix_v a)" using c(12) by (fastforce simp: validate_each_Ok is_Ok_iff)
  moreover have "\<forall>s\<in>set (tc_StunAddresses cfg). is_Ok (Server s)" using e(1) by (auto simp: validate_each_Ok)
  moreover have "is_Ok (Key (ic_PrivateKey ?i))" using c(2) by (auto simp: keyToHex_def)
  moreover note check_stores_Ok[OF c(13)] check_peers_Ok[OF c(14)] check_protocols_Ok[OF c(15)] buildUAPI_Ok[OF e(2)]
  ultimately show ?thesis using c(1-11) f e(2) unfolding tunnel_ok_def Let_def by auto
qed

lemma json_decoders_ne_Panic [simp]: "json_string v \<noteq> Panic" "json_int v \<noteq> Panic"
  by (simp_all add: json_string_def json_int_def split: json.splits)

lemma json_slice_ne_Panic: "(\<And>x v. decode x v \<noteq> Panic) \<Longrightarrow> json_slice decode zero old v \<noteq> Panic"
proof -
  assume d: "\<And>x v. decode x v \<noteq> Panic"
  have "decode_slice decode zero old vs \<noteq> Panic" for vs
    using d by (induction vs arbitrary: old) (auto simp: bind_res_eq_Panic)
  then show ?thesis by (simp add: json_slice_def split: json.splits)
qed

lemma json_struct_ne_Panic: "(\<And>n v r. set_field n v r \<noteq> Panic) \<Longrightarrow> json_struct u names set_field r v \<noteq> Panic"
  using decode_struct_ne_Panic[of set_field] by (simp add: json_struct_def split: json.splits)

lemma json_strings_ne_Panic [simp]: "json_strings old v \<noteq> Panic"
  by (simp add: json_strings_def json_slice_ne_Panic)

lemma setters_ne_Panic: "set_iface n v i \<noteq> Panic" "set_peer n v p \<noteq> Panic" "set_plugin num n v d \<noteq> Panic"
  by (simp_all add: set_iface_def set_peer_def set_plugin_def bind_res_eq_Panic split: json.splits)

lemma set_tunnel_ne_Panic: "set_tunnel u num n v c \<noteq> Panic"
proof -
  have s: "json_struct u names set_iface i v \<noteq> Panic" "json_struct u names set_peer p v \<noteq> Panic"
    "json_struct u names (set_plugin num) d v \<noteq> Panic" for names i p d v
    by (intro json_struct_ne_Panic setters_ne_Panic)+
  have l: "json_slice (json_struct u names set_peer) z old v \<noteq> Panic" "json_slice (json_struct u names (set_plugin num)) z' old' v \<noteq> Panic"
    for names z old z' old' v by (intro json_slice_ne_Panic s)+
  have t: "json_struct u names (\<lambda>_ v l. json_strings l v) x v \<noteq> Panic" "json_struct u names (\<lambda>_ v _. json_string v) y v \<noteq> Panic"
    for names x y v by (intro json_struct_ne_Panic; simp)+
  show ?thesis using s l t by (simp add: set_tunnel_def bind_res_eq_Panic)
qed

lemma DecodeJSON_ne_Panic: "(\<And>v. decode v \<noteq> Panic) \<Longrightarrow> DecodeJSON u decode raw \<noteq> Panic"
  by (auto simp: DecodeJSON_def bind_res_eq_Panic check_json_ne_Panic split: option.splits)

lemma checks_ne_Panic [simp]: "Prefix_v a \<noteq> Panic" "Server s \<noteq> Panic" "ServiceRoute c \<noteq> Panic" "PublicKey k \<noteq> Panic"
  by (auto simp: Server_def ServiceRoute_def PublicKey_def Let_def bind_res_eq_Panic split: prod.splits if_splits)

lemma buildUAPI_ne_Panic [simp]: "buildUAPI c \<noteq> Panic"
proof -
  have a: "allowed_lines cs \<noteq> Panic" for cs by (induction cs) (auto simp: bind_res_eq_Panic)
  have b: "peer_text pub p \<noteq> Panic" for pub p using a by (auto simp: peer_text_def keyToHex_def bind_res_eq_Panic)
  have "peers_lines seen ps \<noteq> Panic" for seen ps using b by (induction ps arbitrary: seen) (auto simp: bind_res_eq_Panic)
  then show ?thesis by (auto simp: buildUAPI_def Let_def keyToHex_def bind_res_eq_Panic split: option.splits)
qed

lemma validate_each_ne_Panic: "(\<And>x. f x \<noteq> Panic) \<Longrightarrow> validate_each f xs \<noteq> Panic"
  by (induction xs) (auto simp: bind_res_eq_Panic)

lemma NewOpenDHTPlugin_ne_Panic:
  assumes "\<forall>s. urlParse s \<noteq> Panic" "\<forall>s. parseDuration s \<noteq> Panic"
  shows "NewOpenDHTPlugin urlParse parseDuration c \<noteq> Panic"
proof -
  have "definition_loop m \<noteq> Panic" for m by (induction m rule: definition_loop.induct) auto
  then have v: "ValidateDefinition d \<noteq> Panic" for d by (simp add: ValidateDefinition_def)
  have e: "normalizeEndpoint urlParse s \<noteq> Panic" for s
    using assms(1) by (auto simp: normalizeEndpoint_def split: res.splits)
  then have n: "normalize_all urlParse seen out ss \<noteq> Panic" for seen out ss
    by (induction ss arbitrary: seen out) (auto simp: bind_res_eq_Panic)
  have "GetStringSlice c k \<noteq> Panic" "GetDuration parseDuration c k \<noteq> Panic" for k
    using assms(2) by (auto simp: GetStringSlice_def GetDuration_def split: option.splits yvalue.splits res.splits)
  with v n show ?thesis
    by (auto simp: NewOpenDHTPlugin_def Let_def bind_res_eq_Panic split: prod.splits if_splits)
qed

lemma check_tunnel_ne_Panic:
  assumes "\<forall>s. urlParse s \<noteq> Panic" "\<forall>s. parseDuration s \<noteq> Panic"
  shows "check_tunnel urlParse parseDuration cfg \<noteq> Panic"
proof -
  have "definition_loop m \<noteq> Panic" for m by (induction m rule: definition_loop.induct) auto
  then have v: "ValidateDefinition d \<noteq> Panic" for d by (simp add: ValidateDefinition_def)
  have s: "check_stores urlParse parseDuration stores ds \<noteq> Panic" for stores ds
    using v NewOpenDHTPlugin_ne_Panic[OF assms] by (induction ds arbitrary: stores) (auto simp: bind_res_eq_Panic)
  have k: "keyToHex t \<noteq> Panic" for t by (simp add: keyToHex_def bind_res_eq_Panic)
  have p: "check_peers stores seen i ps \<noteq> Panic" for stores seen i ps
    using k by (induction ps arbitrary: seen i) (auto simp: bind_res_eq_Panic)
  have q: "check_protocols i ps \<noteq> Panic" for i ps by (induction ps arbitrary: i) auto
  have a: "validate_each (\<lambda>a. replace_err (bind_res (Prefix_v a) (\<lambda>_. Ok ())) e) xs \<noteq> Panic" "validate_each Server ys \<noteq> Panic" for e xs ys
    by (auto intro!: validate_each_ne_Panic simp: bind_res_eq_Panic)
  have if_Err: "(if b then Err e else r) = Panic \<longleftrightarrow> \<not> b \<and> r = Panic" for b and e :: error and r :: "tunnelConfig res" by simp
  show ?thesis
    unfolding check_tunnel_def Let_def if_Err bind_res_eq_Panic wrap_err_Panic using k s p q a buildUAPI_ne_Panic by blast
qed

text \<open>C26. Reading the application's configuration returns, and what it returns is sound. For any text, as long
  as URL and duration parsing return, the result is an error or a configuration within every limit: a
  private key, one spelling of each peer's key, at most 32 peers whose store is one of the defined ones,
  at least one valid STUN server, an interval that keeps publications alive, and a text for the device.\<close>

theorem parseConfig_sound:
  assumes "\<forall>s. urlParse s \<noteq> Panic" "\<forall>s. parseDuration s \<noteq> Panic"
  shows "(\<exists>e. parseConfig u urlParse parseDuration num raw = Err e)
    \<or> (\<exists>cfg. parseConfig u urlParse parseDuration num raw = Ok cfg \<and> tunnel_ok urlParse parseDuration cfg \<and> length raw \<le> MaxConfigBytes)"
proof (cases "parseConfig u urlParse parseDuration num raw")
  case Panic
  have "DecodeJSON u (json_struct u tunnel_fields (set_tunnel u num) default_tunnel) raw \<noteq> Panic"
    by (intro DecodeJSON_ne_Panic json_struct_ne_Panic set_tunnel_ne_Panic)
  then show ?thesis using Panic check_tunnel_ne_Panic[OF assms] by (auto simp: parseConfig_def bind_res_eq_Panic)
next
  case (Ok cfg)
  then obtain cfg0 where d: "DecodeJSON u (json_struct u tunnel_fields (set_tunnel u num) default_tunnel) raw = Ok cfg0"
    "check_tunnel urlParse parseDuration cfg0 = Ok cfg" by (auto simp: parseConfig_def)
  have "length raw \<le> MaxConfigBytes" using d(1) by (auto simp: DecodeJSON_def split: if_splits)
  with check_tunnel_Ok[OF d(2)] Ok show ?thesis by blast
qed blast

section \<open>A concrete configuration\<close>

definition sample_tunnel :: json where
  "sample_tunnel = JObj [(''interface'', JObj [(''private_key'', JStr (replicate 42 (CHR ''A'') @ ''Q=''))]), (''stun'', JObj [(''addresses'', JArr [JStr ''stun.example:3478''])])]"

theorem parseConfig_sound_witness:
  "\<exists>cfg. parseConfig ex_unicode (\<lambda>_. Err (ErrNew ''url'')) (\<lambda>_. Err (ErrNew ''duration'')) (\<lambda>_. 0) (json_print sample_tunnel) = Ok cfg
     \<and> tunnel_ok (\<lambda>_. Err (ErrNew ''url'')) (\<lambda>_. Err (ErrNew ''duration'')) cfg"
proof -
  let ?url = "\<lambda>_. Err (ErrNew ''url'') :: url res"
  let ?dur = "\<lambda>_. Err (ErrNew ''duration'') :: duration res"
  let ?d = "json_struct ex_unicode tunnel_fields (set_tunnel ex_unicode (\<lambda>_. 0)) default_tunnel"
  have p: "json_plain sample_tunnel" by (simp add: sample_tunnel_def ascii_def)
  have j: "json_print sample_tunnel \<noteq> []" "length (json_print sample_tunnel) \<le> MaxConfigBytes"
    "check_json ex_unicode 0 sample_tunnel = Ok ()" by code_simp+
  have "is_Ok (?d sample_tunnel)" "is_Ok (bind_res (?d sample_tunnel) (check_tunnel ?url ?dur))" by code_simp+
  then obtain cfg0 cfg where c: "?d sample_tunnel = Ok cfg0" "check_tunnel ?url ?dur cfg0 = Ok cfg" by (auto simp: is_Ok_iff)
  have "parseConfig ex_unicode ?url ?dur (\<lambda>_. 0) (json_print sample_tunnel) = Ok cfg"
    using DecodeJSON_print[where decode = ?d, OF p j c(1)] c(2) by (simp add: parseConfig_def)
  with parseConfig_sound[of ?url ?dur ex_unicode "\<lambda>_. 0" "json_print sample_tunnel"] show ?thesis by auto
qed

theorem uapi_reads_back_witness:
  "\<exists>s. buildUAPI (Some (default_tunnel\<lparr>tc_Interface := (tc_Interface default_tunnel)\<lparr>ic_PrivateKey := replicate 42 (CHR ''A'') @ ''Q='', ic_ListenPort := 51820\<rparr>\<rparr>)) = Ok s
     \<and> uapi_read s = Some [PrivateKeyItem (replicate 31 0 @ [4]), ListenPortItem 51820, ReplacePeers]"
proof -
  let ?c = "default_tunnel\<lparr>tc_Interface := (tc_Interface default_tunnel)\<lparr>ic_PrivateKey := replicate 42 (CHR ''A'') @ ''Q='', ic_ListenPort := 51820\<rparr>\<rparr>"
  have "is_Ok (buildUAPI (Some ?c))" by code_simp
  then obtain s where s: "buildUAPI (Some ?c) = Ok s" by (auto simp: is_Ok_iff)
  have "device_items ?c = [PrivateKeyItem (replicate 31 0 @ [4]), ListenPortItem 51820, ReplacePeers]" by code_simp
  with uapi_reads_back[of ?c s] s show ?thesis by auto
qed

end
