(* ===== verification/Routeprobe.thy ===== *)
theory Routeprobe
  imports Netip Gotext
begin

text \<open>
  Detection of a covering default route (\<^verbatim>\<open>internal/routeprobe\<close>): the decision on a list of
  routes, the choice of the physical default interface, and the parsers of the two Linux route
  tables. The content of a route table file is an argument (\<open>file\<close>), as its reading may fail.
\<close>

section \<open>Decisions (routeprobe.go, probe.go, unicastif.go)\<close>

datatype rp_Family = rp_IPv4 | rp_IPv6

record Route =
  r_Prefix :: prefix
  r_Interface :: string
  r_Index :: int

definition halfV4Low :: prefix where "halfV4Low = PrefixFrom (V4 0) 1"
definition halfV4High :: prefix where "halfV4High = PrefixFrom (V4 0x80000000) 1"
definition halfV6Low :: prefix where "halfV6Low = PrefixFrom (V6 0 []) 1"
definition halfV6High :: prefix where "halfV6High = PrefixFrom (V6 0x80000000000000000000000000000000 []) 1"

fun familyMatches :: "prefix \<Rightarrow> rp_Family \<Rightarrow> bool" where
  "familyMatches p rp_IPv4 = Is4 (pfx_addr p)"
| "familyMatches p rp_IPv6 = (Is6 (pfx_addr p) \<and> \<not> Is4In6 (pfx_addr p))"

definition low_half :: "rp_Family \<Rightarrow> prefix" where
  "low_half f = (case f of rp_IPv4 \<Rightarrow> halfV4Low | rp_IPv6 \<Rightarrow> halfV6Low)"

definition high_half :: "rp_Family \<Rightarrow> prefix" where
  "high_half f = (case f of rp_IPv4 \<Rightarrow> halfV4High | rp_IPv6 \<Rightarrow> halfV6High)"

text \<open>The loop, with the two flags it carries.\<close>

fun covering_loop :: "rp_Family \<Rightarrow> (string \<Rightarrow> bool) \<Rightarrow> Route list \<Rightarrow> bool \<Rightarrow> bool \<Rightarrow> bool" where
  "covering_loop family isTunnel [] lo hi = False"
| "covering_loop family isTunnel (r # rs) lo hi =
     (if \<not> familyMatches (r_Prefix r) family then covering_loop family isTunnel rs lo hi
      else if \<not> isTunnel (r_Interface r) then covering_loop family isTunnel rs lo hi
      else if pfx_bits (r_Prefix r) = 0 then True
      else let p = prefix_Masked (r_Prefix r);
               lo' = (lo \<or> p = low_half family);
               hi' = (hi \<or> p \<noteq> low_half family \<and> p = high_half family)
           in if lo' \<and> hi' then True else covering_loop family isTunnel rs lo' hi')"

definition HasCoveringDefault :: "Route list \<Rightarrow> rp_Family \<Rightarrow> (string \<Rightarrow> bool) option \<Rightarrow> bool" where
  "HasCoveringDefault routes family isTunnel =
     (case isTunnel of None \<Rightarrow> False | Some t \<Rightarrow> covering_loop family t routes False False)"

fun chooseDefaultInterface :: "Route list \<Rightarrow> rp_Family \<Rightarrow> (string \<Rightarrow> bool) option \<Rightarrow> Route option" where
  "chooseDefaultInterface [] family isTunnel = None"
| "chooseDefaultInterface (r # rs) family isTunnel =
     (if \<not> familyMatches (r_Prefix r) family then chooseDefaultInterface rs family isTunnel
      else if pfx_bits (r_Prefix r) \<noteq> 0 then chooseDefaultInterface rs family isTunnel
      else if (case isTunnel of Some t \<Rightarrow> t (r_Interface r) | None \<Rightarrow> False)
      then chooseDefaultInterface rs family isTunnel
      else Some r)"

type_synonym TunnelInterfaces = "string set"

definition NewTunnelInterfaces :: "string list \<Rightarrow> TunnelInterfaces" where
  "NewTunnelInterfaces names = fold insert names {}"

definition TunnelInterfaces_Contains :: "TunnelInterfaces \<Rightarrow> string \<Rightarrow> bool" where
  "TunnelInterfaces_Contains t name \<longleftrightarrow> name \<in> t"

definition Probe :: "Route list res \<Rightarrow> rp_Family \<Rightarrow> TunnelInterfaces \<Rightarrow> bool res" where
  "Probe currentRoutes family tunnelIfaces =
     bind_res currentRoutes (\<lambda>routes.
     Ok (HasCoveringDefault routes family (Some (TunnelInterfaces_Contains tunnelIfaces))))"

definition DefaultRouteInterface :: "Route list res \<Rightarrow> rp_Family \<Rightarrow> TunnelInterfaces \<Rightarrow> Route option res" where
  "DefaultRouteInterface currentRoutes family tunnelIfaces =
     bind_res currentRoutes (\<lambda>routes.
     Ok (chooseDefaultInterface routes family (Some (TunnelInterfaces_Contains tunnelIfaces))))"

definition UnicastIfNetworkOrder :: "u32 \<Rightarrow> u32" where
  "UnicastIfNetworkOrder i = word_of_nat (be_nat (rev (to_be 4 (unat i))))"

section \<open>The Linux route tables (probe\_linux.go)\<close>

text \<open>\<^verbatim>\<open>bufio.Scanner\<close>: lines without their end of line and a trailing carriage return; a line
  of 65536 bytes or more stops the scan with an error.\<close>

definition drop_cr :: "string \<Rightarrow> string" where
  "drop_cr l = (if l \<noteq> [] \<and> last l = CHR 0x0D then butlast l else l)"

definition raw_lines :: "string \<Rightarrow> string list" where
  "raw_lines s = (let ls = Split (CHR 0x0A) s in if last ls = [] then butlast ls else ls)"

definition scan_lines :: "string \<Rightarrow> string list \<times> bool" where
  "scan_lines s =
     (let ls = raw_lines s; short = takeWhile (\<lambda>l. length l < 65536) ls
      in (map drop_cr short, length short < length ls))"

definition err_too_long :: error where "err_too_long = ErrNew ''bufio.Scanner: token too long''"

definition decodeLEHexIPv4 :: "string \<Rightarrow> addr res" where
  "decodeLEHexIPv4 s =
     bind_res (replace_err (hex_decode s) (ErrNew (''invalid IPv4 hex field '' @ quoted s))) (\<lambda>b.
     if length b \<noteq> 4 then Err (ErrNew (''invalid IPv4 hex field '' @ quoted s))
     else Ok (AddrFrom4 (rev b)))"

text \<open>Leading one bits of an octet; a shifted octet is zero after eight steps, so eight are enough.\<close>

fun octet_ones :: "nat \<Rightarrow> byte \<Rightarrow> int" where
  "octet_ones 0 b = 0"
| "octet_ones (Suc k) b = (if b AND 0x80 \<noteq> 0 then 1 + octet_ones k (push_bit 1 b) else 0)"

fun mask_ones :: "byte list \<Rightarrow> int" where
  "mask_ones [] = 0"
| "mask_ones (b # bs) = (if b = 0xff then 8 + mask_ones bs else octet_ones 8 b)"

definition ipv4MaskOnes :: "addr \<Rightarrow> int" where
  "ipv4MaskOnes a = mask_ones (AsSlice a)"

fun parse_v4_lines :: "string list \<Rightarrow> Route list res" where
  "parse_v4_lines [] = Ok []"
| "parse_v4_lines (l # ls) =
     (let fs = Fields l in
      if length fs < 8 then parse_v4_lines ls
      else
        bind_res (wrap_err (''routeprobe: parse destination '' @ quoted (fs ! 1)) (decodeLEHexIPv4 (fs ! 1))) (\<lambda>destAddr.
        bind_res (wrap_err (''routeprobe: parse mask '' @ quoted (fs ! 7)) (decodeLEHexIPv4 (fs ! 7))) (\<lambda>maskAddr.
        bind_res (parse_v4_lines ls) (\<lambda>rs.
        Ok (\<lparr>r_Prefix = PrefixFrom destAddr (ipv4MaskOnes maskAddr), r_Interface = fs ! 0, r_Index = 0\<rparr> # rs)))))"

definition parseProcNetRouteV4 :: "string \<Rightarrow> Route list res" where
  "parseProcNetRouteV4 s =
     (case scan_lines s of (ls, bad) \<Rightarrow>
        bind_res (parse_v4_lines (drop 1 ls)) (\<lambda>rs.
        if bad then Err (ErrWrap ''routeprobe: scan /proc/net/route'' [err_too_long]) else Ok rs))"

fun parse_v6_lines :: "string list \<Rightarrow> Route list res" where
  "parse_v6_lines [] = Ok []"
| "parse_v6_lines (l # ls) =
     (let fs = Fields l in
      if length fs < 10 then parse_v6_lines ls
      else
        bind_res (wrap_err (''routeprobe: parse destination '' @ quoted (fs ! 0)) (hex_decode (fs ! 0))) (\<lambda>addrBytes.
        if length addrBytes \<noteq> 16 then Err (ErrWrap (''routeprobe: parse destination '' @ quoted (fs ! 0)) [])
        else
        bind_res (wrap_err (''routeprobe: parse prefix length '' @ quoted (fs ! 1)) (ParseUint16 8 (fs ! 1))) (\<lambda>bits.
        bind_res (parse_v6_lines ls) (\<lambda>rs.
        Ok (\<lparr>r_Prefix = PrefixFrom (AddrFrom16 addrBytes) (int bits), r_Interface = fs ! 9, r_Index = 0\<rparr> # rs)))))"

definition parseProcNetRouteV6 :: "string \<Rightarrow> Route list res" where
  "parseProcNetRouteV6 s =
     (case scan_lines s of (ls, bad) \<Rightarrow>
        bind_res (parse_v6_lines ls) (\<lambda>rs.
        if bad then Err (ErrWrap ''routeprobe: scan /proc/net/ipv6_route'' [err_too_long]) else Ok rs))"

text \<open>A missing IPv6 table means that IPv6 is disabled, not that detection failed.\<close>

definition currentRoutes :: "string res \<Rightarrow> (error \<Rightarrow> bool) \<Rightarrow> rp_Family \<Rightarrow> Route list res" where
  "currentRoutes file notExist family =
     (case family of
        rp_IPv4 \<Rightarrow> bind_res (wrap_err ''routeprobe: read /proc/net/route'' file) parseProcNetRouteV4
      | rp_IPv6 \<Rightarrow>
          (case file of
             Err e \<Rightarrow> if notExist e then Ok [] else Err (ErrWrap ''routeprobe: read /proc/net/ipv6_route'' [e])
           | Panic \<Rightarrow> Panic
           | Ok s \<Rightarrow> parseProcNetRouteV6 s))"

section \<open>Correctness of the decision\<close>

definition tunnel_routes :: "rp_Family \<Rightarrow> (string \<Rightarrow> bool) \<Rightarrow> Route list \<Rightarrow> prefix set" where
  "tunnel_routes f t rs = {r_Prefix r |r. r \<in> set rs \<and> familyMatches (r_Prefix r) f \<and> t (r_Interface r)}"

lemma halves_distinct [simp]: "low_half f \<noteq> high_half f"
  by (cases f) (simp_all add: low_half_def high_half_def halfV4Low_def halfV4High_def halfV6Low_def halfV6High_def PrefixFrom_def)

lemma covering_loop_iff:
  "\<not> (lo \<and> hi) \<Longrightarrow> covering_loop f t rs lo hi \<longleftrightarrow>
     (\<exists>p \<in> tunnel_routes f t rs. pfx_bits p = 0)
     \<or> (lo \<or> low_half f \<in> prefix_Masked ` tunnel_routes f t rs) \<and> (hi \<or> high_half f \<in> prefix_Masked ` tunnel_routes f t rs)"
proof (induction rs arbitrary: lo hi)
  case (Cons r rs)
  have s: "tunnel_routes f t (r # rs) = (if familyMatches (r_Prefix r) f \<and> t (r_Interface r)
      then insert (r_Prefix r) (tunnel_routes f t rs) else tunnel_routes f t rs)"
    by (auto simp: tunnel_routes_def)
  show ?case
  proof (cases "familyMatches (r_Prefix r) f \<and> t (r_Interface r) \<and> pfx_bits (r_Prefix r) \<noteq> 0")
    case False
    then show ?thesis
      using Cons.IH [OF Cons.prems] by (auto simp: s)
  next
    case True
    define p lo' hi' where "p = prefix_Masked (r_Prefix r)" and "lo' = (lo \<or> p = low_half f)"
      and "hi' = (hi \<or> p = high_half f)"
    have hi': "(hi \<or> p \<noteq> low_half f \<and> p = high_half f) = hi'"
      by (auto simp: hi'_def dest: sym)
    have c: "covering_loop f t (r # rs) lo hi = (if lo' \<and> hi' then True else covering_loop f t rs lo' hi')"
      using True by (simp add: Let_def p_def [symmetric] lo'_def [symmetric] hi')
    have m: "prefix_Masked ` tunnel_routes f t (r # rs) = insert p (prefix_Masked ` tunnel_routes f t rs)"
      using True by (simp add: s p_def)
    have z: "(\<exists>q \<in> tunnel_routes f t (r # rs). pfx_bits q = 0) \<longleftrightarrow> (\<exists>q \<in> tunnel_routes f t rs. pfx_bits q = 0)"
      using True by (simp add: s)
    show ?thesis
      unfolding c m z using Cons.IH [of lo' hi'] by (auto simp: lo'_def hi'_def)
  qed
qed (auto simp: tunnel_routes_def)

text \<open>The detection of a covering default is sound and complete for its definition: it answers yes
  exactly when a tunnel interface carries a default route of the family, or tunnel interfaces carry
  both halves between them, in any order and with any other routes in between.\<close>

theorem HasCoveringDefault_iff:
  "HasCoveringDefault rs f (Some t) \<longleftrightarrow>
     (\<exists>p \<in> tunnel_routes f t rs. pfx_bits p = 0)
     \<or> {low_half f, high_half f} \<subseteq> prefix_Masked ` tunnel_routes f t rs"
  by (simp add: HasCoveringDefault_def covering_loop_iff)

lemma addr_nat_lt: "addr_nat a < 2 ^ BitLen a"
proof (cases a)
  case (V6 w z)
  then show ?thesis using unsigned_less [where ?'a = nat, of w] by simp
qed (use unat_u32_lt in simp_all)

lemma Contains_zero:
  "pfx_bits p = 0 \<Longrightarrow> BitLen (pfx_addr p) = BitLen a \<Longrightarrow> BitLen a \<noteq> 0 \<Longrightarrow> Zone a = [] \<Longrightarrow> prefix_Contains p a"
  using addr_nat_lt [of a] addr_nat_lt [of "pfx_addr p"] by (simp add: prefix_Contains_def)

lemma mask_word_div: "(word_of_nat (unat x div 2 ^ k * 2 ^ k) :: 'a::len word) = m \<Longrightarrow> unat x div 2 ^ k = unat m div 2 ^ k"
  for x m :: "'a::len word"
proof -
  assume m: "word_of_nat (unat x div 2 ^ k * 2 ^ k) = m"
  have "unat x div 2 ^ k * 2 ^ k \<le> unat x"
    by (rule div_times_less_eq_dividend)
  also have "unat x < 2 ^ LENGTH('a)"
    by (rule unsigned_less)
  finally have "unat m = unat x div 2 ^ k * 2 ^ k"
    unfolding m [symmetric] by (simp add: unat_of_nat del: of_nat_mult)
  then show ?thesis by simp
qed

lemma Masked_half_4:
  assumes "prefix_Masked p = Prefix (V4 m) 1" "unat m div 2 ^ 31 = unat w div 2 ^ 31"
  shows "prefix_Contains p (V4 w)"
proof -
  have b: "pfx_bits p = 1"
    using assms(1) by (auto simp: prefix_Masked_def split: if_splits)
  moreover obtain x where x: "pfx_addr p = V4 x"
    using assms(1) b by (cases "pfx_addr p") (auto simp: prefix_Masked_def)
  moreover have "unat x div 2 ^ 31 = unat m div 2 ^ 31"
    using assms(1) b x by (intro mask_word_div) (simp add: prefix_Masked_def)
  ultimately show ?thesis
    using assms(2) by (simp add: prefix_Contains_def)
qed

lemma Masked_half_6:
  assumes "prefix_Masked p = Prefix (V6 m []) 1" "unat m div 2 ^ 127 = unat w div 2 ^ 127"
  shows "prefix_Contains p (V6 w [])"
proof -
  have b: "pfx_bits p = 1"
    using assms(1) by (auto simp: prefix_Masked_def split: if_splits)
  moreover obtain x z where x: "pfx_addr p = V6 x z"
    using assms(1) b by (cases "pfx_addr p") (auto simp: prefix_Masked_def)
  moreover have "unat x div 2 ^ 127 = unat m div 2 ^ 127"
    using assms(1) b x by (intro mask_word_div) (simp add: prefix_Masked_def)
  ultimately show ?thesis
    using assms(2) by (simp add: prefix_Contains_def)
qed

lemma top_bit: "unat w div 2 ^ 31 = 0 \<or> unat w div 2 ^ 31 = 1" "unat v div 2 ^ 127 = 0 \<or> unat v div 2 ^ 127 = 1"
  for w :: u32 and v :: "128 word"
proof -
  have "unat w div 2 ^ 31 < 2"
    using unat_u32_lt [of w] by (intro less_mult_imp_div_less) simp
  then show "unat w div 2 ^ 31 = 0 \<or> unat w div 2 ^ 31 = 1" by linarith
  have "unat v div 2 ^ 127 < 2"
    using unsigned_less [where ?'a = nat, of v] by (intro less_mult_imp_div_less) simp
  then show "unat v div 2 ^ 127 = 0 \<or> unat v div 2 ^ 127 = 1" by linarith
qed

text \<open>The addresses of a family.\<close>

fun in_family :: "rp_Family \<Rightarrow> addr \<Rightarrow> bool" where
  "in_family rp_IPv4 a = Is4 a"
| "in_family rp_IPv6 a = (Is6 a \<and> Zone a = [])"

lemma covering_captures:
  assumes "HasCoveringDefault rs f (Some t)" "in_family f a"
  shows "\<exists>r \<in> set rs. t (r_Interface r) \<and> prefix_Contains (r_Prefix r) a"
proof -
  have ex: "\<exists>r \<in> set rs. t (r_Interface r) \<and> prefix_Contains (r_Prefix r) a"
    if "p \<in> tunnel_routes f t rs" "prefix_Contains p a" for p
    using that by (auto simp: tunnel_routes_def)
  have c: "covering_loop f t rs False False"
    using assms(1) by (simp add: HasCoveringDefault_def)
  show ?thesis
  proof (cases "\<exists>p \<in> tunnel_routes f t rs. pfx_bits p = 0")
    case True
    then obtain p where p: "p \<in> tunnel_routes f t rs" "pfx_bits p = 0" by blast
    then have "familyMatches p f" by (auto simp: tunnel_routes_def)
    then have "BitLen (pfx_addr p) = BitLen a" "BitLen a \<noteq> 0" "Zone a = []"
      using assms(2) by (cases f; cases "pfx_addr p"; cases a; simp)+
    with p show ?thesis by (intro ex Contains_zero) simp_all
  next
    case False
    then obtain l h where l: "l \<in> tunnel_routes f t rs" "prefix_Masked l = low_half f"
      and h: "h \<in> tunnel_routes f t rs" "prefix_Masked h = high_half f"
      using c by (auto simp: covering_loop_iff)
    have "prefix_Contains l a \<or> prefix_Contains h a"
    proof (cases f)
      case rp_IPv4
      then obtain w where "a = V4 w" using assms(2) by (cases a) auto
      then show ?thesis
        using top_bit(1) [of w] Masked_half_4 [of l 0 w] Masked_half_4 [of h "0x80000000" w] l(2) h(2)
        by (auto simp: rp_IPv4 low_half_def high_half_def halfV4Low_def halfV4High_def PrefixFrom_def)
    next
      case rp_IPv6
      then obtain w where "a = V6 w []" using assms(2) by (cases a) auto
      then show ?thesis
        using top_bit(2) [of w] Masked_half_6 [of l 0 w] Masked_half_6 [of h "0x80000000000000000000000000000000" w] l(2) h(2)
        by (auto simp: rp_IPv6 low_half_def high_half_def halfV6Low_def halfV6High_def PrefixFrom_def)
    qed
    with l(1) h(1) show ?thesis using ex by blast
  qed
qed

text \<open>A positive answer means what the caller needs it to mean: every address of the family lies in
  a route that goes out through a tunnel interface, so an unmarked socket really would be captured.\<close>

theorem HasCoveringDefault_captures:
  assumes "HasCoveringDefault rs f (Some t)" "in_family f a"
  shows "\<exists>r \<in> set rs. t (r_Interface r) \<and> prefix_Contains (r_Prefix r) a"
  using assms by (rule covering_captures)

theorem HasCoveringDefault_captures_witness:
  "HasCoveringDefault [\<lparr>r_Prefix = halfV4High, r_Interface = ''wg0'', r_Index = 0\<rparr>,
       \<lparr>r_Prefix = PrefixFrom (V4 0x01020304) 1, r_Interface = ''wg1'', r_Index = 0\<rparr>]
      rp_IPv4 (Some (TunnelInterfaces_Contains (NewTunnelInterfaces [''wg0'', ''wg1''])))
   \<and> (\<exists>r \<in> set [\<lparr>r_Prefix = halfV4High, r_Interface = ''wg0'', r_Index = 0\<rparr>,
       \<lparr>r_Prefix = PrefixFrom (V4 0x01020304) 1, r_Interface = ''wg1'', r_Index = 0\<rparr>].
       TunnelInterfaces_Contains (NewTunnelInterfaces [''wg0'', ''wg1'']) (r_Interface r)
       \<and> prefix_Contains (r_Prefix r) (V4 0x08080808))"
proof -
  have h: "HasCoveringDefault [\<lparr>r_Prefix = halfV4High, r_Interface = ''wg0'', r_Index = 0\<rparr>,
       \<lparr>r_Prefix = PrefixFrom (V4 0x01020304) 1, r_Interface = ''wg1'', r_Index = 0\<rparr>]
      rp_IPv4 (Some (TunnelInterfaces_Contains (NewTunnelInterfaces [''wg0'', ''wg1''])))"
    by code_simp
  from HasCoveringDefault_captures [OF h, of "V4 0x08080808"] h show ?thesis by simp
qed

text \<open>The interface chosen for escaping is never a tunnel: it is the first default route of the
  family, in table order, whose interface is not one, and there is no answer when every default
  route goes through a tunnel.\<close>

theorem chooseDefaultInterface_first:
  "chooseDefaultInterface rs f (Some t) =
     find (\<lambda>r. familyMatches (r_Prefix r) f \<and> pfx_bits (r_Prefix r) = 0 \<and> \<not> t (r_Interface r)) rs"
  by (induction rs) auto

section \<open>Correctness of the parsers\<close>

text \<open>The kernel's spelling of an address and of a contiguous mask are read back.\<close>

lemma decodeLEHexIPv4_kernel: "decodeLEHexIPv4 (hex_encode (rev (to_be 4 (unat w)))) = Ok (V4 w)"
  by (simp add: decodeLEHexIPv4_def AddrFrom4_def be_nat_to_be)

lemma ipv4MaskOnes_contiguous:
  "list_all (\<lambda>n. ipv4MaskOnes (V4 (word_of_nat (2 ^ 32 - 2 ^ (32 - n)))) = int n) [0..<33]"
  by code_simp

lemma octet_ones_0 [simp]: "octet_ones k 0 = 0"
  by (cases k) auto

lemma octet_ones_shifted:
  "n \<le> 8 \<Longrightarrow> n \<le> k \<Longrightarrow> octet_ones k (push_bit (8 - n) b) = octet_ones n (push_bit (8 - n) b)"
proof (induction n arbitrary: k)
  case 0
  have "push_bit 8 b = 0"
    by (rule bit_word_eqI) (simp add: bit_simps)
  then show ?case by simp
next
  case (Suc n)
  then obtain k' where k: "k = Suc k'" "n \<le> k'" by (cases k) auto
  have "1 + (8 - Suc n) = 8 - n"
    using Suc.prems by simp
  then have e: "push_bit 1 (push_bit (8 - Suc n) b) = push_bit (8 - n) b"
    by (simp only: push_bit_push_bit)
  have "octet_ones k' (push_bit (8 - n) b) = octet_ones n (push_bit (8 - n) b)"
    by (rule Suc.IH) (use Suc.prems k(2) in simp_all)
  then show ?case
    unfolding k(1) octet_ones.simps e by (rule arg_cong)
qed

lemma octet_ones_enough: "8 \<le> k \<Longrightarrow> octet_ones k b = octet_ones 8 b"
  using octet_ones_shifted [of 8 k b] by simp

end
