(* ===== verification/Dialer.thy ===== *)
theory Dialer
  imports Routeprobe
begin

text \<open>
  The outbound path of the stores and of STUN name lookups (\<^verbatim>\<open>internal/plugin/dialer\<close>):
  the escape a context carries, the nameservers it may name, resolving a server to an address, and
  what each platform does to a socket before it connects. The operating system is a parameter: the
  resolver's answer, the route tables, and the outcome of the socket calls. The connection itself
  (\<^verbatim>\<open>net.Dialer\<close>, \<^verbatim>\<open>http.Transport\<close>) is the standard library's.
\<close>

section \<open>The escape (dialer.go)\<close>

text \<open>\<open>Protector\<close> is the outcome of Android's \<^verbatim>\<open>VpnService.protect\<close>, when one is set.\<close>

record Escape =
  esc_FirewallMark :: int
  esc_Fib :: int
  esc_TunnelIfaces :: TunnelInterfaces
  Protector :: "bool option"
  DNSServers :: "string list"

definition no_Escape :: Escape where
  "no_Escape = \<lparr>esc_FirewallMark = 0, esc_Fib = 0, esc_TunnelIfaces = {}, Protector = None, DNSServers = []\<rparr>"

text \<open>A context is seen through the one value this package stores in it.\<close>

type_synonym ctx_escape = "Escape option"

definition ctx_WithEscape :: "ctx_escape \<Rightarrow> Escape \<Rightarrow> ctx_escape" where
  "ctx_WithEscape ctx escape = Some escape"

definition escapeFrom :: "ctx_escape \<Rightarrow> Escape" where
  "escapeFrom ctx = (case ctx of Some e \<Rightarrow> e | None \<Rightarrow> no_Escape)"

definition dial_family :: "string \<Rightarrow> rp_Family" where
  "dial_family network = (if HasSuffix network ''6'' then rp_IPv6 else rp_IPv4)"

section \<open>Resolving a server\<close>

definition ipNetwork :: "string \<Rightarrow> string" where
  "ipNetwork network = (if network \<in> {''udp6'', ''ip6''} then ''ip6'' else ''ip4'')"

text \<open>\<open>lookup\<close> is \<^verbatim>\<open>Resolver().LookupNetIP\<close>; taking its first answer panics on none.\<close>

definition ResolveAddrPort :: "(string \<Rightarrow> string \<Rightarrow> addr list res) \<Rightarrow> string \<Rightarrow> string \<Rightarrow> addrport res" where
  "ResolveAddrPort lookup network hostport =
     bind_res (wrap_err (''resolve '' @ quoted hostport) (SplitHostPort hostport)) (\<lambda>(host, portStr).
     bind_res (wrap_err (''resolve '' @ quoted hostport @ '': port'') (ParseUint10 16 portStr)) (\<lambda>port.
     bind_res (wrap_err (''resolve '' @ hostport) (lookup (ipNetwork network) host)) (\<lambda>ips.
     bind_res (index ips 0) (\<lambda>ip.
     Ok (AddrPort (Unmap ip) (word_of_nat port))))))"

section \<open>Nameservers\<close>

text \<open>\<^verbatim>\<open>strings.Trim\<close> with a set of bytes.\<close>

definition Trim :: "string \<Rightarrow> string \<Rightarrow> string" where
  "Trim s cutset = rev (dropWhile (\<lambda>c. c \<in> set cutset) (rev (dropWhile (\<lambda>c. c \<in> set cutset) s)))"

definition port_in_range :: "string \<Rightarrow> bool" where
  "port_in_range port = (case Atoi port of Ok p \<Rightarrow> 1 \<le> p \<and> p \<le> 65535 | _ \<Rightarrow> False)"

definition normalizeDNSAddr :: "string \<Rightarrow> string option" where
  "normalizeDNSAddr s =
     (let (host, port) = (case SplitHostPort s of Ok hp \<Rightarrow> hp | _ \<Rightarrow> (Trim s ''[]'', []))
      in if port \<noteq> [] \<and> \<not> port_in_range port then None
         else if \<not> is_Ok (ParseAddr host) then None
         else Some (JoinHostPort host (if port = [] then ''53'' else port)))"

definition ValidNameserver :: "string \<Rightarrow> bool" where
  "ValidNameserver s \<longleftrightarrow> normalizeDNSAddr s \<noteq> None"

text \<open>The scan: \<open>n\<close> entries are left, the next one is at \<open>start + i\<close> modulo the length.\<close>

fun pick_loop :: "string list \<Rightarrow> nat \<Rightarrow> nat \<Rightarrow> nat \<Rightarrow> string option res" where
  "pick_loop servers start i 0 = Ok None"
| "pick_loop servers start i (Suc n) =
     bind_res (index servers ((start + i) mod length servers)) (\<lambda>s.
     case normalizeDNSAddr s of Some a \<Rightarrow> Ok (Some a) | None \<Rightarrow> pick_loop servers start (Suc i) n)"

text \<open>The rotation counter is a 32-bit atomic; the modulus is the length at that width, and a zero
  modulus would be a division by zero.\<close>

definition pickDNSServer :: "u32 \<Rightarrow> string list \<Rightarrow> u32 \<times> string option res" where
  "pickDNSServer dnsRotation servers =
     (if servers = [] then (dnsRotation, Ok None)
      else
        let n = of_nat (length servers) :: u32; next = dnsRotation + 1 in
        if n = 0 then (next, Panic)
        else (next, pick_loop servers (unat ((next - 1) mod n)) 0 (length servers)))"

text \<open>The address a lookup's connection goes to.\<close>

definition dialDNS :: "u32 \<Rightarrow> ctx_escape \<Rightarrow> string \<Rightarrow> u32 \<times> string res" where
  "dialDNS dnsRotation ctx address =
     (let (c, picked) = pickDNSServer dnsRotation (DNSServers (escapeFrom ctx)) in
      (c, bind_res picked (\<lambda>p. Ok (case p of Some server \<Rightarrow> server | None \<Rightarrow> address))))"

section \<open>Leaving a covering tunnel\<close>

text \<open>The route table is read twice, once by each query.\<close>

definition boundInterface :: "Route list res \<Rightarrow> Route list res \<Rightarrow> Escape \<Rightarrow> rp_Family \<Rightarrow> int option res" where
  "boundInterface routes routes' escape fam =
     (if esc_TunnelIfaces escape = {} then Ok None
      else
        bind_res (Probe routes fam (esc_TunnelIfaces escape)) (\<lambda>covering.
        if \<not> covering then Ok None
        else
          bind_res (DefaultRouteInterface routes' fam (esc_TunnelIfaces escape)) (\<lambda>route.
          case route of None \<Rightarrow> Ok None
          | Some r \<Rightarrow> if r_Index r = 0 then Ok None else Ok (Some (r_Index r)))))"

text \<open>What is done to the socket: an option with its level and value, or a call of the protector.\<close>

datatype socket_call = Setsockopt string string int | Protect

text \<open>\<open>ctl\<close> is the error of \<^verbatim>\<open>RawConn.Control\<close> itself, \<open>setopt\<close> that of the socket call.\<close>

definition apply_call :: "unit res \<Rightarrow> (socket_call \<Rightarrow> unit res) \<Rightarrow> socket_call \<Rightarrow> socket_call list \<times> unit res" where
  "apply_call ctl setopt call =
     (case ctl of Ok _ \<Rightarrow> ([call], setopt call) | e \<Rightarrow> ([], e))"

definition control_linux :: "unit res \<Rightarrow> (socket_call \<Rightarrow> unit res) \<Rightarrow> ctx_escape \<Rightarrow> socket_call list \<times> unit res" where
  "control_linux ctl setopt ctx =
     (let mark = esc_FirewallMark (escapeFrom ctx) in
      if mark = 0 then ([], Ok ())
      else apply_call ctl setopt (Setsockopt ''SOL_SOCKET'' ''SO_MARK'' mark))"

definition control_freebsd :: "unit res \<Rightarrow> (socket_call \<Rightarrow> unit res) \<Rightarrow> ctx_escape \<Rightarrow> socket_call list \<times> unit res" where
  "control_freebsd ctl setopt ctx =
     (let fib = esc_Fib (escapeFrom ctx) in
      if fib = 0 then ([], Ok ())
      else apply_call ctl setopt (Setsockopt ''SOL_SOCKET'' ''SO_SETFIB'' fib))"

definition control_android :: "unit res \<Rightarrow> ctx_escape \<Rightarrow> socket_call list \<times> unit res" where
  "control_android ctl ctx =
     (case Protector (escapeFrom ctx) of
        None \<Rightarrow> ([], Ok ())
      | Some ok \<Rightarrow> (case ctl of
            Ok _ \<Rightarrow> ([Protect], if ok then Ok () else Err (ErrNew ''dialer: socket protect failed''))
          | e \<Rightarrow> ([], e)))"

definition control_bound ::
  "(rp_Family \<Rightarrow> int \<Rightarrow> socket_call) \<Rightarrow> (rp_Family \<Rightarrow> Route list res \<times> Route list res) \<Rightarrow> unit res \<Rightarrow> (socket_call \<Rightarrow> unit res)
    \<Rightarrow> ctx_escape \<Rightarrow> string \<Rightarrow> socket_call list \<times> unit res" where
  "control_bound option routes ctl setopt ctx network =
     (let fam = dial_family network in
      case boundInterface (fst (routes fam)) (snd (routes fam)) (escapeFrom ctx) fam of
        Panic \<Rightarrow> ([], Panic) | Err e \<Rightarrow> ([], Err e) | Ok None \<Rightarrow> ([], Ok ())
      | Ok (Some idx) \<Rightarrow> apply_call ctl setopt (option fam idx))"

definition bound_if :: "rp_Family \<Rightarrow> int \<Rightarrow> socket_call" where
  "bound_if fam idx =
     (if fam = rp_IPv6 then Setsockopt ''IPPROTO_IPV6'' ''IPV6_BOUND_IF'' idx
      else Setsockopt ''IPPROTO_IP'' ''IP_BOUND_IF'' idx)"

abbreviation control_darwin ::
  "(rp_Family \<Rightarrow> Route list res \<times> Route list res) \<Rightarrow> unit res \<Rightarrow> (socket_call \<Rightarrow> unit res)
    \<Rightarrow> ctx_escape \<Rightarrow> string \<Rightarrow> socket_call list \<times> unit res" where
  "control_darwin \<equiv> control_bound bound_if"

text \<open>The IPv4 option takes the index in network byte order.\<close>

definition unicast_if :: "rp_Family \<Rightarrow> int \<Rightarrow> socket_call" where
  "unicast_if fam idx =
     (if fam = rp_IPv6 then Setsockopt ''IPPROTO_IPV6'' ''IPV6_UNICAST_IF'' idx
      else Setsockopt ''IPPROTO_IP'' ''IP_UNICAST_IF'' (uint (UnicastIfNetworkOrder (word_of_int idx))))"

abbreviation control_windows ::
  "(rp_Family \<Rightarrow> Route list res \<times> Route list res) \<Rightarrow> unit res \<Rightarrow> (socket_call \<Rightarrow> unit res)
    \<Rightarrow> ctx_escape \<Rightarrow> string \<Rightarrow> socket_call list \<times> unit res" where
  "control_windows \<equiv> control_bound unicast_if"
section \<open>Picking a nameserver\<close>

text \<open>The scan is a search in the rotated list.\<close>

lemma pick_loop_eq:
  assumes "servers \<noteq> []"
  shows "pick_loop servers start i n =
    Ok (case find (\<lambda>k. ValidNameserver (servers ! ((start + k) mod length servers))) [i..<i + n] of
          None \<Rightarrow> None | Some k \<Rightarrow> normalizeDNSAddr (servers ! ((start + k) mod length servers)))"
proof (induction n arbitrary: i)
  case (Suc n)
  have "[i..<i + Suc n] = i # [Suc i..<Suc i + n]" by (simp add: upt_conv_Cons)
  then show ?case
    using Suc.IH[of "Suc i"] assms by (auto simp: index_def ValidNameserver_def split: option.splits)
qed simp

lemma find_map_nth: "find P (map f xs) = map_option f (find (P \<circ> f) xs)"
  by (induction xs) auto

lemma rotate_as_map: "rotate m xs = map (\<lambda>k. xs ! ((m + k) mod length xs)) [0..<length xs]"
  by (rule nth_equalityI) (auto simp: nth_rotate)

lemma pickDNSServer_eq:
  assumes "servers \<noteq> []" "length servers < 2 ^ 32"
  shows "pickDNSServer c servers =
    (c + 1, Ok (case find ValidNameserver (rotate (unat c mod length servers) servers) of
                  None \<Rightarrow> None | Some s \<Rightarrow> normalizeDNSAddr s))"
proof -
  have n: "unat (of_nat (length servers) :: u32) = length servers"
    using assms(2) by (simp add: unat_of_nat)
  then have "(of_nat (length servers) :: u32) \<noteq> 0" using assms(1) by (metis length_0_conv unat_0)
  moreover have "unat (c mod of_nat (length servers)) = unat c mod length servers"
    using n by (simp add: unat_mod)
  ultimately show ?thesis
    using assms(1)
    by (simp add: pickDNSServer_def Let_def pick_loop_eq rotate_as_map find_map_nth comp_def)
      (auto split: option.splits)
qed

lemma split_last_None_iff: "split_last c s = None \<longleftrightarrow> c \<notin> set s"
  by (induction s) (auto split: option.splits)

lemma split_last_SomeD: "split_last c s = Some (a, b) \<Longrightarrow> s = a @ c # b \<and> c \<notin> set b"
  by (induction s arbitrary: a) (auto simp: split_last_None_iff split: option.splits if_splits)

lemma SplitHostPort_parts:
  assumes "SplitHostPort s = Ok (host, port)"
  shows "CHR '':'' \<notin> set port \<and> set host \<inter> {CHR ''['', CHR '']''} = {} \<and> set port \<inter> {CHR ''['', CHR '']''} = {}"
proof -
  obtain before where b: "split_last CHR '':'' s = Some (before, port)"
    using assms by (auto simp: SplitHostPort_def split: option.splits if_splits)
  note parts = split_last_SomeD[OF b]
  show ?thesis
  proof (cases "hd s = CHR ''[''")
    case True
    then obtain opened where "cut CHR '']'' s = Some (opened, CHR '':'' # port)" "host = tl opened"
      "CHR ''['' \<notin> set (tl s)" "CHR '']'' \<notin> set port"
      using assms b by (auto simp: SplitHostPort_def split: option.splits if_splits)
    with cut_SomeD[OF this(1)] parts True show ?thesis by (cases opened) auto
  next
    case False
    then show ?thesis using assms b parts by (auto simp: SplitHostPort_def split: if_splits)
  qed
qed

lemma SplitHostPort_Join:
  assumes "CHR '':'' \<notin> set port" "set host \<inter> {CHR ''['', CHR '']''} = {}" "set port \<inter> {CHR ''['', CHR '']''} = {}" "host \<noteq> []"
  shows "SplitHostPort (JoinHostPort host port) = Ok (host, port)"
proof (cases "CHR '':'' \<in> set host")
  case True
  have "split_last CHR '':'' (''['' @ host @ '']:'' @ port) = Some (''['' @ host @ '']'', port)"
    using split_last_append[OF assms(1), of "''['' @ host @ '']''"] by simp
  moreover have "cut CHR '']'' (''['' @ host @ '']:'' @ port) = Some (''['' @ host, CHR '':'' # port)"
    using cut_append[of "CHR '']''" "''['' @ host" "CHR '':'' # port"] assms(2) by simp
  ultimately show ?thesis using True assms by (simp add: JoinHostPort_def SplitHostPort_def)
next
  case False
  have "hd (host @ CHR '':'' # port) \<noteq> CHR ''[''" using assms(2,4) by (cases host) auto
  with False show ?thesis
    using split_last_append[OF assms(1), of host] assms(2-4) by (auto simp: JoinHostPort_def SplitHostPort_def)
qed

text \<open>What the normal form of a nameserver is. Only a zone can bring a bracket into the host.\<close>

lemma normalizeDNSAddr_literal:
  assumes "normalizeDNSAddr s = Some a"
  shows "\<exists>host port ip. a = JoinHostPort host port \<and> ParseAddr host = Ok ip \<and> port_in_range port \<and>
    (set host \<inter> {CHR ''['', CHR '']''} = {} \<longrightarrow> SplitHostPort a = Ok (host, port))"
proof -
  have 53: "port_in_range ''53''" by code_simp
  have ne: "ParseAddr [] \<noteq> Ok ip" for ip by (simp add: ParseAddr_def)
  show ?thesis
  proof (cases "SplitHostPort s")
    case (Ok hp)
    obtain host port where hp: "hp = (host, port)" by fastforce
    define port' where "port' = (if port = [] then ''53'' else port)"
    obtain ip where ip: "ParseAddr host = Ok ip" "a = JoinHostPort host port'" "port_in_range port'"
      using assms Ok hp 53 by (auto simp: normalizeDNSAddr_def port'_def is_Ok_iff split: if_splits)
    moreover have "SplitHostPort a = Ok (host, port')"
      unfolding ip(2) by (rule SplitHostPort_Join)
        (use SplitHostPort_parts[OF Ok[unfolded hp]] ne ip(1) in \<open>auto simp: port'_def\<close>)
    ultimately show ?thesis by blast
  next
    case (Err e)
    obtain ip where ip: "ParseAddr (Trim s ''[]'') = Ok ip" "a = JoinHostPort (Trim s ''[]'') ''53''"
      using assms Err by (auto simp: normalizeDNSAddr_def is_Ok_iff split: if_splits)
    moreover have "Trim s ''[]'' \<noteq> []" using ip(1) ne by auto
    ultimately show ?thesis
      using 53 by (intro exI[of _ "Trim s ''[]''"] exI[of _ "''53''"] exI[of _ ip]) (auto intro: SplitHostPort_Join)
  qed simp
qed

lemma find_SomeD: "find P xs = Some x \<Longrightarrow> x \<in> set xs \<and> P x"
  by (induction xs) (auto split: if_splits)

text \<open>The nameserver a lookup dials is always an IP literal with a port, so that dialling it cannot
  start another lookup, for every value of the rotation counter; it is the first usable entry of the
  configured list from the rotated start on, and there is none exactly when no entry is usable.\<close>

theorem pickDNSServer_literal:
  assumes "servers \<noteq> []" "length servers < 2 ^ 32"
  shows "snd (pickDNSServer c servers) =
      Ok (case find ValidNameserver (rotate (unat c mod length servers) servers) of
            None \<Rightarrow> None | Some s \<Rightarrow> normalizeDNSAddr s)
    \<and> (snd (pickDNSServer c servers) = Ok None \<longleftrightarrow> \<not> list_ex ValidNameserver servers)
    \<and> (snd (pickDNSServer c servers) = Ok (Some a) \<longrightarrow>
        (\<exists>host port ip. a = JoinHostPort host port \<and> ParseAddr host = Ok ip \<and> port_in_range port \<and>
           (set host \<inter> {CHR ''['', CHR '']''} = {} \<longrightarrow> SplitHostPort a = Ok (host, port))))"
proof -
  have eq: "snd (pickDNSServer c servers) =
      Ok (case find ValidNameserver (rotate (unat c mod length servers) servers) of
            None \<Rightarrow> None | Some s \<Rightarrow> normalizeDNSAddr s)"
    using pickDNSServer_eq[OF assms] by simp
  have none: "find ValidNameserver (rotate (unat c mod length servers) servers) = None \<longleftrightarrow> \<not> list_ex ValidNameserver servers"
    by (auto simp: find_None_iff list_ex_iff)
  have some: "\<exists>b. normalizeDNSAddr s = Some b" if "find ValidNameserver (rotate (unat c mod length servers) servers) = Some s" for s
    using find_SomeD[OF that] by (auto simp: ValidNameserver_def)
  have "snd (pickDNSServer c servers) = Ok None \<longleftrightarrow> \<not> list_ex ValidNameserver servers"
  proof (cases "find ValidNameserver (rotate (unat c mod length servers) servers)")
    case (Some s)
    then show ?thesis using eq none some[OF Some] by auto
  qed (use eq none in simp)
  moreover have "snd (pickDNSServer c servers) = Ok (Some a) \<Longrightarrow> \<exists>s. normalizeDNSAddr s = Some a"
    unfolding eq by (auto split: option.splits)
  ultimately show ?thesis using eq normalizeDNSAddr_literal by blast
qed

theorem pickDNSServer_literal_witness:
  "snd (pickDNSServer (2 ^ 32 - 1) [''dns.google'', ''fe80::1%wlan0'', ''[2001:4860:4860::8888]:5353'']) = Ok (Some ''[fe80::1%wlan0]:53'')
    \<and> SplitHostPort ''[fe80::1%wlan0]:53'' = Ok (''fe80::1%wlan0'', ''53'')"
proof -
  have v: "snd (pickDNSServer (2 ^ 32 - 1) [''dns.google'', ''fe80::1%wlan0'', ''[2001:4860:4860::8888]:5353'']) = Ok (Some ''[fe80::1%wlan0]:53'')"
    by code_simp
  have "SplitHostPort ''[fe80::1%wlan0]:53'' = Ok (''fe80::1%wlan0'', ''53'')" by code_simp
  with v pickDNSServer_literal[of "[''dns.google'', ''fe80::1%wlan0'', ''[2001:4860:4860::8888]:5353'']" "2 ^ 32 - 1"]
  show ?thesis by blast
qed

section \<open>Binding to an interface\<close>

lemma chooseDefault_SomeD:
  "chooseDefaultInterface rs f (Some t) = Some r \<Longrightarrow>
     r \<in> set rs \<and> familyMatches (r_Prefix r) f \<and> pfx_bits (r_Prefix r) = 0 \<and> \<not> t (r_Interface r)"
  by (induction rs) (auto split: if_splits)

text \<open>On the platforms that escape by naming an interface a socket is touched only when a tunnel this
  program manages captures every address of the family, and then it is bound to the index of a default
  route of that family which is not one of those tunnels.\<close>

theorem bound_only_when_captured:
  assumes "control_bound opt routes ctl setopt ctx net = (call # calls, r)" "in_family (dial_family net) a"
  shows "\<exists>rs rs' rt. fst (routes (dial_family net)) = Ok rs \<and> snd (routes (dial_family net)) = Ok rs' \<and>
      (\<exists>x\<in>set rs. r_Interface x \<in> esc_TunnelIfaces (escapeFrom ctx) \<and> prefix_Contains (r_Prefix x) a) \<and>
      rt \<in> set rs' \<and> pfx_bits (r_Prefix rt) = 0 \<and> familyMatches (r_Prefix rt) (dial_family net) \<and>
      r_Interface rt \<notin> esc_TunnelIfaces (escapeFrom ctx) \<and> r_Index rt \<noteq> 0 \<and>
      calls = [] \<and> call = opt (dial_family net) (r_Index rt) \<and> r = setopt call"
proof -
  define f where "f = dial_family net"
  define t where "t = esc_TunnelIfaces (escapeFrom ctx)"
  obtain idx where b: "boundInterface (fst (routes f)) (snd (routes f)) (escapeFrom ctx) f = Ok (Some idx)"
    and c: "apply_call ctl setopt (opt f idx) = (call # calls, r)"
    using assms(1) by (auto simp: control_bound_def f_def Let_def split: res.splits option.splits)
  obtain rs rs' rt where rs: "fst (routes f) = Ok rs" "HasCoveringDefault rs f (Some (TunnelInterfaces_Contains t))"
    "snd (routes f) = Ok rs'" "chooseDefaultInterface rs' f (Some (TunnelInterfaces_Contains t)) = Some rt"
    "r_Index rt \<noteq> 0" "idx = r_Index rt"
    using b by (cases "fst (routes f)"; cases "snd (routes f)")
      (auto simp: boundInterface_def Probe_def DefaultRouteInterface_def t_def split: if_splits option.splits)
  have "call = opt f idx" "calls = []" "r = setopt call"
    using c by (auto simp: apply_call_def split: res.splits)
  with covering_captures[OF rs(2), of a] chooseDefault_SomeD[OF rs(4)] rs assms(2)
  show ?thesis by (auto simp: TunnelInterfaces_Contains_def f_def t_def)
qed

theorem bound_only_when_captured_witness:
  "\<exists>rt. rt \<in> set [\<lparr>r_Prefix = PrefixFrom (V4 0) 0, r_Interface = ''utun4'', r_Index = 9\<rparr>, \<lparr>r_Prefix = PrefixFrom (V4 0) 0, r_Interface = ''en0'', r_Index = 4\<rparr>]
     \<and> r_Interface rt \<notin> {''utun4''} \<and> Setsockopt ''IPPROTO_IP'' ''IP_BOUND_IF'' 4 = bound_if rp_IPv4 (r_Index rt)"
proof -
  let ?rs = "[\<lparr>r_Prefix = PrefixFrom (V4 0) 0, r_Interface = ''utun4'', r_Index = 9\<rparr>, \<lparr>r_Prefix = PrefixFrom (V4 0) 0, r_Interface = ''en0'', r_Index = 4\<rparr>]"
  let ?ctx = "Some (no_Escape\<lparr>esc_TunnelIfaces := {''utun4''}\<rparr>)"
  have c: "control_darwin (\<lambda>_. (Ok ?rs, Ok ?rs)) (Ok ()) (\<lambda>_. Ok ()) ?ctx ''tcp4'' = ([Setsockopt ''IPPROTO_IP'' ''IP_BOUND_IF'' 4], Ok ())"
    by code_simp
  have f: "in_family (dial_family ''tcp4'') (V4 0x08080808)" "dial_family ''tcp4'' = rp_IPv4" by code_simp+
  have e: "esc_TunnelIfaces (escapeFrom ?ctx) = {''utun4''}" by (simp add: escapeFrom_def)
  from bound_only_when_captured[OF c f(1)] show ?thesis unfolding e f(2) by auto
qed

end
