(* ===== verification/Mobile_Node.thy ===== *)
theory Mobile_Node
  imports Mobile_Bind Mobile_Config Dialer "HOL-Library.AList"
begin

text \<open>
  The node of the mobile core (\<^verbatim>\<open>mobile/node.go\<close>, \<^verbatim>\<open>mobile/network.go\<close>, \<^verbatim>\<open>mobile/health.go\<close>,
  \<^verbatim>\<open>mobile/version.go\<close>): the state shared by the application and the discovery loop, bringing the
  embedded WireGuard device up and down, following the phone's network, applying one endpoint, and
  reading the health of the peers from the device's status text. The device is third-party code: every
  call on it, on the discovery loop and on the application's listener is recorded in order, and the
  outcomes of the device's calls are arguments. The two mutexes give the steps of the relation at the
  end: a method is one step per critical section, and the lifecycle mutex is part of the state.
\<close>

section \<open>State (node.go, network.go, controller.go)\<close>

record underlayState =
  us_online :: bool
  us_ipv4 :: bool
  us_ipv6 :: bool

definition no_underlay :: underlayState where
  "no_underlay = \<lparr>us_online = False, us_ipv4 = False, us_ipv6 = False\<rparr>"

record discoveryPeer =
  dp_Name :: string
  dp_PublicKey :: string
  dp_Plugin :: string
  dp_Protocol :: string
  dp_Bootstrap :: string

record controllerConfig =
  cc_Protocol :: string
  cc_StunAddresses :: "string list"
  cc_RefreshIntervalSeconds :: int
  cc_Peers :: "discoveryPeer list"

text \<open>The discovery loop's state. \<open>c_changed\<close> says whether the channel of capacity one holds a signal;
  \<open>c_cycle\<close> is the cycle in progress, and then whether its context was cancelled; \<open>c_cancelled\<close> is the
  loop's own context. \<open>c_id\<close> is the identity of the object.\<close>

record controller =
  c_id :: nat
  c_cfg :: controllerConfig
  c_manager :: plugin_manager
  c_pub :: "byte list"
  c_pluginDefs :: "(string \<times> PluginDefinition) list"
  c_pluginsReady :: bool
  c_selection :: "string \<rightharpoonup> Selection"
  c_network :: underlayState
  c_changed :: bool
  c_cycle :: "bool option"
  c_cancelled :: bool

text \<open>Who holds the lifecycle mutex: nobody, a stop that waits for the loop it names, or a change of the
  underlay that has recorded the previous one.\<close>

datatype lifecycle = Free | HeldStop "nat option" | HeldUnderlay underlayState bool bool

record Node =
  n_lifecycle :: lifecycle
  n_network :: underlayState
  n_cfg :: tunnelConfig
  n_protector :: "int \<Rightarrow> bool"
  n_dnsServers :: "string list"
  n_dev :: "nat option"
  n_bind :: "Bind option"
  n_ctrl :: "controller option"
  n_running :: bool

datatype node_call =
    StateChanged string | Log string string | Event string string string
  | OpenTun int | CloseFd int | DeviceNew nat bool | IpcSet nat string | DevUp nat | DevDown nat | BindUpdate nat
  | Keepalives nat | DevClose nat | CtrlStart nat | CtrlCancel nat | CtrlStopped nat | SpawnStop

text \<open>The node starts from a configuration that was read; the three interfaces of the application may be nil.\<close>

definition NewNode ::
  "unicode \<Rightarrow> (string \<Rightarrow> url res) \<Rightarrow> (string \<Rightarrow> duration res) \<Rightarrow> (string \<Rightarrow> duration)
    \<Rightarrow> string \<Rightarrow> bool \<Rightarrow> (int \<Rightarrow> bool) option \<Rightarrow> bool \<Rightarrow> Node res" where
  "NewNode u urlParse parseDuration num configJSON hasTun protector hasListener =
     (case protector of
        Some protect \<Rightarrow>
          if \<not> hasTun \<or> \<not> hasListener then Err (ErrNew ''tunProvider, protector and listener are required'')
          else bind_res (parseConfig u urlParse parseDuration num configJSON) (\<lambda>cfg.
            Ok \<lparr>n_lifecycle = Free, n_network = no_underlay, n_cfg = cfg, n_protector = protect, n_dnsServers = [],
                n_dev = None, n_bind = None, n_ctrl = None, n_running = False\<rparr>)
      | None \<Rightarrow> Err (ErrNew ''tunProvider, protector and listener are required''))"

section \<open>The discovery loop's view (controller.go)\<close>

text \<open>A store's configuration: its name, unless the configured members override it.\<close>

definition controller_store :: "pluginDef \<Rightarrow> PluginDefinition" where
  "controller_store d =
     \<lparr>def_Type = pd_Type d,
      def_Config = (if map_of (pd_Config d) ''name'' = None then [(''name'', YString (pd_Name d))] else []) @ pd_Config d\<rparr>"

definition controller_view :: "tunnelConfig \<Rightarrow> controllerConfig" where
  "controller_view cfg =
     \<lparr>cc_Protocol = ic_Protocol (tc_Interface cfg), cc_StunAddresses = tc_StunAddresses cfg,
      cc_RefreshIntervalSeconds = tc_RefreshIntervalSeconds cfg,
      cc_Peers = map (\<lambda>p. \<lparr>dp_Name = mp_Name p, dp_PublicKey = mp_PublicKey p, dp_Plugin = mp_Plugin p,
                           dp_Protocol = mp_Protocol p, dp_Bootstrap = mp_Endpoint p\<rparr>) (tc_Peers cfg)\<rparr>"

definition newController :: "nat \<Rightarrow> Node \<Rightarrow> byte list \<Rightarrow> controller" where
  "newController i n pub =
     \<lparr>c_id = i, c_cfg = controller_view (n_cfg n), c_manager = Map.empty, c_pub = pub,
      c_pluginDefs = fold (\<lambda>d defs. AList.update (pd_Instance d) (controller_store d) defs) (tc_Plugins (n_cfg n)) [],
      c_pluginsReady = False, c_selection = Map.empty, c_network = n_network n, c_changed = False, c_cycle = None,
      c_cancelled = False\<rparr>"

section \<open>Start and stop (node.go)\<close>

text \<open>The platform's answers to a start: the descriptor for an MTU, its interface flags, the errors of
  the device's calls, the public key of a private one, and the fresh identity of the device.\<close>

record start_env =
  se_fd :: "int \<Rightarrow> int"
  se_flags :: "u16 res"
  se_tun :: "error option"
  se_ipc :: "string \<Rightarrow> error option"
  se_up :: "error option"
  se_public :: "byte list \<Rightarrow> byte list"
  se_new :: nat

text \<open>\<^verbatim>\<open>IFF_TUN\<close> and \<^verbatim>\<open>IFF_NO_PI\<close> set, \<^verbatim>\<open>IFF_VNET_HDR\<close> clear.\<close>

definition descriptor_ok :: "u16 res \<Rightarrow> bool" where
  "descriptor_ok flags =
     (case flags of Ok f \<Rightarrow> f AND 0x4000 = 0 \<and> f AND 0x0001 \<noteq> 0 \<and> f AND 0x1000 \<noteq> 0 | _ \<Rightarrow> False)"

definition start_failed :: "Node \<Rightarrow> node_call list \<Rightarrow> error \<Rightarrow> Node \<times> node_call list \<times> unit res" where
  "start_failed n calls e = (n, calls @ [Log ''error'' ''WireGuard start failed'', StateChanged ''down''], Err e)"

definition start_done :: "nat \<Rightarrow> byte list \<Rightarrow> Node \<Rightarrow> node_call list \<Rightarrow> Node \<times> node_call list \<times> unit res" where
  "start_done i pub n calls =
     (n\<lparr>n_dev := Some i, n_bind := Some (New_bind (Some (n_protector n))), n_ctrl := Some (newController i n pub), n_running := True\<rparr>,
      calls @ [Log ''info'' ''wireguard device up'', StateChanged ''up'', CtrlStart i], Ok ())"

text \<open>From the new device on: configure it and, when the underlay is there, bring it up.\<close>

definition start_up :: "start_env \<Rightarrow> Node \<Rightarrow> node_call list \<Rightarrow> Node \<times> node_call list \<times> unit res" where
  "start_up env n calls =
     (let i = se_new env; private = (case keyToBytes (ic_PrivateKey (tc_Interface (n_cfg n))) of Ok k \<Rightarrow> k | _ \<Rightarrow> replicate 32 0) in
      if us_online (n_network n) then
        (case se_up env of
           Some e \<Rightarrow> start_failed n (calls @ [DevUp i, DevClose i]) (ErrWrap ''device up'' [e])
         | None \<Rightarrow> start_done i (se_public env private) n (calls @ [DevUp i]))
      else start_done i (se_public env private) n calls)"

definition start_device :: "start_env \<Rightarrow> Node \<Rightarrow> node_call list \<Rightarrow> Node \<times> node_call list \<times> unit res" where
  "start_device env n calls =
     (let i = se_new env in
      case buildUAPI (Some (n_cfg n)) of
        Panic \<Rightarrow> (n, calls, Panic)
      | Err e \<Rightarrow> start_failed n (calls @ [DevClose i]) e
      | Ok uapi \<Rightarrow>
          (case se_ipc env uapi of
             Some e \<Rightarrow> start_failed n (calls @ [IpcSet i uapi, DevClose i]) (ErrWrap ''ipc set'' [e])
           | None \<Rightarrow> start_up env n (calls @ [IpcSet i uapi])))"

definition Start :: "start_env \<Rightarrow> Node \<Rightarrow> Node \<times> node_call list \<times> unit res" where
  "Start env n =
     (if n_running n then (n, [], Err (ErrNew ''node already running''))
      else
        let mtu = sint (word_of_int (ic_MTU (tc_Interface (n_cfg n))) :: 32 word); fd = se_fd env mtu;
            begun = [StateChanged ''starting'', OpenTun mtu] in
        if fd < 0 then start_failed n begun (ErrNew ''tun fd not available'')
        else if \<not> descriptor_ok (se_flags env)
        then start_failed n (begun @ [CloseFd fd]) (ErrNew ''unsupported platform TUN descriptor'')
        else case se_tun env of
          Some e \<Rightarrow> start_failed n begun (ErrWrap ''create tun from fd'' [e])
        | None \<Rightarrow> start_device env n (begun @ [DeviceNew (se_new env) (tc_LogLevel (n_cfg n) \<notin> {''silent'', ''disabled''})]))"

text \<open>The two critical sections of a stop. Between them the loop is cancelled and waited for.\<close>

definition Stop_begin :: "Node \<Rightarrow> Node \<times> node_call list" where
  "Stop_begin n =
     (if \<not> n_running n then (n, [])
      else (n\<lparr>n_lifecycle := HeldStop (map_option c_id (n_ctrl n)), n_running := False, n_ctrl := None\<rparr>,
            StateChanged ''stopping'' # (case n_ctrl n of Some c \<Rightarrow> [CtrlCancel (c_id c)] | None \<Rightarrow> [])))"

definition Stop_end :: "Node \<Rightarrow> Node \<times> node_call list" where
  "Stop_end n =
     (n\<lparr>n_lifecycle := Free, n_dev := None, n_bind := None, n_running := False\<rparr>,
      (case n_lifecycle n of HeldStop (Some c) \<Rightarrow> [CtrlStopped c] | _ \<Rightarrow> [])
        @ (case n_dev n of Some d \<Rightarrow> [DevClose d] | None \<Rightarrow> []) @ [StateChanged ''down''])"

definition IsRunning :: "Node \<Rightarrow> bool" where "IsRunning n = n_running n"

section \<open>Name servers (node.go)\<close>

definition defaultPluginDNSServers :: "string list" where
  "defaultPluginDNSServers = [''8.8.8.8:53'', ''1.1.1.1:53'', ''[2001:4860:4860::8888]:53'']"

definition SetDNSServers :: "string \<Rightarrow> Node \<Rightarrow> Node" where
  "SetDNSServers servers n =
     n\<lparr>n_dnsServers := filter (\<lambda>s. s \<noteq> [] \<and> ValidNameserver s) (map TrimSpace (Split (CHR '','') servers))\<rparr>"

definition pluginDNSServers :: "Node \<Rightarrow> string list" where
  "pluginDNSServers n = (if 0 < length (n_dnsServers n) then n_dnsServers n else defaultPluginDNSServers)"

section \<open>Endpoints and the underlay (node.go, network.go)\<close>

text \<open>\<open>ipc\<close> is the device's answer to a configuration text.\<close>

definition Node_SetPeerEndpoint :: "(string \<Rightarrow> error option) \<Rightarrow> string \<Rightarrow> string \<Rightarrow> Node \<Rightarrow> Node \<times> node_call list \<times> unit res" where
  "Node_SetPeerEndpoint ipc publicKeyB64 endpoint n =
     (if \<not> n_running n then (n, [], Err (ErrNew ''node not running''))
      else if \<not> list_ex (\<lambda>p. mp_PublicKey p = publicKeyB64) (tc_Peers (n_cfg n))
      then (n, [], Err (ErrNew ''endpoint update requires an existing configured peer''))
      else case buildPeerEndpointUAPI publicKeyB64 endpoint of
        Panic \<Rightarrow> (n, [], Panic)
      | Err e \<Rightarrow> (n, [], Err e)
      | Ok uapi \<Rightarrow>
          (case n_dev n of
             None \<Rightarrow> (n, [], Panic)
           | Some d \<Rightarrow>
               (case ipc uapi of
                  Some _ \<Rightarrow>
                    (n\<lparr>n_ctrl := map_option (\<lambda>c. c\<lparr>c_cancelled := True\<rparr>) (n_ctrl n)\<rparr>,
                     [IpcSet d uapi, DevClose d] @ (case n_ctrl n of Some c \<Rightarrow> [CtrlCancel (c_id c)] | None \<Rightarrow> []) @ [SpawnStop],
                     Err (ErrNew ''endpoint update failed; device stopped''))
                | None \<Rightarrow> (n, [IpcSet d uapi, Event ''peer_endpoint_updated'' publicKeyB64 endpoint], Ok ()))))"

definition networkChanged :: "underlayState \<Rightarrow> controller \<Rightarrow> controller" where
  "networkChanged state c =
     c\<lparr>c_network := state, c_cycle := map_option (\<lambda>_. True) (c_cycle c), c_changed := True\<rparr>"

text \<open>The device's answers while the underlay changes.\<close>

record underlay_env =
  ue_down :: "error option"
  ue_up :: "error option"
  ue_rebind :: "error option"

definition SetUnderlay_begin :: "underlayState \<Rightarrow> bool \<Rightarrow> Node \<Rightarrow> Node" where
  "SetUnderlay_begin state rebind n =
     n\<lparr>n_lifecycle := HeldUnderlay state (us_online (n_network n)) rebind, n_network := state,
       n_ctrl := map_option (networkChanged state) (n_ctrl n)\<rparr>"

definition SetUnderlay_end :: "underlay_env \<Rightarrow> Node \<Rightarrow> Node \<times> node_call list \<times> unit res" where
  "SetUnderlay_end env n =
     (case n_lifecycle n of
        HeldUnderlay state wasOnline rebind \<Rightarrow>
          let n' = n\<lparr>n_lifecycle := Free\<rparr> in
          (case n_dev n of
             None \<Rightarrow> (n', [], Ok ())
           | Some d \<Rightarrow>
               if \<not> n_running n then (n', [], Ok ())
               else
                 let (calls, err) =
                   (if \<not> us_online state then ([DevDown d], ue_down env)
                    else if \<not> wasOnline then ([DevUp d], ue_up env)
                    else if rebind then ([BindUpdate d], ue_rebind env) else ([], None)) in
                 (case err of
                    Some _ \<Rightarrow> (n', calls @ [DevClose d, SpawnStop], Err (ErrNew ''underlay transition failed; device stopped''))
                  | None \<Rightarrow> (n', calls @ (if us_online state \<and> rebind then [Keepalives d] else []), Ok ())))
      | _ \<Rightarrow> (n, [], Ok ()))"

section \<open>Health (health.go)\<close>

type_synonym healths = "string \<rightharpoonup> Health"

definition no_health :: Health where "no_health = \<lparr>h_Endpoint = [], Handshake = time_zero, Received = 0\<rparr>"

text \<open>One public field of a peer.\<close>

definition health_field :: "string \<Rightarrow> string \<Rightarrow> Health \<Rightarrow> Health res" where
  "health_field field value h =
     (if field = ''endpoint'' then Ok (h\<lparr>h_Endpoint := value\<rparr>)
      else if field = ''last_handshake_time_sec'' then
        bind_res (Atoi value) (\<lambda>n. Ok (if 0 < n then h\<lparr>Handshake := time_Unix n\<rparr> else h))
      else bind_res (ParseUint10 64 value) (\<lambda>n. Ok (h\<lparr>Received := word_of_nat n\<rparr>)))"

text \<open>One line: the peer whose section it is in, and the healths so far.\<close>

definition status_line :: "string \<Rightarrow> string \<times> healths \<Rightarrow> (string \<times> healths) res" where
  "status_line line st =
     (case cut (CHR ''='') line of
        None \<Rightarrow> Ok st
      | Some (field, value) \<Rightarrow>
          (case st of (peer, peers) \<Rightarrow>
           if field = ''public_key'' then
             (case hex_decode value of
                Ok raw \<Rightarrow>
                  if length raw \<noteq> 32 then Err (ErrNew ''invalid public health key'')
                  else Ok (b64_encode raw, peers(b64_encode raw \<mapsto> no_health))
              | Err _ \<Rightarrow> Err (ErrNew ''invalid public health key'')
              | Panic \<Rightarrow> Panic)
           else if field \<in> {''endpoint'', ''last_handshake_time_sec'', ''rx_bytes''} then
             if peer = [] then Ok (peer, peers)
             else bind_res (health_field field value (case peers peer of Some h \<Rightarrow> h | None \<Rightarrow> no_health)) (\<lambda>h.
               Ok (peer, peers(peer \<mapsto> h)))
           else Ok (peer, peers)))"

fun status_fields :: "string list \<Rightarrow> string \<times> healths \<Rightarrow> (string \<times> healths) res" where
  "status_fields [] st = Ok st"
| "status_fields (l # ls) st = bind_res (status_line l st) (status_fields ls)"

text \<open>The loop cuts lines off while text is left, so no empty line follows a final line break.\<close>

definition status_lines :: "string \<Rightarrow> string list" where
  "status_lines b = (let ls = Split (CHR 0x0A) b in if last ls = [] then butlast ls else ls)"

definition healthWriter_Write :: "string \<Rightarrow> healths \<Rightarrow> (nat \<times> healths) res" where
  "healthWriter_Write b peers =
     (if 128 * 1024 < length b then Err (ErrNew ''oversized WireGuard status'')
      else bind_res (status_fields (status_lines b) ([], peers)) (\<lambda>(_, peers'). Ok (length b, peers')))"

text \<open>The device writes its status in one or more pieces, and stops at the first that is refused;
  \<open>None\<close> is a failure of the device itself.\<close>

fun write_pieces :: "string list \<Rightarrow> healths \<Rightarrow> healths res" where
  "write_pieces [] peers = Ok peers"
| "write_pieces (b # bs) peers = bind_res (healthWriter_Write b peers) (\<lambda>(_, peers'). write_pieces bs peers')"

definition peerHealth :: "string list option \<Rightarrow> Node \<Rightarrow> healths res" where
  "peerHealth ipcGet n =
     (if \<not> n_running n \<or> n_dev n = None then Err (ErrNew ''device unavailable'')
      else case ipcGet of
        None \<Rightarrow> Err (ErrNew ''WireGuard health unavailable'')
      | Some pieces \<Rightarrow> replace_err (write_pieces pieces Map.empty) (ErrNew ''WireGuard health unavailable''))"

section \<open>Version (version.go)\<close>

record build_info =
  bi_MainVersion :: string
  bi_Settings :: "(string \<times> string) list"

definition vcs_setting :: "string \<times> string \<Rightarrow> string \<times> bool \<Rightarrow> string \<times> bool" where
  "vcs_setting s acc =
     (case (s, acc) of ((key, value), (revision, modified)) \<Rightarrow>
        if key = ''vcs.revision'' then (value, modified)
        else if key = ''vcs.modified'' then (revision, value = ''true'') else (revision, modified))"

definition mobile_Version :: "string \<Rightarrow> build_info option \<Rightarrow> string" where
  "mobile_Version version info =
     (if version \<noteq> [] then version
      else case info of
        None \<Rightarrow> ''dev''
      | Some i \<Rightarrow>
          if bi_MainVersion i \<noteq> [] \<and> bi_MainVersion i \<noteq> ''(devel)'' then bi_MainVersion i
          else
            let (revision, modified) = fold vcs_setting (bi_Settings i) ([], False) in
            if revision = [] then ''dev''
            else let r = (if 12 < length revision then take 12 revision else revision)
                 in if modified then r @ ''-dirty'' else r)"

section \<open>Every interleaving of the methods\<close>

text \<open>A state of the node with the calls made so far. A method that takes the lifecycle mutex waits until
  it is free; applying an endpoint and setting the name servers do not take it, and may come between the
  two critical sections of a stop or of a change of the underlay. Each new device is a new object.\<close>

definition opened :: "node_call list \<Rightarrow> nat set" where "opened log = {d. \<exists>b. DeviceNew d b \<in> set log}"
definition shut :: "node_call list \<Rightarrow> nat set" where "shut log = {d. DevClose d \<in> set log}"
definition started :: "node_call list \<Rightarrow> nat set" where "started log = {c. CtrlStart c \<in> set log}"
definition ended :: "node_call list \<Rightarrow> nat set" where "ended log = {c. CtrlStopped c \<in> set log}"
definition ipc_texts :: "node_call list \<Rightarrow> string set" where "ipc_texts log = {t. \<exists>d. IpcSet d t \<in> set log}"

inductive node_step :: "Node \<times> node_call list \<Rightarrow> Node \<times> node_call list \<Rightarrow> bool" where
  start: "n_lifecycle n = Free \<Longrightarrow> se_new env \<notin> opened log \<Longrightarrow> Start env n = (n', calls, r) \<Longrightarrow> r \<noteq> Panic
    \<Longrightarrow> node_step (n, log) (n', log @ calls)"
| stop_begin: "n_lifecycle n = Free \<Longrightarrow> Stop_begin n = (n', calls) \<Longrightarrow> node_step (n, log) (n', log @ calls)"
| stop_end: "n_lifecycle n = HeldStop c \<Longrightarrow> Stop_end n = (n', calls) \<Longrightarrow> node_step (n, log) (n', log @ calls)"
| underlay_begin: "n_lifecycle n = Free \<Longrightarrow> node_step (n, log) (SetUnderlay_begin state rebind n, log)"
| underlay_end: "n_lifecycle n = HeldUnderlay state online rebind \<Longrightarrow> SetUnderlay_end ue n = (n', calls, r)
    \<Longrightarrow> node_step (n, log) (n', log @ calls)"
| endpoint: "Node_SetPeerEndpoint ipc key ep n = (n', calls, r) \<Longrightarrow> r \<noteq> Panic \<Longrightarrow> node_step (n, log) (n', log @ calls)"
| dns: "node_step (n, log) (SetDNSServers servers n, log)"

definition fresh_node :: "tunnelConfig \<Rightarrow> (int \<Rightarrow> bool) \<Rightarrow> Node" where
  "fresh_node cfg protect =
     \<lparr>n_lifecycle = Free, n_network = no_underlay, n_cfg = cfg, n_protector = protect, n_dnsServers = [],
      n_dev = None, n_bind = None, n_ctrl = None, n_running = False\<rparr>"

inductive node_reach :: "tunnelConfig \<Rightarrow> (int \<Rightarrow> bool) \<Rightarrow> Node \<times> node_call list \<Rightarrow> bool"
  for cfg protect where
  init: "node_reach cfg protect (fresh_node cfg protect, [])"
| step: "node_reach cfg protect s \<Longrightarrow> node_step s s' \<Longrightarrow> node_reach cfg protect s'"

inductive_cases node_stepE: "node_step (n, log) s'"

section \<open>The invariant of the node\<close>

lemma log_simps [simp]:
  "opened [] = {}" "shut [] = {}" "started [] = {}" "ended [] = {}" "ipc_texts [] = {}"
  "opened (a @ b) = opened a \<union> opened b" "shut (a @ b) = shut a \<union> shut b" "started (a @ b) = started a \<union> started b"
  "ended (a @ b) = ended a \<union> ended b" "ipc_texts (a @ b) = ipc_texts a \<union> ipc_texts b"
  by (auto simp: opened_def shut_def started_def ended_def ipc_texts_def)

lemma log_Cons [simp]:
  "opened (x # log) = (case x of DeviceNew d b \<Rightarrow> {d} | _ \<Rightarrow> {}) \<union> opened log"
  "shut (x # log) = (case x of DevClose d \<Rightarrow> {d} | _ \<Rightarrow> {}) \<union> shut log"
  "started (x # log) = (case x of CtrlStart d \<Rightarrow> {d} | _ \<Rightarrow> {}) \<union> started log"
  "ended (x # log) = (case x of CtrlStopped d \<Rightarrow> {d} | _ \<Rightarrow> {}) \<union> ended log"
  "ipc_texts (x # log) = (case x of IpcSet d t \<Rightarrow> {t} | _ \<Rightarrow> {}) \<union> ipc_texts log"
  by (auto simp: opened_def shut_def started_def ended_def ipc_texts_def split: node_call.splits)

text \<open>The fields agree: outside a stop the node runs exactly when it has a device, and the loop it
  runs belongs to that device.\<close>

definition node_fields_ok :: "Node \<Rightarrow> bool" where
  "node_fields_ok n \<longleftrightarrow>
     (n_running n \<longleftrightarrow> n_ctrl n \<noteq> None) \<and> (n_dev n = None \<longleftrightarrow> n_bind n = None) \<and>
     (\<forall>c. n_ctrl n = Some c \<longrightarrow> n_dev n = Some (c_id c)) \<and>
     (case n_lifecycle n of
        HeldStop c \<Rightarrow> \<not> n_running n \<and> c = n_dev n \<and> n_dev n \<noteq> None
      | _ \<Rightarrow> n_running n \<longleftrightarrow> n_dev n \<noteq> None)"

text \<open>A text for the device is the configuration, or an update of one configured peer.\<close>

definition ipc_ok :: "tunnelConfig \<Rightarrow> string \<Rightarrow> bool" where
  "ipc_ok cfg t \<longleftrightarrow> buildUAPI (Some cfg) = Ok t \<or>
     (\<exists>p\<in>set (tc_Peers cfg). \<exists>ep. buildPeerEndpointUAPI (mp_PublicKey p) ep = Ok t)"

definition node_inv :: "tunnelConfig \<Rightarrow> (int \<Rightarrow> bool) \<Rightarrow> Node \<times> node_call list \<Rightarrow> bool" where
  "node_inv cfg protect s \<longleftrightarrow> (case s of (n, log) \<Rightarrow>
     node_fields_ok n \<and> n_cfg n = cfg \<and> n_protector n = protect \<and>
     opened log - shut log \<subseteq> set_option (n_dev n) \<and> started log - ended log \<subseteq> set_option (n_dev n) \<and>
     set_option (n_dev n) \<subseteq> started log \<and> ended log \<subseteq> started log \<and> started log \<subseteq> opened log \<and>
     (\<forall>t\<in>ipc_texts log. ipc_ok cfg t))"

text \<open>The three ends of a start: it did nothing to the node and left no device open, or it ran through.\<close>

definition start_outcome :: "start_env \<Rightarrow> Node \<Rightarrow> Node \<times> node_call list \<times> unit res \<Rightarrow> bool" where
  "start_outcome env n o' \<longleftrightarrow> (case o' of (n', calls, r) \<Rightarrow>
     ended calls = {} \<and> opened calls \<subseteq> {se_new env} \<and> (\<forall>t\<in>ipc_texts calls. buildUAPI (Some (n_cfg n)) = Ok t) \<and>
     (if r = Ok ()
      then (\<exists>pub. n' = fst (start_done (se_new env) pub n [])) \<and> opened calls = {se_new env} \<and> shut calls = {} \<and> started calls = {se_new env}
      else n' = n \<and> started calls = {} \<and> (r = Panic \<or> opened calls \<subseteq> shut calls)))"

lemma start_up_outcome:
  "opened calls = {se_new env} \<Longrightarrow> shut calls = {} \<Longrightarrow> started calls = {} \<Longrightarrow> ended calls = {} \<Longrightarrow>
   \<forall>t\<in>ipc_texts calls. buildUAPI (Some (n_cfg n)) = Ok t \<Longrightarrow> start_outcome env n (start_up env n calls)"
  by (cases "se_up env") (auto simp: start_up_def start_failed_def start_done_def start_outcome_def Let_def)

lemma start_device_outcome:
  assumes "opened calls = {se_new env}" "shut calls = {}" "started calls = {}" "ended calls = {}" "ipc_texts calls = {}"
  shows "start_outcome env n (start_device env n calls)"
proof (cases "buildUAPI (Some (n_cfg n))")
  case (Ok uapi)
  then show ?thesis
    using assms start_up_outcome[of "calls @ [IpcSet (se_new env) uapi]" env n]
    by (cases "se_ipc env uapi") (simp_all add: start_device_def Let_def start_failed_def start_outcome_def)
qed (use assms in \<open>simp_all add: start_device_def Let_def start_failed_def start_outcome_def\<close>)

lemma start_failed_outcome:
  "opened calls \<subseteq> {se_new env} \<Longrightarrow> opened calls \<subseteq> shut calls \<Longrightarrow> started calls = {} \<Longrightarrow> ended calls = {} \<Longrightarrow> ipc_texts calls = {}
    \<Longrightarrow> start_outcome env n (start_failed n calls e)"
  by (simp add: start_failed_def start_outcome_def)

lemma Start_outcome:
  assumes "\<not> n_running n"
  shows "start_outcome env n (Start env n)"
proof (cases "se_tun env")
  case None
  with assms show ?thesis
    by (simp add: Start_def Let_def start_failed_outcome start_device_outcome)
next
  case (Some e)
  with assms show ?thesis
    by (simp add: Start_def Let_def start_failed_outcome)
qed

text \<open>A stop, a change of the underlay and an endpoint close the node's own device only.\<close>

lemma SetPeerEndpoint_log:
  assumes "Node_SetPeerEndpoint ipc key ep n = (n', calls, r)"
  shows "opened calls = {}" "started calls = {}" "ended calls = {}" "shut calls \<subseteq> set_option (n_dev n)"
    "\<forall>t\<in>ipc_texts calls. ipc_ok (n_cfg n) t"
    "n' = n \<or> n' = n\<lparr>n_ctrl := map_option (\<lambda>c. c\<lparr>c_cancelled := True\<rparr>) (n_ctrl n)\<rparr>"
  using assms by (auto simp: Node_SetPeerEndpoint_def ipc_ok_def list_ex_iff split: if_splits option.splits res.splits)

lemma SetUnderlay_end_log:
  assumes "SetUnderlay_end ue n = (n', calls, r)" "n_lifecycle n = HeldUnderlay state online rebind"
  shows "opened calls = {}" "started calls = {}" "ended calls = {}" "shut calls \<subseteq> set_option (n_dev n)" "ipc_texts calls = {}"
    "n' = n\<lparr>n_lifecycle := Free\<rparr>"
  using assms by (auto simp: SetUnderlay_end_def Let_def split: if_splits option.splits)

lemma node_inv_start:
  assumes "node_inv cfg protect (n, log)" "n_lifecycle n = Free" "se_new env \<notin> opened log" "Start env n = (n', calls, r)" "r \<noteq> Panic"
  shows "node_inv cfg protect (n', log @ calls)"
proof (cases "n_running n")
  case True
  then show ?thesis using assms(1,4) by (simp add: Start_def)
next
  case False
  then have d: "n_dev n = None" "n_ctrl n = None" using assms(1,2) by (auto simp: node_inv_def node_fields_ok_def)
  have o: "start_outcome env n (n', calls, r)" using Start_outcome[OF False, of env] assms(4) by simp
  have t: "\<forall>t\<in>ipc_texts calls. ipc_ok cfg t" using o assms(1) by (auto simp: start_outcome_def node_inv_def ipc_ok_def)
  show ?thesis
  proof (cases "r = Ok ()")
    case True
    then obtain pub where "n' = fst (start_done (se_new env) pub n [])" "opened calls = {se_new env}" "shut calls = {}"
      "started calls = {se_new env}" "ended calls = {}" using o by (auto simp: start_outcome_def)
    then show ?thesis using assms(1,2) d t
      by (auto simp: node_inv_def node_fields_ok_def start_done_def newController_def)
  next
    case False
    then show ?thesis using o assms(1,5) t by (auto simp: start_outcome_def node_inv_def)
  qed
qed

lemma node_inv_endpoint:
  assumes "node_inv cfg protect (n, log)" "Node_SetPeerEndpoint ipc key ep n = (n', calls, r)"
  shows "node_inv cfg protect (n', log @ calls)"
proof -
  note l = SetPeerEndpoint_log[OF assms(2)]
  have "node_fields_ok n'" using l(6) assms(1) by (auto simp: node_inv_def node_fields_ok_def split: lifecycle.splits)
  moreover have "n_cfg n' = n_cfg n" "n_protector n' = n_protector n" "n_dev n' = n_dev n" using l(6) by auto
  ultimately show ?thesis using assms(1) l(1-5) by (auto simp: node_inv_def)
qed

lemma node_inv_stop:
  assumes "node_inv cfg protect (n, log)"
  shows "n_lifecycle n = Free \<Longrightarrow> Stop_begin n = (n', calls) \<Longrightarrow> node_inv cfg protect (n', log @ calls)"
    "n_lifecycle n = HeldStop c \<Longrightarrow> Stop_end n = (n', calls) \<Longrightarrow> node_inv cfg protect (n', log @ calls)"
  using assms
  by (auto simp: node_inv_def node_fields_ok_def Stop_begin_def Stop_end_def split: if_splits)

lemma node_inv_underlay:
  assumes "node_inv cfg protect (n, log)"
  shows "n_lifecycle n = Free \<Longrightarrow> node_inv cfg protect (SetUnderlay_begin state rebind n, log)"
    "n_lifecycle n = HeldUnderlay state online rebind \<Longrightarrow> SetUnderlay_end ue n = (n', calls, r) \<Longrightarrow> node_inv cfg protect (n', log @ calls)"
proof -
  show "n_lifecycle n = Free \<Longrightarrow> node_inv cfg protect (SetUnderlay_begin state rebind n, log)"
    using assms by (auto simp: node_inv_def node_fields_ok_def SetUnderlay_begin_def networkChanged_def)
  assume "n_lifecycle n = HeldUnderlay state online rebind" "SetUnderlay_end ue n = (n', calls, r)"
  note l = SetUnderlay_end_log[OF this(2,1)] and h = this(1)
  have "node_fields_ok n'" using l(6) assms h by (auto simp: node_inv_def node_fields_ok_def)
  then show "node_inv cfg protect (n', log @ calls)" using assms l by (auto simp: node_inv_def)
qed

lemma node_inv_dns: "node_inv cfg protect (n, log) \<Longrightarrow> node_inv cfg protect (SetDNSServers servers n, log)"
  by (auto simp: node_inv_def node_fields_ok_def SetDNSServers_def split: lifecycle.splits)

lemma node_reach_inv: "node_reach cfg protect s \<Longrightarrow> node_inv cfg protect s"
proof (induction rule: node_reach.induct)
  case init
  show ?case by (simp add: node_inv_def node_fields_ok_def fresh_node_def)
next
  case (step s s')
  obtain n log where s: "s = (n, log)" by fastforce
  note inv = step(3)[unfolded s]
  show ?case using step(2) unfolding s
    by (cases rule: node_stepE)
      (use inv node_inv_dns in \<open>auto intro: node_inv_start node_inv_stop node_inv_underlay node_inv_endpoint\<close>)
qed

text \<open>C10. The node leaks nothing, under every interleaving of its methods. A device that was created and
  not closed is the node's own, and a discovery loop that was started and has not ended is the one of
  that device; a running node has a device, a bind and a loop; and when the node is down and no method is
  in progress, every device it ever created is closed and every loop it ever started has ended. A failed
  start is no exception.\<close>

theorem node_no_leak:
  assumes "node_reach cfg protect (n, log)"
  shows "opened log - shut log \<subseteq> set_option (n_dev n) \<and> started log - ended log \<subseteq> set_option (n_dev n)
    \<and> (IsRunning n \<longrightarrow> n_dev n \<noteq> None \<and> n_bind n \<noteq> None \<and> n_ctrl n \<noteq> None)
    \<and> (n_lifecycle n = Free \<and> \<not> IsRunning n \<longrightarrow> opened log \<subseteq> shut log \<and> started log = ended log)"
  using node_reach_inv[OF assms] by (auto simp: node_inv_def node_fields_ok_def IsRunning_def)

text \<open>C11. The device is only ever told the configuration. Every text that reaches it, from any sequence of
  starts, stops, network changes and endpoint updates, reads as the whole configuration, or as one endpoint
  for one configured peer that must already exist: no call adds a peer, a route or a key.\<close>

theorem node_ipc_confined:
  assumes "node_reach cfg protect (n, log)" "t \<in> ipc_texts log"
  shows "uapi_read t = Some (device_items cfg) \<or>
    (\<exists>p\<in>set (tc_Peers cfg). \<exists>k ep. PublicKey (mp_PublicKey p) = Ok k \<and> uapi_read t = Some [PublicKeyItem k, UpdateOnly, EndpointItem ep])"
proof -
  have "ipc_ok cfg t" using node_reach_inv[OF assms(1)] assms(2) by (auto simp: node_inv_def)
  then show ?thesis unfolding ipc_ok_def using buildUAPI_reads(1) buildPeerEndpointUAPI_reads by blast
qed


section \<open>Health never depends on a secret\<close>

text \<open>The lines that carry public health.\<close>

definition public_line :: "string \<Rightarrow> bool" where
  "public_line l = (case cut (CHR ''='') l of
      None \<Rightarrow> False
    | Some (field, _) \<Rightarrow> field \<in> {''public_key'', ''endpoint'', ''last_handshake_time_sec'', ''rx_bytes''})"

lemma status_line_other: "\<not> public_line l \<Longrightarrow> status_line l st = Ok st"
  by (auto simp: status_line_def public_line_def split: option.splits)

lemma status_fields_public: "status_fields ls st = status_fields (filter public_line ls) st"
proof (induction ls arbitrary: st)
  case (Cons l ls)
  then show ?case by (cases "status_line l st") (auto simp: status_line_other)
qed simp

definition status_text :: "string list \<Rightarrow> string" where
  "status_text ls = concat (map (\<lambda>l. l @ [CHR 0x0A]) ls)"

lemma status_lines_text: "\<forall>l\<in>set ls. CHR 0x0A \<notin> set l \<Longrightarrow> status_lines (status_text ls) = ls"
proof -
  assume a: "\<forall>l\<in>set ls. CHR 0x0A \<notin> set l"
  then have "Split (CHR 0x0A) (status_text ls) = ls @ [[]]"
    by (induction ls) (simp_all add: status_text_def Split_append)
  then show ?thesis by (simp add: status_lines_def)
qed

text \<open>What leaves the device's status is public. The status holds private and preshared keys among its
  lines; the result of the writer, an error included, is a function of the lines that name a public key, an
  endpoint, a handshake time or a byte count, so two statuses of one size that differ in the other lines
  only cannot be told apart.\<close>

theorem health_public_only:
  assumes "\<forall>l\<in>set ls \<union> set ls'. CHR 0x0A \<notin> set l" "filter public_line ls = filter public_line ls'"
    "length (status_text ls) = length (status_text ls')"
  shows "healthWriter_Write (status_text ls) peers = healthWriter_Write (status_text ls') peers"
proof -
  have "status_lines (status_text ls) = ls" "status_lines (status_text ls') = ls'" using assms(1) by (simp_all add: status_lines_text)
  then show ?thesis
    using assms(2,3) status_fields_public[of ls] status_fields_public[of ls'] by (simp add: healthWriter_Write_def)
qed

section \<open>Witnesses\<close>

definition sample_config :: tunnelConfig where
  "sample_config = default_tunnel\<lparr>tc_Interface := (tc_Interface default_tunnel)\<lparr>ic_PrivateKey := replicate 42 (CHR ''A'') @ ''Q=''\<rparr>\<rparr>"

definition sample_start_env :: start_env where
  "sample_start_env = \<lparr>se_fd = (\<lambda>_. 7), se_flags = Ok 0x1001, se_tun = None, se_ipc = (\<lambda>_. None), se_up = None,
     se_public = id, se_new = 1\<rparr>"

definition sample_node :: Node where "sample_node = fresh_node sample_config (\<lambda>_. True)"

lemma sample_start:
  "\<exists>n calls. Start sample_start_env sample_node = (n, calls, Ok ()) \<and> n_dev n = Some 1 \<and> n_running n \<and> n_lifecycle n = Free
     \<and> (\<exists>c. n_ctrl n = Some c \<and> c_id c = 1) \<and> opened calls = {1} \<and> started calls = {1} \<and> shut calls = {} \<and> ended calls = {} \<and> ipc_texts calls \<noteq> {}"
proof -
  have "is_Ok (buildUAPI (Some sample_config))" by code_simp
  then obtain t where t: "buildUAPI (Some sample_config) = Ok t" by (auto simp: is_Ok_iff)
  have d: "descriptor_ok (Ok 0x1001)" by code_simp
  show ?thesis
    using t d
    by (simp add: Start_def sample_start_env_def sample_node_def fresh_node_def no_underlay_def Let_def start_device_def start_up_def
        start_done_def newController_def)
qed

lemma sample_reach:
  assumes "Start sample_start_env sample_node = (n, calls, Ok ())"
  shows "node_reach sample_config (\<lambda>_. True) (n, calls)"
proof -
  have "node_step (sample_node, []) (n, [] @ calls)"
    by (rule node_step.start[OF _ _ assms]) (simp_all add: sample_node_def fresh_node_def)
  then show ?thesis using node_reach.step[OF node_reach.init] by (simp add: sample_node_def)
qed

theorem node_no_leak_witness:
  "\<exists>n log. node_reach sample_config (\<lambda>_. True) (n, log) \<and> \<not> IsRunning n \<and> opened log = {1} \<and> shut log = {1} \<and> started log = ended log"
proof -
  obtain n calls c where s: "Start sample_start_env sample_node = (n, calls, Ok ())" "n_dev n = Some 1" "n_running n" "n_lifecycle n = Free"
    "n_ctrl n = Some c" "c_id c = 1" "opened calls = {1}" "started calls = {1}" "shut calls = {}" "ended calls = {}"
    using sample_start by blast
  let ?n1 = "fst (Stop_begin n)" and ?n2 = "fst (Stop_end (fst (Stop_begin n)))"
  let ?log = "(calls @ snd (Stop_begin n)) @ snd (Stop_end ?n1)"
  have h: "n_lifecycle ?n1 = HeldStop (Some 1)" "n_lifecycle ?n2 = Free" "\<not> n_running ?n2" "shut ?log = {1}" "opened ?log = {1}"
    using s by (simp_all add: Stop_begin_def Stop_end_def)
  have "node_reach sample_config (\<lambda>_. True) (?n1, calls @ snd (Stop_begin n))"
    by (rule node_reach.step[OF sample_reach[OF s(1)] node_step.stop_begin[OF s(4)]]) simp
  then have "node_reach sample_config (\<lambda>_. True) (?n2, ?log)"
    by (rule node_reach.step[OF _ node_step.stop_end[OF h(1)]]) simp
  moreover from node_no_leak[OF this] h have "\<not> IsRunning ?n2 \<and> started ?log = ended ?log" by (simp add: IsRunning_def)
  ultimately show ?thesis using h(4,5) by blast
qed

theorem node_ipc_confined_witness:
  "\<exists>n log t. node_reach sample_config (\<lambda>_. True) (n, log) \<and> t \<in> ipc_texts log \<and> uapi_read t = Some (device_items sample_config)"
proof -
  obtain n calls t where s: "Start sample_start_env sample_node = (n, calls, Ok ())" "t \<in> ipc_texts calls"
    using sample_start by blast
  have "tc_Peers sample_config = []" by code_simp
  with node_ipc_confined[OF sample_reach[OF s(1)] s(2)] sample_reach[OF s(1)] s(2) show ?thesis by auto
qed


theorem health_public_only_witness:
  "healthWriter_Write (status_text [''private_key=01'', ''public_key='' @ replicate 64 (CHR ''0''), ''preshared_key=02'', ''rx_bytes=5'']) Map.empty
   = healthWriter_Write (status_text [''private_key=03'', ''public_key='' @ replicate 64 (CHR ''0''), ''preshared_key=04'', ''rx_bytes=5'']) Map.empty"
proof (rule health_public_only)
  show "\<forall>l\<in>set [''private_key=01'', ''public_key='' @ replicate 64 (CHR ''0''), ''preshared_key=02'', ''rx_bytes=5'']
      \<union> set [''private_key=03'', ''public_key='' @ replicate 64 (CHR ''0''), ''preshared_key=04'', ''rx_bytes=5'']. CHR 0x0A \<notin> set l"
    by code_simp
  show "filter public_line [''private_key=01'', ''public_key='' @ replicate 64 (CHR ''0''), ''preshared_key=02'', ''rx_bytes=5'']
      = filter public_line [''private_key=03'', ''public_key='' @ replicate 64 (CHR ''0''), ''preshared_key=04'', ''rx_bytes=5'']"
    by code_simp
  show "length (status_text [''private_key=01'', ''public_key='' @ replicate 64 (CHR ''0''), ''preshared_key=02'', ''rx_bytes=5''])
      = length (status_text [''private_key=03'', ''public_key='' @ replicate 64 (CHR ''0''), ''preshared_key=04'', ''rx_bytes=5''])"
    by code_simp
qed

end
