(* ===== verification/Proxy.thy ===== *)
theory Proxy
  imports Demux Routeprobe
begin

text \<open>
  The relay (\<^verbatim>\<open>internal/wgproxy\<close>: \<^verbatim>\<open>proxy.go\<close>, \<^verbatim>\<open>manager.go\<close>,
  \<^verbatim>\<open>escape.go\<close> and the Linux and FreeBSD escape hooks). A proxy owns one outer socket per
  family and one loopback socket per peer. What the operating system answers (bound ports, write and
  read results, socket options) is an argument of the operation that asks; the packets an operation
  sends are part of its result. The methods hold the proxy's mutex for the whole of their work, and
  a loop handles one datagram at a time, so each method and each loop iteration is one step.
\<close>

section \<open>Families and errors\<close>

datatype Family = FamilyIPv4 | FamilyIPv6 | FamilyOther nat

definition ErrNoFamilies :: error where "ErrNoFamilies = ErrNew ''wgproxy: no protocol families enabled''"
definition ErrProxyClosed :: error where "ErrProxyClosed = ErrNew ''wgproxy: proxy closed''"
definition ErrFamilyNotEnabled :: error where "ErrFamilyNotEnabled = ErrNew ''wgproxy: protocol family not enabled''"
definition ErrExchangeTimeout :: error where "ErrExchangeTimeout = ErrNew ''wgproxy: STUN exchange timed out''"

definition relayBufSize :: nat where "relayBufSize = 65535"
definition defaultExchangeTimeout :: duration where "defaultExchangeTimeout = 5 * second"
definition readBackoffStep :: duration where "readBackoffStep = millisecond"
definition maxReadBackoff :: duration where "maxReadBackoff = 100 * millisecond"

fun Family_String :: "Family \<Rightarrow> string" where
  "Family_String FamilyIPv4 = ''ipv4''"
| "Family_String FamilyIPv6 = ''ipv6''"
| "Family_String (FamilyOther n) = ''family('' @ dec n @ '')''"

fun network :: "Family \<Rightarrow> string" where
  "network FamilyIPv4 = ''udp4''"
| "network FamilyIPv6 = ''udp6''"
| "network (FamilyOther _) = []"

definition familyOf :: "addrport \<Rightarrow> Family" where
  "familyOf ap = (if Is4 (Unmap (ap_addr ap)) then FamilyIPv4 else FamilyIPv6)"

section \<open>Tunnel escape (escape.go, escape\_linux.go, escape\_freebsd.go)\<close>

record escapeOptions =
  firewallMark :: int
  fib :: int
  tunnelIfaces :: TunnelInterfaces

definition no_escape :: escapeOptions where
  "no_escape = \<lparr>firewallMark = 0, fib = 0, tunnelIfaces = {}\<rparr>"

type_synonym Option = "escapeOptions \<Rightarrow> escapeOptions"

definition WithEscape :: "int \<Rightarrow> int \<Rightarrow> TunnelInterfaces \<Rightarrow> Option" where
  "WithEscape mark f tunnels o0 = o0\<lparr>firewallMark := mark, fib := f, tunnelIfaces := tunnels\<rparr>"

fun routeprobeFamily :: "Family \<Rightarrow> rp_Family" where
  "routeprobeFamily FamilyIPv6 = rp_IPv6"
| "routeprobeFamily _ = rp_IPv4"

definition shouldEscape :: "bool \<Rightarrow> bool \<Rightarrow> int \<Rightarrow> bool" where
  "shouldEscape covering probeErr mark = (if probeErr \<or> \<not> covering then False else mark \<noteq> 0)"

definition shouldSetFib :: "bool \<Rightarrow> bool \<Rightarrow> int \<Rightarrow> bool" where
  "shouldSetFib covering probeErr f = (if probeErr \<or> \<not> covering then False else f \<noteq> 0)"

definition probe_answer :: "bool res \<Rightarrow> bool \<times> bool" where
  "probe_answer r = (case r of Ok c \<Rightarrow> (c, False) | _ \<Rightarrow> (False, True))"

text \<open>The option value that the hook leaves on the socket, if any. \<open>setopt\<close> is the system call.\<close>

definition escapeOuterSocket_linux ::
  "escapeOptions \<Rightarrow> Family \<Rightarrow> (rp_Family \<Rightarrow> bool res) \<Rightarrow> (int \<Rightarrow> unit res) \<Rightarrow> int option" where
  "escapeOuterSocket_linux opts fam probe setopt =
     (if tunnelIfaces opts = {} then None
      else case probe_answer (probe (routeprobeFamily fam)) of (covering, failed) \<Rightarrow>
        if \<not> shouldEscape covering failed (firewallMark opts) then None
        else if is_Ok (setopt (firewallMark opts)) then Some (firewallMark opts) else None)"

definition escapeOuterSocket_freebsd ::
  "escapeOptions \<Rightarrow> Family \<Rightarrow> (rp_Family \<Rightarrow> bool res) \<Rightarrow> (int \<Rightarrow> unit res) \<Rightarrow> int option" where
  "escapeOuterSocket_freebsd opts fam probe setopt =
     (if tunnelIfaces opts = {} then None
      else case probe_answer (probe (routeprobeFamily fam)) of (covering, failed) \<Rightarrow>
        if \<not> shouldSetFib covering failed (fib opts) then None
        else if is_Ok (setopt (fib opts)) then Some (fib opts) else None)"

section \<open>State\<close>

record outerSocket =
  os_port :: u16
  os_mark :: "int option"

record peerState =
  innerAddr :: addrport
  remote :: "addrport option"

record Proxy =
  p_demux :: Demux
  outer :: "Family \<rightharpoonup> outerSocket"
  wgPort :: u32
  p_peers :: "PeerKey \<rightharpoonup> peerState"
  p_closed :: bool
  truncated :: u64
  unroutable :: u64
  writeErrs :: u64

text \<open>What the relay puts on the wire: a datagram from a peer's inner socket to WireGuard, or one
  from the outer socket of a family to the internet.\<close>

datatype datagram =
  ToWG PeerKey "byte list" addrport
| ToNet Family "byte list" addrport

section \<open>Construction\<close>

text \<open>The loop of \<^verbatim>\<open>New\<close> over the requested families, in an order \<open>ks\<close>. On failure the
  sockets bound so far are closed; they are the second component of the error.\<close>

type_synonym socket_env = "(Family \<Rightarrow> u16 \<Rightarrow> error + u16) \<times> (rp_Family \<Rightarrow> bool res) \<times> (int \<Rightarrow> unit res)"

datatype new_result = NewOk Proxy | NewErr error "Family list"

fun bind_loop :: "socket_env \<Rightarrow> escapeOptions \<Rightarrow> (Family \<rightharpoonup> u16) \<Rightarrow> Family list \<Rightarrow> Family list
    \<Rightarrow> (Family \<rightharpoonup> outerSocket) \<Rightarrow> (Family \<rightharpoonup> outerSocket) + (error \<times> Family list)" where
  "bind_loop env eo families [] bound outs = Inl outs"
| "bind_loop env eo families (fam # ks) bound outs =
     (case families fam of
        None \<Rightarrow> bind_loop env eo families ks bound outs
      | Some port \<Rightarrow>
          if network fam = [] then
            Inr (ErrNew (''wgproxy: unknown protocol family '' @ (case fam of FamilyOther n \<Rightarrow> dec n | _ \<Rightarrow> [])), bound)
          else (case env of (listen, probe, setopt) \<Rightarrow>
            (case listen fam port of
               Inr local \<Rightarrow>
                 bind_loop env eo families ks (bound @ [fam])
                   (outs(fam \<mapsto> \<lparr>os_port = local, os_mark = escapeOuterSocket_linux eo fam probe setopt\<rparr>))
             | Inl e \<Rightarrow> Inr (ErrWrap (''wgproxy: bind '' @ Family_String fam @ '' outer socket'') [e], bound))))"

definition New :: "socket_env \<Rightarrow> (Family \<rightharpoonup> u16) \<Rightarrow> Family list \<Rightarrow> Option list \<Rightarrow> new_result" where
  "New env families ks opts =
     (if families = Map.empty then NewErr ErrNoFamilies []
      else let eo = fold (\<lambda>opt o0. opt o0) opts no_escape in
        (case bind_loop env eo families ks [] Map.empty of
           Inr (e, closed) \<Rightarrow> NewErr e closed
         | Inl outs \<Rightarrow>
             NewOk \<lparr>p_demux = NewDemux, outer = outs, wgPort = 0, p_peers = Map.empty, p_closed = False,
                    truncated = 0, unroutable = 0, writeErrs = 0\<rparr>))"

section \<open>Methods\<close>

definition SetWGTarget :: "Proxy \<Rightarrow> u16 \<Rightarrow> Proxy" where
  "SetWGTarget p port = p\<lparr>wgPort := ucast port\<rparr>"

definition wgTarget :: "Proxy \<Rightarrow> addrport" where
  "wgTarget p = (if wgPort p = 0 then AddrPortZero else AddrPort (AddrFrom4 [127, 0, 0, 1]) (ucast (wgPort p)))"

text \<open>\<open>listen\<close> is the address of the freshly bound loopback socket, or the bind error.\<close>

definition AddPeer :: "Proxy \<Rightarrow> PeerKey \<Rightarrow> addrport res \<Rightarrow> Proxy \<times> addrport res" where
  "AddPeer p key listen =
     (if p_closed p then (p, Err ErrProxyClosed)
      else case p_peers p key of
        Some ps \<Rightarrow> (p, Ok (innerAddr ps))
      | None \<Rightarrow>
          (case listen of
             Ok a \<Rightarrow>
               let ps = \<lparr>innerAddr = normalize a, remote = None\<rparr>
               in (p\<lparr>p_peers := (p_peers p)(key \<mapsto> ps)\<rparr>, Ok (innerAddr ps))
           | Err e \<Rightarrow> (p, Err (ErrWrap ''wgproxy: bind inner socket'' [e]))
           | Panic \<Rightarrow> (p, Panic)))"

definition SetPeerEndpoint :: "Proxy \<Rightarrow> PeerKey \<Rightarrow> addrport \<Rightarrow> Proxy \<times> unit res" where
  "SetPeerEndpoint p key remote0 =
     (let r = normalize remote0 in
      case p_peers p key of
        None \<Rightarrow> (p, Err (ErrNew ''unknown proxy peer''))
      | Some ps \<Rightarrow>
          if \<not> ap_IsValid r \<or> ap_port r = 0 then (p, Err (ErrNew ''invalid proxy endpoint''))
          else (case Program (p_demux p) key r of
                  Err e \<Rightarrow> (p, Err e)
                | Panic \<Rightarrow> (p, Panic)
                | Ok d \<Rightarrow> (p\<lparr>p_demux := d, p_peers := (p_peers p)(key \<mapsto> ps\<lparr>remote := Some r\<rparr>)\<rparr>, Ok ())))"

definition OuterPort :: "Proxy \<Rightarrow> Family \<Rightarrow> u16" where
  "OuterPort p fam = (case outer p fam of Some sock \<Rightarrow> os_port sock | None \<Rightarrow> 0)"

text \<open>\<^verbatim>\<open>Exchange\<close> up to its wait: the transaction is registered, the request written; a failed
  write unregisters it again. The wait ends with a reply, the context or the timer.\<close>

definition Exchange_begin :: "Proxy \<Rightarrow> addrport \<Rightarrow> TxnID \<Rightarrow> byte list \<Rightarrow> unit res \<Rightarrow> Proxy \<times> datagram list res" where
  "Exchange_begin p server txnID packet written =
     (case outer p (familyOf server) of
        None \<Rightarrow> (p, Err (ErrWrap (Family_String (familyOf server)) [ErrFamilyNotEnabled]))
      | Some sock \<Rightarrow>
          (case Register (txns (p_demux p)) txnID server of
             Err e \<Rightarrow> (p, Err e)
           | Panic \<Rightarrow> (p, Panic)
           | Ok r \<Rightarrow>
               let p1 = p\<lparr>p_demux := (p_demux p)\<lparr>txns := r\<rparr>\<rparr> in
               (case written of
                  Ok _ \<Rightarrow> (p1, Ok [ToNet (familyOf server) packet server])
                | Err e \<Rightarrow> (p1\<lparr>p_demux := (p_demux p1)\<lparr>txns := Unregister r txnID\<rparr>\<rparr>,
                            Err (ErrWrap ''wgproxy: send STUN request'' [e]))
                | Panic \<Rightarrow> (p1, Panic))))"

datatype exchange_event = Reply | CtxDone error | TimerFired

text \<open>\<open>None\<close> is a receive that is not ready.\<close>

definition Exchange_end :: "Proxy \<Rightarrow> TxnID \<Rightarrow> exchange_event \<Rightarrow> (Proxy \<times> byte list res) option" where
  "Exchange_end p txnID ev =
     (let p' = p\<lparr>p_demux := (p_demux p)\<lparr>txns := Unregister (txns (p_demux p)) txnID\<rparr>\<rparr> in
      case ev of
        CtxDone e \<Rightarrow> Some (p', Err e)
      | TimerFired \<Rightarrow> Some (p', Err ErrExchangeTimeout)
      | Reply \<Rightarrow>
          (case txns (p_demux p) txnID of
             None \<Rightarrow> None
           | Some t \<Rightarrow> (case Dequeue (txn_reply t) of
                 Some (Some b, _) \<Rightarrow> Some (p', Ok b)
               | _ \<Rightarrow> None)))"

definition Close_proxy :: "Proxy \<Rightarrow> Proxy" where
  "Close_proxy p = (if p_closed p then p else p\<lparr>p_closed := True\<rparr>)"

section \<open>The relay loops\<close>

definition noteTruncation :: "nat \<Rightarrow> nat \<Rightarrow> u64 \<Rightarrow> u64" where
  "noteTruncation n bufLen count = (if n = bufLen then count + 1 else count)"

text \<open>One successful read of an outer loop: \<open>b\<close> is what fits in the buffer, \<open>wrote\<close> whether the write
  to WireGuard succeeds.\<close>

definition outer_recv :: "Proxy \<Rightarrow> addrport \<Rightarrow> byte list \<Rightarrow> bool \<Rightarrow> (Proxy \<times> datagram list) res" where
  "outer_recv p src b wrote =
     (let p0 = p\<lparr>truncated := noteTruncation (length b) relayBufSize (truncated p)\<rparr> in
      bind_res (Classify (p_demux p0) src b) (\<lambda>(decision, d).
      let p1 = p0\<lparr>p_demux := d\<rparr> in
      if dec_Bucket decision \<noteq> BucketRelay then Ok (p1, [])
      else case p_peers p1 (dec_Peer decision) of
        None \<Rightarrow> Ok (p1\<lparr>unroutable := unroutable p1 + 1\<rparr>, [])
      | Some ps \<Rightarrow>
          if \<not> ap_IsValid (wgTarget p1) then Ok (p1\<lparr>unroutable := unroutable p1 + 1\<rparr>, [])
          else if wrote then Ok (p1, [ToWG (dec_Peer decision) b (wgTarget p1)])
          else Ok (p1\<lparr>writeErrs := writeErrs p1 + 1\<rparr>, [])))"

text \<open>One successful read of the inner loop of the peer \<open>key\<close>.\<close>

definition inner_recv :: "Proxy \<Rightarrow> PeerKey \<Rightarrow> byte list \<Rightarrow> bool \<Rightarrow> (Proxy \<times> datagram list) option" where
  "inner_recv p key b wrote =
     (case p_peers p key of
        None \<Rightarrow> None
      | Some ps \<Rightarrow>
          let p0 = p\<lparr>truncated := noteTruncation (length b) relayBufSize (truncated p)\<rparr> in
          (case remote ps of
             None \<Rightarrow> Some (p0\<lparr>unroutable := unroutable p0 + 1\<rparr>, [])
           | Some r \<Rightarrow>
               (case outer p0 (familyOf r) of
                  None \<Rightarrow> Some (p0\<lparr>unroutable := unroutable p0 + 1\<rparr>, [])
                | Some sock \<Rightarrow>
                    if wrote then Some (p0, [ToNet (familyOf r) b r])
                    else Some (p0\<lparr>writeErrs := writeErrs p0 + 1\<rparr>, []))))"

text \<open>The pause after a run of read errors.\<close>

definition backoff :: "int \<Rightarrow> duration" where
  "backoff consecutiveErrs =
     (if consecutiveErrs \<le> 1 then 0 else min ((consecutiveErrs - 1) * readBackoffStep) maxReadBackoff)"

section \<open>The manager (manager.go)\<close>

definition ErrManagerClosed :: error where "ErrManagerClosed = ErrNew ''wgproxy: manager closed''"
definition ErrProxyNotReady :: error where "ErrProxyNotReady = ErrNew ''wgproxy: proxy not initialized yet''"

text \<open>The proxies live in the manager's map; an operation on a proxy updates its entry.\<close>

record Manager =
  proxies :: "string \<rightharpoonup> Proxy"
  m_closed :: bool

definition NewManager :: Manager where
  "NewManager = \<lparr>proxies = Map.empty, m_closed = False\<rparr>"

definition For :: "socket_env \<Rightarrow> Manager \<Rightarrow> string \<Rightarrow> (Family \<rightharpoonup> u16) \<Rightarrow> Family list \<Rightarrow> Option list \<Rightarrow> Manager \<times> Proxy res" where
  "For env m deviceName families ks opts =
     (if m_closed m then (m, Err ErrManagerClosed)
      else case proxies m deviceName of
        Some p \<Rightarrow> (m, Ok p)
      | None \<Rightarrow>
          (case New env families ks opts of
             NewErr e _ \<Rightarrow> (m, Err e)
           | NewOk p \<Rightarrow> (m\<lparr>proxies := (proxies m)(deviceName \<mapsto> p)\<rparr>, Ok p)))"

definition Get :: "Manager \<Rightarrow> string \<Rightarrow> Proxy res" where
  "Get m deviceName =
     (if m_closed m then Err ErrManagerClosed
      else case proxies m deviceName of
        None \<Rightarrow> Err (ErrWrap deviceName [ErrProxyNotReady])
      | Some p \<Rightarrow> Ok p)"

text \<open>Closing visits the proxies in an order \<open>ks\<close>, closes each and removes it; the closed proxies are
  the second component. Closing a proxy never fails.\<close>

fun close_loop :: "string list \<Rightarrow> Manager \<Rightarrow> Proxy list \<Rightarrow> Manager \<times> Proxy list" where
  "close_loop [] m ps = (m, ps)"
| "close_loop (name # ks) m ps =
     (case proxies m name of
        None \<Rightarrow> close_loop ks m ps
      | Some p \<Rightarrow> close_loop ks (m\<lparr>proxies := (proxies m)(name := None)\<rparr>) (ps @ [Close_proxy p]))"

definition Close_manager :: "string list \<Rightarrow> Manager \<Rightarrow> Manager \<times> Proxy list" where
  "Close_manager ks m = (if m_closed m then (m, []) else close_loop ks (m\<lparr>m_closed := True\<rparr>) [])"

section \<open>Reachable states of a proxy\<close>

text \<open>Any interleaving of the methods and of the loops, from a freshly built proxy. A step carries the
  datagrams it sends. A loop may still forward after the flag of \<^verbatim>\<open>Close\<close> is set: it ends only when its
  socket is closed. The two stores of \<^verbatim>\<open>SetPeerEndpoint\<close> are one step: an inbound packet reads only the
  demultiplexer and an outbound one only the peer's remote, so a packet that falls between them acts
  as one before or after both.\<close>

inductive proxy_step :: "Proxy \<Rightarrow> datagram list \<Rightarrow> Proxy \<Rightarrow> bool" where
  set_target: "proxy_step p [] (SetWGTarget p port)"
| add_peer: "AddPeer p key listen = (p', r) \<Longrightarrow> proxy_step p [] p'"
| set_endpoint: "SetPeerEndpoint p key a = (p', r) \<Longrightarrow> proxy_step p [] p'"
| exchange_begin: "Exchange_begin p server i packet written = (p', Ok ds) \<Longrightarrow> proxy_step p ds p'"
| exchange_failed: "Exchange_begin p server i packet written = (p', Err e) \<Longrightarrow> proxy_step p [] p'"
| exchange_end: "Exchange_end p i ev = Some (p', r) \<Longrightarrow> proxy_step p [] p'"
| outer: "outer_recv p src b wrote = Ok (p', ds) \<Longrightarrow> proxy_step p ds p'"
| inner: "inner_recv p key b wrote = Some (p', ds) \<Longrightarrow> proxy_step p ds p'"
| close: "proxy_step p [] (Close_proxy p)"

inductive proxy_reach :: "Proxy \<Rightarrow> Proxy \<Rightarrow> bool" for p0 :: Proxy where
  init: "proxy_reach p0 p0"
| step: "proxy_reach p0 p \<Longrightarrow> proxy_step p ds p' \<Longrightarrow> proxy_reach p0 p'"

text \<open>The invariant: the demultiplexer is consistent, and what the relay sends to a peer is exactly
  what the demultiplexer attributes to it.\<close>

definition proxy_inv :: "Proxy \<Rightarrow> bool" where
  "proxy_inv p \<longleftrightarrow> demux_inv (p_demux p)
     \<and> (\<forall>k. srcByPeer (p_demux p) k = (case p_peers p k of Some ps \<Rightarrow> remote ps | None \<Rightarrow> None))"

lemma proxy_inv_remote: "proxy_inv p \<Longrightarrow> p_peers p k = Some ps \<Longrightarrow> remote ps = srcByPeer (p_demux p) k"
  by (simp add: proxy_inv_def)

lemma AddPeer_inv: "proxy_inv p \<Longrightarrow> proxy_inv (fst (AddPeer p key listen))"
  by (cases "p_peers p key"; cases listen) (auto simp: AddPeer_def proxy_inv_def Let_def)

lemma demux_inv_txns: "demux_inv d \<Longrightarrow> registry_ok r \<Longrightarrow> demux_inv (d\<lparr>txns := r\<rparr>)"
  by (simp add: demux_inv_def demux_ok_def)

lemma Register_ok: "registry_ok r \<Longrightarrow> Register r i s = Ok r' \<Longrightarrow> registry_ok r'"
  by (auto simp: registry_ok_def Register_def NewBuffered_def split: if_splits)

lemma Unregister_ok: "registry_ok r \<Longrightarrow> registry_ok (Unregister r i)"
  by (auto simp: registry_ok_def Unregister_def)

lemma SetPeerEndpoint_inv: "proxy_inv p \<Longrightarrow> proxy_inv (fst (SetPeerEndpoint p key a))"
proof -
  assume inv: "proxy_inv p"
  then have d: "demux_ok (p_demux p)" "registry_ok (txns (p_demux p))"
    by (simp_all add: proxy_inv_def demux_inv_def)
  show ?thesis
  proof (cases "p_peers p key")
    case (Some ps)
    show ?thesis
    proof (cases "Program (p_demux p) key (normalize a)")
      case (Ok d')
      have "demux_inv d'"
        using d Ok by (simp add: demux_inv_def Program_ok [OF d(1) Ok] Program_txns [OF Ok])
      moreover have "srcByPeer d' = (srcByPeer (p_demux p))(key \<mapsto> normalize a)"
        using Program_eq(1) [OF d(1) Ok] by simp
      ultimately show ?thesis
        using inv Some Ok by (auto simp: SetPeerEndpoint_def Let_def proxy_inv_def)
    qed (use inv Some in \<open>auto simp: SetPeerEndpoint_def Let_def\<close>)
  qed (use inv in \<open>simp add: SetPeerEndpoint_def\<close>)
qed

lemma outer_recv_inv:
  assumes "proxy_inv p" "outer_recv p src b wrote = Ok (p', ds)"
  shows "proxy_inv p'"
proof -
  have r: "registry_ok (txns (p_demux p))" and i: "demux_inv (p_demux p)"
    using assms(1) by (simp_all add: proxy_inv_def demux_inv_def)
  obtain dn d where c: "Classify (p_demux p) src b = Ok (dn, d)" "srcByPeer d = srcByPeer (p_demux p)"
    using Classify_eq [OF r, of src b] by blast
  have "demux_inv d"
    using demux_step_inv [OF i demux_step.classify [OF c(1)]] .
  moreover have "p_demux p' = d" "p_peers p' = p_peers p"
    using assms(2) c by (auto simp: outer_recv_def Let_def split: if_splits option.splits)
  ultimately show ?thesis
    using assms(1) c(2) by (simp add: proxy_inv_def)
qed

lemma inner_recv_inv: "proxy_inv p \<Longrightarrow> inner_recv p key b wrote = Some (p', ds) \<Longrightarrow> proxy_inv p'"
proof -
  assume "proxy_inv p" "inner_recv p key b wrote = Some (p', ds)"
  then have "p_demux p' = p_demux p" "p_peers p' = p_peers p"
    by (auto simp: inner_recv_def Let_def split: option.splits if_splits)
  with \<open>proxy_inv p\<close> show ?thesis by (simp add: proxy_inv_def)
qed

lemma Exchange_begin_inv:
  assumes "proxy_inv p" "Exchange_begin p server i packet written = (p', r)"
  shows "proxy_inv p'"
proof -
  have k: "demux_inv (p_demux p)" "registry_ok (txns (p_demux p))"
    using assms(1) by (simp_all add: proxy_inv_def demux_inv_def)
  have "p_peers p' = p_peers p \<and> srcByPeer (p_demux p') = srcByPeer (p_demux p) \<and> demux_inv (p_demux p')"
    using assms(2) k
    by (auto simp: Exchange_begin_def Let_def split: option.splits res.splits
        intro!: demux_inv_txns Unregister_ok intro: Register_ok)
  with assms(1) show ?thesis by (simp add: proxy_inv_def)
qed

lemma Exchange_end_inv:
  assumes "proxy_inv p" "Exchange_end p i ev = Some (p', r)"
  shows "proxy_inv p'"
proof -
  have "p' = p\<lparr>p_demux := (p_demux p)\<lparr>txns := Unregister (txns (p_demux p)) i\<rparr>\<rparr>"
    using assms(2) by (auto simp: Exchange_end_def Let_def split: exchange_event.splits option.splits)
  with assms(1) show ?thesis
    by (auto simp: proxy_inv_def demux_inv_def demux_ok_def intro: Unregister_ok)
qed

lemma SetWGTarget_inv: "proxy_inv (SetWGTarget p port) = proxy_inv p"
  by (simp add: SetWGTarget_def proxy_inv_def)

lemma Close_proxy_inv: "proxy_inv (Close_proxy p) = proxy_inv p"
  by (simp add: Close_proxy_def proxy_inv_def)

lemma proxy_step_inv: "proxy_step p ds p' \<Longrightarrow> proxy_inv p \<Longrightarrow> proxy_inv p'"
proof (induction rule: proxy_step.induct)
  case (add_peer p key listen p' r)
  then show ?case using AddPeer_inv [of p key listen] by simp
next
  case (set_endpoint p key a p' r)
  then show ?case using SetPeerEndpoint_inv [of p key a] by simp
qed (auto simp: SetWGTarget_inv Close_proxy_inv
      intro: Exchange_begin_inv Exchange_end_inv outer_recv_inv inner_recv_inv)

lemma New_inv: "New env families ks opts = NewOk p \<Longrightarrow> proxy_inv p"
  by (auto simp: New_def Let_def proxy_inv_def demux_inv_def demux_ok_def registry_ok_def NewDemux_def NewTxnRegistry_def
      split: if_splits sum.splits prod.splits)

lemma proxy_reach_inv: "proxy_reach p0 p \<Longrightarrow> proxy_inv p0 \<Longrightarrow> proxy_inv p"
  by (induction rule: proxy_reach.induct) (auto intro: proxy_step_inv)

section \<open>What never changes\<close>

text \<open>The sockets of a proxy are fixed: no step changes an outer socket, and a peer keeps its inner
  address and is never forgotten.\<close>

definition keeps :: "Proxy \<Rightarrow> Proxy \<Rightarrow> bool" where
  "keeps p p' \<longleftrightarrow> outer p' = outer p
     \<and> (\<forall>k ps. p_peers p k = Some ps \<longrightarrow> (\<exists>ps'. p_peers p' k = Some ps' \<and> innerAddr ps' = innerAddr ps))
     \<and> (p_closed p \<longrightarrow> p_closed p')"

lemma keeps_refl [simp]: "keeps p p"
  by (simp add: keeps_def)

lemma keeps_trans: "keeps p q \<Longrightarrow> keeps q r \<Longrightarrow> keeps p r"
  unfolding keeps_def by (metis (no_types, lifting))

lemma proxy_step_keeps: "proxy_step p ds p' \<Longrightarrow> keeps p p'"
proof (induction rule: proxy_step.induct)
  case (add_peer p key listen p' r)
  then show ?case
    by (auto simp: AddPeer_def keeps_def Let_def split: if_splits option.splits res.splits)
next
  case (set_endpoint p key a p' r)
  then show ?case
    by (auto simp: SetPeerEndpoint_def keeps_def Let_def split: if_splits option.splits res.splits)
next
  case (exchange_begin p server i packet written p' ds)
  then show ?case
    by (auto simp: Exchange_begin_def keeps_def Let_def split: option.splits res.splits)
next
  case (exchange_failed p server i packet written p' e)
  then show ?case
    by (auto simp: Exchange_begin_def keeps_def Let_def split: option.splits res.splits)
next
  case (exchange_end p i ev p' r)
  then show ?case
    by (auto simp: Exchange_end_def keeps_def Let_def split: exchange_event.splits option.splits)
next
  case (outer p src b wrote p' ds)
  then show ?case
    by (auto simp: outer_recv_def keeps_def Let_def split: if_splits option.splits)
next
  case (inner p key b wrote p' ds)
  then show ?case
    by (auto simp: inner_recv_def keeps_def Let_def split: if_splits option.splits)
qed (simp_all add: SetWGTarget_def Close_proxy_def keeps_def)

lemma proxy_reach_keeps: "proxy_reach p0 p \<Longrightarrow> keeps p0 p"
  by (induction rule: proxy_reach.induct) (auto intro: keeps_trans proxy_step_keeps)

section \<open>Properties\<close>

lemma outer_recv_sends:
  assumes "proxy_inv p" "outer_recv p src b wrote = Ok (p', ds)" "x \<in> set ds"
  shows "\<exists>k ps. x = ToWG k b (wgTarget p) \<and> p_peers p k = Some ps \<and> remote ps = Some (normalize src)
    \<and> isSTUNShaped b = Ok False \<and> wgPort p \<noteq> 0"
proof -
  have i: "registry_ok (txns (p_demux p))" "demux_ok (p_demux p)"
    using assms(1) by (simp_all add: proxy_inv_def demux_inv_def)
  obtain dn d where c: "Classify (p_demux p) src b = Ok (dn, d)" by (meson Classify_eq [OF i(1)])
  have "dec_Bucket dn = BucketRelay" "x = ToWG (dec_Peer dn) b (wgTarget p)" "wgPort p \<noteq> 0"
      "\<exists>ps. p_peers p (dec_Peer dn) = Some ps"
    using assms(2,3) c
    by (auto simp: outer_recv_def wgTarget_def ap_IsValid_def Let_def split: if_splits option.splits)
  moreover have "isSTUNShaped b = Ok False" "srcByPeer (p_demux p) (dec_Peer dn) = Some (normalize src)"
    using Classify_eq [OF i(1), of src b] c calculation(1)
    by (auto simp: isSTUNShaped_eq demux_okD [OF i(2)] split: if_splits option.splits)
  ultimately show ?thesis
    using proxy_inv_remote [OF assms(1)] by metis
qed

lemma inner_recv_sends:
  assumes "inner_recv p key b wrote = Some (p', ds)" "x \<in> set ds"
  shows "\<exists>ps r. p_peers p key = Some ps \<and> remote ps = Some r \<and> x = ToNet (familyOf r) b r \<and> outer p (familyOf r) \<noteq> None"
  using assms by (auto simp: inner_recv_def Let_def split: option.splits if_splits)

text \<open>C3. The relay is confined. In every reachable state of a proxy, a datagram that arrives from the
  internet is forwarded only to WireGuard's own loopback port, only for the peer whose programmed
  address it came from, and never when it is STUN-shaped; a datagram from WireGuard for a peer goes
  only to the address programmed for that peer, which belongs to no other peer.\<close>

theorem relay_confined:
  assumes "New env families ks opts = NewOk p0" "proxy_reach p0 p"
  shows "(outer_recv p src b wrote = Ok (p', ds) \<and> x \<in> set ds \<longrightarrow>
      (\<exists>k ps. x = ToWG k b (AddrPort (V4 0x7F000001) (ucast (wgPort p))) \<and> wgPort p \<noteq> 0
         \<and> p_peers p k = Some ps \<and> remote ps = Some (normalize src) \<and> isSTUNShaped b = Ok False))
    \<and> (inner_recv p key c w = Some (p'', ds') \<and> y \<in> set ds' \<longrightarrow>
      (\<exists>ps r. p_peers p key = Some ps \<and> remote ps = Some r \<and> y = ToNet (familyOf r) c r
         \<and> outer p (familyOf r) \<noteq> None \<and> peerBySrc (p_demux p) r = Some key))"
proof -
  have inv: "proxy_inv p"
    using assms New_inv proxy_reach_inv by blast
  then have ok: "demux_ok (p_demux p)"
    by (simp add: proxy_inv_def demux_inv_def)
  have t: "wgPort p \<noteq> 0 \<Longrightarrow> wgTarget p = AddrPort (V4 0x7F000001) (ucast (wgPort p))"
    by (simp add: wgTarget_def AddrFrom4_def)
  show ?thesis
  proof (intro conjI impI; elim conjE)
    assume "outer_recv p src b wrote = Ok (p', ds)" "x \<in> set ds"
    from outer_recv_sends [OF inv this] t
    show "\<exists>k ps. x = ToWG k b (AddrPort (V4 0x7F000001) (ucast (wgPort p))) \<and> wgPort p \<noteq> 0
        \<and> p_peers p k = Some ps \<and> remote ps = Some (normalize src) \<and> isSTUNShaped b = Ok False"
      by auto
  next
    assume "inner_recv p key c w = Some (p'', ds')" "y \<in> set ds'"
    from inner_recv_sends [OF this] obtain ps r where r: "p_peers p key = Some ps" "remote ps = Some r"
      "y = ToNet (familyOf r) c r" "outer p (familyOf r) \<noteq> None" by blast
    moreover have "peerBySrc (p_demux p) r = Some key"
      using proxy_inv_remote [OF inv r(1)] r(2) demux_okD [OF ok, of key r] by simp
    ultimately show "\<exists>ps r. p_peers p key = Some ps \<and> remote ps = Some r \<and> y = ToNet (familyOf r) c r
        \<and> outer p (familyOf r) \<noteq> None \<and> peerBySrc (p_demux p) r = Some key"
      by blast
  qed
qed

text \<open>What a peer answers comes back to that peer: when the relay sent a datagram for a peer, a
  datagram that returns from the same address, not STUN-shaped, is handed to WireGuard as coming
  from that very peer, whatever else happens in between as long as the peer is not reprogrammed.\<close>

theorem relay_symmetric:
  assumes "New env families ks opts = NewOk p0" "proxy_reach p0 p"
    and "inner_recv p key c True = Some (q, [ToNet f c r])" "proxy_reach q q'"
    and "srcByPeer (p_demux q') key = srcByPeer (p_demux q) key" "wgPort q' \<noteq> 0" "isSTUNShaped b = Ok False"
  shows "\<exists>q''. outer_recv q' r b True = Ok (q'', [ToWG key b (wgTarget q')])"
proof -
  have inv: "proxy_inv p" using assms New_inv proxy_reach_inv by blast
  have "proxy_inv q" by (rule inner_recv_inv [OF inv assms(3)])
  then have inv': "proxy_inv q'" using assms(4) proxy_reach_inv by blast
  have i: "registry_ok (txns (p_demux q'))" "demux_ok (p_demux q')"
    using inv' by (simp_all add: proxy_inv_def demux_inv_def)
  obtain ps where ps: "p_peers p key = Some ps" "remote ps = Some r"
    using inner_recv_sends [OF assms(3), of "ToNet f c r"] by auto
  have "p_demux q = p_demux p"
    using assms(3) by (auto simp: inner_recv_def Let_def split: option.splits if_splits)
  then have s: "srcByPeer (p_demux q') key = Some r"
    using assms(5) proxy_inv_remote [OF inv ps(1)] ps(2) by simp
  then have o: "peerBySrc (p_demux q') r = Some key" and n: "normalize r = r"
    using i(2) by (auto simp: demux_ok_def)
  obtain ps' where ps': "p_peers q' key = Some ps'"
    using inv' s by (fastforce simp: proxy_inv_def split: option.splits)
  have "Classify (p_demux q') r b = Ok (\<lparr>dec_Bucket = BucketRelay, dec_Peer = key\<rparr>, p_demux q')"
    using assms(7) o n by (simp add: Classify_def)
  then show ?thesis
    using ps' assms(6) by (simp add: outer_recv_def Let_def wgTarget_def ap_IsValid_def AddrFrom4_def)
qed

text \<open>Ports are stable for the life of a proxy: whatever happens, the outer ports that were
  published stay the same, and registering a peer again returns the inner address it already has.\<close>

theorem proxy_ports_stable:
  assumes "proxy_reach p q"
  shows "OuterPort q fam = OuterPort p fam
    \<and> (p_peers p key = Some ps \<and> \<not> p_closed q \<longrightarrow> AddPeer q key listen = (q, Ok (innerAddr ps)))"
proof -
  have "keeps p q" by (rule proxy_reach_keeps [OF assms])
  then show ?thesis
    by (fastforce simp: keeps_def OuterPort_def AddPeer_def)
qed

text \<open>A proxy for both families, its sockets bound to fixed ports, with one peer programmed.\<close>

definition sample_env :: socket_env where
  "sample_env = (\<lambda>fam port. Inr (if port = 0 then 40000 else port), \<lambda>f. Ok False, \<lambda>m. Ok ())"

definition sample_families :: "Family \<rightharpoonup> u16" where
  "sample_families = [FamilyIPv4 \<mapsto> 0, FamilyIPv6 \<mapsto> 41000]"

definition sample_proxy0 :: Proxy where
  "sample_proxy0 = \<lparr>p_demux = NewDemux,
     outer = [FamilyIPv4 \<mapsto> \<lparr>os_port = 40000, os_mark = None\<rparr>, FamilyIPv6 \<mapsto> \<lparr>os_port = 41000, os_mark = None\<rparr>],
     wgPort = 0, p_peers = Map.empty, p_closed = False, truncated = 0, unroutable = 0, writeErrs = 0\<rparr>"

definition sample_proxy :: Proxy where
  "sample_proxy = fst (SetPeerEndpoint (SetWGTarget (fst (AddPeer sample_proxy0 zero_key (Ok (AddrPort (V4 0x7F000001) 9)))) 51820)
     zero_key sample_ap)"

lemma sample_New: "New sample_env sample_families [FamilyIPv4, FamilyIPv6] [] = NewOk sample_proxy0"
  by (simp add: New_def sample_env_def sample_families_def sample_proxy0_def escapeOuterSocket_linux_def no_escape_def)

lemma sample_proxy_reach: "proxy_reach sample_proxy0 sample_proxy"
proof -
  let ?p1 = "fst (AddPeer sample_proxy0 zero_key (Ok (AddrPort (V4 0x7F000001) 9)))"
  have "proxy_reach sample_proxy0 ?p1"
    by (rule proxy_reach.step [OF proxy_reach.init]) (rule proxy_step.add_peer, rule surjective_pairing)
  then have "proxy_reach sample_proxy0 (SetWGTarget ?p1 51820)"
    by (rule proxy_reach.step) (rule proxy_step.set_target)
  then show ?thesis
    unfolding sample_proxy_def
    by (rule proxy_reach.step) (rule proxy_step.set_endpoint, rule surjective_pairing)
qed

lemmas sample_proxy_defs = sample_proxy_def sample_proxy0_def sample_ap_def SetPeerEndpoint_def SetWGTarget_def AddPeer_def
  normalize_def Program_def NewDemux_def ap_IsValid_def Let_def

lemma sample_proxy_peer:
  "p_peers sample_proxy zero_key = Some \<lparr>innerAddr = AddrPort (V4 0x7F000001) 9, remote = Some sample_ap\<rparr>"
  "\<not> p_closed sample_proxy" "wgPort sample_proxy = 51820" "isSTUNShaped [4, 0, 0, 0] = Ok False"
  by (simp_all add: sample_proxy_defs isSTUNShaped_eq)

lemma sample_inner:
  "inner_recv sample_proxy zero_key [1, 2] True = Some (sample_proxy, [ToNet FamilyIPv4 [1, 2] sample_ap])"
  by (simp add: inner_recv_def sample_proxy_defs familyOf_def noteTruncation_def relayBufSize_def)

theorem relay_confined_witness:
  "inner_recv sample_proxy zero_key [1, 2] True = Some (sample_proxy, [ToNet FamilyIPv4 [1, 2] sample_ap])
    \<and> (\<exists>ps r. p_peers sample_proxy zero_key = Some ps \<and> remote ps = Some r
         \<and> ToNet FamilyIPv4 [1, 2] sample_ap = ToNet (familyOf r) [1, 2] r
         \<and> outer sample_proxy (familyOf r) \<noteq> None \<and> peerBySrc (p_demux sample_proxy) r = Some zero_key)"
  using relay_confined [OF sample_New sample_proxy_reach, THEN conjunct2, of zero_key "[1, 2]" True sample_proxy
      "[ToNet FamilyIPv4 [1, 2] sample_ap]" "ToNet FamilyIPv4 [1, 2] sample_ap"] sample_inner
  by simp

theorem relay_symmetric_witness:
  "\<exists>q''. outer_recv sample_proxy sample_ap [4, 0, 0, 0] True = Ok (q'', [ToWG zero_key [4, 0, 0, 0] (wgTarget sample_proxy)])"
  by (rule relay_symmetric [OF sample_New sample_proxy_reach sample_inner proxy_reach.init refl])
    (simp_all add: sample_proxy_peer)

theorem proxy_ports_stable_witness:
  "OuterPort sample_proxy FamilyIPv4 = OuterPort sample_proxy0 FamilyIPv4
    \<and> AddPeer sample_proxy zero_key (Err ErrProxyClosed) = (sample_proxy, Ok (AddrPort (V4 0x7F000001) 9))"
  using proxy_ports_stable [OF sample_proxy_reach, of FamilyIPv4]
    proxy_ports_stable [OF proxy_reach.init, of sample_proxy FamilyIPv4 zero_key, THEN conjunct2] sample_proxy_peer
  by simp

section \<open>Construction, escape and the manager\<close>

lemma bind_loop_dom:
  "bind_loop env eo families ks bound outs = Inl outs' \<Longrightarrow> dom outs' = dom outs \<union> (set ks \<inter> dom families)"
  by (induction env eo families ks bound outs rule: bind_loop.induct)
    (auto split: option.splits if_splits prod.splits sum.splits)

text \<open>Where a failed construction stopped: at the family whose network is unknown or whose socket did
  not bind; the ones visited before it are closed.\<close>

definition stopped_at :: "socket_env \<Rightarrow> (Family \<rightharpoonup> u16) \<Rightarrow> Family list \<Rightarrow> nat \<Rightarrow> bool" where
  "stopped_at env families ks n \<longleftrightarrow> n < length ks \<and>
     (\<exists>port. families (ks ! n) = Some port \<and> (network (ks ! n) = [] \<or> (\<exists>e. fst env (ks ! n) port = Inl e)))"

lemma stopped_at_Suc: "stopped_at env families ks n \<Longrightarrow> stopped_at env families (k # ks) (Suc n)"
  by (simp add: stopped_at_def)

lemma bind_loop_stop:
  assumes "bind_loop env eo families (fam # ks) bound outs = Inr (e, closed)" "families fam = Some port"
  shows "(network fam = [] \<or> (\<exists>e'. fst env fam port = Inl e')) \<and> closed = bound
    \<or> (\<exists>outs'. bind_loop env eo families ks (bound @ [fam]) outs' = Inr (e, closed))"
proof (cases "network fam = []")
  case True
  then show ?thesis using assms by simp
next
  case False
  obtain listen probe setopt where v: "env = (listen, probe, setopt)" by (cases env)
  then show ?thesis using assms False by (cases "listen fam port") (simp_all, blast)
qed

lemma bind_loop_closed:
  "bind_loop env eo families ks bound outs = Inr (e, closed) \<Longrightarrow>
    \<exists>n. stopped_at env families ks n \<and> set closed = set bound \<union> (set (take n ks) \<inter> dom families)"
proof (induction ks arbitrary: bound outs)
  case (Cons fam ks)
  have later: ?case if "bind_loop env eo families ks b o' = Inr (e, closed)" "set b = set bound \<union> ({fam} \<inter> dom families)" for b o'
  proof -
    from Cons.IH [OF that(1)] obtain n where "stopped_at env families ks n"
        "set closed = set b \<union> (set (take n ks) \<inter> dom families)" by blast
    with that(2) show ?thesis by (intro exI [of _ "Suc n"]) (auto intro: stopped_at_Suc)
  qed
  show ?case
  proof (cases "families fam")
    case None
    with Cons.prems later show ?thesis by auto
  next
    case (Some port)
    from bind_loop_stop [OF Cons.prems Some] show ?thesis
    proof
      assume "(network fam = [] \<or> (\<exists>e'. fst env fam port = Inl e')) \<and> closed = bound"
      with Some show ?thesis by (intro exI [of _ 0]) (auto simp: stopped_at_def)
    next
      assume "\<exists>outs'. bind_loop env eo families ks (bound @ [fam]) outs' = Inr (e, closed)"
      with later Some show ?thesis by (metis Int_insert_left Int_empty_left domI set_append list.set(1,2))
    qed
  qed
qed simp

text \<open>Building a proxy is all or nothing: on success exactly the requested families have a socket;
  on failure every socket that had been bound, in whatever order the families were visited, is
  closed again.\<close>

theorem New_all_or_nothing:
  assumes "iterates families ks"
  shows "(New env families ks opts = NewOk p \<longrightarrow> dom (outer p) = dom families)
    \<and> (New env families ks opts = NewErr e closed \<longrightarrow>
        families = Map.empty \<and> closed = [] \<or> (\<exists>n. stopped_at env families ks n \<and> set closed = set (take n ks)))"
proof -
  let ?eo = "fold (\<lambda>opt o0. opt o0) opts no_escape"
  have d: "set ks = dom families"
    using assms by (simp add: iterates_def)
  have "New env families ks opts = NewOk p \<Longrightarrow> bind_loop env ?eo families ks [] Map.empty = Inl (outer p)"
    by (auto simp: New_def Let_def split: if_splits sum.splits)
  moreover have "New env families ks opts = NewErr e closed \<Longrightarrow> families \<noteq> Map.empty \<Longrightarrow>
      bind_loop env ?eo families ks [] Map.empty = Inr (e, closed)"
    by (auto simp: New_def Let_def split: if_splits sum.splits prod.splits)
  moreover have "New env families ks opts = NewErr e closed \<Longrightarrow> families = Map.empty \<Longrightarrow> closed = []"
    by (simp add: New_def)
  moreover have "set (take n ks) \<inter> dom families = set (take n ks)" for n
    using d set_take_subset by fastforce
  ultimately show ?thesis
    using bind_loop_dom [of env ?eo families ks "[]" Map.empty "outer p"]
      bind_loop_closed [of env ?eo families ks "[]" Map.empty e closed] d by auto
qed

theorem New_all_or_nothing_witness:
  "iterates sample_families [FamilyIPv4, FamilyIPv6] \<and> dom (outer sample_proxy0) = dom sample_families"
proof -
  have i: "iterates sample_families [FamilyIPv4, FamilyIPv6]"
    by (auto simp: iterates_def sample_families_def)
  from New_all_or_nothing [OF i, of sample_env "[]" sample_proxy0] i sample_New show ?thesis by blast
qed

text \<open>A socket is marked to escape the tunnel only when it has to: on Linux the mark is set only
  when the device has one, the route table could be read, and every address of the socket's family
  is captured by a route through one of the managed tunnel interfaces.\<close>

theorem escape_only_when_captured:
  assumes "escapeOuterSocket_linux opts fam (\<lambda>f. Probe (routes f) f (tunnelIfaces opts)) setopt = Some m"
    and "in_family (routeprobeFamily fam) a"
  shows "m = firewallMark opts \<and> m \<noteq> 0 \<and>
    (\<exists>rs. routes (routeprobeFamily fam) = Ok rs
      \<and> (\<exists>r \<in> set rs. r_Interface r \<in> tunnelIfaces opts \<and> prefix_Contains (r_Prefix r) a))"
proof -
  let ?f = "routeprobeFamily fam"
  obtain rs where rs: "routes ?f = Ok rs" "HasCoveringDefault rs ?f (Some (TunnelInterfaces_Contains (tunnelIfaces opts)))"
    and m: "m = firewallMark opts" "m \<noteq> 0"
    using assms(1)
    by (cases "routes ?f")
      (auto simp: escapeOuterSocket_linux_def probe_answer_def Probe_def shouldEscape_def split: if_splits)
  from covering_captures [OF rs(2) assms(2)] rs(1) m show ?thesis
    by (auto simp: TunnelInterfaces_Contains_def)
qed

theorem escape_only_when_captured_witness:
  "\<exists>rs. (Ok [\<lparr>r_Prefix = PrefixFrom (V4 0) 0, r_Interface = ''wg0'', r_Index = 0\<rparr>] :: Route list res) = Ok rs
      \<and> (\<exists>r \<in> set rs. r_Interface r \<in> {''wg0''} \<and> prefix_Contains (r_Prefix r) (V4 0x08080808))"
proof -
  let ?o = "\<lparr>firewallMark = 51820, fib = 0, tunnelIfaces = {''wg0''}\<rparr>"
  let ?r = "\<lambda>f :: rp_Family. Ok [\<lparr>r_Prefix = PrefixFrom (V4 0) 0, r_Interface = ''wg0'', r_Index = 0\<rparr>]"
  have e: "escapeOuterSocket_linux ?o FamilyIPv4 (\<lambda>f. Probe (?r f) f (tunnelIfaces ?o)) (\<lambda>_. Ok ()) = Some 51820"
    by (simp add: escapeOuterSocket_linux_def probe_answer_def Probe_def shouldEscape_def HasCoveringDefault_def
        TunnelInterfaces_Contains_def PrefixFrom_def)
  from escape_only_when_captured [OF e, of "V4 0x08080808"] show ?thesis by simp
qed

lemma close_loop_spec:
  "distinct ks \<Longrightarrow> close_loop ks m ps = (m', ps') \<Longrightarrow>
    m_closed m' = m_closed m \<and> set ps' = set ps \<union> {Close_proxy p |n p. n \<in> set ks \<and> proxies m n = Some p}
    \<and> proxies m' = (\<lambda>n. if n \<in> set ks then None else proxies m n)"
proof (induction ks arbitrary: m ps)
  case (Cons k ks)
  show ?case
  proof (cases "proxies m k")
    case None
    with Cons show ?thesis by auto
  next
    case (Some p)
    let ?m = "m\<lparr>proxies := (proxies m)(k := None)\<rparr>"
    have "close_loop ks ?m (ps @ [Close_proxy p]) = (m', ps')"
      using Cons.prems Some by simp
    with Cons.IH [OF _ this] Cons.prems(1) Some show ?thesis
      by (auto simp: fun_eq_iff split: if_splits)
  qed
qed auto

text \<open>One proxy per interface, once: asking again for a device, with whatever families and options,
  returns the proxy it has and binds nothing; asking for another device does not disturb it; and
  after closing, every request is refused and every proxy has been closed.\<close>

theorem manager_memoizes:
  assumes "For env m dev families ks opts = (m1, Ok p)" "iterates (proxies m1) names"
    "Close_manager names m1 = (m2, closed)"
  shows "For env' m1 dev families' ks' opts' = (m1, Ok p) \<and> Get m1 dev = Ok p
    \<and> (dev' \<noteq> dev \<longrightarrow> proxies (fst (For env' m1 dev' families' ks' opts')) dev = Some p)
    \<and> For env' m2 dev' families' ks' opts' = (m2, Err ErrManagerClosed) \<and> Get m2 dev' = Err ErrManagerClosed
    \<and> Close_proxy p \<in> set closed \<and> proxies m2 = Map.empty"
proof -
  have p: "proxies m1 dev = Some p" and c: "\<not> m_closed m1"
    using assms(1) by (auto simp: For_def split: if_splits option.splits new_result.splits)
  have "close_loop names (m1\<lparr>m_closed := True\<rparr>) [] = (m2, closed)" "distinct names" "set names = dom (proxies m1)"
    using assms(2,3) c by (simp_all add: Close_manager_def iterates_def)
  from close_loop_spec [OF this(2,1)] this(3) p
  have m2: "m_closed m2" "proxies m2 = Map.empty" "Close_proxy p \<in> set closed"
    by (auto simp: fun_eq_iff)
  show ?thesis
    using p c m2 by (auto simp: For_def Get_def split: option.splits new_result.splits)
qed

theorem manager_memoizes_witness:
  "For sample_env \<lparr>proxies = [''wg0'' \<mapsto> sample_proxy0], m_closed = False\<rparr> ''wg0'' Map.empty [] []
     = (\<lparr>proxies = [''wg0'' \<mapsto> sample_proxy0], m_closed = False\<rparr>, Ok sample_proxy0)
   \<and> Get \<lparr>proxies = Map.empty, m_closed = True\<rparr> ''wg0'' = Err ErrManagerClosed"
proof -
  let ?m = "\<lparr>proxies = [''wg0'' \<mapsto> sample_proxy0], m_closed = False\<rparr>"
  have f: "For sample_env NewManager ''wg0'' sample_families [FamilyIPv4, FamilyIPv6] [] = (?m, Ok sample_proxy0)"
    by (simp add: For_def NewManager_def sample_New)
  have i: "iterates (proxies ?m) [''wg0'']" by (simp add: iterates_def)
  have c: "Close_manager [''wg0''] ?m = (\<lparr>proxies = Map.empty, m_closed = True\<rparr>, [Close_proxy sample_proxy0])"
    by (simp add: Close_manager_def)
  from manager_memoizes [OF f i c] show ?thesis by blast
qed

end
