(* ===== verification/Stun_Client.thy ===== *)
theory Stun_Client
  imports Dialer Proxy Config
begin

text \<open>
  STUN discovery through the shared socket (\<^verbatim>\<open>internal/stun\<close>): the client that rides a
  proxy's transport, the factories that build it, and the resolver that tries the configured servers
  in order. The name lookup, the random transaction id and the transport's answer are parameters; the
  transport of the program is the proxy of theory \<open>Proxy\<close>. Only the resolver holds a lock, around a
  whole resolution, so a resolution is one step.
\<close>

section \<open>The proxy-backed client (proxy\_client.go)\<close>

definition ErrTxnIDMismatch :: error where
  "ErrTxnIDMismatch = ErrNew ''stun: response transaction ID does not match request''"

type_synonym StunTransport = "addrport \<Rightarrow> TxnID \<Rightarrow> byte list \<Rightarrow> byte list res"

record ProxyBacked =
  transport :: StunTransport
  pb_protocol :: string

definition NewProxyBacked :: "StunTransport \<Rightarrow> string \<Rightarrow> ProxyBacked" where
  "NewProxyBacked t protocol = \<lparr>transport = t, pb_protocol = protocol\<rparr>"

definition parseBindingResponse :: "byte list \<Rightarrow> TxnID \<Rightarrow> (string \<times> int) res" where
  "parseBindingResponse raw txnID =
     (if IsSTUN raw \<and> TxnIDOf raw \<noteq> txnID then Err ErrTxnIDMismatch
      else bind_res (ParseResponse raw txnID) (\<lambda>ep.
           Ok (addr_String (ap_addr ep), uint (ap_port ep))))"

text \<open>\<open>lookup\<close> is the escaped resolver, \<open>rnd\<close> the randomness of the request.\<close>

definition Connect ::
  "(string \<Rightarrow> string \<Rightarrow> addr list res) \<Rightarrow> byte list res \<Rightarrow> ProxyBacked \<Rightarrow> string \<Rightarrow> (string \<times> int) res" where
  "Connect lookup rnd c stunAddr =
     (let net = (if pb_protocol c = ''ipv6'' then ''udp6'' else ''udp4'') in
      bind_res (ResolveAddrPort lookup net stunAddr) (\<lambda>server.
      bind_res (BuildRequest rnd) (\<lambda>(req, txn).
      bind_res (transport c server txn req) (\<lambda>raw.
      parseBindingResponse raw txn))))"

section \<open>Factories (factory.go, proxy\_client.go)\<close>

text \<open>A factory yields the \<^verbatim>\<open>Connect\<close> of a client, or an error.\<close>

type_synonym connector = "string \<Rightarrow> (string \<times> int) res"

definition StunTimeout :: duration where "StunTimeout = 5 * second"

definition defaultClientFactory :: "string \<Rightarrow> u16 \<Rightarrow> string \<Rightarrow> int \<Rightarrow> string list \<Rightarrow> bool \<Rightarrow> connector res" where
  "defaultClientFactory deviceName port protocol fwMark listenInterfaces listenDefaultRoute =
     Err (ErrNew ''STUN requires the shared UDP proxy transport'')"

text \<open>\<open>env\<close> gives each connection its resolver and randomness; \<open>warned\<close> is the once-flag.\<close>

definition NewProxyLookupFactory ::
  "(string \<Rightarrow> (string \<Rightarrow> string \<Rightarrow> addr list res) \<times> byte list res) \<Rightarrow> (string \<Rightarrow> StunTransport res) \<Rightarrow> bool
    \<Rightarrow> string \<Rightarrow> u16 \<Rightarrow> string \<Rightarrow> int \<Rightarrow> string list \<Rightarrow> bool \<Rightarrow> bool \<times> connector res" where
  "NewProxyLookupFactory env lookup warned deviceName port protocol fwMark listenInterfaces listenDefaultRoute =
     (case lookup deviceName of
        Ok t \<Rightarrow>
          (warned \<or> port \<noteq> 0 \<or> fwMark \<noteq> 0 \<or> listenInterfaces \<noteq> [] \<or> listenDefaultRoute,
           Ok (\<lambda>s. Connect (fst (env s)) (snd (env s)) (NewProxyBacked t protocol) s))
      | Err e \<Rightarrow> (warned, Err e)
      | Panic \<Rightarrow> (warned, Panic))"

section \<open>The resolver (resolver.go)\<close>

definition ErrAllServersFailed :: error where "ErrAllServersFailed = ErrNew ''all STUN servers failed''"

fun resolve_loop :: "connector \<Rightarrow> string list \<Rightarrow> (string \<times> int) res" where
  "resolve_loop connect [] = Err ErrAllServersFailed"
| "resolve_loop connect (server # servers) =
     (case connect server of
        Panic \<Rightarrow> Panic
      | Err _ \<Rightarrow> resolve_loop connect servers
      | Ok (host, port) \<Rightarrow>
          if port = 0 \<or> host = [] then resolve_loop connect servers else Ok (host, port))"

definition Resolve ::
  "Stun \<Rightarrow> Interfaces \<Rightarrow> (string \<Rightarrow> u16 \<Rightarrow> string \<Rightarrow> int \<Rightarrow> string list \<Rightarrow> bool \<Rightarrow> connector res)
    \<Rightarrow> string \<Rightarrow> u16 \<Rightarrow> string \<Rightarrow> int \<Rightarrow> (string \<times> int) res" where
  "Resolve stun is newClient deviceName port protocol fwMark =
     (let (listenInterfaces, listenDefaultRoute) = GetListenConfig is deviceName in
      bind_res (newClient deviceName port protocol fwMark listenInterfaces listenDefaultRoute) (\<lambda>connect.
      resolve_loop connect (GetServers stun)))"

text \<open>The composition root (\<^verbatim>\<open>app/proxy_stack.go\<close>): the factory finds a device's transport
  in the proxy manager and never creates one. \<open>exchange\<close> is what the exchange of a proxy returns.\<close>

definition stack_newClient ::
  "(string \<Rightarrow> (string \<Rightarrow> string \<Rightarrow> addr list res) \<times> byte list res) \<Rightarrow> (Proxy \<Rightarrow> StunTransport) \<Rightarrow> Manager \<Rightarrow> bool
    \<Rightarrow> string \<Rightarrow> u16 \<Rightarrow> string \<Rightarrow> int \<Rightarrow> string list \<Rightarrow> bool \<Rightarrow> connector res" where
  "stack_newClient env exchange m warned deviceName port protocol fwMark listenInterfaces listenDefaultRoute =
     snd (NewProxyLookupFactory env (\<lambda>name. bind_res (Get m name) (\<lambda>p. Ok (exchange p))) warned
            deviceName port protocol fwMark listenInterfaces listenDefaultRoute)"

section \<open>What a discovered endpoint is\<close>

text \<open>The discovered host and port as an endpoint that the rest of the program accepts.\<close>

definition public_endpoint :: "string \<times> int \<Rightarrow> bool" where
  "public_endpoint hp \<longleftrightarrow>
     (\<exists>ap. hp = (addr_String (ap_addr ap), uint (ap_port ap)) \<and> mapped_ok ap \<and> HostPort (fst hp) (snd hp) = Ok ap)"

lemma mapped_ok_HostPort:
  assumes "mapped_ok ap"
  shows "HostPort (addr_String (ap_addr ap)) (uint (ap_port ap)) = Ok ap"
proof -
  have "IsValid (ap_addr ap)" "\<not> IsUnspecified (ap_addr ap)" "\<not> IsMulticast (ap_addr ap)" "\<not> IsLinkLocalUnicast (ap_addr ap)"
    using assms IsGlobalUnicast_valid
    by (auto simp: mapped_ok_def IsGlobalUnicast_def IsUnspecified_def IsMulticast_def IsLinkLocalUnicast_def)
  moreover have "plain_addr (ap_addr ap)"
    using assms calculation(1) by (auto simp: mapped_ok_def plain_addr_def)
  moreover have "0 < unat (ap_port ap)" using assms by (simp add: mapped_ok_def unat_gt_0)
  ultimately show ?thesis
    using HostPort_addr_String[of "ap_addr ap" "ap_port ap"] by (cases ap) simp
qed

lemma ParseResponse_mapped_ok: "ParseResponse msg txn = Ok ap \<Longrightarrow> mapped_ok ap"
  using ParseResponse_Ok by blast

lemma parseBindingResponse_public: "parseBindingResponse raw txn = Ok hp \<Longrightarrow> public_endpoint hp"
  using ParseResponse_mapped_ok mapped_ok_HostPort
  by (fastforce simp: parseBindingResponse_def public_endpoint_def split: if_splits)

lemma Connect_public: "Connect lookup rnd c stunAddr = Ok hp \<Longrightarrow> public_endpoint hp"
  by (cases hp) (auto simp: Connect_def Let_def intro: parseBindingResponse_public)

lemma resolve_loop_Ok: "resolve_loop connect servers = Ok hp \<Longrightarrow> \<exists>s\<in>set servers. connect s = Ok hp"
  by (induction servers) (auto split: res.splits if_splits)

text \<open>A panic of a connection can only come from the parameters: the lookup answering with an empty
  list, or a call that itself panics.\<close>

definition answers_ok :: "(string \<Rightarrow> string \<Rightarrow> addr list res) \<Rightarrow> bool" where
  "answers_ok lookup \<longleftrightarrow> (\<forall>net host. lookup net host \<noteq> Panic \<and> lookup net host \<noteq> Ok [])"

lemma Connect_no_panic:
  assumes "answers_ok lookup" "\<forall>a t b. transport c a t b \<noteq> Panic" "rnd = Ok bytes" "length bytes = 12"
  shows "Connect lookup rnd c stunAddr \<noteq> Panic"
proof -
  have "ResolveAddrPort lookup net stunAddr \<noteq> Panic" for net
    using assms(1) by (auto simp: ResolveAddrPort_def answers_ok_def index_def bind_res_eq_Panic split: if_splits)
  moreover have "BuildRequest rnd \<noteq> Panic"
    using assms(3,4) by (simp add: BuildRequest_def)
  moreover have "parseBindingResponse raw txn \<noteq> Panic" for raw txn
    by (simp add: parseBindingResponse_def bind_res_eq_Panic)
  ultimately show ?thesis
    using assms(2) by (auto simp: Connect_def Let_def bind_res_eq_Panic)
qed

section \<open>Properties\<close>

text \<open>An answer that names both a host and a port.\<close>

definition usable_answer :: "(string \<times> int) res \<Rightarrow> bool" where
  "usable_answer r = (case r of Ok (host, port) \<Rightarrow> port \<noteq> 0 \<and> host \<noteq> [] | _ \<Rightarrow> False)"

lemma resolve_loop_eq:
  "\<forall>s\<in>set servers. connect s \<noteq> Panic \<Longrightarrow>
    resolve_loop connect servers =
      (case find (\<lambda>s. usable_answer (connect s)) servers of Some s \<Rightarrow> connect s | None \<Rightarrow> Err ErrAllServersFailed)"
  by (induction servers) (auto simp: usable_answer_def split: res.splits)

text \<open>A resolution is a search: with a client that does not panic, the result is that of the first
  server in the effective list whose answer is usable, and \<open>ErrAllServersFailed\<close> when there is none;
  no server is asked twice.\<close>

theorem Resolve_first_usable:
  assumes "newClient dev port protocol mark (fst (GetListenConfig is dev)) (snd (GetListenConfig is dev)) = Ok connect"
    "\<forall>s\<in>set (GetServers stun). connect s \<noteq> Panic"
  shows "Resolve stun is newClient dev port protocol mark =
      (case find (\<lambda>s. usable_answer (connect s)) (GetServers stun) of
         Some s \<Rightarrow> connect s | None \<Rightarrow> Err ErrAllServersFailed)
    \<and> distinct (GetServers stun)"
proof -
  have "Resolve stun is newClient dev port protocol mark = resolve_loop connect (GetServers stun)"
    using assms(1) by (simp add: Resolve_def split_beta)
  then show ?thesis using resolve_loop_eq[OF assms(2)] by (simp add: GetServers_eq Let_def)
qed

theorem Resolve_first_usable_witness:
  "Resolve \<lparr>stun_Address = ''a:1'', stun_Addresses = Some [''b:2'', ''a:1'', ''c:3'']\<rparr> []
      (\<lambda>_ _ _ _ _ _. Ok (\<lambda>s. if s = ''b:2'' then Ok (''8.8.8.8'', 53) else Err ErrTxnIDMismatch)) ''wg0'' 0 ''ipv4'' 0
    = Ok (''8.8.8.8'', 53)"
proof -
  have "GetServers \<lparr>stun_Address = ''a:1'', stun_Addresses = Some [''b:2'', ''a:1'', ''c:3'']\<rparr> = [''a:1'', ''b:2'', ''c:3'']"
    by code_simp
  then show ?thesis
    using Resolve_first_usable[of "\<lambda>_ _ _ _ _ _. Ok (\<lambda>s. if s = ''b:2'' then Ok (''8.8.8.8'', 53) else Err ErrTxnIDMismatch)"
        "''wg0''" 0 "''ipv4''" 0 "[]"
        "\<lambda>s. if s = ''b:2'' then Ok (''8.8.8.8'', 53) else Err ErrTxnIDMismatch"
        "\<lparr>stun_Address = ''a:1'', stun_Addresses = Some [''b:2'', ''a:1'', ''c:3'']\<rparr>"]
    by (simp add: usable_answer_def)
qed

text \<open>What discovery hands to the publisher is a public endpoint: the host and port print an address
  that a validated STUN response carried, global unicast with a non-zero port, and the program's own
  endpoint check accepts them and reads the same address back. And discovery returns: it does not
  panic as long as the resolver never answers a lookup with an empty success and the transport
  returns.\<close>

theorem Resolve_discovers_public:
  assumes "\<forall>s. answers_ok (fst (env s))" "\<forall>s. \<exists>bytes. snd (env s) = Ok bytes \<and> length bytes = 12"
    "\<forall>p a i b. exchange p a i b \<noteq> Panic"
  shows "(\<exists>ap. Resolve stun is (stack_newClient env exchange m warned) dev lport protocol mark
             = Ok (addr_String (ap_addr ap), uint (ap_port ap)) \<and> mapped_ok ap \<and>
           Endpoint (JoinHostPort (addr_String (ap_addr ap)) (Itoa (uint (ap_port ap)))) = Ok ap)
    \<or> (\<exists>e. Resolve stun is (stack_newClient env exchange m warned) dev lport protocol mark = Err e)"
proof -
  let ?c = "\<lambda>p s. Connect (fst (env s)) (snd (env s)) (NewProxyBacked (exchange p) protocol) s"
  have eq: "Resolve stun is (stack_newClient env exchange m warned) dev lport protocol mark =
      bind_res (Get m dev) (\<lambda>p. resolve_loop (?c p) (GetServers stun))"
    by (cases "Get m dev") (simp_all add: Resolve_def stack_newClient_def NewProxyLookupFactory_def split_beta)
  have "?c p s \<noteq> Panic" for p s
  proof -
    obtain bytes where "snd (env s) = Ok bytes" "length bytes = 12" using assms(2) by blast
    from Connect_no_panic[OF _ _ this] show ?thesis using assms(1,3) by (simp add: NewProxyBacked_def)
  qed
  then have np: "resolve_loop (?c p) (GetServers stun) \<noteq> Panic" for p
    by (simp add: resolve_loop_eq split: option.splits)
  have pub: "resolve_loop (?c p) (GetServers stun) = Ok hp \<Longrightarrow> public_endpoint hp" for p hp
    using resolve_loop_Ok Connect_public by blast
  show ?thesis
  proof (cases "Resolve stun is (stack_newClient env exchange m warned) dev lport protocol mark")
    case Panic
    then show ?thesis using eq np by (simp add: Get_def split: if_splits option.splits)
  next
    case (Ok hp)
    then have "public_endpoint hp" using eq by (cases hp) (auto intro: pub)
    with Ok show ?thesis by (auto simp: public_endpoint_def HostPort_def split: if_splits)
  qed auto
qed

definition sample_stun_env :: "string \<Rightarrow> (string \<Rightarrow> string \<Rightarrow> addr list res) \<times> byte list res" where
  "sample_stun_env s = ((\<lambda>net host. if host = ''stun.example'' then Ok [V6 0xFFFF08080404 []] else Err (ErrNew ''no such host'')), Ok sample_txn)"

theorem Resolve_discovers_public_witness:
  "Resolve \<lparr>stun_Address = ''stun.example:3478'', stun_Addresses = None\<rparr> []
      (stack_newClient sample_stun_env (\<lambda>_ _ _ _. Ok sample_response) \<lparr>proxies = [''wg0'' \<mapsto> sample_proxy0], m_closed = False\<rparr> False)
      ''wg0'' 51820 ''ipv4'' 0 = Ok (''8.8.8.8'', 53)
   \<and> ((\<exists>ap. Resolve \<lparr>stun_Address = ''stun.example:3478'', stun_Addresses = None\<rparr> []
      (stack_newClient sample_stun_env (\<lambda>_ _ _ _. Ok sample_response) \<lparr>proxies = [''wg0'' \<mapsto> sample_proxy0], m_closed = False\<rparr> False)
      ''wg0'' 51820 ''ipv4'' 0 = Ok (addr_String (ap_addr ap), uint (ap_port ap)) \<and> mapped_ok ap))"
proof -
  let ?m = "\<lparr>proxies = [''wg0'' \<mapsto> sample_proxy0], m_closed = False\<rparr>"
  let ?stun = "\<lparr>stun_Address = ''stun.example:3478'', stun_Addresses = None\<rparr>"
  let ?R = "Resolve ?stun [] (stack_newClient sample_stun_env (\<lambda>_ _ _ _. Ok sample_response) ?m False) ''wg0'' 51820 ''ipv4'' 0"
  have "Connect (fst (sample_stun_env ''stun.example:3478'')) (snd (sample_stun_env ''stun.example:3478''))
      (NewProxyBacked (\<lambda>_ _ _. Ok sample_response) ''ipv4'') ''stun.example:3478'' = Ok (''8.8.8.8'', 53)"
    by code_simp
  moreover have "GetServers ?stun = [''stun.example:3478'']" by code_simp
  ultimately have v: "?R = Ok (''8.8.8.8'', 53)"
    by (simp add: Resolve_def stack_newClient_def NewProxyLookupFactory_def split_beta Get_def)
  have "\<forall>s. answers_ok (fst (sample_stun_env s))" "\<forall>s. \<exists>bytes. snd (sample_stun_env s) = Ok bytes \<and> length bytes = 12"
    by (simp_all add: sample_stun_env_def answers_ok_def sample_txn_def)
  from Resolve_discovers_public[OF this, of "\<lambda>_ _ _ _. Ok sample_response" ?stun "[]" ?m False "''wg0''" 51820 "''ipv4''" 0] v
  show ?thesis by auto
qed

end
