(* ===== verification/Publish.thy ===== *)
theory Publish
  imports Entity Opendht Stun_Client
begin

text \<open>
  The publish controller (\<^verbatim>\<open>internal/ctrl/publish.go\<close>): discover the local endpoints of a device,
  remember them, and store them for each of its peers. The resolver and the stores are parameters; the
  writes handed to the stores are recorded in order, since they are what the controller does to the
  world. Context deadlines appear as errors of the calls they end.
\<close>

section \<open>The escape of a device\<close>

text \<open>The device configuration may be absent.\<close>

definition escapeFor :: "Interfaces option \<Rightarrow> Device \<Rightarrow> Escape" where
  "escapeFor deviceConfig dev =
     (let escape = no_Escape\<lparr>esc_FirewallMark := d_firewallMark dev\<rparr> in
      case deviceConfig of
        None \<Rightarrow> escape
      | Some is \<Rightarrow> escape\<lparr>esc_Fib := GetProxyFib is (d_name dev),
                         esc_TunnelIfaces := NewTunnelInterfaces (TunnelInterfaceNames is)\<rparr>)"

section \<open>Publishing\<close>

text \<open>\<open>resolve\<close> is the STUN resolver, called with the escape, the device, its port, the family and the
  mark; a panic of a resolution that is made is a panic of the discovery.\<close>

type_synonym stun_resolver = "Escape \<Rightarrow> string \<Rightarrow> u16 \<Rightarrow> string \<Rightarrow> int \<Rightarrow> (string \<times> int) res"

definition resolveFamily :: "stun_resolver \<Rightarrow> Interfaces option \<Rightarrow> Device \<Rightarrow> string \<Rightarrow> family_result res" where
  "resolveFamily resolve dc dev fam =
     (case resolve (escapeFor dc dev) (d_name dev) (word_of_int (d_listenPort dev)) fam (d_firewallMark dev) of
        Panic \<Rightarrow> Panic
      | Err e \<Rightarrow> Ok ([], Some e)
      | Ok (host, port) \<Rightarrow> Ok (JoinHostPort host (Itoa port), None))"

definition discoverEndpoints :: "stun_resolver \<Rightarrow> Interfaces option \<Rightarrow> Device \<Rightarrow> (string \<times> string) res" where
  "discoverEndpoints resolve dc dev =
     (let r4 = resolveFamily resolve dc dev ''ipv4''; r6 = resolveFamily resolve dc dev ''ipv6'';
          value = (\<lambda>r. case r of Ok x \<Rightarrow> x | _ \<Rightarrow> ([], None));
          (calls, result) = DiscoverEndpoints (d_protocol dev) True (value r4) (value r6)
      in if ResolveIPv4 \<in> set calls \<and> r4 = Panic \<or> ResolveIPv6 \<in> set calls \<and> r6 = Panic then Panic else result)"

text \<open>A write: the escape its connection takes, the store, the key and the record.\<close>

record store_write =
  sw_escape :: Escape
  sw_store :: OpenDHTPlugin
  sw_key :: string
  sw_record :: string

definition publishToPeer ::
  "nat list \<Rightarrow> plugin_manager \<Rightarrow> (store_write \<Rightarrow> unit res) \<Rightarrow> Interfaces option \<Rightarrow> Device \<Rightarrow> Peer \<Rightarrow> string \<Rightarrow> string
    \<Rightarrow> store_write list \<times> unit res" where
  "publishToPeer order plugins write dc dev peer ipv4Endpoint ipv6Endpoint =
     (case Encode order \<lparr>Version = 0, IPv4 = ipv4Endpoint, IPv6 = ipv6Endpoint\<rparr> of
        Panic \<Rightarrow> ([], Panic) | Err e \<Rightarrow> ([], Err e)
      | Ok data \<Rightarrow>
          (case GetPlugin plugins (p_plugin peer) of
             Panic \<Rightarrow> ([], Panic) | Err e \<Rightarrow> ([], Err e)
           | Ok store \<Rightarrow>
               let w = \<lparr>sw_escape = escapeFor dc dev, sw_store = store, sw_key = LocalId peer, sw_record = data\<rparr>
               in ([w], write w)))"

fun publish_peers ::
  "nat list \<Rightarrow> plugin_manager \<Rightarrow> (store_write \<Rightarrow> unit res) \<Rightarrow> Interfaces option \<Rightarrow> Device \<Rightarrow> string \<Rightarrow> string \<Rightarrow> Peer list
    \<Rightarrow> store_write list \<times> unit res" where
  "publish_peers order plugins write dc dev e4 e6 [] = ([], Ok ())"
| "publish_peers order plugins write dc dev e4 e6 (peer # peers) =
     (case publishToPeer order plugins write dc dev peer e4 e6 of
        (ws, Panic) \<Rightarrow> (ws, Panic)
      | (ws, _) \<Rightarrow> (case publish_peers order plugins write dc dev e4 e6 peers of (ws', r) \<Rightarrow> (ws @ ws', r)))"

text \<open>\<open>now\<close> is the clock after a device's discovery, \<open>pids\<close> the order of the peer repository.\<close>

fun publish_devices ::
  "nat list \<Rightarrow> plugin_manager \<Rightarrow> (store_write \<Rightarrow> unit res) \<Rightarrow> stun_resolver \<Rightarrow> Interfaces option \<Rightarrow> (string \<Rightarrow> time) \<Rightarrow> PeerId list \<Rightarrow> Peers
    \<Rightarrow> Device list \<Rightarrow> Devices \<Rightarrow> Devices \<times> store_write list \<times> unit res" where
  "publish_devices order plugins write resolve dc now pids peers [] ds = (ds, [], Ok ())"
| "publish_devices order plugins write resolve dc now pids peers (dev # devices) ds =
     (case discoverEndpoints resolve dc dev of
        Panic \<Rightarrow> (ds, [], Panic)
      | Err _ \<Rightarrow> publish_devices order plugins write resolve dc now pids peers devices ds
      | Ok (e4, e6) \<Rightarrow>
          let ds' = UpdateStatus ds (d_name dev) \<lparr>ls_IPv4 = e4, ls_IPv6 = e6, DiscoveredAt = now (d_name dev)\<rparr> in
          (case publish_peers order plugins write dc dev e4 e6 (ListByDevice pids peers (d_name dev)) of
             (ws, Panic) \<Rightarrow> (ds', ws, Panic)
           | (ws, _) \<Rightarrow>
               (case publish_devices order plugins write resolve dc now pids peers devices ds' of
                  (ds'', ws', r) \<Rightarrow> (ds'', ws @ ws', r))))"

definition Publish_Execute ::
  "nat list \<Rightarrow> plugin_manager \<Rightarrow> (store_write \<Rightarrow> unit res) \<Rightarrow> stun_resolver \<Rightarrow> Interfaces option \<Rightarrow> (string \<Rightarrow> time)
    \<Rightarrow> string list \<Rightarrow> PeerId list \<Rightarrow> Peers \<Rightarrow> Devices \<Rightarrow> Devices \<times> store_write list \<times> unit res" where
  "Publish_Execute order plugins write resolve dc now names pids peers ds =
     publish_devices order plugins write resolve dc now pids peers (Devices_List names ds) ds"

definition ExecuteForPeer ::
  "nat list \<Rightarrow> plugin_manager \<Rightarrow> (store_write \<Rightarrow> unit res) \<Rightarrow> stun_resolver \<Rightarrow> Interfaces option
    \<Rightarrow> Peers \<Rightarrow> Devices \<Rightarrow> PeerId \<Rightarrow> store_write list \<times> unit res" where
  "ExecuteForPeer order plugins write resolve dc peers ds pid =
     (case Peers_Find peers pid of
        Panic \<Rightarrow> ([], Panic) | Err _ \<Rightarrow> ([], Ok ())
      | Ok peer \<Rightarrow>
          (case Devices_Find ds (p_deviceName peer) of
             Panic \<Rightarrow> ([], Panic) | Err _ \<Rightarrow> ([], Ok ())
           | Ok dev \<Rightarrow>
               (case discoverEndpoints resolve dc dev of
                  Panic \<Rightarrow> ([], Panic) | Err _ \<Rightarrow> ([], Ok ())
                | Ok (e4, e6) \<Rightarrow>
                    (case publishToPeer order plugins write dc dev peer e4 e6 of
                       (ws, Panic) \<Rightarrow> (ws, Panic) | (ws, _) \<Rightarrow> (ws, Ok ())))))"

section \<open>Triggers\<close>

record PublishController =
  triggerQueue :: "unit Queue"
  peerQueue :: "PeerId Queue"

definition NewPublishController :: PublishController where
  "NewPublishController = \<lparr>triggerQueue = NewBuffered TriggerQueueSize, peerQueue = NewBuffered PeerQueueSize\<rparr>"

definition Publish_Trigger :: "PublishController \<Rightarrow> PublishController res" where
  "Publish_Trigger c = bind_res (TryEnqueue (triggerQueue c) ()) (\<lambda>(_, q). Ok (c\<lparr>triggerQueue := q\<rparr>))"

definition Publish_TriggerForPeer :: "PublishController \<Rightarrow> PeerId \<Rightarrow> PublishController res" where
  "Publish_TriggerForPeer c pid = bind_res (TryEnqueue (peerQueue c) pid) (\<lambda>(_, q). Ok (c\<lparr>peerQueue := q\<rparr>))"

text \<open>One round of the worker: what the select takes, and the job it starts. Both queues may be ready.\<close>

datatype publish_job = PublishAll | PublishPeer PeerId

inductive publish_worker :: "PublishController \<Rightarrow> publish_job \<Rightarrow> PublishController \<Rightarrow> bool" where
  all: "Dequeue (triggerQueue c) = Some (Some u, q) \<Longrightarrow> publish_worker c PublishAll (c\<lparr>triggerQueue := q\<rparr>)"
| peer: "Dequeue (peerQueue c) = Some (Some pid, q) \<Longrightarrow> publish_worker c (PublishPeer pid) (c\<lparr>peerQueue := q\<rparr>)"
section \<open>What is written\<close>

lemma Encode_ne_Panic [simp]: "Encode order r \<noteq> Panic"
  by (simp add: Encode_def Let_def bind_res_eq_Panic)

lemma GetPlugin_eq_Ok: "GetPlugin m name = Ok s \<longleftrightarrow> m name = Some s"
  by (simp add: GetPlugin_def split: option.splits)

lemma GetPlugin_ne_Panic [simp]: "GetPlugin m name \<noteq> Panic"
  by (simp add: GetPlugin_def split: option.splits)

text \<open>The write for one peer, when its record encodes and its store exists.\<close>

definition peer_write :: "nat list \<Rightarrow> plugin_manager \<Rightarrow> Interfaces option \<Rightarrow> Device \<Rightarrow> string \<Rightarrow> string \<Rightarrow> Peer \<Rightarrow> store_write option" where
  "peer_write order plugins dc dev e4 e6 peer =
     (case (Encode order \<lparr>Version = 0, IPv4 = e4, IPv6 = e6\<rparr>, plugins (p_plugin peer)) of
        (Ok data, Some store) \<Rightarrow>
          Some \<lparr>sw_escape = escapeFor dc dev, sw_store = store, sw_key = LocalId peer, sw_record = data\<rparr>
      | _ \<Rightarrow> None)"

lemma peer_write_eq_Some:
  "peer_write order plugins dc dev e4 e6 peer = Some w \<longleftrightarrow>
     (\<exists>data store. Encode order \<lparr>Version = 0, IPv4 = e4, IPv6 = e6\<rparr> = Ok data \<and> plugins (p_plugin peer) = Some store \<and>
        w = \<lparr>sw_escape = escapeFor dc dev, sw_store = store, sw_key = LocalId peer, sw_record = data\<rparr>)"
  by (cases "Encode order \<lparr>Version = 0, IPv4 = e4, IPv6 = e6\<rparr>"; cases "plugins (p_plugin peer)") (auto simp: peer_write_def)

lemma publishToPeer_eq:
  "fst (publishToPeer order plugins wr dc dev peer e4 e6) =
     (case peer_write order plugins dc dev e4 e6 peer of Some w \<Rightarrow> [w] | None \<Rightarrow> [])"
  "\<forall>w. wr w \<noteq> Panic \<Longrightarrow> snd (publishToPeer order plugins wr dc dev peer e4 e6) \<noteq> Panic"
  by (auto simp: publishToPeer_def peer_write_def GetPlugin_def Let_def split: res.splits option.splits)

lemma publish_peers_eq:
  assumes "\<forall>w. wr w \<noteq> Panic"
  shows "publish_peers order plugins wr dc dev e4 e6 ps = (List.map_filter (peer_write order plugins dc dev e4 e6) ps, Ok ())"
proof (induction ps)
  case (Cons p ps)
  obtain ws r where e: "publishToPeer order plugins wr dc dev p e4 e6 = (ws, r)" by fastforce
  have "r \<noteq> Panic" "ws = (case peer_write order plugins dc dev e4 e6 p of Some w \<Rightarrow> [w] | None \<Rightarrow> [])"
    using publishToPeer_eq(1)[of order plugins wr dc dev p e4 e6] publishToPeer_eq(2)[OF assms, of order plugins dc dev p e4 e6] e by auto
  then show ?case
    using Cons e by (cases r) (auto simp: List.map_filter_simps split: option.splits)
qed (simp add: List.map_filter_simps)

text \<open>What the controller owes each device, as one expression: nothing when its discovery fails, and
  otherwise one write per peer whose record encodes and whose store is configured.\<close>

definition device_writes ::
  "nat list \<Rightarrow> plugin_manager \<Rightarrow> stun_resolver \<Rightarrow> Interfaces option \<Rightarrow> PeerId list \<Rightarrow> Peers \<Rightarrow> Device \<Rightarrow> store_write list" where
  "device_writes order plugins resolve dc pids peers dev =
     (case discoverEndpoints resolve dc dev of
        Ok (e4, e6) \<Rightarrow> List.map_filter (peer_write order plugins dc dev e4 e6) (ListByDevice pids peers (d_name dev))
      | _ \<Rightarrow> [])"

lemma map_filter_set: "x \<in> set (List.map_filter f xs) \<longleftrightarrow> (\<exists>y\<in>set xs. f y = Some x)"
  by (induction xs) (auto simp: List.map_filter_simps split: option.splits)

lemma DiscoverEndpoints_ne_Panic: "snd (DiscoverEndpoints protocol wn r4 r6) \<noteq> Panic"
  by (auto simp: DiscoverEndpoints_def Let_def split: option.splits prod.splits)

lemma discoverEndpoints_no_panic:
  assumes "\<forall>e d p f m. resolve e d p f m \<noteq> Panic"
  shows "discoverEndpoints resolve dc dev \<noteq> Panic"
proof -
  have "resolveFamily resolve dc dev f \<noteq> Panic" for f
    using assms by (auto simp: resolveFamily_def split: res.splits)
  then show ?thesis
    using DiscoverEndpoints_ne_Panic by (simp add: discoverEndpoints_def Let_def split_beta)
qed

lemma publish_devices_eq:
  assumes "\<forall>w. wr w \<noteq> Panic" "\<forall>e d p f m. resolve e d p f m \<noteq> Panic"
  shows "\<exists>ds'. publish_devices order plugins wr resolve dc now pids peers devs ds =
      (ds', concat (map (device_writes order plugins resolve dc pids peers) devs), Ok ()) \<and> items ds' = items ds"
proof (induction devs arbitrary: ds)
  case (Cons dev devs)
  have np: "discoverEndpoints resolve dc dev \<noteq> Panic" by (rule discoverEndpoints_no_panic[OF assms(2)])
  show ?case
  proof (cases "discoverEndpoints resolve dc dev")
    case (Ok e)
    obtain e4 e6 where e: "e = (e4, e6)" by fastforce
    let ?ds = "UpdateStatus ds (d_name dev) \<lparr>ls_IPv4 = e4, ls_IPv6 = e6, DiscoveredAt = now (d_name dev)\<rparr>"
    have "items ?ds = items ds" by (simp add: UpdateStatus_def)
    with Cons.IH[of ?ds] Ok e publish_peers_eq[OF assms(1)] show ?thesis
      by (auto simp: device_writes_def)
  qed (use np Cons.IH[of ds] in \<open>auto simp: device_writes_def\<close>)
qed simp

lemma hex_char_digit: "d < 16 \<Longrightarrow> hex_char d \<in> set ''0123456789abcdef''"
proof -
  have "list_all (\<lambda>d. hex_char d \<in> set ''0123456789abcdef'') [0..<16]" by code_simp
  then show "d < 16 \<Longrightarrow> ?thesis" by (simp add: list_all_iff)
qed

lemma keyPattern_hex: "length bs = 20 \<Longrightarrow> keyPattern (hex_encode bs)"
proof -
  have "c \<in> set ''0123456789abcdef''" if c: "c \<in> set (hex_encode bs)" for c
  proof -
    obtain b where "c = hex_char (unat (b :: byte) div 16) \<or> c = hex_char (unat b mod 16)"
      using c by (auto simp: hex_encode_def)
    moreover have "unat b div 16 < 16" using unat_byte_lt[of b] by linarith
    ultimately show ?thesis using hex_char_digit[of "unat b div 16"] hex_char_digit[of "unat b mod 16"] by auto
  qed
  then have "list_all (\<lambda>c. c \<in> set ''0123456789abcdef'') (hex_encode bs)" unfolding list_all_iff by blast
  then show "length bs = 20 \<Longrightarrow> ?thesis" unfolding keyPattern_def by simp
qed

lemma keyPattern_ids: "keyPattern (LocalId p)" "keyPattern (RemoteId p)"
  by (simp_all add: LocalId_def RemoteId_def EndpointKey_def RemoteEndpointKey_def keyPattern_hex)

lemma Encode_Decode:
  assumes "Encode order r = Ok data" "set order = {4, 6}"
  shows "Decode u order data = Ok (r\<lparr>Version := 2\<rparr>)"
  using assms Decode_record_json[of order "r\<lparr>Version := 2\<rparr>" order u] by (auto simp: Encode_def Let_def)

section \<open>Properties\<close>

text \<open>C20. A publish cycle does its work and only that, whatever fails on the way. As long as the resolver
  and the stores return, the cycle returns, and what it writes is, device by device, one record per
  peer: under the key the peer looks up, in the peer's own store, over the device's escape, holding
  exactly the endpoints just discovered for that device. A device whose discovery fails, a peer
  without a store or a store that refuses never prevents the writes for the others. Each write is one
  that the store's own checks accept.\<close>

theorem publish_cycle:
  assumes "\<forall>w. wr w \<noteq> Panic" "\<forall>e d p f m. resolve e d p f m \<noteq> Panic" "set order = {4, 6}"
  shows "\<exists>ds'. Publish_Execute order plugins wr resolve dc now names pids peers ds =
        (ds', concat (map (device_writes order plugins resolve dc pids peers) (Devices_List names ds)), Ok ())
      \<and> Devices_List names ds' = Devices_List names ds
    \<and> (w \<in> set (device_writes order plugins resolve dc pids peers dev) \<longleftrightarrow>
        (\<exists>peer e4 e6 data store. discoverEndpoints resolve dc dev = Ok (e4, e6) \<and>
           peer \<in> set (ListByDevice pids peers (d_name dev)) \<and> plugins (p_plugin peer) = Some store \<and>
           Encode order \<lparr>Version = 0, IPv4 = e4, IPv6 = e6\<rparr> = Ok data \<and>
           w = \<lparr>sw_escape = escapeFor dc dev, sw_store = store, sw_key = LocalId peer, sw_record = data\<rparr>))
    \<and> (w \<in> set (device_writes order plugins resolve dc pids peers dev) \<longrightarrow>
        keyPattern (sw_key w) \<and> (\<exists>r. Decode u order (sw_record w) = Ok r \<and> discoverEndpoints resolve dc dev = Ok (IPv4 r, IPv6 r)))"
proof -
  obtain ds' where e: "publish_devices order plugins wr resolve dc now pids peers (Devices_List names ds) ds =
      (ds', concat (map (device_writes order plugins resolve dc pids peers) (Devices_List names ds)), Ok ())" "items ds' = items ds"
    using publish_devices_eq[OF assms(1,2)] by blast
  have iff: "w \<in> set (device_writes order plugins resolve dc pids peers dev) \<longleftrightarrow>
        (\<exists>peer e4 e6 data store. discoverEndpoints resolve dc dev = Ok (e4, e6) \<and>
           peer \<in> set (ListByDevice pids peers (d_name dev)) \<and> plugins (p_plugin peer) = Some store \<and>
           Encode order \<lparr>Version = 0, IPv4 = e4, IPv6 = e6\<rparr> = Ok data \<and>
           w = \<lparr>sw_escape = escapeFor dc dev, sw_store = store, sw_key = LocalId peer, sw_record = data\<rparr>)"
    by (cases "discoverEndpoints resolve dc dev") (auto simp: device_writes_def map_filter_set peer_write_eq_Some)
  then have "w \<in> set (device_writes order plugins resolve dc pids peers dev) \<longrightarrow>
        keyPattern (sw_key w) \<and> (\<exists>r. Decode u order (sw_record w) = Ok r \<and> discoverEndpoints resolve dc dev = Ok (IPv4 r, IPv6 r))"
    using Encode_Decode[OF _ assms(3), of _ _ u] by (auto simp: keyPattern_ids)
  with e iff show ?thesis by (auto simp: Publish_Execute_def Devices_List_def)
qed

definition sample_peer :: Peer where
  "sample_peer = NewPeer (NewPeerId (replicate 32 1) (replicate 32 2)) ''wg0'' (replicate 32 2) ''dht'' ''ipv4''
     \<lparr>Enabled = False, Target = [], Interval = 0, Timeout = 0\<rparr>"

definition sample_resolver :: stun_resolver where
  "sample_resolver escape name port fam mark = (if fam = ''ipv4'' then Ok (''8.8.8.8'', 51820) else Err ErrAllServersFailed)"

definition sample_device :: Device where
  "sample_device = NewDevice ''wg0'' 51820 ''dualstack'' 0"

theorem publish_cycle_witness:
  "\<exists>ds' w. Publish_Execute [4, 6] [''dht'' \<mapsto> ex_plugin] (\<lambda>_. Err errUnavailable) sample_resolver None (\<lambda>_. 7) [''wg0''] [p_id sample_peer]
      [p_id sample_peer \<mapsto> sample_peer] (Devices_Save NewDevices sample_device) = (ds', [w], Ok ())
    \<and> keyPattern (sw_key w) \<and> (\<exists>r. Decode ex_unicode [4, 6] (sw_record w) = Ok r \<and> IPv4 r = ''8.8.8.8:51820'')"
proof -
  let ?ds = "Devices_Save NewDevices sample_device"
  let ?peers = "[p_id sample_peer \<mapsto> sample_peer]"
  have d: "discoverEndpoints sample_resolver None sample_device = Ok (''8.8.8.8:51820'', [])" by code_simp
  have v: "validate [4, 6] \<lparr>Version = 2, IPv4 = ''8.8.8.8:51820'', IPv6 = []\<rparr> = Ok ()" by code_simp
  obtain data where e: "Encode [4, 6] \<lparr>Version = 0, IPv4 = ''8.8.8.8:51820'', IPv6 = []\<rparr> = Ok data"
    using v by (simp add: Encode_def)
  let ?w = "\<lparr>sw_escape = escapeFor None sample_device, sw_store = ex_plugin, sw_key = LocalId sample_peer, sw_record = data\<rparr>"
  have l: "Devices_List [''wg0''] ?ds = [sample_device]" by code_simp
  have p: "ListByDevice [p_id sample_peer] ?peers ''wg0'' = [sample_peer]" "p_plugin sample_peer = ''dht''"
    by (simp_all add: ListByDevice_def List.map_filter_simps sample_peer_def NewPeer_def)
  have w: "device_writes [4, 6] [''dht'' \<mapsto> ex_plugin] sample_resolver None [p_id sample_peer] ?peers sample_device = [?w]"
    using d e p by (simp add: device_writes_def sample_device_def NewDevice_def List.map_filter_simps peer_write_def)
  have prems: "\<forall>w :: store_write. (Err errUnavailable :: unit res) \<noteq> Panic" "\<forall>e d p f m. sample_resolver e d p f m \<noteq> Panic" "set [4, 6 :: nat] = {4, 6}"
    by (simp_all add: sample_resolver_def)
  note t = publish_cycle[OF prems, of "[''dht'' \<mapsto> ex_plugin]" None "\<lambda>_. 7" "[''wg0'']" "[p_id sample_peer]" ?peers ?ds ?w sample_device ex_unicode]
  show ?thesis using t unfolding l by (auto simp: w d)
qed

end
