(* ===== verification/Establish.thy ===== *)
theory Establish
  imports Publish
begin

text \<open>
  The establish controller (\<^verbatim>\<open>internal/ctrl/establish.go\<close>): look a peer's hints up, choose a
  permitted endpoint and configure WireGuard with it, unless the path already works. The repositories,
  the stores, the health reader and the clock are the environment of a run; the updates handed to the
  WireGuard client are recorded. The second half is the work list: the queue, the set of pending peers
  and the worker, as a step relation over every interleaving of triggers and worker steps.
\<close>

section \<open>One lookup\<close>

record establish_env =
  ee_peers :: Peers
  ee_devices :: Devices
  ee_plugins :: plugin_manager
  ee_config :: "Interfaces option"
  ee_health :: "(string \<Rightarrow> byte list \<Rightarrow> Health res) option"
  ee_now :: time
  ee_get :: "Escape \<Rightarrow> OpenDHTPlugin \<Rightarrow> string \<Rightarrow> string list res"
  ee_update :: "PeerEndpointUpdate \<Rightarrow> unit res"

text \<open>The loop over the records: at most four endpoints that decode, suit the peer and are permitted.\<close>

fun permitted_endpoints :: "unicode \<Rightarrow> nat list \<Rightarrow> string \<Rightarrow> LocalStatus option \<Rightarrow> string list \<Rightarrow> string list \<Rightarrow> string list res" where
  "permitted_endpoints u order protocol local eps [] = Ok eps"
| "permitted_endpoints u order protocol local eps (r # rs) =
     (if length eps = 4 then Ok eps
      else case Decode u order r of
        Panic \<Rightarrow> Panic
      | Err _ \<Rightarrow> permitted_endpoints u order protocol local eps rs
      | Ok data \<Rightarrow>
          (case SelectEndpoint data protocol local of
             Panic \<Rightarrow> Panic
           | Err _ \<Rightarrow> permitted_endpoints u order protocol local eps rs
           | Ok e \<Rightarrow> permitted_endpoints u order protocol local (if Allowed e [] then eps @ [e] else eps) rs))"

definition ConfigureDevice :: "(PeerEndpointUpdate \<Rightarrow> unit res) \<Rightarrow> Peer \<Rightarrow> string \<Rightarrow> int \<Rightarrow> PeerEndpointUpdate list \<times> unit res" where
  "ConfigureDevice update peer host port =
     (case HostPort host port of
        Panic \<Rightarrow> ([], Panic) | Err e \<Rightarrow> ([], Err e)
      | Ok _ \<Rightarrow>
          let v = \<lparr>DeviceName = p_deviceName peer, u_PublicKey = p_publicKey peer, Host = host, Port = port\<rparr>
          in ([v], update v))"

text \<open>After the health check: the selection of the peer is \<open>s\<close>.\<close>

definition lookup_and_configure ::
  "unicode \<Rightarrow> nat list \<Rightarrow> establish_env \<Rightarrow> Peer \<Rightarrow> Device \<Rightarrow> OpenDHTPlugin \<Rightarrow> Selection \<Rightarrow> (Selection \<times> PeerEndpointUpdate list) res" where
  "lookup_and_configure u order env peer dev store s =
     (case ee_get env (escapeFor (ee_config env) dev) store (RemoteId peer) of
        Panic \<Rightarrow> Panic
      | Err _ \<Rightarrow> Ok (s, [])
      | Ok records \<Rightarrow>
          if records = [] then Ok (s, [])
          else
            bind_res (permitted_endpoints u order (p_protocol peer) (Status (ee_devices env) (d_name dev)) [] records) (\<lambda>eps.
            let (selected, s') = Next s eps in
            bind_res selected (\<lambda>e.
            if e = [] then Ok (s', [])
            else case Endpoint e of
              Panic \<Rightarrow> Panic
            | Err _ \<Rightarrow> Ok (s', [])
            | Ok ep \<Rightarrow>
                (case ConfigureDevice (ee_update env) peer (addr_String (ap_addr ep)) (uint (ap_port ep)) of
                   (vs, Panic) \<Rightarrow> Panic
                 | (vs, _) \<Rightarrow> Ok (s', vs)))))"

type_synonym selections = "PeerId \<rightharpoonup> Selection"

definition Establish_Execute ::
  "unicode \<Rightarrow> nat list \<Rightarrow> establish_env \<Rightarrow> selections \<Rightarrow> PeerId \<Rightarrow> (selections \<times> PeerEndpointUpdate list) res" where
  "Establish_Execute u order env sel pid =
     (case Peers_Find (ee_peers env) pid of
        Panic \<Rightarrow> Panic | Err _ \<Rightarrow> Ok (sel, [])
      | Ok peer \<Rightarrow>
     case Devices_Find (ee_devices env) (p_deviceName peer) of
        Panic \<Rightarrow> Panic | Err _ \<Rightarrow> Ok (sel, [])
      | Ok dev \<Rightarrow>
     case GetPlugin (ee_plugins env) (p_plugin peer) of
        Panic \<Rightarrow> Panic | Err _ \<Rightarrow> Ok (sel, [])
      | Ok store \<Rightarrow>
          let s0 = (case sel (p_id peer) of Some s \<Rightarrow> s | None \<Rightarrow> NewSelection);
              proceed = (\<lambda>s. bind_res (lookup_and_configure u order env peer dev store s) (\<lambda>(s', vs).
                          Ok (sel(p_id peer \<mapsto> s'), vs)))
          in case ee_health env of
               None \<Rightarrow> proceed s0
             | Some reader \<Rightarrow>
                 (case reader (d_name dev) (p_publicKey peer) of
                    Panic \<Rightarrow> Panic
                  | Err _ \<Rightarrow> Ok (sel(p_id peer \<mapsto> s0), [])
                  | Ok h \<Rightarrow>
                      let (working, s1) = Working s0 h (ee_now env) in
                      if working then Ok (sel(p_id peer \<mapsto> s1), []) else proceed s1))"

section \<open>The work list\<close>

text \<open>\<open>active\<close> is the peer the worker took from the queue and has not finished.\<close>

record EstablishController =
  est_queue :: "PeerId Queue"
  pending :: "PeerId set"
  active :: "PeerId option"

definition NewEstablishController :: EstablishController where
  "NewEstablishController = \<lparr>est_queue = NewBuffered PeerQueueSize, pending = {}, active = None\<rparr>"

definition enqueue :: "EstablishController \<Rightarrow> PeerId \<Rightarrow> (bool \<times> EstablishController) res" where
  "enqueue c pid =
     (if pid \<in> pending c then Ok (False, c)
      else bind_res (TryEnqueue (est_queue c) pid) (\<lambda>(taken, q).
        if \<not> taken then Ok (False, c\<lparr>est_queue := q\<rparr>)
        else Ok (True, c\<lparr>est_queue := q, pending := insert pid (pending c)\<rparr>)))"

text \<open>\<^verbatim>\<open>Trigger\<close> over the listed peers; the number is the count of accepted ones.\<close>

fun Establish_Trigger :: "PeerId list \<Rightarrow> EstablishController \<Rightarrow> (nat \<times> EstablishController) res" where
  "Establish_Trigger [] c = Ok (0, c)"
| "Establish_Trigger (pid # pids) c =
     bind_res (enqueue c pid) (\<lambda>(taken, c1).
     bind_res (Establish_Trigger pids c1) (\<lambda>(n, c2). Ok (if taken then Suc n else n, c2)))"

definition Establish_TriggerForPeer :: "EstablishController \<Rightarrow> PeerId \<Rightarrow> EstablishController res" where
  "Establish_TriggerForPeer c pid = bind_res (enqueue c pid) (\<lambda>(_, c'). Ok c')"

text \<open>The two halves of a round of the worker: take a peer, and drop it from the pending set after its
  lookup. \<open>None\<close> means that the worker waits.\<close>

definition worker_step :: "EstablishController \<Rightarrow> EstablishController option" where
  "worker_step c =
     (case active c of
        Some pid \<Rightarrow> Some (c\<lparr>pending := pending c - {pid}, active := None\<rparr>)
      | None \<Rightarrow>
          (case Dequeue (est_queue c) of
             Some (Some pid, q) \<Rightarrow> Some (c\<lparr>est_queue := q, active := Some pid\<rparr>)
           | _ \<Rightarrow> None))"

text \<open>\<^verbatim>\<open>WaitForCompletion\<close>: the events its select receives, in order; it returns at the first one
  that ends it.\<close>

datatype wait_event = CtxEnded | Ticked EstablishController

fun WaitForCompletion :: "wait_event list \<Rightarrow> bool" where
  "WaitForCompletion [] = False"
| "WaitForCompletion (CtxEnded # evs) = True"
| "WaitForCompletion (Ticked c # evs) = (if pending c = {} then True else WaitForCompletion evs)"

inductive est_step :: "EstablishController \<Rightarrow> EstablishController \<Rightarrow> bool" where
  trigger: "Establish_Trigger pids c = Ok (n, c') \<Longrightarrow> est_step c c'"
| trigger_peer: "Establish_TriggerForPeer c pid = Ok c' \<Longrightarrow> est_step c c'"
| worker: "worker_step c = Some c' \<Longrightarrow> est_step c c'"

inductive est_reach :: "EstablishController \<Rightarrow> bool" where
  init: "est_reach NewEstablishController"
| step: "est_reach c \<Longrightarrow> est_step c c' \<Longrightarrow> est_reach c'"
section \<open>The work list is a set\<close>

definition est_inv :: "EstablishController \<Rightarrow> bool" where
  "est_inv c \<longleftrightarrow>
     \<not> chan_closed (est_queue c) \<and> chan_cap (est_queue c) = PeerQueueSize \<and> length (chan (est_queue c)) \<le> PeerQueueSize \<and>
     distinct (chan (est_queue c)) \<and> set_option (active c) \<inter> set (chan (est_queue c)) = {} \<and>
     pending c = set (chan (est_queue c)) \<union> set_option (active c)"

lemma enqueue_eq:
  assumes "est_inv c"
  shows "enqueue c pid =
    (if pid \<in> pending c \<or> PeerQueueSize \<le> Len (est_queue c) then Ok (False, c)
     else Ok (True, c\<lparr>est_queue := (est_queue c)\<lparr>chan := chan (est_queue c) @ [pid]\<rparr>, pending := insert pid (pending c)\<rparr>))"
  using assms by (auto simp: enqueue_def TryEnqueue_def est_inv_def Len_def)

lemma enqueue_inv: "est_inv c \<Longrightarrow> enqueue c pid = Ok (b, c') \<Longrightarrow> est_inv c'"
  by (auto simp: enqueue_eq split: if_splits) (auto simp: est_inv_def Len_def)

lemma Establish_Trigger_inv: "est_inv c \<Longrightarrow> Establish_Trigger pids c = Ok (n, c') \<Longrightarrow> est_inv c'"
  by (induction pids arbitrary: c n) (auto dest: enqueue_inv)

lemma worker_step_inv: "est_inv c \<Longrightarrow> worker_step c = Some c' \<Longrightarrow> est_inv c'"
  by (auto simp: worker_step_def Dequeue_def est_inv_def split: option.splits list.splits if_splits)

lemma est_reach_inv: "est_reach c \<Longrightarrow> est_inv c"
proof (induction rule: est_reach.induct)
  case init
  show ?case by (simp add: est_inv_def NewEstablishController_def NewBuffered_def)
next
  case (step c c')
  from step(2) show ?case
    by cases (use step(3) in \<open>auto simp: Establish_TriggerForPeer_def intro: Establish_Trigger_inv enqueue_inv worker_step_inv\<close>)
qed

text \<open>The amount of work left, in worker steps.\<close>

definition work_left :: "EstablishController \<Rightarrow> nat" where
  "work_left c = 2 * Len (est_queue c) + (case active c of None \<Rightarrow> 0 | Some _ \<Rightarrow> 1)"

fun worker_run :: "nat \<Rightarrow> EstablishController \<Rightarrow> EstablishController" where
  "worker_run 0 c = c"
| "worker_run (Suc n) c = (case worker_step c of None \<Rightarrow> c | Some c' \<Rightarrow> worker_run n c')"

lemma worker_step_progress:
  assumes "est_inv c"
  shows "if work_left c = 0 then worker_step c = None \<and> pending c = {}
    else (\<exists>c'. worker_step c = Some c' \<and> Suc (work_left c') = work_left c)"
  using assms
  by (auto simp: worker_step_def Dequeue_def work_left_def est_inv_def Len_def split: option.splits list.splits)

lemma worker_run_drains:
  "est_inv c \<Longrightarrow> work_left c \<le> n \<Longrightarrow> pending (worker_run n c) = {} \<and> worker_step (worker_run n c) = None"
proof (induction n arbitrary: c)
  case 0
  then show ?case using worker_step_progress[of c] by simp
next
  case (Suc n)
  show ?case
  proof (cases "work_left c = 0")
    case True
    then show ?thesis using worker_step_progress[OF Suc.prems(1)] by simp
  next
    case False
    then obtain c' where c': "worker_step c = Some c'" "Suc (work_left c') = work_left c"
      using worker_step_progress[OF Suc.prems(1)] by auto
    then show ?thesis using Suc.IH[OF worker_step_inv[OF Suc.prems(1) c'(1)]] Suc.prems(2) by simp
  qed
qed

lemma WaitForCompletion_iff:
  "WaitForCompletion evs \<longleftrightarrow> (\<exists>ev\<in>set evs. ev = CtxEnded \<or> (\<exists>c. ev = Ticked c \<and> pending c = {}))"
  by (induction evs rule: WaitForCompletion.induct) auto

section \<open>Properties of the work list\<close>

text \<open>C23. There is one queued or active lookup per peer. In every reachable state of the controller the
  queue holds no peer twice, the peer being worked on is not queued, and the pending set is exactly the
  queued peers and the active one, so nothing is leaked and nothing is forgotten; a trigger never
  panics, and it is accepted exactly when the peer is not pending and the queue has room.\<close>

theorem one_lookup_per_peer:
  assumes "est_reach c"
  shows "distinct (chan (est_queue c) @ (case active c of Some p \<Rightarrow> [p] | None \<Rightarrow> []))
    \<and> pending c = set (chan (est_queue c)) \<union> set_option (active c)
    \<and> Len (est_queue c) \<le> 100
    \<and> (\<exists>b c'. enqueue c pid = Ok (b, c') \<and> (b \<longleftrightarrow> pid \<notin> pending c \<and> Len (est_queue c) < 100)
         \<and> pending c' = (if b then insert pid (pending c) else pending c))"
proof -
  have i: "est_inv c" by (rule est_reach_inv[OF assms])
  then show ?thesis
    unfolding enqueue_eq[OF i]
    by (auto simp: est_inv_def Len_def PeerQueueSize_def split: option.splits)
qed

theorem one_lookup_per_peer_witness:
  "pending (worker_run 1 (snd (case Establish_Trigger [NewPeerId [1] [2], NewPeerId [1] [3], NewPeerId [1] [2]] NewEstablishController of Ok r \<Rightarrow> r)))
     = {NewPeerId [1] [2], NewPeerId [1] [3]}"
proof -
  let ?t = "Establish_Trigger [NewPeerId [1] [2], NewPeerId [1] [3], NewPeerId [1] [2]] NewEstablishController"
  let ?c = "snd (case ?t of Ok r \<Rightarrow> r)"
  have ne: "NewPeerId [1] [2] \<noteq> NewPeerId [1] [3]" by (simp add: NewPeerId_def copy_key_def PeerKeyLength_def)
  have t: "?t = Ok (2, ?c)"
    using ne by (simp add: NewEstablishController_def enqueue_def TryEnqueue_def NewBuffered_def PeerQueueSize_def)
  then have "est_reach ?c" by (rule est_reach.step[OF est_reach.init est_step.trigger])
  moreover have w: "worker_step ?c = Some (worker_run 1 ?c)"
    "chan (est_queue (worker_run 1 ?c)) = [NewPeerId [1] [3]]" "active (worker_run 1 ?c) = Some (NewPeerId [1] [2])"
    using ne by (simp_all add: NewEstablishController_def enqueue_def TryEnqueue_def NewBuffered_def PeerQueueSize_def
        worker_step_def Dequeue_def)
  ultimately have "est_reach (worker_run 1 ?c)" using est_reach.step est_step.worker by blast
  from one_lookup_per_peer[OF this] w show ?thesis by auto
qed

text \<open>C33. Waiting ends. From any reachable state, when no more triggers arrive the worker is idle with
  nothing pending after at most twice the queue's length plus one steps, and a waiter whose ticks
  observe the controller at least once after that returns.\<close>

theorem work_drains:
  assumes "est_reach c" "2 * Len (est_queue c) + 1 \<le> n"
  shows "pending (worker_run n c) = {} \<and> worker_step (worker_run n c) = None
    \<and> (\<forall>m evs. n \<le> m \<longrightarrow> WaitForCompletion (evs @ [Ticked (worker_run m c)]))"
proof -
  have "work_left c \<le> n" using assms(2) by (simp add: work_left_def split: option.splits)
  then have "pending (worker_run m c) = {} \<and> worker_step (worker_run m c) = None" if "n \<le> m" for m
    using worker_run_drains[OF est_reach_inv[OF assms(1)], of m] that by simp
  then show ?thesis by (auto simp: WaitForCompletion_iff)
qed
theorem work_drains_witness:
  "pending (worker_run 3 (snd (case Establish_Trigger [NewPeerId [1] [2]] NewEstablishController of Ok r \<Rightarrow> r))) = {}"
proof -
  let ?t = "Establish_Trigger [NewPeerId [1] [2]] NewEstablishController"
  let ?c = "snd (case ?t of Ok r \<Rightarrow> r)"
  have t: "?t = Ok (1, ?c)" "Len (est_queue ?c) = 1"
    by (simp_all add: NewEstablishController_def enqueue_def TryEnqueue_def NewBuffered_def PeerQueueSize_def Len_def)
  from work_drains[OF est_reach.step[OF est_reach.init est_step.trigger[OF t(1)]], of 3] t(2) show ?thesis by simp
qed

section \<open>One lookup is confined\<close>

text \<open>Where a permitted endpoint comes from.\<close>

definition hint_from :: "unicode \<Rightarrow> nat list \<Rightarrow> string \<Rightarrow> LocalStatus option \<Rightarrow> string list \<Rightarrow> string \<Rightarrow> bool" where
  "hint_from u order protocol local records e \<longleftrightarrow>
     (\<exists>r\<in>set records. \<exists>data. Decode u order r = Ok data \<and> SelectEndpoint data protocol local = Ok e \<and> Allowed e [])"

lemma hint_from_Cons: "hint_from u order protocol local rs e \<Longrightarrow> hint_from u order protocol local (r # rs) e"
  by (auto simp: hint_from_def)

lemma permitted_endpoints_sound:
  "length eps \<le> 4 \<Longrightarrow> \<exists>eps'. permitted_endpoints u order protocol local eps rs = Ok eps' \<and> length eps' \<le> 4 \<and>
     (\<forall>e\<in>set eps'. e \<in> set eps \<or> hint_from u order protocol local rs e)"
proof (induction rs arbitrary: eps)
  case (Cons r rs)
  show ?case
  proof (cases "length eps = 4")
    case False
    then have l: "length (eps @ [e]) \<le> 4" for e using Cons.prems by simp
    show ?thesis
    proof (cases "Decode u order r")
      case (Ok data)
      show ?thesis
      proof (cases "SelectEndpoint data protocol local")
        case (Ok e)
        show ?thesis
        proof (cases "Allowed e []")
          case True
          then have "hint_from u order protocol local (r # rs) e"
            using Ok \<open>Decode u order r = Ok data\<close> by (auto simp: hint_from_def)
          with Cons.IH[OF l[of e]] show ?thesis
            using False True Ok \<open>Decode u order r = Ok data\<close> by (fastforce intro: hint_from_Cons)
        qed (use Cons.IH[OF Cons.prems] False Ok \<open>Decode u order r = Ok data\<close> in \<open>fastforce intro: hint_from_Cons\<close>)
      qed (use Cons.IH[OF Cons.prems] False Ok in \<open>auto intro: hint_from_Cons\<close>)
    qed (use Cons.IH[OF Cons.prems] False in \<open>auto intro: hint_from_Cons\<close>)
  qed simp
qed simp

lemma Allowed_mapped:
  assumes "Allowed e []" "Endpoint e = Ok ep"
  shows "mapped_ok ep \<and> \<not> IsPrivate (ap_addr ep) \<and> \<not> prefix_Contains cgnat (ap_addr ep)"
  using assms Endpoint_plain[OF assms(2)]
  by (auto simp: Allowed_def mapped_ok_def plain_addr_def Endpoint_eq_Ok split: if_splits)

lemma Allowed_Endpoint: "Allowed e [] \<Longrightarrow> \<exists>ep. Endpoint e = Ok ep"
  by (auto simp: Allowed_def split: res.splits)

lemma Next_member: "eps \<noteq> [] \<Longrightarrow> \<exists>e s'. Next s eps = (Ok e, s') \<and> e \<in> set eps"
proof -
  assume "eps \<noteq> []"
  then have "take 4 eps ! (unat (sel_next s) mod length (take 4 eps)) \<in> set (take 4 eps)"
    by (intro nth_mem mod_less_divisor) simp
  then show ?thesis using Next_nonempty[OF \<open>eps \<noteq> []\<close>] in_set_takeD by fastforce
qed

text \<open>The update a lookup may issue.\<close>

definition update_for :: "Peer \<Rightarrow> addrport \<Rightarrow> PeerEndpointUpdate" where
  "update_for peer ep =
     \<lparr>DeviceName = p_deviceName peer, u_PublicKey = p_publicKey peer, Host = addr_String (ap_addr ep), Port = uint (ap_port ep)\<rparr>"

lemma ConfigureDevice_mapped:
  "mapped_ok ep \<Longrightarrow> ConfigureDevice update peer (addr_String (ap_addr ep)) (uint (ap_port ep)) = ([update_for peer ep], update (update_for peer ep))"
  by (simp add: ConfigureDevice_def mapped_ok_HostPort update_for_def Let_def)

lemma hint_Allowed: "hint_from u order protocol local records e \<Longrightarrow> Allowed e []"
  by (auto simp: hint_from_def)

lemma update_mapped:
  "Allowed e [] \<Longrightarrow> Endpoint e = Ok ep \<Longrightarrow>
     IsGlobalUnicast (ap_addr ep) \<and> \<not> IsPrivate (ap_addr ep) \<and> \<not> prefix_Contains cgnat (ap_addr ep) \<and>
     HostPort (Host (update_for peer ep)) (Port (update_for peer ep)) = Ok ep"
  using Allowed_mapped[of e ep] mapped_ok_HostPort[of ep] by (simp add: update_for_def mapped_ok_def)

lemma lookup_and_configure_sound:
  assumes "\<forall>e s k. ee_get env e s k \<noteq> Panic" "\<forall>v. ee_update env v \<noteq> Panic"
  shows "\<exists>s' vs. lookup_and_configure u order env peer dev store s = Ok (s', vs) \<and>
    (vs = [] \<or> (\<exists>records e ep. ee_get env (escapeFor (ee_config env) dev) store (RemoteId peer) = Ok records \<and>
       hint_from u order (p_protocol peer) (Status (ee_devices env) (d_name dev)) records e \<and>
       Endpoint e = Ok ep \<and> vs = [update_for peer ep]))"
proof (cases "ee_get env (escapeFor (ee_config env) dev) store (RemoteId peer)")
  case (Ok records)
  let ?l = "Status (ee_devices env) (d_name dev)"
  obtain eps where eps: "permitted_endpoints u order (p_protocol peer) ?l [] records = Ok eps"
    "\<forall>e\<in>set eps. hint_from u order (p_protocol peer) ?l records e"
    using permitted_endpoints_sound[of "[]" u order "p_protocol peer" ?l records] by auto
  show ?thesis
  proof (cases "eps = []")
    case True
    then show ?thesis using Ok eps(1) by (auto simp: lookup_and_configure_def Next_def)
  next
    case False
    obtain e s' where n: "Next s eps = (Ok e, s')" "e \<in> set eps" using Next_member[OF False] by blast
    then have h: "hint_from u order (p_protocol peer) ?l records e" using eps(2) by blast
    then have a: "Allowed e []" by (auto simp: hint_from_def)
    obtain ep where ep: "Endpoint e = Ok ep" using Allowed_Endpoint[OF a] by blast
    have c: "ConfigureDevice (ee_update env) peer (addr_String (ap_addr ep)) (uint (ap_port ep))
        = ([update_for peer ep], ee_update env (update_for peer ep))"
      by (rule ConfigureDevice_mapped) (use Allowed_mapped[OF a ep] in blast)
    have "lookup_and_configure u order env peer dev store s = Ok (s', if records = [] \<or> e = [] then [] else [update_for peer ep])
      \<or> lookup_and_configure u order env peer dev store s = Ok (s, [])"
      using Ok eps(1) n(1) ep c assms(2)
      by (cases "ee_update env (update_for peer ep)") (auto simp: lookup_and_configure_def)
    then show ?thesis using Ok h ep by fastforce
  qed
qed (use assms(1) in \<open>auto simp: lookup_and_configure_def\<close>)

text \<open>A lookup for a peer that is registered with its device and store.\<close>

lemma Establish_Execute_found:
  assumes "ee_peers env pid = Some peer" "p_id peer = pid" "items (ee_devices env) (p_deviceName peer) = Some dev"
    "ee_plugins env (p_plugin peer) = Some store"
  shows "Establish_Execute u order env sel pid =
    (let s0 = (case sel pid of Some s \<Rightarrow> s | None \<Rightarrow> NewSelection);
         proceed = (\<lambda>s. bind_res (lookup_and_configure u order env peer dev store s) (\<lambda>(s', vs). Ok (sel(pid \<mapsto> s'), vs)))
     in case ee_health env of None \<Rightarrow> proceed s0
        | Some reader \<Rightarrow>
            (case reader (d_name dev) (p_publicKey peer) of Panic \<Rightarrow> Panic | Err _ \<Rightarrow> Ok (sel(pid \<mapsto> s0), [])
             | Ok h \<Rightarrow> if fst (Working s0 h (ee_now env)) then Ok (sel(pid \<mapsto> snd (Working s0 h (ee_now env))), [])
                 else proceed (snd (Working s0 h (ee_now env)))))"
  unfolding Establish_Execute_def Peers_Find_def Devices_Find_def GetPlugin_def Let_def assms option.case res.case split_beta
  by (rule refl)

text \<open>What such a lookup does: the update, if any, carries a permitted hint, and is issued only when no
  health reading shows a working path.\<close>

lemma lookup_confined:
  assumes "\<forall>e s k. ee_get env e s k \<noteq> Panic" "\<forall>v. ee_update env v \<noteq> Panic"
  shows "\<exists>s' vs. lookup_and_configure u order env peer dev store s = Ok (s', vs) \<and>
    (vs = [] \<or> (\<exists>records e ep. ee_get env (escapeFor (ee_config env) dev) store (RemoteId peer) = Ok records \<and>
       hint_from u order (p_protocol peer) (Status (ee_devices env) (d_name dev)) records e \<and> Endpoint e = Ok ep \<and>
       IsGlobalUnicast (ap_addr ep) \<and> \<not> IsPrivate (ap_addr ep) \<and> \<not> prefix_Contains cgnat (ap_addr ep) \<and>
       vs = [update_for peer ep] \<and> HostPort (Host (update_for peer ep)) (Port (update_for peer ep)) = Ok ep))"
  using lookup_and_configure_sound[OF assms, of u order peer dev store s] update_mapped by (metis hint_Allowed)

lemma establish_found_confined:
  assumes "\<forall>e s k. ee_get env e s k \<noteq> Panic" "\<forall>v. ee_update env v \<noteq> Panic"
    "\<forall>reader n k. ee_health env = Some reader \<longrightarrow> reader n k \<noteq> Panic"
    and found: "ee_peers env pid = Some peer" "p_id peer = pid" "items (ee_devices env) (p_deviceName peer) = Some dev"
    "ee_plugins env (p_plugin peer) = Some store"
  shows "\<exists>s' vs. Establish_Execute u order env sel pid = Ok (sel(pid \<mapsto> s'), vs) \<and>
    (vs = [] \<or> (\<exists>records e ep. ee_get env (escapeFor (ee_config env) dev) store (RemoteId peer) = Ok records \<and>
       hint_from u order (p_protocol peer) (Status (ee_devices env) (d_name dev)) records e \<and> Endpoint e = Ok ep \<and>
       IsGlobalUnicast (ap_addr ep) \<and> \<not> IsPrivate (ap_addr ep) \<and> \<not> prefix_Contains cgnat (ap_addr ep) \<and>
       vs = [update_for peer ep] \<and> HostPort (Host (update_for peer ep)) (Port (update_for peer ep)) = Ok ep \<and>
       (\<forall>reader. ee_health env = Some reader \<longrightarrow> (\<exists>h. reader (d_name dev) (p_publicKey peer) = Ok h \<and>
          \<not> fst (Working (case sel pid of Some s \<Rightarrow> s | None \<Rightarrow> NewSelection) h (ee_now env))))))"
proof -
  let ?s0 = "case sel pid of Some s \<Rightarrow> s | None \<Rightarrow> NewSelection"
  note run = Establish_Execute_found[OF found, of u order sel]
  note proceed = lookup_confined[OF assms(1,2), of u order peer dev store]
  show ?thesis
  proof (cases "ee_health env")
    case None
    obtain s' vs where "lookup_and_configure u order env peer dev store ?s0 = Ok (s', vs)"
      using proceed[of ?s0] by blast
    with run None proceed[of ?s0] show ?thesis by (intro exI[of _ s'] exI[of _ vs]) auto
  next
    case (Some reader)
    note health = this
    show ?thesis
    proof (cases "reader (d_name dev) (p_publicKey peer)")
      case (Ok h)
      let ?w = "Working ?s0 h (ee_now env)"
      obtain s' vs where l: "lookup_and_configure u order env peer dev store (snd ?w) = Ok (s', vs)"
        using proceed[of "snd ?w"] by blast
      show ?thesis
      proof (cases "fst ?w")
        case True
        then show ?thesis using run health Ok by (intro exI[of _ "snd ?w"] exI[of _ "[]"]) simp
      next
        case False
        with l run health Ok proceed[of "snd ?w"] show ?thesis by (intro exI[of _ s'] exI[of _ vs]) auto
      qed
    qed (use run health assms(3) in \<open>auto\<close>)
  qed
qed

text \<open>C2. A hint can redirect a peer only within what local configuration allows. A lookup always returns;
  it issues at most one update, for the device and the key of exactly the peer it was started for, and
  the endpoint of that update was read under the peer's own key, from a record that decodes and whose
  endpoint suits the peer's protocol and the local families, is global unicast, and is neither private
  nor in the carrier-grade range. No other peer's selection changes, and nothing is issued when the
  health reading fails or shows a working path.\<close>

theorem establish_confined:
  assumes "\<forall>e s k. ee_get env e s k \<noteq> Panic" "\<forall>v. ee_update env v \<noteq> Panic"
    "\<forall>reader n k. ee_health env = Some reader \<longrightarrow> reader n k \<noteq> Panic" "\<forall>q p. ee_peers env q = Some p \<longrightarrow> p_id p = q"
  shows "\<exists>sel' vs. Establish_Execute u order env sel pid = Ok (sel', vs) \<and> (\<forall>q. q \<noteq> pid \<longrightarrow> sel' q = sel q) \<and>
    (vs = [] \<or> (\<exists>peer dev store records e ep.
       ee_peers env pid = Some peer \<and> items (ee_devices env) (p_deviceName peer) = Some dev \<and> ee_plugins env (p_plugin peer) = Some store \<and>
       ee_get env (escapeFor (ee_config env) dev) store (RemoteId peer) = Ok records \<and>
       hint_from u order (p_protocol peer) (Status (ee_devices env) (d_name dev)) records e \<and> Endpoint e = Ok ep \<and>
       IsGlobalUnicast (ap_addr ep) \<and> \<not> IsPrivate (ap_addr ep) \<and> \<not> prefix_Contains cgnat (ap_addr ep) \<and>
       vs = [update_for peer ep] \<and> HostPort (Host (update_for peer ep)) (Port (update_for peer ep)) = Ok ep \<and>
       (\<forall>reader. ee_health env = Some reader \<longrightarrow> (\<exists>h. reader (d_name dev) (p_publicKey peer) = Ok h \<and>
          \<not> fst (Working (case sel pid of Some s \<Rightarrow> s | None \<Rightarrow> NewSelection) h (ee_now env))))))"
proof (cases "\<exists>peer dev store. ee_peers env pid = Some peer \<and> items (ee_devices env) (p_deviceName peer) = Some dev
    \<and> ee_plugins env (p_plugin peer) = Some store")
  case True
  then obtain peer dev store where found: "ee_peers env pid = Some peer"
    "items (ee_devices env) (p_deviceName peer) = Some dev" "ee_plugins env (p_plugin peer) = Some store" by blast
  have pid: "p_id peer = pid" using assms(4) found(1) by blast
  obtain s' vs where "Establish_Execute u order env sel pid = Ok (sel(pid \<mapsto> s'), vs)"
    using establish_found_confined[OF assms(1-3) found(1) pid found(2,3)] by blast
  with establish_found_confined[OF assms(1-3) found(1) pid found(2,3), of u order sel] found show ?thesis
    by (intro exI[of _ "sel(pid \<mapsto> s')"] exI[of _ vs]) auto
next
  case False
  then have "Establish_Execute u order env sel pid = Ok (sel, [])"
    by (auto simp: Establish_Execute_def Peers_Find_def Devices_Find_def GetPlugin_def split: option.splits)
  then show ?thesis by blast
qed

definition sample_hint :: Record where
  "sample_hint = \<lparr>Version = 2, IPv4 = ''8.8.8.8:51820'', IPv6 = []\<rparr>"

definition sample_env_est :: establish_env where
  "sample_env_est = \<lparr>ee_peers = [p_id sample_peer \<mapsto> sample_peer], ee_devices = Devices_Save NewDevices sample_device,
     ee_plugins = [''dht'' \<mapsto> ex_plugin], ee_config = None, ee_health = None, ee_now = 0,
     ee_get = (\<lambda>_ _ _. Ok [json_print (record_json sample_hint)]), ee_update = (\<lambda>_. Ok ())\<rparr>"

lemma sample_hint_Decode: "Decode u [4, 6] (json_print (record_json sample_hint)) = Ok sample_hint"
proof -
  have "validate [4, 6] sample_hint = Ok ()" by code_simp
  from Decode_record_json[OF this, of "[4, 6]" u] show ?thesis by simp
qed

theorem establish_confined_witness:
  "\<exists>sel' ep. Establish_Execute ex_unicode [4, 6] sample_env_est Map.empty (p_id sample_peer) = Ok (sel', [update_for sample_peer ep])
   \<and> IsGlobalUnicast (ap_addr ep) \<and> HostPort (Host (update_for sample_peer ep)) (Port (update_for sample_peer ep)) = Ok ep"
proof -
  have sel: "SelectEndpoint sample_hint ''ipv4'' None = Ok ''8.8.8.8:51820''" "Allowed ''8.8.8.8:51820'' []"
    "Endpoint ''8.8.8.8:51820'' = Ok (AddrPort (V4 0x08080808) 51820)" by code_simp+
  have p: "p_protocol sample_peer = ''ipv4''" "p_deviceName sample_peer = ''wg0''" "p_plugin sample_peer = ''dht''"
    "items (Devices_Save NewDevices sample_device) ''wg0'' = Some sample_device" "Status (Devices_Save NewDevices sample_device) (d_name sample_device) = None"
    by (simp_all add: sample_peer_def NewPeer_def Devices_Save_def sample_device_def NewDevice_def Status_def NewDevices_def)
  have m: "mapped_ok (AddrPort (V4 0x08080808) 51820)" by code_simp
  note c = ConfigureDevice_mapped[OF m, of "\<lambda>_. Ok ()" sample_peer]
  obtain sel' where run: "Establish_Execute ex_unicode [4, 6] sample_env_est Map.empty (p_id sample_peer)
     = Ok (sel', [update_for sample_peer (AddrPort (V4 0x08080808) 51820)])"
    using sel p c sample_hint_Decode[of ex_unicode]
    by (simp add: Establish_Execute_def sample_env_est_def Peers_Find_def Devices_Find_def GetPlugin_def lookup_and_configure_def
        Next_nonempty NewSelection_def del: addr_String.simps)
  have prems: "\<forall>e s k. ee_get sample_env_est e s k \<noteq> Panic" "\<forall>v. ee_update sample_env_est v \<noteq> Panic"
    "\<forall>reader n k. ee_health sample_env_est = Some reader \<longrightarrow> reader n k \<noteq> Panic"
    "\<forall>q p. ee_peers sample_env_est q = Some p \<longrightarrow> p_id p = q"
    by (simp_all add: sample_env_est_def)
  have peer: "ee_peers sample_env_est (p_id sample_peer) = Some sample_peer" by (simp add: sample_env_est_def)
  obtain ep where "update_for sample_peer ep = update_for sample_peer (AddrPort (V4 0x08080808) 51820)" "IsGlobalUnicast (ap_addr ep)"
    "HostPort (Host (update_for sample_peer ep)) (Port (update_for sample_peer ep)) = Ok ep"
    using establish_confined[OF prems, of ex_unicode "[4, 6]" Map.empty "p_id sample_peer"] unfolding run peer by auto
  then show ?thesis using run by metis
qed

end
