(* ===== verification/Mobile_Control.thy ===== *)
theory Mobile_Control
  imports Mobile_Node Establish
begin

text \<open>
  The discovery loop of the mobile core (\<^verbatim>\<open>mobile/controller.go\<close>, \<^verbatim>\<open>mobile/transport.go\<close>): learn the
  phone's own endpoints through the shared sockets, publish them for each peer, look the peers' hints up,
  and move the WireGuard endpoint of a peer that does not work. One cycle is a function of the loop's state
  and of the node's; the network, the stores, the clock and the device answer through an environment, and
  the writes to stores and the calls on the node are recorded. The loop around it is a step function over
  the events of its select. \<open>Discover\<close> of theory \<open>Mobile_Bind\<close> is the probe whose outcome the
  environment gives.
\<close>

section \<open>The environment of a cycle (transport.go)\<close>

text \<open>\<open>ye_fd\<close> is the descriptor of a dialled socket, \<open>ye_iterate\<close> the order in which a map of store definitions
  is visited, \<open>ye_status\<close> the device's status, \<open>ye_now\<close> the clock when a peer is examined, \<open>ye_ended\<close> whether
  the cycle's context has ended when the cycle does.\<close>

record cycle_env =
  ye_urlParse :: "string \<Rightarrow> url res"
  ye_parseDuration :: "string \<Rightarrow> duration res"
  ye_iterate :: "(string \<times> PluginDefinition) list \<Rightarrow> (string \<times> PluginDefinition) list"
  ye_fd :: int
  ye_lookup :: "ctx_escape \<Rightarrow> string \<Rightarrow> string \<Rightarrow> addr list res"
  ye_discover :: "addrport \<Rightarrow> addrport res"
  ye_set :: "store_write \<Rightarrow> unit res"
  ye_get :: "Escape \<Rightarrow> OpenDHTPlugin \<Rightarrow> string \<Rightarrow> string list res"
  ye_status :: "string list option"
  ye_ipc :: "string \<Rightarrow> error option"
  ye_now :: "string \<Rightarrow> time"
  ye_ended :: bool

definition protectedContext :: "int \<Rightarrow> (int \<Rightarrow> bool) \<Rightarrow> string list \<Rightarrow> ctx_escape" where
  "protectedContext fd protector dnsServers =
     ctx_WithEscape None (no_Escape\<lparr>Protector := Some (protector fd), DNSServers := dnsServers\<rparr>)"

definition node_context :: "cycle_env \<Rightarrow> Node \<Rightarrow> ctx_escape" where
  "node_context env n = protectedContext (ye_fd env) (n_protector n) (pluginDNSServers n)"

section \<open>Discovery (controller.go)\<close>

definition resolveSTUN :: "cycle_env \<Rightarrow> Node \<Rightarrow> string \<Rightarrow> string \<Rightarrow> addrport res" where
  "resolveSTUN env n netw server = ResolveAddrPort (ye_lookup env (node_context env n)) netw server"

definition probeServer :: "cycle_env \<Rightarrow> Node \<Rightarrow> string \<Rightarrow> string \<Rightarrow> addrport res" where
  "probeServer env n netw server = bind_res (resolveSTUN env n netw server) (ye_discover env)"

text \<open>The servers in order; the last error is nil when there is none to try.\<close>

fun probe_servers :: "cycle_env \<Rightarrow> Node \<Rightarrow> string \<Rightarrow> error list \<Rightarrow> string list \<Rightarrow> string res" where
  "probe_servers env n netw lastErr [] = Err (ErrWrap ''all stun servers failed'' lastErr)"
| "probe_servers env n netw lastErr (server # servers) =
     (case probeServer env n netw server of
        Panic \<Rightarrow> Panic
      | Err e \<Rightarrow> probe_servers env n netw [e] servers
      | Ok a \<Rightarrow> Ok (addrport_String a))"

definition discoverFamily :: "cycle_env \<Rightarrow> Node \<Rightarrow> controller \<Rightarrow> string \<Rightarrow> string res" where
  "discoverFamily env n c netw =
     (let state = c_network c in
      if \<not> us_online state \<or> netw = ''udp4'' \<and> \<not> us_ipv4 state \<or> netw = ''udp6'' \<and> \<not> us_ipv6 state
      then Err (ErrNew ''underlay family unavailable'')
      else probe_servers env n netw [] (cc_StunAddresses (c_cfg c)))"

text \<open>The listener's calls for one call of the shared discovery.\<close>

definition discover_calls :: "string res \<Rightarrow> string res \<Rightarrow> discover_call \<Rightarrow> node_call list" where
  "discover_calls r4 r6 call =
     (let found = (\<lambda>fam r. case r of Ok ep \<Rightarrow> [Event ''endpoint_discovered'' [] (fam @ '' '' @ ep)] | _ \<Rightarrow> []) in
      case call of ResolveIPv4 \<Rightarrow> found ''ipv4'' r4 | ResolveIPv6 \<Rightarrow> found ''ipv6'' r6
      | Warn fam _ \<Rightarrow> [Log ''warn'' (fam @ '' discovery unavailable'')])"

definition controller_discover :: "cycle_env \<Rightarrow> Node \<Rightarrow> controller \<Rightarrow> node_call list \<times> Record res" where
  "controller_discover env n c =
     (let r4 = discoverFamily env n c ''udp4''; r6 = discoverFamily env n c ''udp6'';
          value = (\<lambda>r. case r of Ok ep \<Rightarrow> (ep, None) | Err e \<Rightarrow> ([], Some e) | Panic \<Rightarrow> ([], None));
          (calls, result) = DiscoverEndpoints (cc_Protocol (c_cfg c)) True (value r4) (value r6)
      in (concat (map (discover_calls r4 r6) calls),
          if ResolveIPv4 \<in> set calls \<and> r4 = Panic \<or> ResolveIPv6 \<in> set calls \<and> r6 = Panic then Panic
          else bind_res result (\<lambda>(e4, e6). Ok \<lparr>Version = 0, IPv4 = e4, IPv6 = e6\<rparr>)))"

section \<open>Publishing\<close>

definition op_failed :: node_call where "op_failed = Log ''warn'' ''discovery operation failed''"

text \<open>One peer: the writes, the listener's calls, and whether all went well.\<close>

definition publish_peer ::
  "cycle_env \<Rightarrow> Node \<Rightarrow> controller \<Rightarrow> string \<Rightarrow> discoveryPeer \<Rightarrow> store_write list \<times> node_call list \<times> bool res" where
  "publish_peer env n c rec peer =
     (if dp_Plugin peer = [] then ([], [], Ok True)
      else case keyToBytes (dp_PublicKey peer) of
        Panic \<Rightarrow> ([], [], Panic)
      | Err _ \<Rightarrow> ([], [], Ok False)
      | Ok peerPub \<Rightarrow>
          let localId = EndpointKey (NewPeerId (c_pub c) peerPub) in
          (case GetPlugin (c_manager c) (dp_Plugin peer) of
             Panic \<Rightarrow> ([], [], Panic)
           | Err _ \<Rightarrow> ([], [op_failed], Ok False)
           | Ok store \<Rightarrow>
               let w = \<lparr>sw_escape = escapeFrom (node_context env n), sw_store = store, sw_key = localId, sw_record = rec\<rparr> in
               (case ye_set env w of
                  Panic \<Rightarrow> ([w], [], Panic)
                | Err _ \<Rightarrow> ([w], [op_failed], Ok False)
                | Ok _ \<Rightarrow> ([w], [Event ''publish_ok'' (dp_PublicKey peer) localId], Ok True))))"

fun publish_all ::
  "cycle_env \<Rightarrow> Node \<Rightarrow> controller \<Rightarrow> string \<Rightarrow> discoveryPeer list \<Rightarrow> store_write list \<times> node_call list \<times> bool res" where
  "publish_all env n c rec [] = ([], [], Ok True)"
| "publish_all env n c rec (peer # peers) =
     (case publish_peer env n c rec peer of
        (ws, calls, Ok ok) \<Rightarrow>
          (case publish_all env n c rec peers of
             (ws', calls', r) \<Rightarrow> (ws @ ws', calls @ calls', bind_res r (\<lambda>ok'. Ok (ok \<and> ok'))))
      | bad \<Rightarrow> bad)"

definition controller_publish ::
  "nat list \<Rightarrow> cycle_env \<Rightarrow> Node \<Rightarrow> controller \<Rightarrow> Record \<Rightarrow> store_write list \<times> node_call list \<times> bool res" where
  "controller_publish order env n c data =
     (case Encode order data of
        Panic \<Rightarrow> ([], [], Panic)
      | Err _ \<Rightarrow> ([], [Log ''warn'' ''invalid local discovery result''], Ok False)
      | Ok rec \<Rightarrow> publish_all env n c rec (cc_Peers (c_cfg c)))"

section \<open>Recovery\<close>

definition add_candidate :: "string \<Rightarrow> string list \<Rightarrow> string list" where
  "add_candidate endpoint eps = (if endpoint \<noteq> [] \<and> endpoint \<notin> set eps \<and> length eps < 4 then eps @ [endpoint] else eps)"

fun recovery_loop :: "unicode \<Rightarrow> nat list \<Rightarrow> string \<Rightarrow> LocalStatus option \<Rightarrow> string list \<Rightarrow> string list \<Rightarrow> string list res" where
  "recovery_loop u order protocol local eps [] = Ok eps"
| "recovery_loop u order protocol local eps (r # rs) =
     (if length eps = 4 then Ok eps
      else case Decode u order r of
        Panic \<Rightarrow> Panic
      | Err _ \<Rightarrow> recovery_loop u order protocol local eps rs
      | Ok data \<Rightarrow>
          (case SelectEndpoint data protocol local of
             Panic \<Rightarrow> Panic
           | Err _ \<Rightarrow> recovery_loop u order protocol local eps rs
           | Ok e \<Rightarrow> recovery_loop u order protocol local (if Allowed e [] then add_candidate e eps else eps) rs))"

definition recoveryCandidates :: "unicode \<Rightarrow> nat list \<Rightarrow> discoveryPeer \<Rightarrow> string list \<Rightarrow> LocalStatus option \<Rightarrow> string list res" where
  "recoveryCandidates u order peer records local =
     recovery_loop u order (dp_Protocol peer) local (add_candidate (dp_Bootstrap peer) []) records"

text \<open>The state of an establishing pass: the loop, the node, and the calls made. A failed update
  cancels the loop through the node, which is the same object.\<close>

type_synonym pass = "controller \<times> Node \<times> node_call list"

definition apply_endpoint :: "cycle_env \<Rightarrow> string \<Rightarrow> string \<Rightarrow> controller \<times> Node \<Rightarrow> (pass \<times> bool) res" where
  "apply_endpoint env key endpoint cn =
     (case cn of (c, n) \<Rightarrow>
      case Node_SetPeerEndpoint (ye_ipc env) key endpoint n of
        (n', calls, r) \<Rightarrow>
          let c' = c\<lparr>c_cancelled := c_cancelled c \<or> CtrlCancel (c_id c) \<in> set calls\<rparr> in
          (case r of
             Panic \<Rightarrow> Panic
           | Err _ \<Rightarrow> Ok ((c', n', calls @ [Log ''error'' ''discovery operation failed'']), False)
           | Ok _ \<Rightarrow> Ok ((c', n', calls), False)))"

text \<open>The hints of one peer that does not work. Applying one is no success either.\<close>

definition recover_peer ::
  "unicode \<Rightarrow> nat list \<Rightarrow> cycle_env \<Rightarrow> LocalStatus option \<Rightarrow> discoveryPeer \<Rightarrow> byte list \<Rightarrow> OpenDHTPlugin \<Rightarrow> Health \<Rightarrow> Selection
    \<Rightarrow> controller \<times> Node \<Rightarrow> (pass \<times> bool) res" where
  "recover_peer u order env local peer peerPub store h s cn =
     (case cn of (c, n) \<Rightarrow>
      case (case ye_get env (escapeFrom (node_context env n)) store (RemoteEndpointKey (NewPeerId (c_pub c) peerPub)) of
              Panic \<Rightarrow> Panic | Err _ \<Rightarrow> Ok [] | Ok records \<Rightarrow> Ok records) of
        Panic \<Rightarrow> Panic | Err e \<Rightarrow> Err e
      | Ok records \<Rightarrow>
          let unavailable = (if records = [] then [Log ''debug'' ''peer hint unavailable''] else []) in
          bind_res (recoveryCandidates u order peer records local) (\<lambda>endpoints.
          let (selected, s') = Next s endpoints; c' = c\<lparr>c_selection := (c_selection c)(dp_PublicKey peer \<mapsto> s')\<rparr> in
          bind_res selected (\<lambda>endpoint.
          if endpoint = [] \<or> endpoint = h_Endpoint h then Ok ((c', n, unavailable), False)
          else bind_res (apply_endpoint env (dp_PublicKey peer) endpoint (c', n)) (\<lambda>((c'', n', calls), ok).
            Ok ((c'', n', unavailable @ calls), ok)))))"

definition establish_peer ::
  "unicode \<Rightarrow> nat list \<Rightarrow> cycle_env \<Rightarrow> healths \<Rightarrow> LocalStatus option \<Rightarrow> discoveryPeer \<Rightarrow> controller \<times> Node \<Rightarrow> (pass \<times> bool) res" where
  "establish_peer u order env health local peer cn =
     (case cn of (c, n) \<Rightarrow>
      if dp_Plugin peer = [] then Ok ((c, n, []), True)
      else case keyToBytes (dp_PublicKey peer) of
        Panic \<Rightarrow> Panic
      | Err _ \<Rightarrow> Ok ((c, n, []), False)
      | Ok peerPub \<Rightarrow>
          (case GetPlugin (c_manager c) (dp_Plugin peer) of
             Panic \<Rightarrow> Panic
           | Err _ \<Rightarrow> Ok ((c, n, []), False)
           | Ok store \<Rightarrow>
               let s = (case c_selection c (dp_PublicKey peer) of Some s \<Rightarrow> s | None \<Rightarrow> NewSelection) in
               (case health (dp_PublicKey peer) of
                  None \<Rightarrow> Ok ((c\<lparr>c_selection := (c_selection c)(dp_PublicKey peer \<mapsto> s)\<rparr>, n, []), False)
                | Some h \<Rightarrow>
                    let (working, s') = Working s h (ye_now env (dp_PublicKey peer));
                        c' = c\<lparr>c_selection := (c_selection c)(dp_PublicKey peer \<mapsto> s')\<rparr> in
                    if working then Ok ((c', n, [Event ''peer_authenticated'' (dp_PublicKey peer) []]), True)
                    else recover_peer u order env local peer peerPub store h s' (c', n))))"

fun establish_all ::
  "unicode \<Rightarrow> nat list \<Rightarrow> cycle_env \<Rightarrow> healths \<Rightarrow> LocalStatus option \<Rightarrow> discoveryPeer list \<Rightarrow> controller \<times> Node \<Rightarrow> (pass \<times> bool) res" where
  "establish_all u order env health local [] cn = Ok ((fst cn, snd cn, []), True)"
| "establish_all u order env health local (peer # peers) cn =
     bind_res (establish_peer u order env health local peer cn) (\<lambda>((c, n, calls), ok).
     bind_res (establish_all u order env health local peers (c, n)) (\<lambda>((c', n', calls'), ok').
     Ok ((c', n', calls @ calls'), ok \<and> ok')))"

definition controller_establish ::
  "unicode \<Rightarrow> nat list \<Rightarrow> cycle_env \<Rightarrow> LocalStatus option \<Rightarrow> controller \<times> Node \<Rightarrow> (pass \<times> bool) res" where
  "controller_establish u order env local cn =
     (case peerHealth (ye_status env) (snd cn) of
        Panic \<Rightarrow> Panic
      | Err _ \<Rightarrow> Ok ((fst cn, snd cn, []), False)
      | Ok health \<Rightarrow> establish_all u order env health local (cc_Peers (c_cfg (fst cn))) cn)"

section \<open>One cycle\<close>

text \<open>The result of a cycle: the loop, the node, the writes to stores, the calls, and the success.\<close>

record cycle_result =
  yr_c :: controller
  yr_n :: Node
  yr_writes :: "store_write list"
  yr_calls :: "node_call list"
  yr_ok :: bool

text \<open>Publishing what was found; the local status is nil when nothing was.\<close>

definition publish_phase ::
  "nat list \<Rightarrow> cycle_env \<Rightarrow> Node \<Rightarrow> controller \<Rightarrow> Record res \<Rightarrow> store_write list \<times> node_call list \<times> bool res \<times> LocalStatus option" where
  "publish_phase order env n c found =
     (case found of
        Panic \<Rightarrow> ([], [], Panic, None)
      | Err _ \<Rightarrow> ([], [op_failed], Ok False, None)
      | Ok data \<Rightarrow>
          (case controller_publish order env n c data of
             (ws, cs, r) \<Rightarrow> (ws, cs, r, Some \<lparr>ls_IPv4 = IPv4 data, ls_IPv6 = IPv6 data, DiscoveredAt = time_zero\<rparr>)))"

definition cycle_body ::
  "unicode \<Rightarrow> nat list \<Rightarrow> cycle_env \<Rightarrow> controller \<times> Node \<Rightarrow> cycle_result res" where
  "cycle_body u order env cn =
     (case cn of (c, n) \<Rightarrow>
      case controller_discover env n c of (calls, found) \<Rightarrow>
      case publish_phase order env n c found of (writes, calls', published, local) \<Rightarrow>
      bind_res published (\<lambda>ok.
      bind_res (controller_establish u order env local (c, n)) (\<lambda>((c', n', calls''), established).
      Ok \<lparr>yr_c = c', yr_n = n', yr_writes = writes, yr_calls = calls @ calls' @ calls'',
          yr_ok = (ok \<and> established \<and> \<not> ye_ended env)\<rparr>)))"

definition controller_cycle ::
  "unicode \<Rightarrow> nat list \<Rightarrow> cycle_env \<Rightarrow> controller \<times> Node \<Rightarrow> cycle_result res" where
  "controller_cycle u order env cn =
     (case cn of (c, n) \<Rightarrow>
      if c_pluginsReady c then cycle_body u order env (c, n)
      else case LoadPlugins (ye_urlParse env) (ye_parseDuration env) (ye_iterate env (c_pluginDefs c)) (c_manager c) of
        (m, Panic) \<Rightarrow> Panic
      | (m, Err _) \<Rightarrow> Ok \<lparr>yr_c = c\<lparr>c_manager := m\<rparr>, yr_n = n, yr_writes = [], yr_calls = [op_failed], yr_ok = False\<rparr>
      | (m, Ok _) \<Rightarrow> cycle_body u order env (c\<lparr>c_manager := m, c_pluginsReady := True\<rparr>, n))"

section \<open>The loop\<close>

text \<open>\<open>20 << min(failures-1, 4)\<close> capped at 240, then a jitter of eleven seconds; \<open>jitter\<close> is \<^verbatim>\<open>rand.IntN(11)\<close>.\<close>

definition next_delay :: "int \<Rightarrow> nat \<Rightarrow> int \<Rightarrow> int" where
  "next_delay refresh failures jitter =
     (let seconds = (if 0 < failures then (let s = 20 * 2 ^ min (failures - 1) 4 in if 240 < s then 240 else s) else refresh)
      in max 10 (min 240 (seconds - 5 + jitter)))"

record run_state =
  rs_c :: controller
  rs_n :: Node
  rs_failures :: nat
  rs_timer :: "duration option"
  rs_writes :: "store_write list"
  rs_calls :: "node_call list"
  rs_done :: bool

definition run_start :: "controller \<Rightarrow> Node \<Rightarrow> run_state" where
  "run_start c n = \<lparr>rs_c = c, rs_n = n, rs_failures = 0, rs_timer = (if c_pluginDefs c = [] then None else Some 0),
     rs_writes = [], rs_calls = [], rs_done = False\<rparr>"

datatype run_event = CtxCancelled | NetworkSignal "string list option" | RefreshDue cycle_env int

text \<open>A network change: the stores are closed, the evidence of every selection is taken anew.\<close>

definition network_signal :: "string list option \<Rightarrow> run_state \<Rightarrow> run_state" where
  "network_signal ipcGet r =
     (let health = (case peerHealth ipcGet (rs_n r) of Ok m \<Rightarrow> m | _ \<Rightarrow> Map.empty); c = rs_c r in
      r\<lparr>rs_c := c\<lparr>c_changed := False, c_manager := fst (Plugins_Close (c_manager c)), c_pluginsReady := False,
                  c_selection := (\<lambda>k. map_option (\<lambda>s. Reset s (case health k of Some h \<Rightarrow> h | None \<Rightarrow> no_health)) (c_selection c k))\<rparr>,
        rs_failures := 0, rs_timer := Some second\<rparr>)"

definition refresh_due :: "unicode \<Rightarrow> nat list \<Rightarrow> cycle_env \<Rightarrow> int \<Rightarrow> run_state \<Rightarrow> run_state res" where
  "refresh_due u order env jitter r =
     (let c = rs_c r in
      if \<not> us_online (c_network c) then Ok (r\<lparr>rs_c := c\<lparr>c_cycle := Some True\<rparr>, rs_timer := None\<rparr>)
      else bind_res (controller_cycle u order env (c\<lparr>c_cycle := Some False\<rparr>, rs_n r)) (\<lambda>y.
        let failures = (if yr_ok y then 0 else rs_failures r + 1) in
        Ok (r\<lparr>rs_c := (yr_c y)\<lparr>c_cycle := None\<rparr>, rs_n := yr_n y, rs_failures := failures,
              rs_timer := Some (next_delay (cc_RefreshIntervalSeconds (c_cfg (yr_c y))) failures jitter * second),
              rs_writes := rs_writes r @ yr_writes y, rs_calls := rs_calls r @ yr_calls y\<rparr>)))"

text \<open>One turn of the select. A loop without stores only waits for the end; an event that is not
  possible in a state, such as a timer that does not run, changes nothing.\<close>

definition run_step :: "unicode \<Rightarrow> nat list \<Rightarrow> run_event \<Rightarrow> run_state \<Rightarrow> run_state res" where
  "run_step u order ev r =
     (if rs_done r then Ok r
      else case ev of
        CtxCancelled \<Rightarrow> Ok (r\<lparr>rs_done := True, rs_timer := None\<rparr>)
      | NetworkSignal ipcGet \<Rightarrow> if c_pluginDefs (rs_c r) = [] \<or> \<not> c_changed (rs_c r) then Ok r else Ok (network_signal ipcGet r)
      | RefreshDue env jitter \<Rightarrow> if rs_timer r = None then Ok r else refresh_due u order env jitter r)"

section \<open>The candidates\<close>

definition permitted_hint :: "unicode \<Rightarrow> nat list \<Rightarrow> string \<Rightarrow> LocalStatus option \<Rightarrow> string \<Rightarrow> string option" where
  "permitted_hint u order protocol local r =
     (case Decode u order r of
        Ok data \<Rightarrow> (case SelectEndpoint data protocol local of Ok e \<Rightarrow> if Allowed e [] then Some e else None | _ \<Rightarrow> None)
      | _ \<Rightarrow> None)"

text \<open>The first occurrence of each element.\<close>

definition firsts :: "'a list \<Rightarrow> 'a list" where "firsts xs = rev (remdups (rev xs))"

lemma firsts_simps [simp]: "firsts [] = []" "firsts (x # xs) = x # filter (\<lambda>y. y \<noteq> x) (firsts xs)"
  by (simp_all add: firsts_def remdups_snoc rev_filter)

lemma set_firsts [simp]: "set (firsts xs) = set xs" "distinct (firsts xs)"
  by (simp_all add: firsts_def)

lemma Allowed_nonempty: "Allowed e [] \<Longrightarrow> e \<noteq> []"
proof (rule notI)
  assume "Allowed e []" "e = []"
  then show False using Allowed_Endpoint[of e] by (auto simp: Endpoint_def ParseAddrPort_def splitAddrPort_def)
qed

lemma permitted_hint_iff: "permitted_hint u order protocol local r = Some e \<longleftrightarrow>
    (\<exists>data. Decode u order r = Ok data \<and> SelectEndpoint data protocol local = Ok e \<and> Allowed e [])"
  by (auto simp: permitted_hint_def split: res.splits)

lemma recovery_loop_eq:
  assumes "distinct eps" "length eps \<le> 4"
  shows "recovery_loop u order protocol local eps rs =
    Ok (take 4 (eps @ filter (\<lambda>e. e \<notin> set eps) (firsts (List.map_filter (permitted_hint u order protocol local) rs))))"
  using assms
proof (induction rs arbitrary: eps)
  case (Cons r rs)
  let ?h = "permitted_hint u order protocol local"
  have skip: "recovery_loop u order protocol local eps (r # rs) = recovery_loop u order protocol local eps rs"
    if "?h r = None" "length eps \<noteq> 4"
  proof (cases "Decode u order r")
    case (Ok data)
    then show ?thesis using that by (cases "SelectEndpoint data protocol local") (simp_all add: permitted_hint_def split: if_splits)
  qed (use that in simp_all)
  show ?case
  proof (cases "length eps = 4")
    case False
    show ?thesis
    proof (cases "?h r")
      case None
      with skip[OF None False] Cons show ?thesis by (simp add: List.map_filter_simps)
    next
      case (Some e)
      then have s: "recovery_loop u order protocol local eps (r # rs) = recovery_loop u order protocol local (add_candidate e eps) rs"
        using False by (auto simp: permitted_hint_iff)
      have e: "e \<noteq> []" using Some Allowed_nonempty by (auto simp: permitted_hint_iff)
      show ?thesis
      proof (cases "e \<in> set eps")
        case True
        then have "filter (\<lambda>x. x \<notin> set eps) (filter (\<lambda>y. y \<noteq> e) xs) = filter (\<lambda>x. x \<notin> set eps) xs" for xs by (auto intro!: filter_cong)
        then show ?thesis using s True Some Cons by (simp add: add_candidate_def List.map_filter_simps)
      next
        case new: False
        then have "add_candidate e eps = eps @ [e]" using e False Cons.prems(2) by (simp add: add_candidate_def)
        moreover have "filter (\<lambda>x. x \<notin> set eps) (filter (\<lambda>y. y \<noteq> e) xs) = filter (\<lambda>x. x \<notin> set (eps @ [e])) xs" for xs by (auto intro!: filter_cong)
        ultimately show ?thesis using s new Some Cons.IH[of "eps @ [e]"] Cons.prems False by (simp add: List.map_filter_simps)
      qed
    qed
  qed simp
qed simp

lemma recoveryCandidates_eq:
  "recoveryCandidates u order peer records local =
     Ok (take 4 (firsts (filter (\<lambda>e. e \<noteq> []) (dp_Bootstrap peer # List.map_filter (permitted_hint u order (dp_Protocol peer) local) records))))"
proof -
  let ?hs = "List.map_filter (permitted_hint u order (dp_Protocol peer) local) records"
  have "filter (\<lambda>e. e \<noteq> []) ?hs = ?hs"
    by (intro filter_True) (auto simp: map_filter_set permitted_hint_iff dest: Allowed_nonempty)
  then show ?thesis by (simp add: recoveryCandidates_def recovery_loop_eq add_candidate_def)
qed

text \<open>Recovery tries the owner's bootstrap endpoint first and then, in the order of the store, the hints
  that decode, suit the peer's protocol and are publicly routable, each once, four in all. Nothing else can
  become a candidate, and no usable hint among the first four distinct ones is lost.\<close>

theorem recovery_candidates_exact:
  "recoveryCandidates u order peer records local =
     Ok (take 4 (firsts (filter (\<lambda>e. e \<noteq> []) (dp_Bootstrap peer # List.map_filter (permitted_hint u order (dp_Protocol peer) local) records))))"
  by (rule recoveryCandidates_eq)

section \<open>Phones and desktops meet\<close>

text \<open>The desktop's view of a peer of the mobile configuration.\<close>

definition desktop_peer :: "byte list \<Rightarrow> byte list \<Rightarrow> discoveryPeer \<Rightarrow> string \<Rightarrow> PeerPingConfig \<Rightarrow> Peer" where
  "desktop_peer own k p dname ping = NewPeer (NewPeerId own k) dname k (dp_Plugin p) (dp_Protocol p) ping"

definition published :: "store_write list \<Rightarrow> (OpenDHTPlugin \<times> string \<times> string) list" where
  "published ws = map (\<lambda>w. (sw_store w, sw_key w, sw_record w)) ws"

text \<open>C9. The mobile core publishes what the desktop daemon would. For the same keys, stores and discovered
  endpoints, the write it makes for a peer goes to the same store, under the same key and with the same record
  as the one of the desktop's publish controller; and that key is the one under which the peer, phone or
  desktop, looks this device up.\<close>

theorem mobile_publish_agrees:
  assumes "dp_Plugin p \<noteq> []" "keyToBytes (dp_PublicKey p) = Ok k" "Encode order \<lparr>Version = 0, IPv4 = e4, IPv6 = e6\<rparr> = Ok rec"
  shows "published (fst (publish_peer env n c rec p)) =
      published (fst (publishToPeer order (c_manager c) wr dc dev (desktop_peer (c_pub c) k p d ping) e4 e6))
    \<and> (\<forall>w\<in>set (fst (publish_peer env n c rec p)). sw_key w = RemoteEndpointKey (NewPeerId k (c_pub c)))"
proof -
  have "EndpointKey (NewPeerId (c_pub c) k) = RemoteEndpointKey (NewPeerId k (c_pub c))"
    by (simp add: EndpointKey_def RemoteEndpointKey_def NewPeerId_def)
  then show ?thesis
    using assms
    by (auto simp: publish_peer_def publishToPeer_def published_def desktop_peer_def NewPeer_def LocalId_def GetPlugin_def Let_def
        split: option.splits res.splits)
qed

section \<open>What one pass may do to the device\<close>

text \<open>Where an endpoint may come from: the owner's configuration, or a permitted hint that the peer's
  store returned under the key both sides derive.\<close>

definition endpoint_source ::
  "unicode \<Rightarrow> nat list \<Rightarrow> cycle_env \<Rightarrow> LocalStatus option \<Rightarrow> ctx_escape \<Rightarrow> controller \<Rightarrow> discoveryPeer \<Rightarrow> string \<Rightarrow> bool" where
  "endpoint_source u order env local ctx c p e \<longleftrightarrow> e = dp_Bootstrap p \<or>
     (\<exists>k store records. keyToBytes (dp_PublicKey p) = Ok k \<and> c_manager c (dp_Plugin p) = Some store \<and>
        ye_get env (escapeFrom ctx) store (RemoteEndpointKey (NewPeerId (c_pub c) k)) = Ok records \<and>
        hint_from u order (dp_Protocol p) local records e)"

definition ipc_count :: "node_call list \<Rightarrow> nat" where
  "ipc_count calls = length (filter (\<lambda>x. case x of IpcSet _ _ \<Rightarrow> True | _ \<Rightarrow> False) calls)"

lemma ipc_count_simps [simp]:
  "ipc_count [] = 0" "ipc_count (a @ b) = ipc_count a + ipc_count b"
  "ipc_count (x # a) = (case x of IpcSet _ _ \<Rightarrow> 1 | _ \<Rightarrow> 0) + ipc_count a"
  by (simp_all add: ipc_count_def split: node_call.splits)

text \<open>What a pass keeps of the loop and of the node.\<close>

definition same_loop :: "controller \<Rightarrow> controller \<Rightarrow> bool" where
  "same_loop c c' \<longleftrightarrow> c_cfg c' = c_cfg c \<and> c_manager c' = c_manager c \<and> c_pub c' = c_pub c \<and> c_id c' = c_id c \<and>
     c_pluginDefs c' = c_pluginDefs c \<and> c_network c' = c_network c"

definition same_node :: "Node \<Rightarrow> Node \<Rightarrow> bool" where
  "same_node n n' \<longleftrightarrow> (n' = n \<or> n' = n\<lparr>n_ctrl := map_option (\<lambda>c. c\<lparr>c_cancelled := True\<rparr>) (n_ctrl n)\<rparr>)"

lemma same_loop_refl [simp]: "same_loop c c" "same_loop c (c\<lparr>c_selection := s\<rparr>)" "same_loop c (c\<lparr>c_cancelled := b\<rparr>)"
  by (simp_all add: same_loop_def)

lemma same_loop_trans: "same_loop c c' \<Longrightarrow> same_loop c' c'' \<Longrightarrow> same_loop c c''"
  by (simp add: same_loop_def)

lemma same_node_trans: "same_node n n' \<Longrightarrow> same_node n' n'' \<Longrightarrow> same_node n n''"
  by (auto simp: same_node_def option.map_comp comp_def)

lemma same_node_context: "same_node n n' \<Longrightarrow> node_context env n' = node_context env n"
  by (auto simp: same_node_def node_context_def pluginDNSServers_def)

lemma endpoint_source_same: "same_loop c c' \<Longrightarrow> endpoint_source u order env local ctx c' p e \<longleftrightarrow> endpoint_source u order env local ctx c p e"
  by (simp add: endpoint_source_def same_loop_def)

text \<open>The contract of one peer's turn.\<close>

definition turn_ok ::
  "unicode \<Rightarrow> nat list \<Rightarrow> cycle_env \<Rightarrow> LocalStatus option \<Rightarrow> discoveryPeer set \<Rightarrow> nat \<Rightarrow> controller \<times> Node \<Rightarrow> pass \<Rightarrow> bool" where
  "turn_ok u order env local P k cn s \<longleftrightarrow> (case (cn, s) of ((c, n), (c', n', calls)) \<Rightarrow>
     same_loop c c' \<and> same_node n n' \<and> ipc_count calls \<le> k \<and>
     (\<forall>t\<in>ipc_texts calls. \<exists>p\<in>P. \<exists>e. dp_Plugin p \<noteq> [] \<and> buildPeerEndpointUAPI (dp_PublicKey p) e = Ok t \<and>
        endpoint_source u order env local (node_context env n) c p e))"

lemma apply_endpoint_turn:
  assumes "apply_endpoint env (dp_PublicKey p) e (c, n) = Ok (s, ok)" "dp_Plugin p \<noteq> []"
    "endpoint_source u order env local (node_context env n) c p e"
  shows "turn_ok u order env local {p} 1 (c, n) s"
proof -
  obtain n' calls r where x: "Node_SetPeerEndpoint (ye_ipc env) (dp_PublicKey p) e n = (n', calls, r)" by (metis prod_cases3)
  have t: "\<forall>t\<in>ipc_texts calls. buildPeerEndpointUAPI (dp_PublicKey p) e = Ok t" "ipc_count calls \<le> 1"
    using x by (auto simp: Node_SetPeerEndpoint_def split: if_splits option.splits res.splits)
  have n: "same_node n n'" using SetPeerEndpoint_log(6)[OF x] by (simp add: same_node_def)
  then show ?thesis
    using assms t x by (auto simp: apply_endpoint_def turn_ok_def Let_def same_loop_def split: res.splits)
qed

lemma hint_candidate:
  assumes "recoveryCandidates u order peer records local = Ok eps" "e \<in> set eps"
  shows "e = dp_Bootstrap peer \<or> hint_from u order (dp_Protocol peer) local records e"
  using assms by (auto simp: recoveryCandidates_eq map_filter_set permitted_hint_iff hint_from_def dest!: in_set_takeD split: if_splits)

lemma turn_ok_prefix:
  "turn_ok u order env local P k (c', n) (c'', n', calls) \<Longrightarrow> same_loop c c' \<Longrightarrow> ipc_texts pre = {} \<Longrightarrow> ipc_count pre = 0 \<Longrightarrow>
   turn_ok u order env local P k (c, n) (c'', n', pre @ calls)"
  by (auto simp: turn_ok_def endpoint_source_same intro: same_loop_trans)

lemma recover_peer_turn:
  assumes "recover_peer u order env local p k store h s (c, n) = Ok (st, ok)" "dp_Plugin p \<noteq> []"
    "keyToBytes (dp_PublicKey p) = Ok k" "c_manager c (dp_Plugin p) = Some store"
  shows "turn_ok u order env local {p} 1 (c, n) st"
proof -
  let ?get = "ye_get env (escapeFrom (node_context env n)) store (RemoteEndpointKey (NewPeerId (c_pub c) k))"
  let ?pre = "\<lambda>records. if records = [] then [Log ''debug'' ''peer hint unavailable''] else []"
  obtain records eps e s' where r: "?get = Ok records \<or> records = [] \<and> (\<exists>x. ?get = Err x)"
    "recoveryCandidates u order p records local = Ok eps" "Next s eps = (Ok e, s')"
    "if e = [] \<or> e = h_Endpoint h then Ok ((c\<lparr>c_selection := (c_selection c)(dp_PublicKey p \<mapsto> s')\<rparr>, n, ?pre records), False) = Ok (st, ok)
     else \<exists>c'' n' calls. apply_endpoint env (dp_PublicKey p) e (c\<lparr>c_selection := (c_selection c)(dp_PublicKey p \<mapsto> s')\<rparr>, n) = Ok ((c'', n', calls), ok)
       \<and> st = (c'', n', ?pre records @ calls)"
    using assms(1) by (auto simp: recover_peer_def Let_def split: res.splits prod.splits if_splits)
  show ?thesis
  proof (cases "e = [] \<or> e = h_Endpoint h")
    case True
    then show ?thesis using r(4) by (cases "records = []") (auto simp: turn_ok_def same_node_def)
  next
    case False
    then have "eps \<noteq> []" using r(3) by (auto simp: Next_def)
    then have "e \<in> set eps" using Next_member[of eps s] r(3) by auto
    then have "endpoint_source u order env local (node_context env n) c p e"
      using hint_candidate[OF r(2)] r(1) assms(3,4) by (auto simp: endpoint_source_def hint_from_def)
    then have src: "endpoint_source u order env local (node_context env n) (c\<lparr>c_selection := (c_selection c)(dp_PublicKey p \<mapsto> s')\<rparr>) p e"
      by (simp add: endpoint_source_def)
    obtain c'' n' calls where a: "apply_endpoint env (dp_PublicKey p) e (c\<lparr>c_selection := (c_selection c)(dp_PublicKey p \<mapsto> s')\<rparr>, n) = Ok ((c'', n', calls), ok)"
      "st = (c'', n', ?pre records @ calls)" using r(4) False by auto
    show ?thesis unfolding a(2)
      by (rule turn_ok_prefix[OF apply_endpoint_turn[OF a(1) assms(2) src]]) simp_all
  qed
qed

lemma establish_peer_turn:
  assumes "establish_peer u order env health local p (c, n) = Ok (s, ok)"
  shows "turn_ok u order env local {p} 1 (c, n) s \<and>
    (ipc_texts (snd (snd s)) \<noteq> {} \<longrightarrow> (\<exists>h s0. health (dp_PublicKey p) = Some h \<and> \<not> fst (Working s0 h (ye_now env (dp_PublicKey p)))))"
proof -
  have quiet: "turn_ok u order env local {p} 1 (c, n) (c', n, calls)" if "same_loop c c'" "ipc_texts calls = {}" "ipc_count calls = 0" for c' calls
    using that by (simp add: turn_ok_def same_node_def)
  show ?thesis
  proof (cases "dp_Plugin p = []")
    case True
    then show ?thesis using assms quiet by (auto simp: establish_peer_def)
  next
    case plugin: False
    show ?thesis
    proof (cases "keyToBytes (dp_PublicKey p)")
      case (Ok k)
      show ?thesis
      proof (cases "c_manager c (dp_Plugin p)")
        case (Some store)
        let ?s = "case c_selection c (dp_PublicKey p) of Some s \<Rightarrow> s | None \<Rightarrow> NewSelection"
        show ?thesis
        proof (cases "health (dp_PublicKey p)")
          case h: (Some h)
          obtain w s1 where w: "Working ?s h (ye_now env (dp_PublicKey p)) = (w, s1)" by fastforce
          let ?c = "c\<lparr>c_selection := (c_selection c)(dp_PublicKey p \<mapsto> s1)\<rparr>"
          show ?thesis
          proof (cases w)
            case False
            then have r: "recover_peer u order env local p k store h s1 (?c, n) = Ok (s, ok)"
              using assms plugin Ok Some h w by (simp add: establish_peer_def GetPlugin_def Let_def)
            have "turn_ok u order env local {p} 1 (?c, n) s" by (rule recover_peer_turn[OF r plugin Ok]) (simp add: Some)
            then have "turn_ok u order env local {p} 1 (c, n) s"
              using turn_ok_prefix[of u order env local "{p}" 1 ?c n "fst s" "fst (snd s)" "snd (snd s)" c "[]"] by simp
            then show ?thesis using h w False by (metis fst_conv)
          qed (use assms plugin Ok Some h w quiet in \<open>auto simp: establish_peer_def GetPlugin_def Let_def\<close>)
        qed (use assms plugin Ok Some quiet in \<open>auto simp: establish_peer_def GetPlugin_def Let_def\<close>)
      qed (use assms plugin Ok quiet in \<open>auto simp: establish_peer_def GetPlugin_def Let_def\<close>)
    qed (use assms plugin quiet in \<open>auto simp: establish_peer_def\<close>)
  qed
qed

lemma turn_ok_mono: "turn_ok u order env local P k cn s \<Longrightarrow> P \<subseteq> Q \<Longrightarrow> turn_ok u order env local Q k cn s"
  by (fastforce simp: turn_ok_def split: prod.splits)

lemma turn_ok_trans:
  assumes "turn_ok u order env local P k (c, n) (c', n', calls)" "turn_ok u order env local P j (c', n') (c'', n'', calls')"
  shows "turn_ok u order env local P (k + j) (c, n) (c'', n'', calls @ calls')"
  using assms same_node_context[of n n' env]
  by (auto simp: turn_ok_def endpoint_source_same intro: same_loop_trans same_node_trans)

lemma establish_all_turn:
  "establish_all u order env health local ps (c, n) = Ok (s, ok) \<Longrightarrow> turn_ok u order env local (set ps) (length ps) (c, n) s"
proof (induction ps arbitrary: c n s ok)
  case (Cons p ps)
  from Cons.prems obtain c1 n1 calls ok1 c2 n2 calls' ok2 where e:
    "establish_peer u order env health local p (c, n) = Ok ((c1, n1, calls), ok1)"
    "establish_all u order env health local ps (c1, n1) = Ok ((c2, n2, calls'), ok2)" "s = (c2, n2, calls @ calls')"
    by clarsimp
  have "turn_ok u order env local (set (p # ps)) 1 (c, n) (c1, n1, calls)"
    using conjunct1[OF establish_peer_turn[OF e(1)]] by (rule turn_ok_mono) simp
  moreover have "turn_ok u order env local (set (p # ps)) (length ps) (c1, n1) (c2, n2, calls')"
    using Cons.IH[OF e(2)] by (rule turn_ok_mono) auto
  ultimately show ?case using turn_ok_trans e(3) by fastforce
qed (simp add: turn_ok_def same_node_def)

text \<open>C8. What a pass over the peers may do to the device, whatever the stores, the device and the clock answer.
  It hands over at most one text per peer, and each is an update of the endpoint of a configured peer with
  a store; the endpoint is the owner's own, or a publicly routable hint that was found in that peer's store
  under the key of the pair. Nothing else of the node changes, except that a failed update cancels the
  loop.\<close>

theorem mobile_establish_confined:
  assumes "controller_establish u order env local (c, n) = Ok ((c', n', calls), ok)"
  shows "ipc_count calls \<le> length (cc_Peers (c_cfg c))
    \<and> (\<forall>t\<in>ipc_texts calls. \<exists>p\<in>set (cc_Peers (c_cfg c)). \<exists>e. dp_Plugin p \<noteq> [] \<and>
         buildPeerEndpointUAPI (dp_PublicKey p) e = Ok t \<and> endpoint_source u order env local (node_context env n) c p e)
    \<and> (n' = n \<or> n' = n\<lparr>n_ctrl := map_option (\<lambda>c. c\<lparr>c_cancelled := True\<rparr>) (n_ctrl n)\<rparr>)"
proof (cases "peerHealth (ye_status env) n")
  case (Ok health)
  then show ?thesis
    using assms establish_all_turn[of u order env health local "cc_Peers (c_cfg c)" c n "(c', n', calls)" ok]
    by (auto simp: controller_establish_def turn_ok_def same_node_def)
qed (use assms in \<open>auto simp: controller_establish_def\<close>)

section \<open>A cycle keeps the node's invariant\<close>

text \<open>Calls on the listener only.\<close>

definition report :: "node_call list \<Rightarrow> bool" where
  "report calls \<longleftrightarrow> (\<forall>x\<in>set calls. (\<exists>l m. x = Log l m) \<or> (\<exists>k p d. x = Event k p d))"

lemma report_log: "report calls \<Longrightarrow> opened calls = {} \<and> shut calls = {} \<and> started calls = {} \<and> ended calls = {} \<and> ipc_texts calls = {}"
  by (auto simp: report_def opened_def shut_def started_def ended_def ipc_texts_def)

lemma report_simps [simp]: "report []" "report (a @ b) \<longleftrightarrow> report a \<and> report b" "report (Log l m # a) \<longleftrightarrow> report a" "report (Event k p d # a) \<longleftrightarrow> report a"
  by (auto simp: report_def)

lemma node_inv_report: "report calls \<Longrightarrow> node_inv cfg protect (n, log @ calls) \<longleftrightarrow> node_inv cfg protect (n, log)"
  using report_log[of calls] by (simp add: node_inv_def)

lemma discover_calls_report: "report (fst (controller_discover env n c))"
proof -
  have "report (discover_calls r4 r6 x)" for r4 r6 x by (simp add: discover_calls_def Let_def split: discover_call.splits res.splits)
  then show ?thesis by (auto simp: controller_discover_def Let_def report_def split_beta)
qed

lemma publish_report: "report (fst (snd (controller_publish order env n c data)))"
proof -
  have p: "report (fst (snd (publish_peer env n c rec p)))" for rec p
    by (simp add: publish_peer_def op_failed_def Let_def split: res.splits)
  have "report (fst (snd (publish_all env n c rec ps)))" for rec ps
  proof (induction ps)
    case (Cons q ps)
    obtain ws cs r where "publish_peer env n c rec q = (ws, cs, r)" by (metis prod_cases3)
    then show ?case using p[of rec q] Cons by (cases r) (auto split: prod.splits)
  qed simp
  then show ?thesis by (simp add: controller_publish_def split: res.splits)
qed

lemma phase_report: "report (fst (snd (publish_phase order env n c found)))"
  using publish_report by (cases found) (simp_all add: publish_phase_def op_failed_def split_beta)

lemma apply_endpoint_inv:
  assumes "apply_endpoint env key e (c, n) = Ok ((c', n', calls), ok)" "node_inv cfg protect (n, log)"
  shows "node_inv cfg protect (n', log @ calls)"
proof -
  obtain n1 cs r where x: "Node_SetPeerEndpoint (ye_ipc env) key e n = (n1, cs, r)" by (metis prod_cases3)
  have "node_inv cfg protect (n1, log @ cs)" by (rule node_inv_endpoint[OF assms(2) x])
  then show ?thesis using assms(1) x node_inv_report[of "[Log ''error'' ''discovery operation failed'']" cfg protect n1 "log @ cs"]
    by (auto simp: apply_endpoint_def Let_def split: res.splits)
qed

lemma recover_peer_inv:
  assumes "recover_peer u order env local p k store h s (c, n) = Ok ((c', n', calls), ok)" "node_inv cfg protect (n, log)"
  shows "node_inv cfg protect (n', log @ calls)"
proof -
  let ?quiet = "[Log ''debug'' ''peer hint unavailable'']"
  have q: "node_inv cfg protect (n, log @ ?quiet)" using assms(2) by (simp add: node_inv_report)
  show ?thesis
    using assms q apply_endpoint_inv[where log = log] apply_endpoint_inv[where log = "log @ ?quiet"]
    by (auto simp: recover_peer_def Let_def split: res.splits prod.splits if_splits)
qed

lemma establish_peer_inv:
  assumes "establish_peer u order env health local p (c, n) = Ok ((c', n', calls), ok)" "node_inv cfg protect (n, log)"
  shows "node_inv cfg protect (n', log @ calls)"
  using assms recover_peer_inv[where log = log] node_inv_report[of "[Event k a b]" cfg protect n log for k a b]
  by (auto simp: establish_peer_def Let_def split: res.splits prod.splits if_splits option.splits)

lemma establish_all_inv:
  "establish_all u order env health local ps (c, n) = Ok ((c', n', calls), ok) \<Longrightarrow> node_inv cfg protect (n, log) \<Longrightarrow>
   node_inv cfg protect (n', log @ calls)"
proof (induction ps arbitrary: c n calls ok log)
  case (Cons p ps)
  from Cons.prems(1) obtain c1 n1 cs ok1 cs' ok2 where e:
    "establish_peer u order env health local p (c, n) = Ok ((c1, n1, cs), ok1)"
    "establish_all u order env health local ps (c1, n1) = Ok ((c', n', cs'), ok2)" "calls = cs @ cs'" by clarsimp
  show ?case using Cons.IH[OF e(2) establish_peer_inv[OF e(1) Cons.prems(2)]] e(3) by simp
qed simp

lemma establish_keeps:
  assumes "controller_establish u order env local (c, n) = Ok ((c', n', calls), ok)"
  shows "same_loop c c'" "node_inv cfg protect (n, log) \<Longrightarrow> node_inv cfg protect (n', log @ calls)"
proof -
  show "same_loop c c'"
    using assms establish_all_turn[of u order env _ local "cc_Peers (c_cfg c)" c n "(c', n', calls)" ok]
    by (auto simp: controller_establish_def turn_ok_def split: res.splits)
  show "node_inv cfg protect (n, log) \<Longrightarrow> node_inv cfg protect (n', log @ calls)"
    using assms establish_all_inv[where log = log] by (auto simp: controller_establish_def split: res.splits)
qed

lemma cycle_body_keeps:
  assumes "cycle_body u order env (c, n) = Ok y"
  shows "c_cfg (yr_c y) = c_cfg c" "c_pluginDefs (yr_c y) = c_pluginDefs c" "node_inv cfg protect (n, log) \<Longrightarrow> node_inv cfg protect (yr_n y, log @ yr_calls y)"
proof -
  obtain cs found where d: "controller_discover env n c = (cs, found)" by fastforce
  obtain ws cs' pub loc where p: "publish_phase order env n c found = (ws, cs', pub, loc)" by (metis prod_cases4)
  have r: "report cs" "report cs'"
    using discover_calls_report[of env n c] phase_report[of order env n c found] d p by simp_all
  obtain c' n' calls ok where e: "controller_establish u order env loc (c, n) = Ok ((c', n', calls), ok)"
    "yr_c y = c'" "yr_n y = n'" "yr_calls y = cs @ cs' @ calls"
    using assms d p by (auto simp: cycle_body_def)
  show "c_cfg (yr_c y) = c_cfg c" "c_pluginDefs (yr_c y) = c_pluginDefs c" using establish_keeps(1)[OF e(1)] e(2) by (simp_all add: same_loop_def)
  assume "node_inv cfg protect (n, log)"
  then have "node_inv cfg protect (n, log @ cs @ cs')" using r by (simp add: node_inv_report)
  then show "node_inv cfg protect (yr_n y, log @ yr_calls y)" using establish_keeps(2)[OF e(1)] e(3,4) by fastforce
qed

lemma controller_cycle_keeps:
  assumes "controller_cycle u order env (c, n) = Ok y"
  shows "c_cfg (yr_c y) = c_cfg c" "node_inv cfg protect (n, log) \<Longrightarrow> node_inv cfg protect (yr_n y, log @ yr_calls y)"
  using assms cycle_body_keeps node_inv_report[of "[op_failed]" cfg protect n log]
  by (auto simp: controller_cycle_def op_failed_def split: if_splits prod.splits res.splits)

section \<open>The loop's timing and evidence\<close>

lemma next_delay_bounds:
  assumes "60 \<le> refresh" "refresh \<le> 240" "0 \<le> jitter" "jitter \<le> 10"
  shows "15 \<le> next_delay refresh failures jitter" "next_delay refresh failures jitter \<le> 240"
    "failures = 0 \<Longrightarrow> 55 \<le> next_delay refresh failures jitter"
    "0 < failures \<Longrightarrow> next_delay refresh failures jitter \<le> 20 * 2 ^ (failures - 1) + 5"
proof -
  define q :: int where "q = 2 ^ min (failures - 1) 4"
  have q: "1 \<le> q" "q \<le> 2 ^ (failures - 1)" by (simp_all add: q_def)
  have d: "next_delay refresh failures jitter =
      max 10 (min 240 ((if 0 < failures then if 240 < 20 * q then 240 else 20 * q else refresh) - 5 + jitter))"
    by (simp add: next_delay_def Let_def q_def)
  show "15 \<le> next_delay refresh failures jitter" "next_delay refresh failures jitter \<le> 240"
    "failures = 0 \<Longrightarrow> 55 \<le> next_delay refresh failures jitter"
    "0 < failures \<Longrightarrow> next_delay refresh failures jitter \<le> 20 * 2 ^ (failures - 1) + 5"
    unfolding d using assms q by auto
qed



section \<open>Witnesses\<close>

definition phone_key :: string where "phone_key = replicate 42 (CHR ''A'') @ ''Q=''"

definition phone_peer :: discoveryPeer where
  "phone_peer = \<lparr>dp_Name = ''home'', dp_PublicKey = phone_key, dp_Plugin = ''dht'', dp_Protocol = ''ipv4'', dp_Bootstrap = ''192.168.1.2:51820''\<rparr>"

definition phone_env :: cycle_env where
  "phone_env = \<lparr>ye_urlParse = (\<lambda>_. Err (ErrNew ''url'')), ye_parseDuration = (\<lambda>_. Err (ErrNew ''duration'')), ye_iterate = id, ye_fd = 9,
     ye_lookup = (\<lambda>_ _ _. Err (ErrNew ''lookup'')), ye_discover = (\<lambda>_. Err (ErrNew ''probe'')), ye_set = (\<lambda>_. Ok ()),
     ye_get = (\<lambda>_ _ _. Ok []),
     ye_status = Some [''public_key='' @ replicate 63 (CHR ''0'') @ ''4'' @ [CHR 0x0A] @ ''rx_bytes=7'' @ [CHR 0x0A]],
     ye_ipc = (\<lambda>_. None), ye_now = (\<lambda>_. 5), ye_ended = False\<rparr>"

definition phone_node :: Node where
  "phone_node = (fresh_node sample_config (\<lambda>_. True))\<lparr>n_dev := Some 1, n_running := True\<rparr>"

definition phone_loop :: controller where
  "phone_loop = (newController 1 phone_node (replicate 32 1))\<lparr>c_manager := [''dht'' \<mapsto> ex_plugin], c_pluginsReady := True,
     c_cfg := (controller_view sample_config)\<lparr>cc_Peers := [phone_peer]\<rparr>,
     c_network := \<lparr>us_online = True, us_ipv4 = False, us_ipv6 = False\<rparr>\<rparr>"

theorem mobile_publish_agrees_witness:
  "\<exists>rec. Encode [4, 6] \<lparr>Version = 0, IPv4 = ''8.8.8.8:1'', IPv6 = []\<rparr> = Ok rec
    \<and> published (fst (publish_peer phone_env phone_node phone_loop rec phone_peer)) =
      published (fst (publishToPeer [4, 6] (c_manager phone_loop) (\<lambda>_. Ok ()) None (NewDevice ''wg0'' 1 ''ipv4'' 0)
        (desktop_peer (c_pub phone_loop) (replicate 31 0 @ [4]) phone_peer ''wg0'' \<lparr>Enabled = False, Target = [], Interval = 0, Timeout = 0\<rparr>) ''8.8.8.8:1'' []))"
proof -
  have "is_Ok (Encode [4, 6] \<lparr>Version = 0, IPv4 = ''8.8.8.8:1'', IPv6 = []\<rparr>)" by code_simp
  then obtain rec where r: "Encode [4, 6] \<lparr>Version = 0, IPv4 = ''8.8.8.8:1'', IPv6 = []\<rparr> = Ok rec" by (auto simp: is_Ok_iff)
  have k: "dp_Plugin phone_peer \<noteq> []" "keyToBytes (dp_PublicKey phone_peer) = Ok (replicate 31 0 @ [4])" by code_simp+
  from mobile_publish_agrees[OF k r] r show ?thesis by blast
qed

lemma phone_health: "\<exists>m h. peerHealth (ye_status phone_env) phone_node = Ok m \<and> m phone_key = Some h \<and> h_Endpoint h = [] \<and> Health.Received h = 7"
proof -
  let ?p = "peerHealth (ye_status phone_env) phone_node"
  have "is_Ok ?p" "(case ?p of Ok m \<Rightarrow> map_option (\<lambda>h. (h_Endpoint h, Health.Received h)) (m phone_key)) = Some ([], 7)" by code_simp+
  then show ?thesis by (auto simp: is_Ok_iff)
qed

theorem mobile_establish_confined_witness:
  "\<exists>c n calls. controller_establish ex_unicode [4, 6] phone_env None (phone_loop, phone_node) = Ok ((c, n, calls), False)
    \<and> ipc_count calls \<le> 1 \<and> last calls = Log ''error'' ''discovery operation failed''"
proof -
  obtain m h where m: "peerHealth (ye_status phone_env) phone_node = Ok m" "m phone_key = Some h" "h_Endpoint h = []"
    using phone_health by blast
  have k: "keyToBytes phone_key = Ok (replicate 31 0 @ [4])" by code_simp
  have l: "cc_Peers (c_cfg phone_loop) = [phone_peer]" "c_manager phone_loop ''dht'' = Some ex_plugin" "tc_Peers (n_cfg phone_node) = []"
    "n_running phone_node" "c_selection phone_loop phone_key = None" by code_simp+
  have w: "\<not> fst (Working s h t)" for s t using m(3) by (simp add: Working_def Let_def)
  have e: "\<exists>c n calls. controller_establish ex_unicode [4, 6] phone_env None (phone_loop, phone_node) = Ok ((c, n, calls), False)
     \<and> last calls = Log ''error'' ''discovery operation failed''"
    using m k l w
    by (simp add: controller_establish_def establish_peer_def recover_peer_def apply_endpoint_def Node_SetPeerEndpoint_def
        recoveryCandidates_eq Next_nonempty GetPlugin_def phone_peer_def phone_env_def Let_def split_beta List.map_filter_simps)
  then obtain c n calls where e: "controller_establish ex_unicode [4, 6] phone_env None (phone_loop, phone_node) = Ok ((c, n, calls), False)"
    "last calls = Log ''error'' ''discovery operation failed''" by blast
  from mobile_establish_confined[OF e(1)] e l(1) show ?thesis by auto
qed

text \<open>The same node while no family of the underlay works: discovery fails, and the loop backs off.\<close>

definition phone_run :: "tunnelConfig \<Rightarrow> run_state" where
  "phone_run cfg = (run_start (phone_loop\<lparr>c_cfg := controller_view cfg\<rparr>) (fresh_node cfg (\<lambda>_. True)))\<lparr>rs_timer := Some 0\<rparr>"



end
