(* ===== verification/Escape.thy ===== *)
theory Escape
  imports Proxy Dialer
begin

text \<open>
  The platforms whose sockets name an interface instead of a mark: the route tables of BSD and Windows
  (\<^verbatim>\<open>probe_darwinbsd.go\<close>, \<^verbatim>\<open>probe_windows.go\<close>, \<^verbatim>\<open>resolve.go\<close>) and the relay's escape there
  (\<^verbatim>\<open>escape_darwin.go\<close>, \<^verbatim>\<open>escape_windows.go\<close>), a loop that binds the socket again after each burst of
  route changes. The system's route tables, its interfaces and the outcomes of its calls are arguments;
  the loop, its reader and the system are a step relation whose steps interleave freely.
\<close>

section \<open>Route tables (probe\_darwinbsd.go, probe\_windows.go, resolve.go)\<close>

text \<open>\<open>byIndex\<close> is the system's lookup of an interface: its name and index.\<close>

definition resolveRouteInterface :: "(int \<Rightarrow> (string \<times> int) res) \<Rightarrow> prefix \<Rightarrow> int \<Rightarrow> Route option" where
  "resolveRouteInterface byIndex p idx =
     (case byIndex idx of Ok (name, i) \<Rightarrow> Some \<lparr>r_Prefix = p, r_Interface = name, r_Index = i\<rparr> | _ \<Rightarrow> None)"

text \<open>An address slot of a BSD route message, and the messages. A slot may be empty.\<close>

datatype bsd_addr = Inet4Addr "byte list" | Inet6Addr "byte list" | OtherAddr

record RouteMessage =
  rm_Flags :: int
  rm_Index :: int
  rm_Addrs :: "bsd_addr option list"
  rm_Err :: bool

datatype bsd_message = RouteMsg RouteMessage | OtherMsg

definition RTAX_DST :: nat where "RTAX_DST = 0"
definition RTAX_NETMASK :: nat where "RTAX_NETMASK = 2"
definition RTF_HOST :: int where "RTF_HOST = 4"

text \<open>\<^verbatim>\<open>net.IPMask.Size\<close>: the leading ones of a mask, zero for one that is not of that form.\<close>

fun simpleMaskLength :: "byte list \<Rightarrow> int" where
  "simpleMaskLength [] = 0"
| "simpleMaskLength (v # m) =
     (if v = 0xff then (let n = simpleMaskLength m in if n = - 1 then - 1 else 8 + n)
      else if push_bit (nat (octet_ones 8 v)) v \<noteq> 0 \<or> list_ex (\<lambda>b. b \<noteq> 0) m then - 1
      else octet_ones 8 v)"

definition IPMask_Size :: "byte list \<Rightarrow> int" where
  "IPMask_Size m = (let ones = simpleMaskLength m in if ones = - 1 then 0 else ones)"

definition slot :: "bsd_addr option list \<Rightarrow> nat \<Rightarrow> bsd_addr option" where
  "slot addrs i = (if length addrs \<le> i then None else addrs ! i)"

definition routeMessagePrefix :: "RouteMessage \<Rightarrow> rp_Family \<Rightarrow> prefix option" where
  "routeMessagePrefix rm family =
     (case (case slot (rm_Addrs rm) RTAX_DST of
              Some (Inet4Addr ip) \<Rightarrow> if family \<noteq> rp_IPv4 then None else Some (AddrFrom4 ip)
            | Some (Inet6Addr ip) \<Rightarrow> if family \<noteq> rp_IPv6 then None else Some (AddrFrom16 ip)
            | _ \<Rightarrow> None) of
        None \<Rightarrow> None
      | Some a \<Rightarrow>
          let host = (if rm_Flags rm AND RTF_HOST \<noteq> 0 then int (BitLen a) else 0);
              bits = (case slot (rm_Addrs rm) RTAX_NETMASK of
                        Some (Inet4Addr m) \<Rightarrow> IPMask_Size m | Some (Inet6Addr m) \<Rightarrow> IPMask_Size m | _ \<Rightarrow> host)
          in Some (PrefixFrom a bits))"

fun routesFromMessages :: "(int \<Rightarrow> (string \<times> int) res) \<Rightarrow> bsd_message list \<Rightarrow> rp_Family \<Rightarrow> Route list" where
  "routesFromMessages byIndex [] family = []"
| "routesFromMessages byIndex (OtherMsg # ms) family = routesFromMessages byIndex ms family"
| "routesFromMessages byIndex (RouteMsg rm # ms) family =
     (if rm_Err rm then routesFromMessages byIndex ms family
      else case routeMessagePrefix rm family of
        None \<Rightarrow> routesFromMessages byIndex ms family
      | Some p \<Rightarrow>
          (case resolveRouteInterface byIndex p (rm_Index rm) of
             None \<Rightarrow> routesFromMessages byIndex ms family
           | Some r \<Rightarrow> r # routesFromMessages byIndex ms family))"

definition currentRoutes_bsd :: "(int \<Rightarrow> (string \<times> int) res) \<Rightarrow> 'b res \<Rightarrow> ('b \<Rightarrow> bsd_message list res) \<Rightarrow> rp_Family \<Rightarrow> Route list res" where
  "currentRoutes_bsd byIndex rib parseRIB family =
     bind_res (wrap_err ''routeprobe: fetch route table'' rib) (\<lambda>b.
     bind_res (wrap_err ''routeprobe: parse route table'' (parseRIB b)) (\<lambda>msgs.
     Ok (routesFromMessages byIndex msgs family)))"

text \<open>A row of the Windows table: the tagged address, the length of the prefix and the interface.\<close>

record ForwardRow =
  fr_Family :: nat
  fr_Addr :: "byte list"
  fr_PrefixLength :: byte
  fr_InterfaceIndex :: u32

definition AF_INET :: nat where "AF_INET = 2"
definition AF_INET6 :: nat where "AF_INET6 = 23"

definition forwardPrefix :: "ForwardRow \<Rightarrow> rp_Family \<Rightarrow> prefix option" where
  "forwardPrefix row family =
     (if fr_Family row = AF_INET then
        (if family \<noteq> rp_IPv4 then None else Some (PrefixFrom (AddrFrom4 (fr_Addr row)) (uint (fr_PrefixLength row))))
      else if fr_Family row = AF_INET6 then
        (if family \<noteq> rp_IPv6 then None else Some (PrefixFrom (AddrFrom16 (fr_Addr row)) (uint (fr_PrefixLength row))))
      else None)"

fun routesFromRows :: "(int \<Rightarrow> (string \<times> int) res) \<Rightarrow> ForwardRow list \<Rightarrow> rp_Family \<Rightarrow> Route list" where
  "routesFromRows byIndex [] family = []"
| "routesFromRows byIndex (row # rows) family =
     (case forwardPrefix row family of
        None \<Rightarrow> routesFromRows byIndex rows family
      | Some p \<Rightarrow>
          (case resolveRouteInterface byIndex p (uint (fr_InterfaceIndex row)) of
             None \<Rightarrow> routesFromRows byIndex rows family
           | Some r \<Rightarrow> r # routesFromRows byIndex rows family))"

definition currentRoutes_windows :: "(int \<Rightarrow> (string \<times> int) res) \<Rightarrow> ForwardRow list res \<Rightarrow> rp_Family \<Rightarrow> Route list res" where
  "currentRoutes_windows byIndex table family =
     bind_res (wrap_err ''routeprobe: GetIpForwardTable2'' table) (\<lambda>rows. Ok (routesFromRows byIndex rows family))"

section \<open>Binding to an interface (escape\_darwin.go, escape\_windows.go)\<close>

text \<open>The two socket calls; \<open>conn\<close> is the outcome of reaching the descriptor.\<close>

definition bindToInterfaceIndex_darwin :: "unit res \<Rightarrow> unit res \<Rightarrow> (socket_call \<Rightarrow> unit res) \<Rightarrow> Family \<Rightarrow> int \<Rightarrow> socket_call list \<times> unit res" where
  "bindToInterfaceIndex_darwin conn ctl setopt fam idx =
     (case conn of Ok _ \<Rightarrow> apply_call ctl setopt (bound_if (routeprobeFamily fam) idx) | e \<Rightarrow> ([], e))"

definition bindToInterfaceIndex_windows :: "unit res \<Rightarrow> unit res \<Rightarrow> (socket_call \<Rightarrow> unit res) \<Rightarrow> Family \<Rightarrow> int \<Rightarrow> socket_call list \<times> unit res" where
  "bindToInterfaceIndex_windows conn ctl setopt fam idx =
     (case conn of Ok _ \<Rightarrow> apply_call ctl setopt (unicast_if (routeprobeFamily fam) idx) | e \<Rightarrow> ([], e))"

text \<open>The interface a socket is bound to (0 for none) after a pass. The probe and the lookup each read the
  route table anew, so they may see two different tables. \<open>bind\<close> is one of the two calls above.\<close>

definition bind_to :: "(int \<Rightarrow> unit res) \<Rightarrow> int \<Rightarrow> int \<Rightarrow> int" where
  "bind_to bind idx bound = (if is_Ok (bind idx) then idx else bound)"

definition apply_lookup :: "(int \<Rightarrow> unit res) \<Rightarrow> rp_Family \<Rightarrow> TunnelInterfaces \<Rightarrow> bool res \<Rightarrow> Route list res \<Rightarrow> int \<Rightarrow> int" where
  "apply_lookup bind fam tunnels covering table bound =
     (case covering of
        Ok False \<Rightarrow> bind_to bind 0 bound
      | Ok True \<Rightarrow>
          (case DefaultRouteInterface table fam tunnels of
             Ok (Some r) \<Rightarrow> bind_to bind (r_Index r) bound
           | _ \<Rightarrow> bound)
      | _ \<Rightarrow> bound)"

definition applyEscape :: "(int \<Rightarrow> unit res) \<Rightarrow> Family \<Rightarrow> TunnelInterfaces \<Rightarrow> Route list res \<Rightarrow> Route list res \<Rightarrow> int \<Rightarrow> int" where
  "applyEscape bind fam tunnels table table' bound =
     apply_lookup bind (routeprobeFamily fam) tunnels (Probe table (routeprobeFamily fam) tunnels) table' bound"

section \<open>The subscribers (escape\_windows.go)\<close>

text \<open>Each live subscriber has a channel with room for one signal; the value says whether it holds one.\<close>

record notify_state =
  notifySeq :: int
  notifySubs :: "int \<rightharpoonup> bool"

definition subscribeNotify :: "notify_state \<Rightarrow> notify_state \<times> int" where
  "subscribeNotify n = (let i = notifySeq n + 1 in (\<lparr>notifySeq = i, notifySubs = (notifySubs n)(i \<mapsto> False)\<rparr>, i))"

definition unsubscribeNotify :: "notify_state \<Rightarrow> int \<Rightarrow> notify_state" where
  "unsubscribeNotify n i = n\<lparr>notifySubs := (notifySubs n)(i := None)\<rparr>"

definition notifyDispatch :: "notify_state \<Rightarrow> notify_state" where
  "notifyDispatch n = n\<lparr>notifySubs := (\<lambda>i. map_option (\<lambda>_. True) (notifySubs n i))\<rparr>"

section \<open>The watcher\<close>

text \<open>The loop's state: the system's table, the bound interface, whether the system has a notice that was not
  read yet, whether the signal channel is full, whether the timer runs, the answer of a probe whose lookup is
  still to come, and whether the reader and the loop are running.\<close>

record watch =
  w_table :: "Route list res"
  w_bound :: int
  w_notice :: bool
  w_sig :: bool
  w_timer :: bool
  w_probe :: "bool res option"
  w_reading :: bool
  w_running :: bool

definition start_watch :: "Route list res \<Rightarrow> int \<Rightarrow> watch" where
  "start_watch table bound = \<lparr>w_table = table, w_bound = bound, w_notice = False, w_sig = False, w_timer = False,
     w_probe = None, w_reading = True, w_running = True\<rparr>"

text \<open>The hook: the bound interface and the watcher, if there is one. \<open>t0\<close>, \<open>t0'\<close> are the tables of the first pass and
  \<open>t1\<close> the table when the system starts to give notices; \<open>opened\<close> is whether it does.\<close>

definition escapeOuterSocket_bound ::
  "(int \<Rightarrow> unit res) \<Rightarrow> escapeOptions \<Rightarrow> Family \<Rightarrow> Route list res \<Rightarrow> Route list res \<Rightarrow> bool \<Rightarrow> Route list res \<Rightarrow> int \<times> watch option" where
  "escapeOuterSocket_bound bind opts fam t0 t0' opened t1 =
     (if tunnelIfaces opts = {} then (0, None)
      else let bound = applyEscape bind fam (tunnelIfaces opts) t0 t0' 0 in
        (bound, if opened then Some (start_watch t1 bound) else None))"

definition escapeOuterSocket_darwin ::
  "unit res \<Rightarrow> unit res \<Rightarrow> (socket_call \<Rightarrow> unit res) \<Rightarrow> escapeOptions \<Rightarrow> Family \<Rightarrow> Route list res \<Rightarrow> Route list res \<Rightarrow> bool \<Rightarrow> Route list res
    \<Rightarrow> int \<times> watch option" where
  "escapeOuterSocket_darwin conn ctl setopt opts fam = escapeOuterSocket_bound (\<lambda>i. snd (bindToInterfaceIndex_darwin conn ctl setopt fam i)) opts fam"

text \<open>On Windows the pass is the same over the other socket call; the hook also keeps the subscribers. A registration that
  fails is taken back. The result has the subscription's number.\<close>

definition applyEscape_windows ::
  "unit res \<Rightarrow> unit res \<Rightarrow> (socket_call \<Rightarrow> unit res) \<Rightarrow> Family \<Rightarrow> TunnelInterfaces \<Rightarrow> Route list res \<Rightarrow> Route list res \<Rightarrow> int \<Rightarrow> int" where
  "applyEscape_windows conn ctl setopt fam = applyEscape (\<lambda>i. snd (bindToInterfaceIndex_windows conn ctl setopt fam i)) fam"

definition escapeOuterSocket_windows ::
  "unit res \<Rightarrow> unit res \<Rightarrow> (socket_call \<Rightarrow> unit res) \<Rightarrow> escapeOptions \<Rightarrow> Family \<Rightarrow> notify_state \<Rightarrow> Route list res \<Rightarrow> Route list res \<Rightarrow> bool \<Rightarrow> Route list res
    \<Rightarrow> int \<times> notify_state \<times> (int \<times> watch) option" where
  "escapeOuterSocket_windows conn ctl setopt opts fam n t0 t0' registered t1 =
     (if tunnelIfaces opts = {} then (0, n, None)
      else
        let bound = applyEscape_windows conn ctl setopt fam (tunnelIfaces opts) t0 t0' 0; (n', i) = subscribeNotify n in
        if registered then (bound, n', Some (i, start_watch t1 bound)) else (bound, unsubscribeNotify n' i, None))"

text \<open>The steps: the system changes its table; it leaves a notice; the reader (or the callback) turns a notice into a
  signal, which is dropped when one is pending; the loop takes the signal and starts the timer afresh; the timer fires
  and the pass begins with its probe; the pass ends with its lookup and the socket call, whose answers it carries; the caller
  closes the descriptor; the loop ends. A change and its notice are two steps, because a change need not have one: the
  routing socket reports every change of a route, but the subscription of \<^verbatim>\<open>NotifyIpInterfaceChange\<close> reports
  changes of interfaces only.\<close>

datatype watch_event = TableChanges "Route list res" | Notice | NoticeRead | SignalTaken | WatchTimer
  | PassEnds "int \<Rightarrow> unit res" | CloseWatch | LoopEnds

inductive watch_step :: "rp_Family \<Rightarrow> TunnelInterfaces \<Rightarrow> watch_event \<Rightarrow> watch \<Rightarrow> watch \<Rightarrow> bool" for fam tunnels where
  table: "watch_step fam tunnels (TableChanges t) s (s\<lparr>w_table := t\<rparr>)"
| notice: "watch_step fam tunnels Notice s (s\<lparr>w_notice := True\<rparr>)"
| read: "w_reading s \<Longrightarrow> w_notice s \<Longrightarrow> watch_step fam tunnels NoticeRead s (s\<lparr>w_notice := False, w_sig := True\<rparr>)"
| signal: "w_running s \<Longrightarrow> w_probe s = None \<Longrightarrow> w_sig s \<Longrightarrow>
    watch_step fam tunnels SignalTaken s (s\<lparr>w_sig := False, w_timer := True\<rparr>)"
| timer: "w_running s \<Longrightarrow> w_probe s = None \<Longrightarrow> w_timer s \<Longrightarrow>
    watch_step fam tunnels WatchTimer s (s\<lparr>w_timer := False, w_probe := Some (Probe (w_table s) fam tunnels)\<rparr>)"
| pass: "w_probe s = Some c \<Longrightarrow>
    watch_step fam tunnels (PassEnds bind) s (s\<lparr>w_probe := None, w_bound := apply_lookup bind fam tunnels c (w_table s) (w_bound s)\<rparr>)"
| close: "watch_step fam tunnels CloseWatch s (s\<lparr>w_reading := False\<rparr>)"
| finish: "\<not> w_reading s \<Longrightarrow> w_running s \<Longrightarrow> w_probe s = None \<Longrightarrow> watch_step fam tunnels LoopEnds s (s\<lparr>w_running := False\<rparr>)"

text \<open>The loop of the other system is the same one; its stop channel plays the part of the closed descriptor, and the
  process-wide callback that of the reader.\<close>

definition watchNotify_step :: "rp_Family \<Rightarrow> TunnelInterfaces \<Rightarrow> watch_event \<Rightarrow> watch \<Rightarrow> watch \<Rightarrow> bool" where
  "watchNotify_step = watch_step"

inductive_cases watch_stepE: "watch_step fam tunnels e s s'"

inductive watch_run :: "rp_Family \<Rightarrow> TunnelInterfaces \<Rightarrow> watch_event list \<Rightarrow> watch \<Rightarrow> watch \<Rightarrow> bool"
  for fam tunnels where
  run_Nil: "watch_run fam tunnels [] s s"
| run_snoc: "watch_run fam tunnels es s t \<Longrightarrow> watch_step fam tunnels e t u \<Longrightarrow> watch_run fam tunnels (es @ [e]) s u"

section \<open>The two kinds of table read alike\<close>

text \<open>A mask of \<open>n\<close> leading ones in \<open>k\<close> octets.\<close>

fun mask_of :: "nat \<Rightarrow> nat \<Rightarrow> byte list" where
  "mask_of 0 n = []"
| "mask_of (Suc k) n = (if 8 \<le> n then 0xff # mask_of k (n - 8) else push_bit (8 - n) 0xff # replicate k 0)"

lemma octet_mask:
  assumes "n < 8"
  shows "push_bit (8 - n) (0xff :: byte) \<noteq> 0xff \<and> octet_ones 8 (push_bit (8 - n) (0xff :: byte)) = int n
    \<and> push_bit n (push_bit (8 - n) (0xff :: byte)) = 0"
proof -
  have "n \<in> {0, 1, 2, 3, 4, 5, 6, 7}" using assms by auto
  moreover have "\<forall>n\<in>{0, 1, 2, 3, 4, 5, 6, 7 :: nat}. push_bit (8 - n) (0xff :: byte) \<noteq> 0xff
      \<and> octet_ones 8 (push_bit (8 - n) (0xff :: byte)) = int n \<and> push_bit n (push_bit (8 - n) (0xff :: byte)) = 0"
    by code_simp
  ultimately show ?thesis by blast
qed

lemma simpleMaskLength_mask: "n \<le> 8 * k \<Longrightarrow> simpleMaskLength (mask_of k n) = int n"
proof (induction k arbitrary: n)
  case (Suc k)
  show ?case
  proof (cases "8 \<le> n")
    case True
    then have "simpleMaskLength (mask_of k (n - 8)) = int (n - 8)" using Suc by simp
    then show ?thesis using True by (simp add: Let_def)
  next
    case False
    then show ?thesis using octet_mask[of n] by (simp add: list_ex_iff)
  qed
qed simp

text \<open>An entry of a table, and how each of the two systems writes it down.\<close>

record table_entry =
  te_Addr :: addr
  te_Bits :: nat
  te_Index :: u32

definition entry_ok :: "table_entry \<Rightarrow> bool" where
  "entry_ok e \<longleftrightarrow> te_Addr e \<noteq> AddrZero \<and> Zone (te_Addr e) = [] \<and> te_Bits e \<le> BitLen (te_Addr e)"

definition slot_of :: "byte list \<Rightarrow> bsd_addr" where
  "slot_of bs = (if length bs = 4 then Inet4Addr bs else Inet6Addr bs)"

text \<open>The conventions of a routing message: the destination in slot 0 and the mask in slot 2. Without a mask the entry is
  a host route if the flag 4 says so, and a default route otherwise; with one, the mask decides, whatever the flags say.\<close>

definition bsd_says :: "RouteMessage \<Rightarrow> table_entry \<Rightarrow> bool" where
  "bsd_says rm e \<longleftrightarrow> rm_Index rm = uint (te_Index e) \<and> slot (rm_Addrs rm) 0 = Some (slot_of (AsSlice (te_Addr e)))
     \<and> (case slot (rm_Addrs rm) 2 of
          Some (Inet4Addr m) \<Rightarrow> m = mask_of (BitLen (te_Addr e) div 8) (te_Bits e)
        | Some (Inet6Addr m) \<Rightarrow> m = mask_of (BitLen (te_Addr e) div 8) (te_Bits e)
        | _ \<Rightarrow> te_Bits e = (if rm_Flags rm AND 4 \<noteq> 0 then BitLen (te_Addr e) else 0))"

text \<open>What a dump may hold besides entries: messages of another kind, messages that report an error, and messages whose
  destination is not an address.\<close>

inductive bsd_table :: "bsd_message list \<Rightarrow> table_entry list \<Rightarrow> bool" where
  bsd_none: "bsd_table [] []"
| bsd_route: "\<not> rm_Err rm \<Longrightarrow> bsd_says rm e \<Longrightarrow> entry_ok e \<Longrightarrow> bsd_table ms es \<Longrightarrow> bsd_table (RouteMsg rm # ms) (e # es)"
| bsd_failed: "rm_Err rm \<Longrightarrow> bsd_table ms es \<Longrightarrow> bsd_table (RouteMsg rm # ms) es"
| bsd_link: "slot (rm_Addrs rm) 0 \<in> {None, Some OtherAddr} \<Longrightarrow> bsd_table ms es \<Longrightarrow> bsd_table (RouteMsg rm # ms) es"
| bsd_other: "bsd_table ms es \<Longrightarrow> bsd_table (OtherMsg # ms) es"

definition windows_entry :: "table_entry \<Rightarrow> ForwardRow" where
  "windows_entry e = \<lparr>fr_Family = (if Is4 (te_Addr e) then AF_INET else AF_INET6), fr_Addr = AsSlice (te_Addr e),
     fr_PrefixLength = word_of_nat (te_Bits e), fr_InterfaceIndex = te_Index e\<rparr>"

lemma length_mask_of [simp]: "length (mask_of k n) = k"
  by (induction k arbitrary: n) auto

definition entry_prefix :: "rp_Family \<Rightarrow> table_entry \<Rightarrow> prefix option" where
  "entry_prefix fam e = (if (fam = rp_IPv4) = Is4 (te_Addr e) then Some (Prefix (te_Addr e) (int (te_Bits e))) else None)"

lemma AddrFrom_to_be [simp]: "AddrFrom4 (to_be 4 (unat w)) = V4 w" "AddrFrom16 (to_be 16 (unat v)) = V6 v []"
  using unsigned_less[where ?'a = nat, of w] unsigned_less[where ?'a = nat, of v]
  by (simp_all add: AddrFrom4_def AddrFrom16_def be_nat_to_be)

lemma bsd_says_prefix:
  assumes "entry_ok e" "bsd_says rm e"
  shows "routeMessagePrefix rm fam = entry_prefix fam e"
proof -
  have k: "BitLen (te_Addr e) = 8 * (BitLen (te_Addr e) div 8)" "te_Bits e \<le> BitLen (te_Addr e)"
    using assms(1) by (cases "te_Addr e"; simp add: entry_ok_def)+
  then have m: "IPMask_Size (mask_of (BitLen (te_Addr e) div 8) (te_Bits e)) = int (te_Bits e)"
    using simpleMaskLength_mask[of "te_Bits e" "BitLen (te_Addr e) div 8"] by (simp add: IPMask_Size_def)
  define bits where "bits = (case slot (rm_Addrs rm) 2 of Some (Inet4Addr m) \<Rightarrow> IPMask_Size m | Some (Inet6Addr m) \<Rightarrow> IPMask_Size m
    | _ \<Rightarrow> if rm_Flags rm AND 4 \<noteq> 0 then int (BitLen (te_Addr e)) else 0)"
  have b: "bits = int (te_Bits e)"
    using assms(2) m by (auto simp: bsd_says_def bits_def split: option.splits bsd_addr.splits)
  have d: "slot (rm_Addrs rm) 0 = Some (slot_of (AsSlice (te_Addr e)))" using assms(2) by (simp add: bsd_says_def)
  have "routeMessagePrefix rm fam = (if (fam = rp_IPv4) = Is4 (te_Addr e) then Some (PrefixFrom (te_Addr e) bits) else None)"
    using assms(1) d unfolding bits_def
    by (cases "te_Addr e"; cases fam) (auto simp: entry_ok_def routeMessagePrefix_def RTAX_DST_def RTAX_NETMASK_def RTF_HOST_def slot_of_def
        split: option.splits bsd_addr.splits)
  then show ?thesis using assms(1) b by (cases "te_Addr e") (auto simp: entry_prefix_def PrefixFrom_def entry_ok_def)
qed

lemma windows_entry_prefix:
  assumes "entry_ok e"
  shows "forwardPrefix (windows_entry e) fam = entry_prefix fam e"
proof -
  have "te_Bits e < 2 ^ 8" using assms by (cases "te_Addr e") (auto simp: entry_ok_def)
  then have "uint (word_of_nat (te_Bits e) :: byte) = int (te_Bits e)"
    by (simp add: unsigned_of_nat take_bit_nat_eq_self)
  with assms show ?thesis
    by (cases "te_Addr e"; cases fam)
      (auto simp: entry_ok_def windows_entry_def forwardPrefix_def AF_INET_def AF_INET6_def entry_prefix_def PrefixFrom_def)
qed

text \<open>C40. BSD and Windows see the same routes. However a dump writes a table down, with masks, as host routes without one or
  as defaults without one, and whatever failed and unrelated messages stand between the entries, its reader returns the
  same list as the reader of the rows with prefix lengths: the entries of the family whose interface still exists,
  in order, each with its own prefix.\<close>

theorem route_tables_agree:
  assumes "bsd_table ms es"
  shows "routesFromMessages byIndex ms fam = routesFromRows byIndex (map windows_entry es) fam
    \<and> (\<forall>r. r \<in> set (routesFromRows byIndex (map windows_entry es) fam) \<longleftrightarrow>
        (\<exists>e\<in>set es. (fam = rp_IPv4) = Is4 (te_Addr e) \<and> r_Prefix r = Prefix (te_Addr e) (int (te_Bits e))
           \<and> byIndex (uint (te_Index e)) = Ok (r_Interface r, r_Index r)))"
  using assms
proof induction
  case (bsd_route rm e ms es)
  have w: "fr_InterfaceIndex (windows_entry e) = te_Index e" by (simp add: windows_entry_def)
  have i: "rm_Index rm = uint (te_Index e)" using bsd_route(2) by (simp add: bsd_says_def)
  have res: "(resolveRouteInterface byIndex p i = Some r) \<longleftrightarrow> (r_Prefix r = p \<and> byIndex i = Ok (r_Interface r, r_Index r))" for p i r
    by (cases "byIndex i") (auto simp: resolveRouteInterface_def)
  show ?case
    using bsd_route(1,5) i w bsd_says_prefix[OF bsd_route(3,2), of fam] windows_entry_prefix[OF bsd_route(3), of fam]
    by (cases "resolveRouteInterface byIndex (Prefix (te_Addr e) (int (te_Bits e))) (uint (te_Index e))")
      (auto simp: entry_prefix_def res simp flip: res)
next
  case (bsd_link rm ms es)
  then have "routeMessagePrefix rm fam = None" by (auto simp: routeMessagePrefix_def RTAX_DST_def)
  then have e: "routesFromMessages byIndex (RouteMsg rm # ms) fam = routesFromMessages byIndex ms fam" by simp
  show ?case unfolding e by (rule bsd_link(3))
qed simp_all

section \<open>The bound interface follows the table\<close>

text \<open>The interface that the present table calls for.\<close>

definition in_sync :: "(int \<Rightarrow> unit res) \<Rightarrow> rp_Family \<Rightarrow> TunnelInterfaces \<Rightarrow> Route list res \<Rightarrow> int \<Rightarrow> bool" where
  "in_sync bind fam tunnels table bound \<longleftrightarrow> apply_lookup bind fam tunnels (Probe table fam tunnels) table bound = bound"

lemma in_sync_apply: "in_sync bind fam tunnels t (apply_lookup bind fam tunnels (Probe t fam tunnels) t b)"
  by (auto simp: in_sync_def apply_lookup_def bind_to_def split: res.splits bool.splits option.splits)

definition busy :: "watch \<Rightarrow> bool" where "busy s \<longleftrightarrow> w_notice s \<or> w_sig s \<or> w_timer s"

text \<open>Whether the system gave notice after its last change, and the answers of the socket in the last pass; \<open>n\<close> and \<open>b\<close>
  are what holds before the first event.\<close>

definition noticed :: "bool \<Rightarrow> watch_event list \<Rightarrow> bool" where
  "noticed n es = fold (\<lambda>e n. case e of TableChanges _ \<Rightarrow> False | Notice \<Rightarrow> True | _ \<Rightarrow> n) es n"

definition last_bind :: "(int \<Rightarrow> unit res) \<Rightarrow> watch_event list \<Rightarrow> int \<Rightarrow> unit res" where
  "last_bind b es = fold (\<lambda>e b. case e of PassEnds b' \<Rightarrow> b' | _ \<Rightarrow> b) es b"

definition watch_inv :: "bool \<Rightarrow> (int \<Rightarrow> unit res) \<Rightarrow> rp_Family \<Rightarrow> TunnelInterfaces \<Rightarrow> watch \<Rightarrow> bool" where
  "watch_inv n b fam tunnels s \<longleftrightarrow> n \<longrightarrow> busy s \<or>
     (case w_probe s of None \<Rightarrow> in_sync b fam tunnels (w_table s) (w_bound s) | Some c \<Rightarrow> c = Probe (w_table s) fam tunnels)"

lemma watch_inv_step:
  "watch_step fam tunnels e s s' \<Longrightarrow> watch_inv (noticed n es) (last_bind b es) fam tunnels s \<Longrightarrow>
    watch_inv (noticed n (es @ [e])) (last_bind b (es @ [e])) fam tunnels s'"
  by (erule watch_stepE; cases "w_probe s") (auto simp: watch_inv_def busy_def in_sync_apply noticed_def last_bind_def)

lemma watch_inv_run:
  "watch_run fam tunnels es s s' \<Longrightarrow> watch_inv n b fam tunnels s \<Longrightarrow> watch_inv (noticed n es) (last_bind b es) fam tunnels s'"
proof (induction rule: watch_run.induct)
  case (run_Nil s)
  then show ?case by (simp add: noticed_def last_bind_def)
qed (blast intro: watch_inv_step)


text \<open>The loop catches up: from any state in which the reader and the loop run, at most five of their own steps lead to
  a moment with nothing left to do, the table staying as it is.\<close>

definition own_steps :: "(int \<Rightarrow> unit res) \<Rightarrow> rp_Family \<Rightarrow> TunnelInterfaces \<Rightarrow> nat \<Rightarrow> watch \<Rightarrow> watch \<Rightarrow> bool" where
  "own_steps bind fam tunnels k s s' \<longleftrightarrow> (\<exists>es. length es \<le> k \<and> watch_run fam tunnels es s s' \<and> set es \<subseteq> {NoticeRead, SignalTaken, WatchTimer, PassEnds bind})
     \<and> w_table s' = w_table s \<and> w_reading s' = w_reading s \<and> w_running s' = w_running s"

lemma run_append: "watch_run fam tunnels es' t u \<Longrightarrow> watch_run fam tunnels es s t \<Longrightarrow> watch_run fam tunnels (es @ es') s u"
  by (induction rule: watch_run.induct) (auto intro: run_snoc simp flip: append_assoc)

lemma own_steps_trans:
  assumes "own_steps bind fam tunnels j s t" "own_steps bind fam tunnels k t u"
  shows "own_steps bind fam tunnels (j + k) s u"
proof -
  obtain es es' where "length es \<le> j" "watch_run fam tunnels es s t" "set es \<subseteq> {NoticeRead, SignalTaken, WatchTimer, PassEnds bind}"
    "length es' \<le> k" "watch_run fam tunnels es' t u" "set es' \<subseteq> {NoticeRead, SignalTaken, WatchTimer, PassEnds bind}"
    using assms by (auto simp: own_steps_def)
  then have "length (es @ es') \<le> j + k \<and> watch_run fam tunnels (es @ es') s u \<and> set (es @ es') \<subseteq> {NoticeRead, SignalTaken, WatchTimer, PassEnds bind}"
    using run_append by simp
  then show ?thesis using assms unfolding own_steps_def by (intro conjI exI) auto
qed

lemma own_step:
  assumes "watch_step fam tunnels e s t" "e \<in> {NoticeRead, SignalTaken, WatchTimer, PassEnds bind}"
  shows "own_steps bind fam tunnels 1 s t"
proof -
  have "watch_run fam tunnels [e] s t" using run_snoc[OF run_Nil assms(1)] by simp
  moreover have "w_table t = w_table s \<and> w_reading t = w_reading s \<and> w_running t = w_running s"
    using assms by (auto elim!: watch_stepE)
  ultimately show ?thesis unfolding own_steps_def using assms(2) by (intro conjI exI[of _ "[e]"]) auto
qed

lemma own_none: "own_steps bind fam tunnels k s s"
  unfolding own_steps_def by (auto intro!: exI[of _ "[]"] run_Nil)

lemma watch_catches_up:
  assumes "w_reading s" "w_running s"
  shows "\<exists>s'. own_steps bind fam tunnels 5 s s' \<and> \<not> busy s' \<and> w_probe s' = None"
proof -
  let ?own = "own_steps bind fam tunnels"
  obtain a where a: "?own 1 s a" "w_probe a = None"
    by (cases "w_probe s") (use own_none own_step[OF pass] in \<open>force\<close>)+
  then have ra: "w_reading a" "w_running a" using assms by (simp_all add: own_steps_def)
  obtain b where b: "?own 1 a b" "w_probe b = None" "\<not> w_notice b"
    by (cases "w_notice a") (use a(2) ra own_none own_step[OF read] in \<open>force\<close>)+
  then have rb: "w_running b" using ra by (simp add: own_steps_def)
  obtain c where c: "?own 1 b c" "w_probe c = None" "\<not> w_notice c" "\<not> w_sig c"
    by (cases "w_sig b") (use b rb own_none own_step[OF signal] in \<open>force\<close>)+
  then have rc: "w_running c" using rb by (simp add: own_steps_def)
  obtain d where d: "?own 2 c d" "w_probe d = None" "\<not> busy d"
  proof (cases "w_timer c")
    case True
    let ?p = "c\<lparr>w_timer := False, w_probe := Some (Probe (w_table c) fam tunnels)\<rparr>"
    have "?own 1 c ?p" by (rule own_step[OF timer]) (use rc c True in simp_all)
    moreover define q where "q = ?p\<lparr>w_probe := None, w_bound := apply_lookup bind fam tunnels (Probe (w_table c) fam tunnels) (w_table ?p) (w_bound ?p)\<rparr>"
    moreover have "?own 1 ?p q" unfolding q_def by (rule own_step[OF pass]) simp_all
    ultimately have "?own (1 + 1) c q" using own_steps_trans by blast
    then have "?own 2 c q" by (simp add: numeral_2_eq_2)
    moreover have "w_probe q = None \<and> \<not> busy q" using c by (simp add: q_def busy_def)
    ultimately show thesis using that by blast
  next
    case False
    then show thesis using that[of c] c own_none by (simp add: busy_def)
  qed
  have "?own (1 + (1 + (1 + 2))) s d" using own_steps_trans[OF a(1) own_steps_trans[OF b(1) own_steps_trans[OF c(1) d(1)]]] .
  then show ?thesis using d(2,3) by (intro exI[of _ d]) (simp add: eval_nat_numeral)
qed

text \<open>The first pass runs before the system gives notices: a change between the two is never noticed, and the socket
  keeps what the old table called for, with nothing left to do.\<close>

definition race_routes :: "Route list" where
  "race_routes = [\<lparr>r_Prefix = PrefixFrom (V4 0) 0, r_Interface = ''utun4'', r_Index = 9\<rparr>,
     \<lparr>r_Prefix = PrefixFrom (V4 0) 0, r_Interface = ''en0'', r_Index = 4\<rparr>]"

lemma escape_start_race:
  "escapeOuterSocket_bound (\<lambda>_. Ok ()) \<lparr>firewallMark = 0, fib = 0, tunnelIfaces = {''utun4''}\<rparr> FamilyIPv4 (Ok []) (Ok []) True (Ok race_routes)
     = (0, Some (start_watch (Ok race_routes) 0))"
  "\<not> in_sync (\<lambda>_. Ok ()) rp_IPv4 {''utun4''} (Ok race_routes) 0"
  by code_simp+

text \<open>A covering route that appears without a notice, as one does on a system that reports interface changes only, is not
  picked up either.\<close>

lemma escape_unnoticed:
  "watch_run rp_IPv4 {''utun4''} [TableChanges (Ok race_routes)] (start_watch (Ok []) 0) (start_watch (Ok race_routes) 0)"
  "\<not> busy (start_watch (Ok race_routes) 0)"
  using run_snoc[OF run_Nil table[of rp_IPv4 "{''utun4''}" "Ok race_routes" "start_watch (Ok []) 0"]]
  by (simp_all add: start_watch_def busy_def)

section \<open>The subscribers\<close>

text \<open>Subscriptions have numbers of their own, and an interface change reaches every live one.\<close>

definition notify_inv :: "notify_state \<Rightarrow> bool" where
  "notify_inv n \<longleftrightarrow> (\<forall>i\<in>dom (notifySubs n). i \<le> notifySeq n)"

lemma subscribe_fresh:
  assumes "notify_inv n" "subscribeNotify n = (n', i)"
  shows "notify_inv n'" "notifySubs n i = None" "notifySubs n' = (notifySubs n)(i \<mapsto> False)"
  using assms by (auto simp: subscribeNotify_def notify_inv_def Let_def dom_def split: if_splits) force

lemma dispatch_wakes_all: "notifySubs (notifyDispatch n) i = (if i \<in> dom (notifySubs n) then Some True else None)"
  by (auto simp: notifyDispatch_def dom_def)

lemma notify_inv_kept: "notify_inv n \<Longrightarrow> notify_inv (unsubscribeNotify n i)" "notify_inv n \<Longrightarrow> notify_inv (notifyDispatch n)"
  by (auto simp: notify_inv_def unsubscribeNotify_def notifyDispatch_def dom_def)

text \<open>A hook that could not register leaves the subscribers as they were, and the watcher of one that could is the
  watcher of the other system over the same socket call.\<close>

lemma windows_hook:
  assumes "notify_inv n" "escapeOuterSocket_windows conn ctl setopt opts fam n t0 t0' registered t1 = (b, n', w)"
  shows "w = None \<Longrightarrow> notifySubs n' = notifySubs n"
    "map_option snd w = snd (escapeOuterSocket_bound (\<lambda>i. snd (bindToInterfaceIndex_windows conn ctl setopt fam i)) opts fam t0 t0' registered t1)"
  using assms
  by (auto simp: escapeOuterSocket_windows_def escapeOuterSocket_bound_def applyEscape_windows_def subscribeNotify_def unsubscribeNotify_def
      notify_inv_def Let_def dom_def fun_upd_idem_iff split: if_splits) force

section \<open>Witnesses\<close>

definition race_opts :: escapeOptions where
  "race_opts = \<lparr>firewallMark = 0, fib = 0, tunnelIfaces = {''utun4''}\<rparr>"

definition race_end :: watch where
  "race_end = (start_watch (Ok race_routes) 4)"


definition sample_entries :: "table_entry list" where
  "sample_entries = [\<lparr>te_Addr = V4 0, te_Bits = 0, te_Index = 4\<rparr>, \<lparr>te_Addr = V4 0x0A000000, te_Bits = 8, te_Index = 4\<rparr>,
     \<lparr>te_Addr = V4 0x0A000001, te_Bits = 32, te_Index = 4\<rparr>, \<lparr>te_Addr = V4 0x0B000001, te_Bits = 32, te_Index = 9\<rparr>]"

text \<open>A default, a failed message, an entry with a mask, another kind of message, and two host routes, one through an
  interface that is gone.\<close>

definition sample_dump :: "bsd_message list" where
  "sample_dump =
     [RouteMsg \<lparr>rm_Flags = 3, rm_Index = 4, rm_Addrs = [Some (Inet4Addr [0, 0, 0, 0])], rm_Err = False\<rparr>,
      RouteMsg \<lparr>rm_Flags = 3, rm_Index = 4, rm_Addrs = [Some (Inet4Addr [0, 0, 0, 0])], rm_Err = True\<rparr>,
      RouteMsg \<lparr>rm_Flags = 3, rm_Index = 4, rm_Addrs = [Some (Inet4Addr [10, 0, 0, 0]), None, Some (Inet4Addr [255, 0, 0, 0])], rm_Err = False\<rparr>,
      OtherMsg,
      RouteMsg \<lparr>rm_Flags = 7, rm_Index = 4, rm_Addrs = [Some (Inet4Addr [10, 0, 0, 1]), None], rm_Err = False\<rparr>,
      RouteMsg \<lparr>rm_Flags = 7, rm_Index = 9, rm_Addrs = [Some (Inet4Addr [11, 0, 0, 1]), None], rm_Err = False\<rparr>]"

lemma sample_dump_table: "bsd_table sample_dump sample_entries"
  unfolding sample_dump_def sample_entries_def
  by (rule bsd_route, simp, code_simp, code_simp, rule bsd_failed, simp, rule bsd_route, simp, code_simp, code_simp,
      rule bsd_other, rule bsd_route, simp, code_simp, code_simp, rule bsd_route, simp, code_simp, code_simp, rule bsd_none)

theorem route_tables_agree_witness:
  "routesFromMessages (\<lambda>i. if i = 4 then Ok (''en0'', 4) else Err (ErrNew ''gone'')) sample_dump rp_IPv4
     = [\<lparr>r_Prefix = Prefix (V4 0) 0, r_Interface = ''en0'', r_Index = 4\<rparr>,
        \<lparr>r_Prefix = Prefix (V4 0x0A000000) 8, r_Interface = ''en0'', r_Index = 4\<rparr>,
        \<lparr>r_Prefix = Prefix (V4 0x0A000001) 32, r_Interface = ''en0'', r_Index = 4\<rparr>]"
proof -
  let ?i = "\<lambda>i :: int. if i = 4 then Ok (''en0'', 4) else Err (ErrNew ''gone'') :: (string \<times> int) res"
  have "routesFromMessages ?i sample_dump rp_IPv4 = routesFromRows ?i (map windows_entry sample_entries) rp_IPv4"
    using route_tables_agree[OF sample_dump_table, of ?i rp_IPv4] by blast
  also have "\<dots> = [\<lparr>r_Prefix = Prefix (V4 0) 0, r_Interface = ''en0'', r_Index = 4\<rparr>,
      \<lparr>r_Prefix = Prefix (V4 0x0A000000) 8, r_Interface = ''en0'', r_Index = 4\<rparr>,
      \<lparr>r_Prefix = Prefix (V4 0x0A000001) 32, r_Interface = ''en0'', r_Index = 4\<rparr>]" by code_simp
  finally show ?thesis .
qed

end
