(* ===== verification/Relay_Loops.thy ===== *)
theory Relay_Loops
  imports Proxy
begin

text \<open>
  The relay's two loops (\<^verbatim>\<open>outerLoop\<close>, \<^verbatim>\<open>innerLoop\<close> of \<^verbatim>\<open>internal/wgproxy/proxy.go\<close>) over all that their
  sockets return, read errors and pauses included, and what the relay is: an address translator. Its abstract
  specification has for each peer the address it is reached at, and nothing else that matters; every step of
  the relay is a step of the specification.
\<close>

section \<open>The loops (proxy.go)\<close>

text \<open>What a loop meets, in order: a packet, with whether the write that it causes succeeds; a read error, with
  whether it says that the socket is closed; and what other goroutines do to the proxy in between.\<close>

datatype outer_event = OuterPacket addrport "byte list" bool | OuterError bool | OuterElsewhere "Proxy \<Rightarrow> Proxy"

datatype inner_event = InnerPacket "byte list" bool | InnerError bool | InnerElsewhere "Proxy \<Rightarrow> Proxy"

text \<open>The state of the proxy, what was sent, the pauses, and whether the loop has returned. The number of read errors
  in a row decides the pause; a packet sets it back.\<close>

type_synonym loop_result = "Proxy \<times> datagram list \<times> duration list \<times> bool"

fun outerLoop :: "outer_event list \<Rightarrow> Proxy \<Rightarrow> int \<Rightarrow> loop_result res" where
  "outerLoop [] p errs = Ok (p, [], [], False)"
| "outerLoop (OuterElsewhere f # es) p errs = outerLoop es (f p) errs"
| "outerLoop (OuterError closed # es) p errs =
     (if closed \<or> p_closed p then Ok (p, [], [], True)
      else bind_res (outerLoop es p (errs + 1)) (\<lambda>(q, ds, ps, r). Ok (q, ds, backoff (errs + 1) # ps, r)))"
| "outerLoop (OuterPacket src b wrote # es) p errs =
     bind_res (outer_recv p src b wrote) (\<lambda>(p1, ds1).
     bind_res (outerLoop es p1 0) (\<lambda>(q, ds, ps, r). Ok (q, ds1 @ ds, ps, r)))"

text \<open>The loop of one peer holds its state, so \<open>None\<close>, a peer that is not there, does not occur: peers are never
  removed.\<close>

fun innerLoop :: "PeerKey \<Rightarrow> inner_event list \<Rightarrow> Proxy \<Rightarrow> int \<Rightarrow> loop_result option" where
  "innerLoop key [] p errs = Some (p, [], [], False)"
| "innerLoop key (InnerElsewhere f # es) p errs = innerLoop key es (f p) errs"
| "innerLoop key (InnerError closed # es) p errs =
     (if closed \<or> p_closed p then Some (p, [], [], True)
      else map_option (\<lambda>(q, ds, ps, r). (q, ds, backoff (errs + 1) # ps, r)) (innerLoop key es p (errs + 1)))"
| "innerLoop key (InnerPacket b wrote # es) p errs =
     Option.bind (inner_recv p key b wrote) (\<lambda>(p1, ds1).
     map_option (\<lambda>(q, ds, ps, r). (q, ds1 @ ds, ps, r)) (innerLoop key es p1 0))"

text \<open>The counter of a warning: the line is written for the first event and every 1024th.\<close>

definition countWarn :: "u64 \<Rightarrow> string \<Rightarrow> u64 \<times> (u64 \<times> string) list" where
  "countWarn counter msg = (let n = counter + 1 in (n, if n = 1 \<or> n mod 1024 = 0 then [(n, msg)] else []))"

section \<open>Read errors do no harm\<close>

definition outer_error :: "outer_event \<Rightarrow> bool" where
  "outer_error e \<longleftrightarrow> (case e of OuterError _ \<Rightarrow> True | _ \<Rightarrow> False)"

definition inner_error :: "inner_event \<Rightarrow> bool" where
  "inner_error e \<longleftrightarrow> (case e of InnerError _ \<Rightarrow> True | _ \<Rightarrow> False)"

lemma backoff_bounds: "0 \<le> backoff n \<and> backoff n \<le> 100 * millisecond"
  by (auto simp: backoff_def readBackoffStep_def maxReadBackoff_def millisecond_def)

lemma loop_pauses: "outerLoop es p n = Ok (q, ds, ps, r) \<Longrightarrow> \<forall>d\<in>set ps. 0 \<le> d \<and> d \<le> 100 * millisecond"
proof (induction es p n arbitrary: ds ps rule: outerLoop.induct)
  case (3 closed es p errs)
  then show ?case using backoff_bounds by (auto split: if_splits)
qed (auto split: if_splits)

lemma loop_without_errors:
  "outerLoop es p n = Ok (q, ds, ps, False) \<Longrightarrow> outerLoop (filter (\<lambda>e. \<not> outer_error e) es) p m = Ok (q, ds, [], False)"
  by (induction es p n arbitrary: ds ps m rule: outerLoop.induct) (auto simp: outer_error_def split: if_splits)

lemma loop_returned:
  "outerLoop es p n = Ok (q, ds, ps, True) \<Longrightarrow> \<exists>before closed after. es = before @ OuterError closed # after \<and> (closed \<or> p_closed q)"
proof (induction es p n arbitrary: ds ps rule: outerLoop.induct)
  case (2 f es p errs)
  then show ?case by (metis append_Cons outerLoop.simps(2))
next
  case (3 closed es p errs)
  then show ?case by (auto split: if_splits) (metis append_Nil append_Cons)+
next
  case (4 src b wrote es p errs)
  then obtain p1 ds1 ds' where "outer_recv p src b wrote = Ok (p1, ds1)" "outerLoop es p1 0 = Ok (q, ds', ps, True)" by auto
  then show ?case using 4(1) by (metis append_Cons)
qed auto

lemma outer_recv_total:
  assumes "proxy_inv p"
  shows "\<exists>p' ds. outer_recv p src b wrote = Ok (p', ds)"
proof -
  have "registry_ok (txns (p_demux p))" using assms by (simp add: proxy_inv_def demux_inv_def)
  from Classify_eq[OF this, of src b] obtain dn d where "Classify (p_demux p) src b = Ok (dn, d)" by blast
  then show ?thesis by (auto simp: outer_recv_def Let_def split: option.splits)
qed

text \<open>What other goroutines do keeps the proxy's invariant.\<close>

definition sane :: "outer_event \<Rightarrow> bool" where
  "sane e \<longleftrightarrow> (case e of OuterElsewhere f \<Rightarrow> \<forall>p. proxy_inv p \<longrightarrow> proxy_inv (f p) | _ \<Rightarrow> True)"

lemma loop_total:
  assumes "proxy_inv p" "\<forall>e\<in>set es. sane e"
  shows "\<exists>r. outerLoop es p n = Ok r"
  using assms
proof (induction es p n rule: outerLoop.induct)
  case (4 src b wrote es p errs)
  obtain p1 ds1 where o: "outer_recv p src b wrote = Ok (p1, ds1)" using outer_recv_total[OF 4(2)] by blast
  then obtain r where "outerLoop es p1 0 = Ok r" using 4 outer_recv_inv by (metis list.set_intros(2))
  then show ?case using o by (cases r) auto
next
  case (3 closed es p errs)
  then show ?case by (cases "closed \<or> p_closed p") auto
qed (auto simp: sane_def)

text \<open>The same for the loop of a peer. Other goroutines keep the peer: none is ever removed.\<close>

definition keeps_peer :: "PeerKey \<Rightarrow> inner_event \<Rightarrow> bool" where
  "keeps_peer key e \<longleftrightarrow> (case e of InnerElsewhere f \<Rightarrow> \<forall>p. p_peers p key \<noteq> None \<longrightarrow> p_peers (f p) key \<noteq> None | _ \<Rightarrow> True)"

lemma inner_pauses: "innerLoop key es p n = Some (q, ds, ps, r) \<Longrightarrow> \<forall>d\<in>set ps. 0 \<le> d \<and> d \<le> 100 * millisecond"
proof (induction key es p n arbitrary: ds ps rule: innerLoop.induct)
  case (3 key closed es p errs)
  then show ?case using backoff_bounds by (auto split: if_splits)
next
  case (4 key b wrote es p errs)
  then show ?case by (auto simp: bind_eq_Some_conv)
qed auto

lemma inner_without_errors:
  "innerLoop key es p n = Some (q, ds, ps, False) \<Longrightarrow> innerLoop key (filter (\<lambda>e. \<not> inner_error e) es) p m = Some (q, ds, [], False)"
  by (induction key es p n arbitrary: ds ps m rule: innerLoop.induct) (auto simp: inner_error_def bind_eq_Some_conv split: if_splits)

lemma inner_returned:
  "innerLoop key es p n = Some (q, ds, ps, True) \<Longrightarrow> \<exists>before closed after. es = before @ InnerError closed # after \<and> (closed \<or> p_closed q)"
proof (induction key es p n arbitrary: ds ps rule: innerLoop.induct)
  case (2 key f es p errs)
  then show ?case by (metis append_Cons innerLoop.simps(2))
next
  case (3 key closed es p errs)
  then show ?case by (auto split: if_splits) (metis append_Nil append_Cons)+
next
  case (4 key b wrote es p errs)
  then obtain p1 ds1 ds' where "inner_recv p key b wrote = Some (p1, ds1)" "innerLoop key es p1 0 = Some (q, ds', ps, True)"
    by (auto simp: bind_eq_Some_conv)
  then show ?case using 4(1) by (metis append_Cons)
qed auto

lemma inner_recv_total:
  assumes "p_peers p key \<noteq> None"
  shows "\<exists>p' ds. inner_recv p key b wrote = Some (p', ds) \<and> p_peers p' key \<noteq> None"
  using assms by (auto simp: inner_recv_def Let_def split: option.splits)

lemma inner_total:
  "p_peers p key \<noteq> None \<Longrightarrow> \<forall>e\<in>set es. keeps_peer key e \<Longrightarrow> \<exists>r. innerLoop key es p n = Some r"
proof (induction key es p n rule: innerLoop.induct)
  case (4 key b wrote es p errs)
  obtain p1 ds1 where o: "inner_recv p key b wrote = Some (p1, ds1)" "p_peers p1 key \<noteq> None" using inner_recv_total[OF 4(2)] by blast
  then obtain r where "innerLoop key es p1 0 = Some r" using 4 by (metis list.set_intros(2))
  then show ?case using o by (cases r) auto
next
  case (3 key closed es p errs)
  then show ?case by (cases "closed \<or> p_closed p") auto
qed (auto simp: keeps_peer_def)

text \<open>Every loop returns when it meets an error with its socket or the proxy closed, and pauses after every other error
  by the step for the number of errors in a row.\<close>

lemma loop_at_error:
  "closed \<or> p_closed p \<Longrightarrow> outerLoop (OuterError closed # es) p n = Ok (p, [], [], True)"
  "closed \<or> p_closed p \<Longrightarrow> innerLoop key (InnerError closed # ies) p n = Some (p, [], [], True)"
  "\<not> p_closed p \<Longrightarrow> outerLoop (replicate k (OuterError False)) p n = Ok (p, [], map (\<lambda>i. backoff (n + int i)) [1..<Suc k], False)"
  "\<not> p_closed p \<Longrightarrow> innerLoop key (replicate k (InnerError False)) p n = Some (p, [], map (\<lambda>i. backoff (n + int i)) [1..<Suc k], False)"
proof -
  have m: "backoff (n + 1) # map (\<lambda>i. backoff (n + 1 + int i)) [Suc 0..<Suc k] = map (\<lambda>i. backoff (n + int i)) [Suc 0..<Suc (Suc k)]" for n k
  proof -
    have "[Suc 0..<Suc (Suc k)] = Suc 0 # map Suc [Suc 0..<Suc k]" by (simp add: upt_conv_Cons map_Suc_upt del: upt_Suc)
    then show ?thesis by (simp add: o_def ac_simps del: upt_Suc)
  qed
  show "\<not> p_closed p \<Longrightarrow> outerLoop (replicate k (OuterError False)) p n = Ok (p, [], map (\<lambda>i. backoff (n + int i)) [1..<Suc k], False)"
    by (induction k arbitrary: n) (simp_all add: m del: upt_Suc)
  show "\<not> p_closed p \<Longrightarrow> innerLoop key (replicate k (InnerError False)) p n = Some (p, [], map (\<lambda>i. backoff (n + int i)) [1..<Suc k], False)"
    by (induction k arbitrary: n) (simp_all add: m del: upt_Suc)
qed simp_all

text \<open>C5. Read errors cost the relay's loops time and nothing else. A loop of either kind that is still running has done what
  it would have done had no read failed: the same state and the same datagrams, late by pauses of at most a tenth of a
  second each. It never panics. It returns at a read error once its socket or the proxy is closed, and only then; before that,
  the k-th error in a row costs the k-th step of the backoff.\<close>

theorem relay_survives_errors:
  assumes "proxy_inv p" "\<forall>e\<in>set es. sane e" "p_peers p key \<noteq> None" "\<forall>e\<in>set ies. keeps_peer key e"
  shows "(\<exists>q ds ps r. outerLoop es p 0 = Ok (q, ds, ps, r) \<and> (\<forall>d\<in>set ps. 0 \<le> d \<and> d \<le> 100 * millisecond)
      \<and> (\<not> r \<longrightarrow> outerLoop (filter (\<lambda>e. \<not> outer_error e) es) p 0 = Ok (q, ds, [], False))
      \<and> (r \<longrightarrow> (\<exists>before closed after. es = before @ OuterError closed # after \<and> (closed \<or> p_closed q))))
    \<and> (\<exists>q ds ps r. innerLoop key ies p 0 = Some (q, ds, ps, r) \<and> (\<forall>d\<in>set ps. 0 \<le> d \<and> d \<le> 100 * millisecond)
      \<and> (\<not> r \<longrightarrow> innerLoop key (filter (\<lambda>e. \<not> inner_error e) ies) p 0 = Some (q, ds, [], False))
      \<and> (r \<longrightarrow> (\<exists>before closed after. ies = before @ InnerError closed # after \<and> (closed \<or> p_closed q))))
    \<and> (closed \<or> p_closed p \<longrightarrow> outerLoop (OuterError closed # es) p n = Ok (p, [], [], True)
        \<and> innerLoop key (InnerError closed # ies) p n = Some (p, [], [], True))
    \<and> (\<not> p_closed p \<longrightarrow> outerLoop (replicate k (OuterError False)) p 0 = Ok (p, [], map (\<lambda>i. backoff (int i)) [1..<Suc k], False)
        \<and> innerLoop key (replicate k (InnerError False)) p 0 = Some (p, [], map (\<lambda>i. backoff (int i)) [1..<Suc k], False))"
proof (intro conjI)
  obtain q ds ps r where l: "outerLoop es p 0 = Ok (q, ds, ps, r)" using loop_total[OF assms(1,2)] by (metis prod_cases4)
  then show "\<exists>q ds ps r. outerLoop es p 0 = Ok (q, ds, ps, r) \<and> (\<forall>d\<in>set ps. 0 \<le> d \<and> d \<le> 100 * millisecond)
      \<and> (\<not> r \<longrightarrow> outerLoop (filter (\<lambda>e. \<not> outer_error e) es) p 0 = Ok (q, ds, [], False))
      \<and> (r \<longrightarrow> (\<exists>before closed after. es = before @ OuterError closed # after \<and> (closed \<or> p_closed q)))"
    using loop_pauses[OF l] loop_without_errors[of es p 0 q ds ps 0] loop_returned[of es p 0 q ds ps] by (cases r) auto
next
  obtain q ds ps r where l: "innerLoop key ies p 0 = Some (q, ds, ps, r)" using inner_total[OF assms(3,4)] by (metis prod_cases4)
  then show "\<exists>q ds ps r. innerLoop key ies p 0 = Some (q, ds, ps, r) \<and> (\<forall>d\<in>set ps. 0 \<le> d \<and> d \<le> 100 * millisecond)
      \<and> (\<not> r \<longrightarrow> innerLoop key (filter (\<lambda>e. \<not> inner_error e) ies) p 0 = Some (q, ds, [], False))
      \<and> (r \<longrightarrow> (\<exists>before closed after. ies = before @ InnerError closed # after \<and> (closed \<or> p_closed q)))"
    using inner_pauses[OF l] inner_without_errors[of key "ies" p 0 q ds ps 0] inner_returned[of key "ies" p 0 q ds ps] by (cases r) auto
qed (use loop_at_error(1)[of closed p es n] loop_at_error(2)[of closed p key ies n] loop_at_error(3)[of p k 0] loop_at_error(4)[of p key k 0] in \<open>simp_all del: upt_Suc\<close>)

section \<open>The relay is an address translator\<close>

text \<open>The specification: whether it is open, the peers it has, where each of them is reached, WireGuard's own port, and
  the families with a socket.\<close>

record translator =
  tr_open :: bool
  tr_peers :: "PeerKey set"
  tr_remote :: "PeerKey \<rightharpoonup> addrport"
  tr_port :: u32
  tr_families :: "Family set"

definition loopback :: "u32 \<Rightarrow> addrport" where
  "loopback port = AddrPort (V4 0x7F000001) (ucast port)"

text \<open>What a packet from the internet becomes: a packet to WireGuard in the name of the peer that is reached at its
  source, if there is one.\<close>

definition inbound :: "translator \<Rightarrow> addrport \<Rightarrow> byte list \<Rightarrow> datagram set" where
  "inbound t src b =
     (if isSTUNShaped b = Ok True \<or> tr_port t = 0 then {} else {ToWG k b (loopback (tr_port t)) | k. tr_remote t k = Some (normalize src)})"

definition outbound :: "translator \<Rightarrow> PeerKey \<Rightarrow> byte list \<Rightarrow> datagram set" where
  "outbound t k b = (case tr_remote t k of Some r \<Rightarrow> if familyOf r \<in> tr_families t then {ToNet (familyOf r) b r} else {} | None \<Rightarrow> {})"

text \<open>The operations, with what the sockets answer to them.\<close>

datatype relay_op =
  DoTarget u16
| DoAddPeer PeerKey "addrport res"
| DoEndpoint PeerKey addrport
| DoExchange addrport TxnID "byte list" "unit res"
| DoAwait TxnID exchange_event
| DoInbound addrport "byte list" bool
| DoOutbound PeerKey "byte list" bool
| DoClose

text \<open>What each operation does to the specification: the new state, what is sent and whether it succeeds. Only a STUN
  exchange may fail for a reason that the specification does not have, its pending transactions.\<close>

fun translates :: "relay_op \<Rightarrow> translator \<Rightarrow> datagram set \<Rightarrow> bool \<Rightarrow> translator \<Rightarrow> bool" where
  "translates (DoTarget port) t ds ok t' \<longleftrightarrow> ds = {} \<and> ok \<and> t' = t\<lparr>tr_port := ucast port\<rparr>"
| "translates (DoAddPeer k listen) t ds ok t' \<longleftrightarrow> ds = {} \<and> ok = (tr_open t \<and> (k \<in> tr_peers t \<or> is_Ok listen))
     \<and> t' = (if ok then t\<lparr>tr_peers := insert k (tr_peers t)\<rparr> else t)"
| "translates (DoEndpoint k a) t ds ok t' \<longleftrightarrow> ds = {}
     \<and> ok = (k \<in> tr_peers t \<and> ap_IsValid (normalize a) \<and> ap_port (normalize a) \<noteq> 0 \<and> (\<forall>j. j \<noteq> k \<longrightarrow> tr_remote t j \<noteq> Some (normalize a)))
     \<and> t' = (if ok then t\<lparr>tr_remote := (tr_remote t)(k \<mapsto> normalize a)\<rparr> else t)"
| "translates (DoExchange server i b written) t ds ok t' \<longleftrightarrow> t' = t
     \<and> (if ok then familyOf server \<in> tr_families t \<and> is_Ok written \<and> ds = {ToNet (familyOf server) b server} else ds = {})"
| "translates (DoAwait i ev) t ds ok t' \<longleftrightarrow> ds = {} \<and> t' = t \<and> (ok \<longrightarrow> ev = Reply)"
| "translates (DoInbound src b wrote) t ds ok t' \<longleftrightarrow> ok \<and> t' = t \<and> ds = (if wrote then inbound t src b else {})"
| "translates (DoOutbound k b wrote) t ds ok t' \<longleftrightarrow> ok \<and> k \<in> tr_peers t \<and> t' = t \<and> ds = (if wrote then outbound t k b else {})"
| "translates DoClose t ds ok t' \<longleftrightarrow> ds = {} \<and> ok \<and> t' = t\<lparr>tr_open := False\<rparr>"

text \<open>The same operations on the relay; \<open>None\<close> is a wait that is not over, or the loop of a peer that does not exist.\<close>

fun relay_exec :: "relay_op \<Rightarrow> Proxy \<Rightarrow> (Proxy \<times> datagram list \<times> bool) option" where
  "relay_exec (DoTarget port) p = Some (SetWGTarget p port, [], True)"
| "relay_exec (DoAddPeer k listen) p = (case AddPeer p k listen of (p', r) \<Rightarrow> Some (p', [], is_Ok r))"
| "relay_exec (DoEndpoint k a) p = (case SetPeerEndpoint p k a of (p', r) \<Rightarrow> Some (p', [], is_Ok r))"
| "relay_exec (DoExchange server i b written) p = (case Exchange_begin p server i b written of
     (p', Ok ds) \<Rightarrow> Some (p', ds, True) | (p', Err e) \<Rightarrow> Some (p', [], False) | (p', Panic) \<Rightarrow> None)"
| "relay_exec (DoAwait i ev) p = (case Exchange_end p i ev of Some (p', r) \<Rightarrow> Some (p', [], is_Ok r) | None \<Rightarrow> None)"
| "relay_exec (DoInbound src b wrote) p = (case outer_recv p src b wrote of Ok (p', ds) \<Rightarrow> Some (p', ds, True) | _ \<Rightarrow> None)"
| "relay_exec (DoOutbound k b wrote) p = (case inner_recv p k b wrote of Some (p', ds) \<Rightarrow> Some (p', ds, True) | None \<Rightarrow> None)"
| "relay_exec DoClose p = Some (Close_proxy p, [], True)"

definition translator_of :: "Proxy \<Rightarrow> translator" where
  "translator_of p = \<lparr>tr_open = (\<not> p_closed p), tr_peers = dom (p_peers p), tr_remote = (\<lambda>k. Option.bind (p_peers p k) remote),
     tr_port = wgPort p, tr_families = dom (outer p)\<rparr>"

lemma translator_of_sel [simp]:
  "tr_open (translator_of p) = (\<not> p_closed p)" "tr_peers (translator_of p) = dom (p_peers p)"
  "tr_port (translator_of p) = wgPort p" "tr_families (translator_of p) = dom (outer p)"
  by (simp_all add: translator_of_def)

text \<open>No address is ever shared.\<close>

definition translator_ok :: "translator \<Rightarrow> bool" where
  "translator_ok t \<longleftrightarrow> (\<forall>j k a. tr_remote t j = Some a \<longrightarrow> tr_remote t k = Some a \<longrightarrow> j = k)"

lemma translator_remote: "proxy_inv p \<Longrightarrow> tr_remote (translator_of p) = srcByPeer (p_demux p)"
  by (rule ext) (auto simp: translator_of_def proxy_inv_def split: option.splits)

lemma outer_recv_exact:
  assumes "proxy_inv p" "outer_recv p src b wrote = Ok (p', ds)"
  shows "set ds = (if wrote then inbound (translator_of p) src b else {})" "translator_of p' = translator_of p"
proof -
  have i: "registry_ok (txns (p_demux p))" "demux_ok (p_demux p)" using assms(1) by (simp_all add: proxy_inv_def demux_inv_def)
  obtain dn d where c: "Classify (p_demux p) src b = Ok (dn, d)" and eq: "if isSTUNShaped b = Ok True then dec_Bucket dn = BucketSTUN
      else (case peerBySrc (p_demux p) (normalize src) of
          Some k \<Rightarrow> dn = \<lparr>dec_Bucket = BucketRelay, dec_Peer = k\<rparr> | None \<Rightarrow> dec_Bucket dn = BucketDrop)"
    using Classify_eq[OF i(1), of src b] by (auto split: if_splits option.splits)
  have owner: "tr_remote (translator_of p) k = Some a \<longleftrightarrow> peerBySrc (p_demux p) a = Some k" for k a
    using demux_okD[OF i(2)] by (simp add: translator_remote[OF assms(1)])
  have present: "peerBySrc (p_demux p) a = Some k \<Longrightarrow> p_peers p k \<noteq> None" for a k
    using owner[of k a] by (cases "p_peers p k") (auto simp: translator_of_def)
  have t: "wgPort p \<noteq> 0 \<Longrightarrow> wgTarget p = loopback (wgPort p) \<and> ap_IsValid (wgTarget p)" "wgPort p = 0 \<Longrightarrow> \<not> ap_IsValid (wgTarget p)"
    by (simp_all add: wgTarget_def loopback_def AddrFrom4_def ap_IsValid_def)
  have w: "wgTarget (p\<lparr>truncated := x, p_demux := d\<rparr>) = wgTarget p" for x by (simp add: wgTarget_def)
  have port: "tr_port (translator_of p) = wgPort p" by (simp add: translator_of_def)
  show "set ds = (if wrote then inbound (translator_of p) src b else {})"
  proof (cases "isSTUNShaped b = Ok True")
    case True
    then show ?thesis using assms(2) c eq by (simp add: outer_recv_def inbound_def Let_def)
  next
    case shaped: False
    show ?thesis
    proof (cases "peerBySrc (p_demux p) (normalize src)")
      case None
      then show ?thesis using assms(2) c eq shaped by (simp add: outer_recv_def inbound_def Let_def owner)
    next
      case (Some k)
      then obtain ps where ps: "p_peers p k = Some ps" using present by blast
      have inb: "inbound (translator_of p) src b = (if wgPort p = 0 then {} else {ToWG k b (loopback (wgPort p))})"
        using shaped Some by (simp add: inbound_def owner port)
      have dn: "dec_Bucket dn = BucketRelay" "dec_Peer dn = k" using eq shaped Some by simp_all
      show ?thesis
      proof (cases "wgPort p = 0")
        case True
        then show ?thesis using assms(2) c dn ps t(2) unfolding inb by (simp add: outer_recv_def Let_def w)
      next
        case False
        then have "wgTarget p = loopback (wgPort p)" "ap_IsValid (loopback (wgPort p))" using t(1) by auto
        then show ?thesis using assms(2) c dn ps False unfolding inb by (cases wrote) (auto simp: outer_recv_def Let_def w)
      qed
    qed
  qed
  show "translator_of p' = translator_of p"
    using assms(2) c by (auto simp: outer_recv_def translator_of_def Let_def split: if_splits option.splits)
qed

lemma inner_recv_exact:
  assumes "inner_recv p key b wrote = Some (p', ds)"
  shows "set ds = (if wrote then outbound (translator_of p) key b else {})" "translator_of p' = translator_of p"
  using assms by (auto simp: inner_recv_def outbound_def translator_of_def Let_def split: option.splits if_splits)

lemma set_endpoint_translates:
  assumes "proxy_inv p" "SetPeerEndpoint p key a = (p', r)"
  shows "translates (DoEndpoint key a) (translator_of p) {} (is_Ok r) (translator_of p')"
proof -
  have ok: "demux_ok (p_demux p)" using assms(1) by (simp add: proxy_inv_def demux_inv_def)
  have owned: "(\<forall>j. j \<noteq> key \<longrightarrow> tr_remote (translator_of p) j \<noteq> Some (normalize a)) \<longleftrightarrow> peerBySrc (p_demux p) (normalize a) \<in> {None, Some key}"
    using demux_okD[OF ok] by (cases "peerBySrc (p_demux p) (normalize a)") (auto simp: translator_remote[OF assms(1)])
  show ?thesis
  proof (cases "p_peers p key = None \<or> \<not> ap_IsValid (normalize a) \<or> ap_port (normalize a) = 0")
    case True
    then have "p' = p \<and> \<not> is_Ok r" using assms(2) by (auto simp: SetPeerEndpoint_def Let_def split: option.splits)
    with True show ?thesis by (auto simp: dom_def)
  next
    case False
    then obtain ps where ps: "p_peers p key = Some ps" by auto
    show ?thesis
    proof (cases "peerBySrc (p_demux p) (normalize a) \<in> {None, Some key}")
      case True
      then obtain d where d: "Program (p_demux p) key (normalize a) = Ok d" by (auto simp: Program_def Let_def)
      then have "is_Ok r" "p' = p\<lparr>p_demux := d, p_peers := (p_peers p)(key \<mapsto> ps\<lparr>remote := Some (normalize a)\<rparr>)\<rparr>"
        using assms(2) ps False by (auto simp: SetPeerEndpoint_def Let_def)
      with True False ps owned show ?thesis by (auto simp: translator_of_def)
    next
      case owner: False
      then have "\<exists>e. Program (p_demux p) key (normalize a) = Err e" by (auto simp: Program_def Let_def)
      then have "p' = p \<and> \<not> is_Ok r" using assms(2) ps False by (auto simp: SetPeerEndpoint_def Let_def)
      with owner owned show ?thesis by auto
    qed
  qed
qed

lemma add_peer_translates:
  "AddPeer p key listen = (p', r) \<Longrightarrow> translates (DoAddPeer key listen) (translator_of p) {} (is_Ok r) (translator_of p')"
  by (cases "p_closed p"; cases "p_peers p key"; cases listen) (auto simp: AddPeer_def translator_of_def Let_def fun_eq_iff)

lemma exchange_translates:
  "Exchange_begin p server i packet written = (p', r) \<Longrightarrow> translator_of p' = translator_of p"
  "Exchange_begin p server i packet written = (p', Ok ds) \<Longrightarrow>
     familyOf server \<in> tr_families (translator_of p) \<and> is_Ok written \<and> ds = [ToNet (familyOf server) packet server]"
  "Exchange_end p i ev = Some (p', r') \<Longrightarrow> translator_of p' = translator_of p"
  "Exchange_end p i ev = Some (p', Ok b) \<Longrightarrow> ev = Reply"
  by (auto simp: Exchange_begin_def Exchange_end_def translator_of_def Let_def dom_def split: option.splits res.splits exchange_event.splits)

lemma exec_translates:
  assumes "proxy_inv p" "relay_exec op p = Some (p', ds, ok)"
  shows "translates op (translator_of p) (set ds) ok (translator_of p')"
proof (cases op)
  case (DoTarget port)
  then show ?thesis using assms(2) by (auto simp: SetWGTarget_def translator_of_def)
next
  case (DoAddPeer k listen)
  then show ?thesis using assms(2) add_peer_translates[of p k listen] by (auto split: prod.splits simp del: translates.simps)
next
  case (DoEndpoint k a)
  then show ?thesis using assms(2) set_endpoint_translates[OF assms(1), of k a] by (auto split: prod.splits simp del: translates.simps)
next
  case (DoExchange server i b written)
  then show ?thesis using assms(2) exchange_translates(1,2)[of p server i b written] by (auto split: prod.splits res.splits)
next
  case (DoAwait i ev)
  then show ?thesis using assms(2) exchange_translates(3,4)[of p i ev] by (auto split: option.splits simp: is_Ok_iff)
next
  case (DoInbound src b wrote)
  then show ?thesis using assms(2) outer_recv_exact[OF assms(1), of src b wrote] by (auto split: res.splits)
next
  case (DoOutbound k b wrote)
  then have i: "inner_recv p k b wrote = Some (p', ds)" "ok" using assms(2) by (auto split: option.splits)
  then have "k \<in> dom (p_peers p)" by (auto simp: inner_recv_def split: option.splits)
  then show ?thesis using DoOutbound i inner_recv_exact[OF i(1)] by simp
next
  case DoClose
  then show ?thesis using assms(2) by (auto simp: Close_proxy_def translator_of_def split: if_splits)
qed

lemma exec_one_datagram: "relay_exec op p = Some (p', ds, ok) \<Longrightarrow> length ds \<le> 1"
  by (cases op) (auto simp: outer_recv_def inner_recv_def Exchange_begin_def Let_def split: prod.splits res.splits option.splits if_splits)

text \<open>The steps of the relay are its operations.\<close>

lemma step_is_op: "proxy_step p ds p' \<longleftrightarrow> (\<exists>op ok. relay_exec op p = Some (p', ds, ok))"
proof
  assume "proxy_step p ds p'"
  then show "\<exists>op ok. relay_exec op p = Some (p', ds, ok)"
  proof cases
    case (set_target port)
    then show ?thesis by (intro exI[of _ "DoTarget port"] exI[of _ True]) simp
  next
    case (add_peer key listen r)
    then show ?thesis by (intro exI[of _ "DoAddPeer key listen"]) simp
  next
    case (set_endpoint key a r)
    then show ?thesis by (intro exI[of _ "DoEndpoint key a"]) simp
  next
    case (exchange_begin server i packet written)
    then show ?thesis by (intro exI[of _ "DoExchange server i packet written"] exI[of _ True]) simp
  next
    case (exchange_failed server i packet written e)
    then show ?thesis by (intro exI[of _ "DoExchange server i packet written"] exI[of _ False]) simp
  next
    case (exchange_end i ev r)
    then show ?thesis by (intro exI[of _ "DoAwait i ev"]) simp
  next
    case (outer src b wrote)
    then show ?thesis by (intro exI[of _ "DoInbound src b wrote"] exI[of _ True]) simp
  next
    case (inner key b wrote)
    then show ?thesis by (intro exI[of _ "DoOutbound key b wrote"] exI[of _ True]) simp
  next
    case close
    then show ?thesis by (intro exI[of _ DoClose] exI[of _ True]) simp
  qed
next
  assume "\<exists>op ok. relay_exec op p = Some (p', ds, ok)"
  then obtain op ok where "relay_exec op p = Some (p', ds, ok)" by blast
  then show "proxy_step p ds p'"
    by (cases op) (auto intro: proxy_step.intros split: prod.splits res.splits option.splits)
qed

text \<open>C4. The relay refines the translator, operation by operation. From a new proxy, in every interleaving of its methods and
  loops, the steps are exactly the operations, and each of them does to the abstraction what the specification of that
  operation says, succeeds when it says so and sends what it says, as one datagram at most: a new port or address is stored as given,
  an address is taken only from a peer that exists and only if no other has it, an inbound packet is delivered in the name
  of exactly the peer that is reached at its source, and an outbound one goes to exactly that peer's address. No two peers ever
  share an address.\<close>

theorem relay_refines_translator:
  assumes "New env families ks opts = NewOk p0" "proxy_reach p0 p"
  shows "(\<forall>ds p'. proxy_step p ds p' \<longleftrightarrow> (\<exists>op ok. relay_exec op p = Some (p', ds, ok)))
    \<and> (\<forall>op p' ds ok. relay_exec op p = Some (p', ds, ok) \<longrightarrow> length ds \<le> 1 \<and> translates op (translator_of p) (set ds) ok (translator_of p'))
    \<and> translator_ok (translator_of p)"
proof -
  have i: "proxy_inv p" using assms New_inv proxy_reach_inv by blast
  then have "demux_ok (p_demux p)" "tr_remote (translator_of p) = srcByPeer (p_demux p)"
    using translator_remote by (simp_all add: proxy_inv_def demux_inv_def)
  then have "translator_ok (translator_of p)"
    unfolding translator_ok_def by (metis demux_okD option.inject)
  then show ?thesis using step_is_op exec_translates[OF i] exec_one_datagram by blast
qed

section \<open>Witnesses\<close>

theorem relay_survives_errors_witness:
  "(\<exists>q ds ps. outerLoop [OuterError False, OuterElsewhere Close_proxy, OuterError False] sample_proxy 0 = Ok (q, ds, ps, True) \<and> p_closed q)
    \<and> (\<exists>q ds ps. innerLoop zero_key [InnerError False, InnerPacket [1, 2] True] sample_proxy 0 = Some (q, ds, ps, False)
        \<and> innerLoop zero_key [InnerPacket [1, 2] True] sample_proxy 0 = Some (q, ds, [], False))"
proof -
  let ?es = "[OuterError False, OuterElsewhere Close_proxy, OuterError False]" and ?is = "[InnerError False, InnerPacket [1, 2] True]"
  have i: "proxy_inv sample_proxy" using New_inv[OF sample_New] proxy_reach_inv[OF sample_proxy_reach] by blast
  have s: "\<forall>e\<in>set ?es. sane e" by (simp add: sane_def Close_proxy_inv)
  have k: "p_peers sample_proxy zero_key \<noteq> None" using sample_inner by (auto simp: inner_recv_def split: option.splits)
  have e: "\<forall>e\<in>set ?is. keeps_peer zero_key e" by (simp add: keeps_peer_def)
  have "\<not> p_closed sample_proxy" "p_closed (Close_proxy sample_proxy)" using sample_proxy_peer(2) by (simp_all add: Close_proxy_def)
  note r = relay_survives_errors[OF i s k e]
  have "innerLoop zero_key ?is sample_proxy 0 = Some (sample_proxy, [ToNet FamilyIPv4 [1, 2] sample_ap], [backoff 1], False)"
    using \<open>\<not> p_closed sample_proxy\<close> by (simp add: sample_inner)
  with r[THEN conjunct2, THEN conjunct1] have "\<exists>q ds ps. innerLoop zero_key ?is sample_proxy 0 = Some (q, ds, ps, False)
      \<and> innerLoop zero_key [InnerPacket [1, 2] True] sample_proxy 0 = Some (q, ds, [], False)"
    by (auto simp: inner_error_def simp del: innerLoop.simps)
  moreover have "outerLoop ?es sample_proxy 0 = Ok (Close_proxy sample_proxy, [], [backoff 1], True)"
    using \<open>\<not> p_closed sample_proxy\<close> \<open>p_closed (Close_proxy sample_proxy)\<close> by simp
  with r[THEN conjunct1] \<open>p_closed (Close_proxy sample_proxy)\<close>
  have "\<exists>q ds ps. outerLoop ?es sample_proxy 0 = Ok (q, ds, ps, True) \<and> p_closed q" by (simp del: outerLoop.simps)
  ultimately show ?thesis by blast
qed

theorem relay_refines_translator_witness:
  "tr_port (translator_of (SetWGTarget sample_proxy 443)) = 443
    \<and> outbound (translator_of sample_proxy) zero_key [1, 2] = {ToNet FamilyIPv4 [1, 2] sample_ap}"
proof -
  note r = relay_refines_translator[OF sample_New sample_proxy_reach, THEN conjunct2, THEN conjunct1, rule_format, THEN conjunct2]
  have "translates (DoTarget 443) (translator_of sample_proxy) (set []) True (translator_of (SetWGTarget sample_proxy 443))" by (rule r) simp
  moreover have "translates (DoOutbound zero_key [1, 2] True) (translator_of sample_proxy) (set [ToNet FamilyIPv4 [1, 2] sample_ap]) True (translator_of sample_proxy)"
    by (rule r) (simp add: sample_inner)
  ultimately show ?thesis by simp
qed

end
