(* ===== verification/Provision.thy ===== *)
theory Provision
  imports Mobile_Config
begin

text \<open>
  Enrollment (\<^verbatim>\<open>internal/provision\<close>, \<^verbatim>\<open>cmd/provision\<close>): the proposal that a server's owner hands to a
  phone, its checks and its text, the reply and its check, the allocation of a phone's address, and the
  command that writes a new enrollment to files. Random numbers, the file system, the key and QR tools,
  and URL and duration parsing are arguments; file operations are recorded in order.
\<close>

section \<open>Proposals (provision.go)\<close>

definition EnrollSchema :: string where "EnrollSchema = ''stunmesh-enroll-v2''"
definition MaxEnrollBytes :: nat where "MaxEnrollBytes = 2048"

record Proposal =
  pr_Schema :: string
  pr_ID :: string
  pr_Name :: string
  pr_Address :: string
  pr_ServerPublicKey :: string
  pr_AllowedIPs :: "string list"
  pr_STUN :: "string list"
  pr_OpenDHT :: "string list"
  pr_Endpoint :: string
  pr_Protocol :: string
  pr_PresharedKey :: string

record Reply =
  rp_Schema :: string
  rp_ID :: string
  rp_PublicKey :: string
  rp_Addresses :: "string list"

text \<open>The pattern of a version 4 UUID in lower case: four hyphens, the version and the variant digit.\<close>

definition uuid_char :: "nat \<Rightarrow> char \<Rightarrow> bool" where
  "uuid_char i c =
     (if i \<in> {8, 13, 18, 23} then c = CHR ''-''
      else if i = 14 then c = CHR ''4''
      else if i = 19 then c \<in> set ''89ab''
      else c \<in> set ''0123456789abcdef'')"

definition uuid_ok :: "string \<Rightarrow> bool" where
  "uuid_ok s \<longleftrightarrow> length s = 36 \<and> list_all (\<lambda>i. uuid_char i (s ! i)) [0..<36]"

text \<open>\<open>rnd\<close> is the answer of the random source for sixteen bytes.\<close>

definition NewID :: "byte list res \<Rightarrow> string res" where
  "NewID rnd = (case rnd of
      Ok b0 \<Rightarrow>
        if length b0 \<noteq> 16 then Panic
        else
          let b = b0[6 := (b0 ! 6 AND 15) OR 64, 8 := (b0 ! 8 AND 63) OR 128] in
          Ok (hex_encode (take 4 b) @ ''-'' @ hex_encode (take 2 (drop 4 b)) @ ''-'' @ hex_encode (take 2 (drop 6 b)) @ ''-''
              @ hex_encode (take 2 (drop 8 b)) @ ''-'' @ hex_encode (drop 10 b))
    | _ \<Rightarrow> Panic)"

fun routes_distinct :: "string set \<Rightarrow> string list \<Rightarrow> bool" where
  "routes_distinct seen [] = True"
| "routes_distinct seen (s # ss) =
     (case ServiceRoute s of
        Ok r \<Rightarrow> prefix_String r \<notin> seen \<and> routes_distinct (insert (prefix_String r) seen) ss
      | _ \<Rightarrow> False)"

definition bad_enrollment :: error where
  "bad_enrollment = ErrNew ''invalid enrollment; check schema, keys, address, narrow routes and origins''"

definition zero_psk :: "byte list" where "zero_psk = replicate 32 0"

definition store_config :: "string list \<Rightarrow> plugin_config" where
  "store_config opendht = [(''name'', YString ''opendht''), (''endpoints'', YStrings opendht)]"

definition Proposal_Validate :: "(string \<Rightarrow> url res) \<Rightarrow> (string \<Rightarrow> duration res) \<Rightarrow> Proposal \<Rightarrow> unit res" where
  "Proposal_Validate urlParse parseDuration p =
     (if pr_Schema p \<noteq> EnrollSchema \<or> \<not> uuid_ok (pr_ID p) \<or> length (pr_Name p) < 1 \<or> 128 < length (pr_Name p)
         \<or> ContainsAny (pr_Name p) [CHR 0x0D, CHR 0x0A, CHR 0x09]
      then Err bad_enrollment
      else if \<not> is_Ok (PublicKey (pr_ServerPublicKey p)) then Err bad_enrollment
      else if pr_PresharedKey p \<noteq> [] \<and> (case Key (pr_PresharedKey p) of Ok key \<Rightarrow> key = zero_psk | _ \<Rightarrow> True) then Err bad_enrollment
      else if (case Prefix_v (pr_Address p) of Ok a \<Rightarrow> pfx_bits a \<noteq> int (BitLen (pfx_addr a)) | _ \<Rightarrow> True) then Err bad_enrollment
      else if length (pr_AllowedIPs p) < 1 \<or> MaxRoutes < length (pr_AllowedIPs p) \<or> length (pr_STUN p) < 1 \<or> MaxServers < length (pr_STUN p)
      then Err bad_enrollment
      else if \<not> routes_distinct {} (pr_AllowedIPs p) then Err bad_enrollment
      else if list_ex (\<lambda>s. Server s \<noteq> Ok ()) (pr_STUN p) then Err bad_enrollment
      else if pr_Endpoint p \<noteq> [] \<and> (case Endpoint (pr_Endpoint p) of Ok e \<Rightarrow> IsLoopback (ap_addr e) | _ \<Rightarrow> True) then Err bad_enrollment
      else if pr_Protocol p \<notin> {''ipv4'', ''ipv6'', ''prefer_ipv4'', ''prefer_ipv6''} then Err bad_enrollment
      else case NewOpenDHTPlugin urlParse parseDuration (store_config (pr_OpenDHT p)) of
        Panic \<Rightarrow> Panic | Err _ \<Rightarrow> Err bad_enrollment | Ok _ \<Rightarrow> Ok ())"

section \<open>The text of a proposal\<close>

definition opt_member :: "string \<Rightarrow> string \<Rightarrow> (string \<times> json) list" where
  "opt_member k v = (if v = [] then [] else [(k, JStr v)])"

definition proposal_json :: "Proposal \<Rightarrow> json" where
  "proposal_json p = JObj
     ([(''schema'', JStr (pr_Schema p)), (''proposal_id'', JStr (pr_ID p)), (''name'', JStr (pr_Name p)),
       (''address'', JStr (pr_Address p)), (''server_public_key'', JStr (pr_ServerPublicKey p)),
       (''allowed_ips'', JArr (map JStr (pr_AllowedIPs p))), (''stun_servers'', JArr (map JStr (pr_STUN p))),
       (''opendht'', JArr (map JStr (pr_OpenDHT p)))]
      @ opt_member ''endpoint'' (pr_Endpoint p) @ [(''protocol'', JStr (pr_Protocol p))]
      @ opt_member ''preshared_key'' (pr_PresharedKey p))"

definition Proposal_Encode :: "(string \<Rightarrow> url res) \<Rightarrow> (string \<Rightarrow> duration res) \<Rightarrow> Proposal \<Rightarrow> string res" where
  "Proposal_Encode urlParse parseDuration p =
     bind_res (Proposal_Validate urlParse parseDuration p) (\<lambda>_.
     let b = json_print (proposal_json p) in
     if MaxEnrollBytes < length b then Err (ErrNew ''enrollment exceeds QR limit'') else Ok b)"

definition proposal_fields :: "string list" where
  "proposal_fields = [''schema'', ''proposal_id'', ''name'', ''address'', ''server_public_key'', ''allowed_ips'', ''stun_servers'',
     ''opendht'', ''endpoint'', ''protocol'', ''preshared_key'']"

definition set_proposal :: "string \<Rightarrow> json \<Rightarrow> Proposal \<Rightarrow> Proposal res" where
  "set_proposal n v p =
     (if n = ''schema'' then bind_res (json_string v) (\<lambda>s. Ok (p\<lparr>pr_Schema := s\<rparr>))
      else if n = ''proposal_id'' then bind_res (json_string v) (\<lambda>s. Ok (p\<lparr>pr_ID := s\<rparr>))
      else if n = ''name'' then bind_res (json_string v) (\<lambda>s. Ok (p\<lparr>pr_Name := s\<rparr>))
      else if n = ''address'' then bind_res (json_string v) (\<lambda>s. Ok (p\<lparr>pr_Address := s\<rparr>))
      else if n = ''server_public_key'' then bind_res (json_string v) (\<lambda>s. Ok (p\<lparr>pr_ServerPublicKey := s\<rparr>))
      else if n = ''allowed_ips'' then bind_res (json_strings (pr_AllowedIPs p) v) (\<lambda>l. Ok (p\<lparr>pr_AllowedIPs := l\<rparr>))
      else if n = ''stun_servers'' then bind_res (json_strings (pr_STUN p) v) (\<lambda>l. Ok (p\<lparr>pr_STUN := l\<rparr>))
      else if n = ''opendht'' then bind_res (json_strings (pr_OpenDHT p) v) (\<lambda>l. Ok (p\<lparr>pr_OpenDHT := l\<rparr>))
      else if n = ''endpoint'' then bind_res (json_string v) (\<lambda>s. Ok (p\<lparr>pr_Endpoint := s\<rparr>))
      else if n = ''protocol'' then bind_res (json_string v) (\<lambda>s. Ok (p\<lparr>pr_Protocol := s\<rparr>))
      else bind_res (json_string v) (\<lambda>s. Ok (p\<lparr>pr_PresharedKey := s\<rparr>)))"

definition zero_proposal :: Proposal where
  "zero_proposal = \<lparr>pr_Schema = [], pr_ID = [], pr_Name = [], pr_Address = [], pr_ServerPublicKey = [], pr_AllowedIPs = [],
     pr_STUN = [], pr_OpenDHT = [], pr_Endpoint = [], pr_Protocol = [], pr_PresharedKey = []\<rparr>"

text \<open>The names of the members of a document that is an object.\<close>

definition member_names :: "string \<Rightarrow> string list option" where
  "member_names b = (case json_document b of Some (JObj ms) \<Rightarrow> Some (map fst ms) | _ \<Rightarrow> None)"

definition Proposal_Decode :: "unicode \<Rightarrow> (string \<Rightarrow> url res) \<Rightarrow> (string \<Rightarrow> duration res) \<Rightarrow> string \<Rightarrow> Proposal res" where
  "Proposal_Decode u urlParse parseDuration b =
     (if MaxEnrollBytes < length b then Err (ErrNew ''enrollment too large'')
      else bind_res (DecodeJSON u (json_struct u proposal_fields set_proposal zero_proposal) b) (\<lambda>p.
      case member_names b of
        None \<Rightarrow> Err (ErrNew ''invalid enrollment'')
      | Some names \<Rightarrow>
          if list_ex (\<lambda>n. n \<noteq> ToLower u n) names then Err (ErrNew ''invalid enrollment field'')
          else if ''preshared_key'' \<in> set names \<and> pr_PresharedKey p = [] then Err (ErrNew ''empty enrollment PSK'')
          else bind_res (Proposal_Validate urlParse parseDuration p) (\<lambda>_. Ok p)))"

section \<open>Replies\<close>

definition set_reply :: "string \<Rightarrow> json \<Rightarrow> Reply \<Rightarrow> Reply res" where
  "set_reply n v r =
     (if n = ''schema'' then bind_res (json_string v) (\<lambda>s. Ok (r\<lparr>rp_Schema := s\<rparr>))
      else if n = ''proposal_id'' then bind_res (json_string v) (\<lambda>s. Ok (r\<lparr>rp_ID := s\<rparr>))
      else if n = ''public_key'' then bind_res (json_string v) (\<lambda>s. Ok (r\<lparr>rp_PublicKey := s\<rparr>))
      else bind_res (json_strings (rp_Addresses r) v) (\<lambda>l. Ok (r\<lparr>rp_Addresses := l\<rparr>)))"

definition reply_fields :: "string list" where
  "reply_fields = [''schema'', ''proposal_id'', ''public_key'', ''addresses'']"

definition zero_reply :: Reply where
  "zero_reply = \<lparr>rp_Schema = [], rp_ID = [], rp_PublicKey = [], rp_Addresses = []\<rparr>"

definition CheckReply :: "unicode \<Rightarrow> (string \<Rightarrow> url res) \<Rightarrow> (string \<Rightarrow> duration res) \<Rightarrow> Proposal \<Rightarrow> string \<Rightarrow> Reply res" where
  "CheckReply u urlParse parseDuration p b =
     bind_res (Proposal_Validate urlParse parseDuration p) (\<lambda>_.
     if MaxEnrollBytes < length b then Err (ErrNew ''public reply too large'')
     else bind_res (DecodeJSON u (json_struct u reply_fields set_reply zero_reply) b) (\<lambda>r.
     if rp_Schema r \<noteq> ''stunmesh-peer-v1'' \<or> rp_ID r \<noteq> pr_ID p \<or> rp_Addresses r \<noteq> [pr_Address p] \<or> rp_PublicKey r = pr_ServerPublicKey p
     then Err (ErrNew ''reply does not match proposal'')
     else bind_res (PublicKey (rp_PublicKey r)) (\<lambda>_. Ok r)))"

section \<open>The address of a phone (cmd/provision/server.go)\<close>

definition phone_ip :: "u32 \<Rightarrow> nat \<Rightarrow> addr" where
  "phone_ip base n = V4 ((base AND 0xFFFFFF00) OR word_of_nat n)"

fun parse_prefixes :: "string list \<Rightarrow> prefix list res" where
  "parse_prefixes [] = Ok []"
| "parse_prefixes (s # ss) =
     bind_res (replace_err (ParsePrefix s) (ErrNew ''invalid reserved address'')) (\<lambda>p.
     bind_res (parse_prefixes ss) (\<lambda>ps. Ok (p # ps)))"

text \<open>The hosts 2 to 254 in order; the loop ends at the first free one.\<close>

definition phoneAddress :: "string \<Rightarrow> string list \<Rightarrow> string res" where
  "phoneAddress serverRoute used =
     (case ParsePrefix serverRoute of
        Ok server \<Rightarrow>
          (case pfx_addr server of
             V4 base \<Rightarrow>
               if \<not> IsPrivate (V4 base) \<or> pfx_bits server \<noteq> 32
               then Err (ErrNew ''first service route must be a private IPv4 /32'')
               else bind_res (parse_prefixes used) (\<lambda>prefixes.
                 case find (\<lambda>n. \<not> list_ex (\<lambda>p. prefix_Contains p (phone_ip base n)) prefixes) [2..<255] of
                   Some n \<Rightarrow> Ok (addr_String (phone_ip base n) @ ''/32'')
                 | None \<Rightarrow> Err (ErrNew ''phone address pool exhausted''))
           | _ \<Rightarrow> Err (ErrNew ''first service route must be a private IPv4 /32''))
      | Panic \<Rightarrow> Panic
      | Err _ \<Rightarrow> Err (ErrNew ''first service route must be a private IPv4 /32''))"

section \<open>Writing an enrollment (cmd/provision)\<close>

datatype file_op = FileCreate string | FileWrite string string | FileRemove string | FileRemoveAll string | PrintLine string

text \<open>The owner's command line for a new proposal; \<open>psk\<close> is the key file, if one is named: it
  may fail to open, and then to be read.\<close>

record new_flags =
  nf_name :: string
  nf_address :: string
  nf_serverKey :: string
  nf_routes :: string
  nf_stun :: string
  nf_opendht :: string
  nf_endpoint :: string
  nf_protocol :: string
  nf_psk :: "string res option option"
  nf_out :: string

definition trim_line :: "string \<Rightarrow> string" where
  "trim_line s = TrimSuffix (TrimSuffix s [CHR 0x0A]) [CHR 0x0D]"

text \<open>\<open>create\<close> and \<open>write\<close> are the outcomes of creating the output file and of writing and closing it.\<close>

definition provision_new ::
  "(string \<Rightarrow> url res) \<Rightarrow> (string \<Rightarrow> duration res) \<Rightarrow> byte list res \<Rightarrow> new_flags \<Rightarrow> bool \<Rightarrow> unit res
    \<Rightarrow> file_op list \<times> unit res" where
  "provision_new urlParse parseDuration rnd f create write =
     (case NewID rnd of
        Panic \<Rightarrow> ([], Panic) | Err e \<Rightarrow> ([], Err e)
      | Ok uid \<Rightarrow>
          if nf_out f = [] then ([], Err (ErrNew ''specify --out and enrollment inputs''))
          else case (case nf_psk f of
                       None \<Rightarrow> Ok []
                     | Some None \<Rightarrow> Err (ErrNew ''cannot open PSK input'')
                     | Some (Some r) \<Rightarrow> bind_res (replace_err r (ErrNew ''cannot read PSK input'')) (\<lambda>t.
                         let k = trim_line (take 65 t) in if k = [] then Err (ErrNew ''empty PSK input'') else Ok k)) of
            Panic \<Rightarrow> ([], Panic) | Err e \<Rightarrow> ([], Err e)
          | Ok psk \<Rightarrow>
              let p = \<lparr>pr_Schema = EnrollSchema, pr_ID = uid, pr_Name = nf_name f, pr_Address = nf_address f,
                   pr_ServerPublicKey = nf_serverKey f, pr_AllowedIPs = Split (CHR '','') (nf_routes f),
                   pr_STUN = Split (CHR '','') (nf_stun f), pr_OpenDHT = Split (CHR '','') (nf_opendht f),
                   pr_Endpoint = nf_endpoint f, pr_Protocol = nf_protocol f, pr_PresharedKey = psk\<rparr> in
              (case Proposal_Encode urlParse parseDuration p of
                 Panic \<Rightarrow> ([], Panic) | Err e \<Rightarrow> ([], Err e)
               | Ok b \<Rightarrow>
                   if \<not> create then ([], Err (ErrNew ''cannot create new enrollment output''))
                   else ([FileCreate (nf_out f), FileWrite (nf_out f) (b @ [CHR 0x0A])], write)))"

text \<open>The reply command: the accepted reply and whether the server needs the shared key.\<close>

definition provision_reply ::
  "unicode \<Rightarrow> (string \<Rightarrow> url res) \<Rightarrow> (string \<Rightarrow> duration res) \<Rightarrow> string res \<Rightarrow> string res \<Rightarrow> (Reply \<times> bool) res" where
  "provision_reply u urlParse parseDuration proposal reply =
     bind_res proposal (\<lambda>pb.
     bind_res (Proposal_Decode u urlParse parseDuration pb) (\<lambda>p.
     bind_res reply (\<lambda>rb.
     bind_res (CheckReply u urlParse parseDuration p rb) (\<lambda>r. Ok (r, pr_PresharedKey p \<noteq> [])))))"

section \<open>A proposal reads back\<close>

text \<open>The texts of a proposal.\<close>

definition proposal_texts :: "Proposal \<Rightarrow> string set" where
  "proposal_texts p = {pr_Schema p, pr_ID p, pr_Name p, pr_Address p, pr_ServerPublicKey p, pr_Endpoint p, pr_Protocol p, pr_PresharedKey p}
     \<union> set (pr_AllowedIPs p) \<union> set (pr_STUN p) \<union> set (pr_OpenDHT p)"

lemma proposal_names_ascii: "\<forall>n\<in>set proposal_fields. ascii n"
  by (simp add: proposal_fields_def ascii_def)

lemma proposal_names_lower: "n \<in> set proposal_fields \<Longrightarrow> ToLower u n = n"
proof -
  have "\<forall>n\<in>set proposal_fields. map lower_ascii n = n" by code_simp
  then show "n \<in> set proposal_fields \<Longrightarrow> ?thesis" using ToLower_ascii proposal_names_ascii by simp
qed

lemma json_strings_map: "json_strings [] (JArr (map JStr ss)) = Ok ss"
proof -
  have "decode_slice (\<lambda>_. json_string) [] [] (map JStr ss) = Ok ss" by (induction ss) (simp_all add: json_string_def)
  then show ?thesis by (simp add: json_strings_def json_slice_def)
qed

lemma proposal_plain:
  assumes "\<forall>t\<in>proposal_texts p. ascii t"
  shows "json_plain (proposal_json p)"
  using assms proposal_names_ascii
  by (auto simp: proposal_json_def proposal_texts_def proposal_fields_def opt_member_def)

lemma check_strings: "check_json u (Suc 0) (JArr (map JStr ss)) = Ok ()"
proof -
  have "check_elems u (Suc 0) (map JStr ss) = Ok ()" by (induction ss) (simp_all add: check_json.simps)
  then show ?thesis by (simp add: check_json.simps)
qed

lemma check_proposal: "check_json u 0 (proposal_json p) = Ok ()"
proof -
  note l = proposal_names_lower[unfolded proposal_fields_def, simplified]
  have s: "check_json u (Suc 0) (JStr t) = Ok ()" for t by (simp add: check_json.simps)
  show ?thesis
    by (simp add: proposal_json_def opt_member_def check_json.simps(1)[of u 0] l s check_strings Let_def)
qed

lemma decode_proposal: "json_struct u proposal_fields set_proposal zero_proposal (proposal_json p) = Ok p"
  by (cases p) (simp add: json_struct_def proposal_json_def opt_member_def struct_field_def proposal_fields_def set_proposal_def
      json_string_def json_strings_map zero_proposal_def)

lemma decode_printed:
  assumes "\<forall>t\<in>proposal_texts p. ascii t" "length (json_print (proposal_json p)) \<le> MaxEnrollBytes"
  shows "Proposal_Decode u urlParse parseDuration (json_print (proposal_json p)) = bind_res (Proposal_Validate urlParse parseDuration p) (\<lambda>_. Ok p)"
proof -
  let ?b = "json_print (proposal_json p)"
  have d: "DecodeJSON u (json_struct u proposal_fields set_proposal zero_proposal) ?b = Ok p"
    by (rule DecodeJSON_print[where decode = "json_struct u proposal_fields set_proposal zero_proposal",
          OF proposal_plain[OF assms(1)] _ _ check_proposal decode_proposal])
      (use assms(2) in \<open>simp_all add: proposal_json_def MaxEnrollBytes_def MaxConfigBytes_def\<close>)
  obtain ms where ms: "proposal_json p = JObj ms" "set (map fst ms) \<subseteq> set proposal_fields"
    "''preshared_key'' \<in> set (map fst ms) \<longrightarrow> pr_PresharedKey p \<noteq> []"
    by (simp add: proposal_json_def opt_member_def proposal_fields_def)
  have "member_names ?b = Some (map fst ms)"
    unfolding member_names_def using json_document_print[OF proposal_plain[OF assms(1)]] ms(1) by simp
  then show ?thesis
    using d assms(2) ms(2,3) proposal_names_lower[of _ u]
    by (auto simp: Proposal_Decode_def list_ex_iff)
qed

text \<open>An enrollment survives its paper form. The text that the owner's command prints fits in one QR code
  and the phone reads from it exactly the proposal, the optional shared key included. Reading the text of any
  proposal loses and adds nothing: it gives that proposal, or the error of its own checks.\<close>

theorem enrollment_roundtrip:
  assumes "\<forall>t\<in>proposal_texts p. ascii t"
  shows "(Proposal_Encode urlParse parseDuration p = Ok b \<longrightarrow> Proposal_Decode u urlParse parseDuration b = Ok p \<and> length b \<le> 2048)
    \<and> (length (json_print (proposal_json p)) \<le> 2048 \<longrightarrow>
        Proposal_Decode u urlParse parseDuration (json_print (proposal_json p)) = bind_res (Proposal_Validate urlParse parseDuration p) (\<lambda>_. Ok p))"
  using decode_printed[OF assms] by (auto simp: Proposal_Encode_def MaxEnrollBytes_def Let_def split: if_splits)

text \<open>Only the reply that belongs to a proposal is taken: it names the proposal, its one address and a
  public key that is not the server's own and not a weak one.\<close>

theorem reply_matches:
  assumes "CheckReply u urlParse parseDuration p b = Ok r"
  shows "rp_ID r = pr_ID p \<and> rp_Addresses r = [pr_Address p] \<and> rp_PublicKey r \<noteq> pr_ServerPublicKey p
    \<and> is_Ok (PublicKey (rp_PublicKey r)) \<and> Proposal_Validate urlParse parseDuration p = Ok () \<and> length b \<le> 2048"
  using assms by (auto simp: CheckReply_def MaxEnrollBytes_def is_Ok_iff split: if_splits)

section \<open>The allocation\<close>

lemma parse_prefixes_Ok: "parse_prefixes ss = Ok ps \<Longrightarrow> list_all2 (\<lambda>s p. ParsePrefix s = Ok p) ss ps"
proof (induction ss arbitrary: ps)
  case (Cons s ss)
  then show ?case by (cases "ParsePrefix s") auto
qed simp

lemma find_upt_least: "find P [i..<j] = Some n \<longleftrightarrow> i \<le> n \<and> n < j \<and> P n \<and> (\<forall>m. i \<le> m \<longrightarrow> m < n \<longrightarrow> \<not> P m)"
proof -
  have "find P [i..<j] = Some n \<longleftrightarrow> (\<exists>k<j - i. i + k = n \<and> P n \<and> (\<forall>l<k. \<not> P (i + l)))"
    by (auto simp: find_Some_iff)
  also have "\<dots> \<longleftrightarrow> i \<le> n \<and> n < j \<and> P n \<and> (\<forall>m. i \<le> m \<longrightarrow> m < n \<longrightarrow> \<not> P m)"
  proof (intro iffI; elim exE conjE)
    fix k assume k: "k < j - i" "i + k = n" "P n" "\<forall>l<k. \<not> P (i + l)"
    then have "\<not> P m" if "i \<le> m" "m < n" for m using that le_Suc_ex[OF that(1)] by auto
    then show "i \<le> n \<and> n < j \<and> P n \<and> (\<forall>m. i \<le> m \<longrightarrow> m < n \<longrightarrow> \<not> P m)" using k by auto
  next
    assume "i \<le> n" "n < j" "P n" "\<forall>m. i \<le> m \<longrightarrow> m < n \<longrightarrow> \<not> P m"
    then show "\<exists>k<j - i. i + k = n \<and> P n \<and> (\<forall>l<k. \<not> P (i + l))" by (intro exI[of _ "n - i"]) auto
  qed
  finally show ?thesis .
qed

text \<open>A phone gets an address of its own. The allocation returns the lowest host from 2 to 254 in the /24 of
  the server's first route that no reserved prefix contains, as a /32 text; it fails for want of addresses
  only when every one of them is reserved.\<close>

theorem phone_address_free:
  assumes "ParsePrefix serverRoute = Ok server" "pfx_addr server = V4 base" "IsPrivate (V4 base)" "pfx_bits server = 32"
    "parse_prefixes used = Ok ps"
  shows "(phoneAddress serverRoute used = Ok a \<longleftrightarrow>
      (\<exists>n. 2 \<le> n \<and> n \<le> 254 \<and> a = addr_String (phone_ip base n) @ ''/32'' \<and> (\<forall>p\<in>set ps. \<not> prefix_Contains p (phone_ip base n))
        \<and> (\<forall>m. 2 \<le> m \<longrightarrow> m < n \<longrightarrow> (\<exists>p\<in>set ps. prefix_Contains p (phone_ip base m)))))
    \<and> (phoneAddress serverRoute used = Err (ErrNew ''phone address pool exhausted'') \<longleftrightarrow>
      (\<forall>n. 2 \<le> n \<longrightarrow> n \<le> 254 \<longrightarrow> (\<exists>p\<in>set ps. prefix_Contains p (phone_ip base n))))"
proof -
  define free where "free = (\<lambda>n. \<not> list_ex (\<lambda>p. prefix_Contains p (phone_ip base n)) ps)"
  have e: "phoneAddress serverRoute used = (case find free [2..<255] of
      Some n \<Rightarrow> Ok (addr_String (phone_ip base n) @ ''/32'') | None \<Rightarrow> Err (ErrNew ''phone address pool exhausted''))"
    using assms by (simp add: phoneAddress_def free_def del: upt_rec_numeral)
  have f: "free n \<longleftrightarrow> (\<forall>p\<in>set ps. \<not> prefix_Contains p (phone_ip base n))" for n by (auto simp: free_def list_ex_iff)
  have some: "find free [2..<255] = Some n \<longleftrightarrow> 2 \<le> n \<and> n \<le> 254 \<and> free n \<and> (\<forall>m. 2 \<le> m \<longrightarrow> m < n \<longrightarrow> \<not> free m)" for n
    using find_upt_least[of free 2 255 n] by (auto simp del: upt_rec_numeral)
  have none: "find free [2..<255] = None \<longleftrightarrow> (\<forall>n. 2 \<le> n \<longrightarrow> n \<le> 254 \<longrightarrow> \<not> free n)"
    by (auto simp: find_None_iff simp del: upt_rec_numeral)
  have ok: "phoneAddress serverRoute used = Ok a \<longleftrightarrow> (\<exists>n. find free [2..<255] = Some n \<and> a = addr_String (phone_ip base n) @ ''/32'')"
    unfolding e by (cases "find free [2..<255]") (auto simp del: upt_rec_numeral)
  have exhausted: "phoneAddress serverRoute used = Err (ErrNew ''phone address pool exhausted'') \<longleftrightarrow> find free [2..<255] = None"
    unfolding e by (cases "find free [2..<255]") (simp_all del: upt_rec_numeral)
  show ?thesis unfolding ok exhausted some none f by blast
qed

section \<open>Witnesses\<close>

theorem enrollment_roundtrip_witness:
  "Proposal_Decode ex_unicode (\<lambda>_. Panic) (\<lambda>_. Panic) (json_print (proposal_json (zero_proposal\<lparr>pr_Name := ''phone'', pr_STUN := [''stun.example:3478'']\<rparr>)))
     = Err bad_enrollment"
proof -
  let ?p = "zero_proposal\<lparr>pr_Name := ''phone'', pr_STUN := [''stun.example:3478'']\<rparr>"
  have a: "\<forall>t\<in>proposal_texts ?p. ascii t" by (simp add: proposal_texts_def zero_proposal_def ascii_def)
  have l: "length (json_print (proposal_json ?p)) \<le> 2048" by code_simp
  have v: "Proposal_Validate (\<lambda>_. Panic) (\<lambda>_. Panic) ?p = Err bad_enrollment" by (simp add: Proposal_Validate_def zero_proposal_def EnrollSchema_def)
  from enrollment_roundtrip[OF a, of "\<lambda>_. Panic" "\<lambda>_. Panic" _ ex_unicode] l v show ?thesis by simp
qed

theorem phone_address_free_witness:
  "phoneAddress ''10.0.0.1/32'' [''10.0.0.2/32'', ''10.0.0.1/32''] = Ok ''10.0.0.3/32''"
proof -
  let ?ps = "[Prefix (V4 0x0A000002) 32, Prefix (V4 0x0A000001) 32]"
  have p: "ParsePrefix ''10.0.0.1/32'' = Ok (Prefix (V4 0x0A000001) 32)" "IsPrivate (V4 0x0A000001)"
    "parse_prefixes [''10.0.0.2/32'', ''10.0.0.1/32''] = Ok ?ps" by code_simp+
  have c: "addr_String (phone_ip 0x0A000001 3) = ''10.0.0.3''" "prefix_Contains (Prefix (V4 0x0A000002) 32) (phone_ip 0x0A000001 2)"
    "\<not> list_ex (\<lambda>p. prefix_Contains p (phone_ip 0x0A000001 3)) ?ps" by code_simp+
  have m: "(m::nat) = 2" if "2 \<le> m" "m < 3" for m using that by simp
  have "\<exists>n. 2 \<le> n \<and> n \<le> (254::nat) \<and> ''10.0.0.3/32'' = addr_String (phone_ip 0x0A000001 n) @ ''/32'' \<and> (\<forall>p\<in>set ?ps. \<not> prefix_Contains p (phone_ip 0x0A000001 n))
     \<and> (\<forall>m. 2 \<le> m \<longrightarrow> m < n \<longrightarrow> (\<exists>p\<in>set ?ps. prefix_Contains p (phone_ip 0x0A000001 m)))"
    by (rule exI[of _ 3]) (use c in \<open>auto simp: list_ex_iff dest: m\<close>)
  with phone_address_free[OF p(1) _ p(2) _ p(3)] show ?thesis by simp
qed

end
