(* ===== verification/Linux_Profile.thy ===== *)
theory Linux_Profile
  imports Provision "HOL-Library.AList"
begin

text \<open>
  The single-tunnel profile for Linux (\<^verbatim>\<open>internal/linuxprofile\<close>) and the server side of an enrollment
  (\<^verbatim>\<open>cmd/provision/server.go\<close>): the profile's checks and the texts it renders, the edit of a server's
  configuration that adds or revokes one managed peer, and the commands that set an interface up and take
  it down. Files, commands, the YAML reader and writer, key generation and the public key of a private one
  are arguments; what is done to files and which commands run is recorded in order.
\<close>

section \<open>Profiles (profile.go)\<close>

definition LinuxSchema :: string where "LinuxSchema = ''stunmesh-linux-v1''"
definition MaxProfileBytes :: nat where "MaxProfileBytes = 16384"
definition LinuxInterface :: string where "LinuxInterface = ''wg0''"
definition LinuxListenPort :: nat where "LinuxListenPort = 51832"
definition LinuxProxyPort :: nat where "LinuxProxyPort = 51834"

text \<open>The two patterns: a label, and labels separated by dots.\<close>

definition label_ok :: "string \<Rightarrow> bool" where
  "label_ok s = (case s of
      [] \<Rightarrow> False
    | c # cs \<Rightarrow> c \<in> set ''abcdefghijklmnopqrstuvwxyz'' \<and> length cs \<le> 31
               \<and> list_all (\<lambda>d. d \<in> set ''abcdefghijklmnopqrstuvwxyz0123456789-'') cs)"

definition hostname_ok :: "string \<Rightarrow> bool" where
  "hostname_ok s = list_all label_ok (Split (CHR ''.'') s)"

definition validName :: "string \<Rightarrow> bool" where
  "validName s \<longleftrightarrow> length s \<le> 128 \<and> hostname_ok s \<and> s \<noteq> ''localhost'' \<and> \<not> HasSuffix s ''.localhost''"

text \<open>The two maps of names are lists of their entries in the order a loop visits them.\<close>

record Profile =
  lp_Schema :: string
  lp_Name :: string
  lp_PrivateKey :: string
  lp_PresharedKey :: string
  lp_ServerPublicKey :: string
  lp_Address :: string
  lp_AllowedIPs :: "string list"
  lp_Endpoint :: string
  lp_STUN :: "string list"
  lp_OpenDHT :: "string list"
  lp_Hostnames :: "(string \<times> string) list"
  lp_LANHostnames :: "(string \<times> string) list"

text \<open>\<^verbatim>\<open>wgtypes.ParseKey\<close>, whose error is ignored, and the public key of a private one.\<close>

definition wg_ParseKey :: "string \<Rightarrow> byte list" where
  "wg_ParseKey s = (case b64_decode s of Ok k \<Rightarrow> if length k = 32 then k else zero_psk | _ \<Rightarrow> zero_psk)"

definition Profile_PublicKey :: "(byte list \<Rightarrow> byte list) \<Rightarrow> Profile \<Rightarrow> string" where
  "Profile_PublicKey public p = b64_encode (public (wg_ParseKey (lp_PrivateKey p)))"

definition clamped :: "byte list \<Rightarrow> bool" where
  "clamped k \<longleftrightarrow> k \<noteq> zero_psk \<and> k ! 0 AND 7 = 0 \<and> k ! 31 AND 128 = 0 \<and> k ! 31 AND 64 \<noteq> 0"

definition profile_proposal :: "Profile \<Rightarrow> Proposal" where
  "profile_proposal p =
     \<lparr>pr_Schema = EnrollSchema, pr_ID = ''00000000-0000-4000-8000-000000000001'', pr_Name = lp_Name p, pr_Address = lp_Address p,
      pr_ServerPublicKey = lp_ServerPublicKey p, pr_AllowedIPs = lp_AllowedIPs p, pr_STUN = lp_STUN p, pr_OpenDHT = lp_OpenDHT p,
      pr_Endpoint = lp_Endpoint p, pr_Protocol = ''ipv4'', pr_PresharedKey = lp_PresharedKey p\<rparr>"

fun profile_routes :: "addr \<Rightarrow> string set \<Rightarrow> string list \<Rightarrow> string set res" where
  "profile_routes client allowed [] = Ok allowed"
| "profile_routes client allowed (s # ss) =
     (case ServiceRoute s of
        Ok route \<Rightarrow>
          if \<not> Is4 (pfx_addr route) \<or> \<not> IsPrivate (pfx_addr route) \<or> prefix_Contains route client
          then Err (ErrNew ''invalid private service route'')
          else if prefix_String route \<in> allowed then Err (ErrNew ''duplicate route'')
          else profile_routes client (insert (prefix_String route) allowed) ss
      | _ \<Rightarrow> Err (ErrNew ''invalid private service route''))"

fun check_hostnames :: "string set \<Rightarrow> (string \<times> string) list \<Rightarrow> (string \<times> string) list \<Rightarrow> unit res" where
  "check_hostnames allowed lan [] = Ok ()"
| "check_hostnames allowed lan ((name, s) # ms) =
     (if \<not> validName name \<or> HasSuffix name ''-lan'' then Err (ErrNew ''invalid VPN hostname'')
      else case ParseAddr s of
        Ok ip \<Rightarrow>
          if addr_String ip @ ''/32'' \<notin> allowed then Err (ErrNew ''hostname requires an exact service route'')
          else if map_of lan name \<noteq> None then Err (ErrNew ''hostname collision'')
          else check_hostnames allowed lan ms
      | _ \<Rightarrow> Err (ErrNew ''hostname requires an exact service route''))"

definition lan_ok :: "string \<times> string \<Rightarrow> bool" where
  "lan_ok m = (case m of (name, s) \<Rightarrow>
     validName name \<and> HasSuffix name ''-lan'' \<and> (case ParseAddr s of Ok ip \<Rightarrow> Is4 ip \<and> IsPrivate ip | _ \<Rightarrow> False))"

text \<open>The part after the shared checks of a proposal; \<open>client\<close> is the address.\<close>

definition profile_policy :: "(byte list \<Rightarrow> byte list) \<Rightarrow> addr \<Rightarrow> Profile \<Rightarrow> unit res" where
  "profile_policy public client p =
     (if (case Endpoint (lp_Endpoint p) of Ok ep \<Rightarrow> \<not> Is4 (ap_addr ep) | _ \<Rightarrow> True) then Err (ErrNew ''numeric IPv4 bootstrap required'')
      else bind_res (profile_routes client {} (lp_AllowedIPs p)) (\<lambda>allowed.
      if lp_Hostnames p = [] \<or> 16 < length (lp_Hostnames p) \<or> 16 < length (lp_LANHostnames p)
      then Err (ErrNew ''hostname count outside bounds'')
      else bind_res (check_hostnames allowed (lp_LANHostnames p) (lp_Hostnames p)) (\<lambda>_.
      if list_ex (\<lambda>m. \<not> lan_ok m) (lp_LANHostnames p) then Err (ErrNew ''invalid LAN recovery alias'')
      else if Profile_PublicKey public p = lp_ServerPublicKey p then Err (ErrNew ''client and server identities must differ'')
      else Ok ())))"

definition Profile_Validate ::
  "(string \<Rightarrow> url res) \<Rightarrow> (string \<Rightarrow> duration res) \<Rightarrow> (byte list \<Rightarrow> byte list) \<Rightarrow> Profile \<Rightarrow> unit res" where
  "Profile_Validate urlParse parseDuration public p =
     (if lp_Schema p \<noteq> LinuxSchema \<or> \<not> label_ok (lp_Name p) then Err (ErrNew ''invalid Linux schema/name'')
      else if (case Key (lp_PrivateKey p) of Ok k \<Rightarrow> \<not> clamped k | _ \<Rightarrow> True) then Err (ErrNew ''invalid WireGuard private key'')
      else if (case Key (lp_PresharedKey p) of Ok k \<Rightarrow> k = zero_psk | _ \<Rightarrow> True) then Err (ErrNew ''invalid preshared key'')
      else case ParsePrefix (lp_Address p) of
        Ok client \<Rightarrow>
          if \<not> Is4 (pfx_addr client) \<or> \<not> IsPrivate (pfx_addr client) \<or> pfx_bits client \<noteq> 32
          then Err (ErrNew ''Linux client address must be a private IPv4 /32'')
          else bind_res (Proposal_Validate urlParse parseDuration (profile_proposal p)) (\<lambda>_.
            profile_policy public (pfx_addr client) p)
      | _ \<Rightarrow> Err (ErrNew ''Linux client address must be a private IPv4 /32''))"

section \<open>Reading a profile\<close>

fun string_entries :: "(string \<times> json) list \<Rightarrow> (string \<times> string) list res" where
  "string_entries [] = Ok []"
| "string_entries ((k, v) # ms) = bind_res (json_string v) (\<lambda>s. bind_res (string_entries ms) (\<lambda>es. Ok ((k, s) # es)))"

text \<open>A map of strings; members are added to what is there, the last one of a name counts.\<close>

definition json_string_map :: "(string \<times> string) list \<Rightarrow> json \<Rightarrow> (string \<times> string) list res" where
  "json_string_map old v = (case v of
      JObj ms \<Rightarrow> bind_res (string_entries ms) (\<lambda>es. Ok (fold (\<lambda>(k, s) m. AList.update k s m) es old))
    | _ \<Rightarrow> Err err_schema)"

definition profile_fields :: "string list" where
  "profile_fields = [''schema'', ''name'', ''private_key'', ''preshared_key'', ''server_public_key'', ''address'', ''allowed_ips'',
     ''endpoint'', ''stun_servers'', ''opendht'', ''hostnames'', ''lan_hostnames'']"

definition set_profile :: "string \<Rightarrow> json \<Rightarrow> Profile \<Rightarrow> Profile res" where
  "set_profile n v p =
     (if n = ''schema'' then bind_res (json_string v) (\<lambda>s. Ok (p\<lparr>lp_Schema := s\<rparr>))
      else if n = ''name'' then bind_res (json_string v) (\<lambda>s. Ok (p\<lparr>lp_Name := s\<rparr>))
      else if n = ''private_key'' then bind_res (json_string v) (\<lambda>s. Ok (p\<lparr>lp_PrivateKey := s\<rparr>))
      else if n = ''preshared_key'' then bind_res (json_string v) (\<lambda>s. Ok (p\<lparr>lp_PresharedKey := s\<rparr>))
      else if n = ''server_public_key'' then bind_res (json_string v) (\<lambda>s. Ok (p\<lparr>lp_ServerPublicKey := s\<rparr>))
      else if n = ''address'' then bind_res (json_string v) (\<lambda>s. Ok (p\<lparr>lp_Address := s\<rparr>))
      else if n = ''allowed_ips'' then bind_res (json_strings (lp_AllowedIPs p) v) (\<lambda>l. Ok (p\<lparr>lp_AllowedIPs := l\<rparr>))
      else if n = ''endpoint'' then bind_res (json_string v) (\<lambda>s. Ok (p\<lparr>lp_Endpoint := s\<rparr>))
      else if n = ''stun_servers'' then bind_res (json_strings (lp_STUN p) v) (\<lambda>l. Ok (p\<lparr>lp_STUN := l\<rparr>))
      else if n = ''opendht'' then bind_res (json_strings (lp_OpenDHT p) v) (\<lambda>l. Ok (p\<lparr>lp_OpenDHT := l\<rparr>))
      else if n = ''hostnames'' then bind_res (json_string_map (lp_Hostnames p) v) (\<lambda>m. Ok (p\<lparr>lp_Hostnames := m\<rparr>))
      else bind_res (json_string_map (lp_LANHostnames p) v) (\<lambda>m. Ok (p\<lparr>lp_LANHostnames := m\<rparr>)))"

definition zero_profile :: Profile where
  "zero_profile = \<lparr>lp_Schema = [], lp_Name = [], lp_PrivateKey = [], lp_PresharedKey = [], lp_ServerPublicKey = [], lp_Address = [],
     lp_AllowedIPs = [], lp_Endpoint = [], lp_STUN = [], lp_OpenDHT = [], lp_Hostnames = [], lp_LANHostnames = []\<rparr>"

definition Profile_Decode ::
  "unicode \<Rightarrow> (string \<Rightarrow> url res) \<Rightarrow> (string \<Rightarrow> duration res) \<Rightarrow> (byte list \<Rightarrow> byte list) \<Rightarrow> string \<Rightarrow> Profile res" where
  "Profile_Decode u urlParse parseDuration public b =
     (if MaxProfileBytes < length b then Err (ErrNew ''profile input exceeds bounds'')
      else bind_res (DecodeJSON u (json_struct u profile_fields set_profile zero_profile) b) (\<lambda>p.
      case member_names b of
        None \<Rightarrow> Err (ErrNew ''invalid profile'')
      | Some names \<Rightarrow>
          if list_ex (\<lambda>n. n \<noteq> ToLower u n) names then Err (ErrNew ''profile fields must be lowercase'')
          else bind_res (Profile_Validate urlParse parseDuration public p) (\<lambda>_. Ok p)))"

text \<open>\<open>input\<close> is what a reader limited to one byte more than the bound returns.\<close>

definition Profile_Read ::
  "unicode \<Rightarrow> (string \<Rightarrow> url res) \<Rightarrow> (string \<Rightarrow> duration res) \<Rightarrow> (byte list \<Rightarrow> byte list) \<Rightarrow> string res \<Rightarrow> Profile res" where
  "Profile_Read u urlParse parseDuration public input =
     (case input of
        Ok b \<Rightarrow> if MaxProfileBytes < length b then Err (ErrNew ''profile input exceeds bounds'') else Profile_Decode u urlParse parseDuration public b
      | Panic \<Rightarrow> Panic
      | Err _ \<Rightarrow> Err (ErrNew ''profile input exceeds bounds''))"

text \<open>\<open>file\<close> is the opened file: whether it is a regular file, its permission bits, and its content.\<close>

definition Profile_Load ::
  "unicode \<Rightarrow> (string \<Rightarrow> url res) \<Rightarrow> (string \<Rightarrow> duration res) \<Rightarrow> (byte list \<Rightarrow> byte list)
    \<Rightarrow> ((bool \<times> nat) res \<times> string res) option \<Rightarrow> Profile res" where
  "Profile_Load u urlParse parseDuration public file =
     (case file of
        None \<Rightarrow> Err (ErrNew ''cannot open Linux profile'')
      | Some (st, input) \<Rightarrow>
          (case st of
             Ok (regular, perm) \<Rightarrow>
               if \<not> regular \<or> perm mod 64 \<noteq> 0 then Err (ErrNew ''profile must be a private regular file'')
               else Profile_Read u urlParse parseDuration public input
           | Panic \<Rightarrow> Panic
           | Err _ \<Rightarrow> Err (ErrNew ''profile must be a private regular file'')))"

section \<open>What a profile renders to\<close>

text \<open>The members of the public view, in the order of the source.\<close>

definition Profile_Public :: "(byte list \<Rightarrow> byte list) \<Rightarrow> Profile \<Rightarrow> (string \<times> json) list" where
  "Profile_Public public p =
     [(''schema'', JStr (lp_Schema p)), (''name'', JStr (lp_Name p)), (''public_key'', JStr (Profile_PublicKey public p)),
      (''server_public_key'', JStr (lp_ServerPublicKey p)), (''address'', JStr (lp_Address p)),
      (''allowed_ips'', JArr (map JStr (lp_AllowedIPs p))), (''endpoint'', JStr (lp_Endpoint p)),
      (''hostnames'', JObj (map (\<lambda>(k, v). (k, JStr v)) (lp_Hostnames p))),
      (''lan_hostnames'', JObj (map (\<lambda>(k, v). (k, JStr v)) (lp_LANHostnames p))),
      (''listen_port'', JNum (dec LinuxListenPort)), (''proxy_port'', JNum (dec LinuxProxyPort))]"

definition Profile_WireGuard :: "Profile \<Rightarrow> string" where
  "Profile_WireGuard p =
     ''[Interface]'' @ nl @ ''PrivateKey = '' @ lp_PrivateKey p @ nl @ ''ListenPort = '' @ dec LinuxListenPort @ nl @ nl
     @ ''[Peer]'' @ nl @ ''PublicKey = '' @ lp_ServerPublicKey p @ nl @ ''PresharedKey = '' @ lp_PresharedKey p @ nl
     @ ''AllowedIPs = '' @ join '', '' (lp_AllowedIPs p) @ nl @ ''Endpoint = '' @ lp_Endpoint p @ nl
     @ ''PersistentKeepalive = 25'' @ nl"

text \<open>The tree that is handed to the YAML writer.\<close>

definition Profile_Discovery :: "Profile \<Rightarrow> (string \<times> yvalue) list" where
  "Profile_Discovery p =
     [(''refresh_interval'', YString ''180s''),
      (''interfaces'', YMap [(LinuxInterface, YMap [(''protocol'', YString ''ipv4''),
          (''proxy'', YMap [(''listen'', YInt (int LinuxProxyPort))]),
          (''peers'', YMap [(''nas'', YMap [(''public_key'', YString (lp_ServerPublicKey p)), (''plugin'', YString ''dht''),
             (''protocol'', YString ''ipv4'')])])])]),
      (''plugins'', YMap [(''dht'', YMap [(''type'', YString ''builtin''), (''name'', YString ''opendht''),
          (''endpoints'', YStrings (lp_OpenDHT p)), (''timeout'', YString ''10s'')])]),
      (''stun'', YMap [(''addresses'', YStrings (lp_STUN p))]),
      (''log'', YMap [(''level'', YString ''info''), (''format'', YString ''json'')])]"

section \<open>Files\<close>

text \<open>The outcomes of creating a new file and of writing it whole. Files are created with \<^verbatim>\<open>O_EXCL\<close>: where there is
  a file already, the system refuses.\<close>

record file_env =
  fe_create :: "string \<Rightarrow> bool"
  fe_write :: "string \<Rightarrow> bool"

definition WriteNew :: "file_env \<Rightarrow> string \<Rightarrow> string \<Rightarrow> file_op list \<times> unit res" where
  "WriteNew env path b =
     (if \<not> fe_create env path then ([], Err (ErrNew ''output must be a new private file''))
      else if \<not> fe_write env path then ([FileCreate path, FileRemove path], Err (ErrNew ''cannot write complete output''))
      else ([FileCreate path, FileWrite path b], Ok ()))"

definition exclusive :: "file_env \<Rightarrow> (string \<rightharpoonup> string) \<Rightarrow> bool" where
  "exclusive env fs \<longleftrightarrow> (\<forall>path\<in>dom fs. \<not> fe_create env path)"

text \<open>The files that exist after a sequence of operations, with their contents; \<open>rm\<close> says which removals succeed. The code
  ignores the error of one that does not.\<close>

fun files_after :: "(string \<Rightarrow> bool) \<Rightarrow> file_op list \<Rightarrow> (string \<rightharpoonup> string) \<Rightarrow> (string \<rightharpoonup> string)" where
  "files_after rm [] fs = fs"
| "files_after rm (FileCreate p # ops) fs = files_after rm ops (fs(p \<mapsto> []))"
| "files_after rm (FileWrite p b # ops) fs = files_after rm ops (fs(p \<mapsto> b))"
| "files_after rm (FileRemove p # ops) fs = files_after rm ops (if rm p then fs(p := None) else fs)"
| "files_after rm (FileRemoveAll d # ops) fs = files_after rm ops (\<lambda>q. if q = d \<or> HasPrefix q (d @ ''/'') then None else fs q)"
| "files_after rm (PrintLine s # ops) fs = files_after rm ops fs"

section \<open>Searching in texts\<close>

fun str_index :: "string \<Rightarrow> string \<Rightarrow> nat option" where
  "str_index sub [] = (if sub = [] then Some 0 else None)"
| "str_index sub (c # cs) = (if HasPrefix (c # cs) sub then Some 0 else map_option Suc (str_index sub cs))"

text \<open>\<^verbatim>\<open>strings.Count\<close> of a nonempty text: occurrences that do not overlap.\<close>

function str_count :: "string \<Rightarrow> string \<Rightarrow> nat" where
  "str_count sub s =
     (if sub = [] then 0
      else case str_index sub s of None \<Rightarrow> 0 | Some i \<Rightarrow> Suc (str_count sub (drop (i + length sub) s)))"
  by pat_completeness auto

lemma str_index_bound: "str_index sub s = Some i \<Longrightarrow> i + length sub \<le> length s \<and> take (length sub) (drop i s) = sub"
proof (induction s arbitrary: i)
  case (Cons c s)
  show ?case
  proof (cases "HasPrefix (c # s) sub")
    case True
    then have "take (length sub) (c # s) = sub" "i = 0" using Cons.prems by (simp_all add: HasPrefix_def)
    moreover from this(1) have "length sub \<le> length (c # s)" by (metis length_take min.cobounded1)
    ultimately show ?thesis by simp
  qed (use Cons in \<open>auto simp del: take_Suc_Cons\<close>)
qed (auto split: if_splits)

termination str_count
  by (relation "measure (\<lambda>(sub, s). length s)") (auto dest!: str_index_bound simp flip: length_greater_0_conv)

declare str_count.simps [simp del]

text \<open>White space of a regular expression, and the two line patterns. A match is a value and the rest of the
  text after it; the space after the equals sign may span lines.\<close>

definition re_space :: "char \<Rightarrow> bool" where
  "re_space c \<longleftrightarrow> c \<in> {CHR 0x09, CHR 0x0A, CHR 0x0C, CHR 0x0D, CHR 0x20}"

definition after_equals :: "string \<Rightarrow> string \<Rightarrow> string option" where
  "after_equals name s =
     (if \<not> HasPrefix s name then None
      else case dropWhile re_space (drop (length name) s) of [] \<Rightarrow> None | c # r \<Rightarrow> if c = CHR ''='' then Some r else None)"

definition privateLine :: "string \<Rightarrow> (string \<times> string) option" where
  "privateLine s = (case after_equals ''PrivateKey'' s of
      None \<Rightarrow> None
    | Some r \<Rightarrow>
        let r = dropWhile re_space r; v = takeWhile (\<lambda>c. \<not> re_space c) r; rest = dropWhile (\<lambda>c. \<not> re_space c) r in
        if v \<noteq> [] \<and> (CHR 0x0A \<in> set (takeWhile re_space rest) \<or> dropWhile re_space rest = []) then Some (v, rest) else None)"

definition routeLine :: "string \<Rightarrow> (string \<times> string) option" where
  "routeLine s = (case after_equals ''AllowedIPs'' s of
      None \<Rightarrow> None
    | Some r \<Rightarrow>
        (case dropWhile re_space r of
           [] \<Rightarrow> (case dropWhile (\<lambda>c. c = CHR 0x0A) (rev r) of
                     [] \<Rightarrow> None
                   | c # _ \<Rightarrow> Some ([c], takeWhile (\<lambda>c. c = CHR 0x0A) (rev r)))
         | v \<Rightarrow> Some (takeWhile (\<lambda>c. c \<noteq> CHR 0x0A) v, dropWhile (\<lambda>c. c \<noteq> CHR 0x0A) v)))"

text \<open>All matches: at the start of the text and after each line break, continuing after a match. The fuel is the
  length of the text.\<close>

fun all_matches :: "(string \<Rightarrow> (string \<times> string) option) \<Rightarrow> nat \<Rightarrow> bool \<Rightarrow> string \<Rightarrow> string list" where
  "all_matches pat 0 bol s = []"
| "all_matches pat (Suc n) bol [] = []"
| "all_matches pat (Suc n) bol (c # cs) =
     (case (if bol then pat (c # cs) else None) of
        Some (v, rest) \<Rightarrow> v # all_matches pat n False rest
      | None \<Rightarrow> all_matches pat n (c = CHR 0x0A) cs)"

lemma all_matches_code [code]:
  "all_matches pat n bol s =
     (if n = 0 then [] else case s of [] \<Rightarrow> [] | c # cs \<Rightarrow>
       (case (if bol then pat (c # cs) else None) of
          Some (v, rest) \<Rightarrow> v # all_matches pat (n - 1) False rest
        | None \<Rightarrow> all_matches pat (n - 1) (c = CHR 0x0A) cs))"
  by (cases n; cases s) (simp_all split: option.split prod.split)

definition FindAll :: "(string \<Rightarrow> (string \<times> string) option) \<Rightarrow> string \<Rightarrow> string list" where
  "FindAll pat s = all_matches pat (length s) True s"

section \<open>The server's configuration (server.go)\<close>

text \<open>The peers of the server are the map found in its YAML tree, so changing them changes the tree.\<close>

record ServerConf =
  sv_WG :: string
  sv_YAML :: "(string \<times> yvalue) list"
  sv_PublicKey :: string
  sv_STUN :: "string list"
  sv_DHT :: "string list"

definition yaml_lookup :: "(string \<times> yvalue) list \<Rightarrow> string \<Rightarrow> (string \<times> yvalue) list res" where
  "yaml_lookup m key = (case map_of m key of Some (YMap v) \<Rightarrow> Ok v | _ \<Rightarrow> Err (ErrNew ''unsupported server YAML layout''))"

definition yaml_peers :: "(string \<times> yvalue) list \<Rightarrow> (string \<times> yvalue) list res" where
  "yaml_peers y =
     bind_res (yaml_lookup y ''interfaces'') (\<lambda>ifs.
     bind_res (yaml_lookup ifs ''wg0'') (\<lambda>iface. yaml_lookup iface ''peers''))"

definition set_yaml_peers :: "(string \<times> yvalue) list \<Rightarrow> (string \<times> yvalue) list \<Rightarrow> (string \<times> yvalue) list" where
  "set_yaml_peers peers y =
     (case yaml_lookup y ''interfaces'' of
        Ok ifs \<Rightarrow>
          (case yaml_lookup ifs ''wg0'' of
             Ok iface \<Rightarrow> AList.update ''interfaces'' (YMap (AList.update ''wg0'' (YMap (AList.update ''peers'' (YMap peers) iface)) ifs)) y
           | _ \<Rightarrow> y)
      | _ \<Rightarrow> y)"

definition boundedFile :: "string res option \<Rightarrow> string res" where
  "boundedFile file = (case file of
      None \<Rightarrow> Err (ErrNew ''cannot read server configuration'')
    | Some (Ok b) \<Rightarrow> if MaxConfigBytes < length b then Err (ErrNew ''server configuration exceeds bounds'') else Ok b
    | Some Panic \<Rightarrow> Panic
    | Some (Err _) \<Rightarrow> Err (ErrNew ''server configuration exceeds bounds''))"

definition dht_endpoints :: "(string \<times> yvalue) list \<Rightarrow> string list res" where
  "dht_endpoints y =
     bind_res (yaml_lookup y ''plugins'') (\<lambda>pl.
     bind_res (yaml_lookup pl ''dht'') (\<lambda>dht.
     if map_of dht ''name'' \<noteq> Some (YString ''opendht'') \<or> map_of dht ''type'' \<noteq> Some (YString ''builtin'')
     then Err (ErrNew ''expected built-in OpenDHT plugin'')
     else case map_of dht ''endpoints'' of
       Some (YList vs) \<Rightarrow> (case string_items vs of Some l \<Rightarrow> Ok l | None \<Rightarrow> Err (ErrNew ''invalid OpenDHT endpoint''))
     | _ \<Rightarrow> Err (ErrNew ''expected OpenDHT endpoint list'')))"

text \<open>\<open>servers\<close> is the outcome of loading the discovery configuration (theory \<open>Config\<close>) and asking it for its
  STUN servers, \<open>unmarshal\<close> the YAML reader.\<close>

definition LoadServer ::
  "(byte list \<Rightarrow> byte list) \<Rightarrow> (string \<Rightarrow> (string \<times> yvalue) list res) \<Rightarrow> string res option \<Rightarrow> string list res \<Rightarrow> string res option \<Rightarrow> ServerConf res" where
  "LoadServer public unmarshal wgFile servers ymlFile =
     bind_res (boundedFile wgFile) (\<lambda>wg.
     case FindAll privateLine wg of
       [key] \<Rightarrow>
         (case b64_decode key of
            Ok k \<Rightarrow>
              if length k \<noteq> 32 then Err (ErrNew ''invalid server private key'')
              else
                bind_res (replace_err servers (ErrNew ''invalid server discovery config'')) (\<lambda>stun.
                bind_res (boundedFile ymlFile) (\<lambda>b.
                bind_res (replace_err (unmarshal b) (ErrNew ''invalid server YAML'')) (\<lambda>y.
                bind_res (yaml_peers y) (\<lambda>_.
                bind_res (dht_endpoints y) (\<lambda>dht.
                Ok \<lparr>sv_WG = wg, sv_YAML = y, sv_PublicKey = b64_encode (public k), sv_STUN = stun, sv_DHT = dht\<rparr>)))))
          | Panic \<Rightarrow> Panic
          | Err _ \<Rightarrow> Err (ErrNew ''invalid server private key''))
     | _ \<Rightarrow> Err (ErrNew ''expected one server interface identity''))"

definition peer_routes :: "string \<Rightarrow> string list" where
  "peer_routes wg = concat (map (\<lambda>line. map TrimSpace (Split (CHR '','') line)) (FindAll routeLine wg))"

text \<open>The public view: the key, the STUN servers, the store's endpoints, and the addresses of the peers.\<close>

definition Server_Public :: "ServerConf \<Rightarrow> string \<times> string list \<times> string list \<times> string list" where
  "Server_Public s = (sv_PublicKey s, sv_STUN s, sv_DHT s, peer_routes (sv_WG s))"

section \<open>Adding and revoking a managed peer\<close>

definition block_begin :: "string \<Rightarrow> string" where "block_begin name = ''# BEGIN LINUX '' @ name @ nl"
definition block_end :: "string \<Rightarrow> string" where "block_end name = ''# END LINUX '' @ name @ nl"

definition TrimRight_nl :: "string \<Rightarrow> string" where
  "TrimRight_nl s = rev (dropWhile (\<lambda>c. c = CHR 0x0A) (rev s))"

definition managed_block :: "(byte list \<Rightarrow> byte list) \<Rightarrow> Profile \<Rightarrow> string" where
  "managed_block public p =
     ''[Peer]'' @ nl @ ''PublicKey = '' @ Profile_PublicKey public p @ nl @ ''PresharedKey = '' @ lp_PresharedKey p @ nl
     @ ''AllowedIPs = '' @ lp_Address p @ nl @ ''PersistentKeepalive = 25'' @ nl"

text \<open>Taking the managed block of a peer out of both files, if it is there and is this identity.\<close>

definition remove_managed ::
  "(byte list \<Rightarrow> byte list) \<Rightarrow> Profile \<Rightarrow> string \<Rightarrow> (string \<times> yvalue) list \<Rightarrow> (string \<times> (string \<times> yvalue) list) res" where
  "remove_managed public p wg peers =
     (let begin = block_begin (lp_Name p); finish = block_end (lp_Name p); name = ''linux-'' @ lp_Name p in
      case (str_index begin wg, str_index finish wg, map_of peers name) of
        (None, None, None) \<Rightarrow> Ok (wg, peers)
      | (Some i, Some j, Some v) \<Rightarrow>
          if j < i \<or> str_count begin wg \<noteq> 1 \<or> str_count finish wg \<noteq> 1
          then Err (ErrNew ''inconsistent managed peer; review private files'')
          else if (case v of YMap peer \<Rightarrow> map_of peer ''public_key'' \<noteq> Some (YString (Profile_PublicKey public p)) | _ \<Rightarrow> True)
                  \<or> str_index (''PublicKey = '' @ Profile_PublicKey public p @ nl) (take (j - i) (drop i wg)) = None
          then Err (ErrNew ''refusing to replace a different managed identity'')
          else Ok (take i wg @ drop (j + length finish) wg, filter (\<lambda>m. fst m \<noteq> name) peers)
      | _ \<Rightarrow> Err (ErrNew ''inconsistent managed peer; review private files''))"

definition collides :: "addr \<Rightarrow> string \<Rightarrow> bool" where
  "collides ip r = (case ParsePrefix r of Ok p \<Rightarrow> prefix_Contains p ip | _ \<Rightarrow> True)"

definition add_managed ::
  "(byte list \<Rightarrow> byte list) \<Rightarrow> Profile \<Rightarrow> string \<Rightarrow> (string \<times> yvalue) list \<Rightarrow> (string \<times> (string \<times> yvalue) list) res" where
  "add_managed public p wg peers =
     (case ParsePrefix (lp_Address p) of
        Ok a \<Rightarrow>
          if list_ex (collides (pfx_addr a)) (peer_routes wg) then Err (ErrNew ''existing server peer address collision'')
          else if str_index (Profile_PublicKey public p) wg \<noteq> None then Err (ErrNew ''identity already belongs to another peer'')
          else Ok (TrimRight_nl wg @ nl @ nl @ block_begin (lp_Name p) @ managed_block public p @ block_end (lp_Name p),
                   AList.update (''linux-'' @ lp_Name p)
                     (YMap [(''public_key'', YString (Profile_PublicKey public p)), (''plugin'', YString ''dht''), (''protocol'', YString ''ipv4'')]) peers)
      | _ \<Rightarrow> Panic)"

text \<open>The candidate files, the WireGuard text and the YAML tree before it is printed, with the caller's server.
  The receiver is a value, but its map of peers is shared with the caller, so the caller's tree changes too.\<close>

definition Edited ::
  "(string \<Rightarrow> url res) \<Rightarrow> (string \<Rightarrow> duration res) \<Rightarrow> (byte list \<Rightarrow> byte list) \<Rightarrow> ServerConf \<Rightarrow> Profile \<Rightarrow> bool
    \<Rightarrow> ServerConf \<times> (string \<times> (string \<times> yvalue) list) res" where
  "Edited urlParse parseDuration public s p revoke =
     (case Profile_Validate urlParse parseDuration public p of
        Panic \<Rightarrow> (s, Panic) | Err e \<Rightarrow> (s, Err e)
      | Ok _ \<Rightarrow>
          if lp_ServerPublicKey p \<noteq> sv_PublicKey s then (s, Err (ErrNew ''profile belongs to another server''))
          else
            let peers = (case yaml_peers (sv_YAML s) of Ok m \<Rightarrow> m | _ \<Rightarrow> []); mutated = (\<lambda>m. s\<lparr>sv_YAML := set_yaml_peers m (sv_YAML s)\<rparr>) in
            (case remove_managed public p (sv_WG s) peers of
               Panic \<Rightarrow> (s, Panic) | Err e \<Rightarrow> (s, Err e)
             | Ok (wg, peers') \<Rightarrow>
                 if revoke then (mutated peers', Ok (wg, sv_YAML (mutated peers')))
                 else (case add_managed public p wg peers' of
                     Panic \<Rightarrow> (mutated peers', Panic) | Err e \<Rightarrow> (mutated peers', Err e)
                   | Ok (wg', peers'') \<Rightarrow> (mutated peers'', Ok (wg', sv_YAML (mutated peers''))))))"

text \<open>\<open>st\<close> is the private directory \<open>dir\<close> with its permission bits, \<open>marshal\<close> the YAML writer.\<close>

definition WriteEdited ::
  "(string \<Rightarrow> url res) \<Rightarrow> (string \<Rightarrow> duration res) \<Rightarrow> (byte list \<Rightarrow> byte list) \<Rightarrow> ((string \<times> yvalue) list \<Rightarrow> string res) \<Rightarrow> file_env
    \<Rightarrow> (bool \<times> nat) option \<Rightarrow> string \<Rightarrow> ServerConf \<Rightarrow> Profile \<Rightarrow> bool \<Rightarrow> ServerConf \<times> file_op list \<times> unit res" where
  "WriteEdited urlParse parseDuration public marshal env st dir s p revoke =
     (if (case st of Some (isDir, perm) \<Rightarrow> \<not> isDir \<or> perm mod 64 \<noteq> 0 | None \<Rightarrow> True)
      then (s, [], Err (ErrNew ''candidate directory must be private''))
      else
        let (s', files) = Edited urlParse parseDuration public s p revoke in
        (case bind_res files (\<lambda>(wg, y). bind_res (replace_err (marshal y) (ErrNew ''cannot render discovery config'')) (\<lambda>yml. Ok (wg, yml))) of
           Panic \<Rightarrow> (s', [], Panic) | Err e \<Rightarrow> (s', [], Err e)
         | Ok (wg, yml) \<Rightarrow>
             let wgPath = dir @ ''/wg0.conf''; ymlPath = dir @ ''/stunmesh.yml'' in
             (case WriteNew env wgPath wg of
                (ops, Ok _) \<Rightarrow>
                  (case WriteNew env ymlPath yml of
                     (ops', Ok _) \<Rightarrow> (s', ops @ ops', Ok ())
                   | (ops', e) \<Rightarrow> (s', ops @ ops' @ [FileRemove wgPath], e))
              | (ops, e) \<Rightarrow> (s', ops, e))))"


section \<open>The interface (runtime.go)\<close>

text \<open>A command of the \<^verbatim>\<open>ip\<close> or \<^verbatim>\<open>wg\<close> tool. What a command answers may depend on all that ran before it.\<close>

datatype command = Ip "string list" | Wg "string list"

type_synonym shell = "command list \<Rightarrow> command \<Rightarrow> string option"

definition ip_delete :: command where "ip_delete = Ip [''link'', ''delete'', ''dev'', LinuxInterface]"
definition ip_show :: command where "ip_show = Ip [''link'', ''show'', ''dev'', LinuxInterface]"
definition ip_add :: command where "ip_add = Ip [''link'', ''add'', LinuxInterface, ''type'', ''wireguard'']"
definition wg_show :: command where "wg_show = Wg [''show'', LinuxInterface, ''public-key'']"

definition err_ip :: error where "err_ip = ErrNew ''owned interface/route operation failed''"

definition run_ip :: "shell \<Rightarrow> command list \<Rightarrow> command \<Rightarrow> command list \<times> unit res" where
  "run_ip sh h c = (h @ [c], if sh h c = None then Err err_ip else Ok ())"

definition Cleanup :: "shell \<Rightarrow> string \<Rightarrow> command list \<Rightarrow> command list \<times> unit res" where
  "Cleanup sh publicKey h =
     (case sh h wg_show of
        None \<Rightarrow>
          (case run_ip sh (h @ [wg_show]) ip_show of
             (h', Ok _) \<Rightarrow> (h', Err (ErrNew ''cannot establish interface ownership''))
           | (h', _) \<Rightarrow> (h', Ok ()))
      | Some out \<Rightarrow>
          if TrimSpace out \<noteq> publicKey then (h @ [wg_show], Err (ErrNew ''refusing to remove another WireGuard identity''))
          else run_ip sh (h @ [wg_show]) ip_delete)"

text \<open>Commands in order, up to the first that fails.\<close>

fun run_all :: "shell \<Rightarrow> (command \<times> error) list \<Rightarrow> command list \<Rightarrow> command list \<times> unit res" where
  "run_all sh [] h = (h, Ok ())"
| "run_all sh ((c, e) # cs) h = (if sh h c = None then (h @ [c], Err e) else run_all sh cs (h @ [c]))"

definition setup_commands :: "Profile \<Rightarrow> string \<Rightarrow> (command \<times> error) list" where
  "setup_commands p dir =
     [(Wg [''setconf'', LinuxInterface, dir @ ''/wg.conf''], ErrNew ''native WireGuard configuration failed''),
      (Ip [''address'', ''add'', lp_Address p, ''dev'', LinuxInterface], err_ip),
      (Ip [''link'', ''set'', ''dev'', LinuxInterface, ''mtu'', ''1280'', ''up''], err_ip)]
     @ map (\<lambda>route. (Ip [''route'', ''add'', route, ''dev'', LinuxInterface, ''metric'', ''50'', ''proto'', ''186''], err_ip)) (lp_AllowedIPs p)"

text \<open>The commands, the file operations and the outcome. The deferred deletion runs on every error after
  the interface was added.\<close>

definition Setup ::
  "(string \<Rightarrow> url res) \<Rightarrow> (string \<Rightarrow> duration res) \<Rightarrow> (byte list \<Rightarrow> byte list) \<Rightarrow> file_env \<Rightarrow> shell \<Rightarrow> Profile \<Rightarrow> string \<Rightarrow> command list
    \<Rightarrow> command list \<times> file_op list \<times> unit res" where
  "Setup urlParse parseDuration public env sh p dir h =
     (case Profile_Validate urlParse parseDuration public p of
        Panic \<Rightarrow> (h, [], Panic) | Err e \<Rightarrow> (h, [], Err e)
      | Ok _ \<Rightarrow>
          if sh h ip_add = None then (h @ [ip_add], [], Err err_ip)
          else
            let h1 = h @ [ip_add]; (ops, written) = WriteNew env (dir @ ''/wg.conf'') (Profile_WireGuard p) in
            (case written of
               Ok _ \<Rightarrow>
                 (case run_all sh (setup_commands p dir) h1 of
                    (h2, Ok _) \<Rightarrow> (h2, ops, Ok ())
                  | (h2, e) \<Rightarrow> (h2 @ [ip_delete], ops, e))
             | e \<Rightarrow> (h1 @ [ip_delete], ops, e)))"

text \<open>The ownership receipt: the interface's index and the key. \<open>rcpt\<close> is the file: absent, unreadable, or its
  decoded content; \<open>ifindex\<close> the index of the interface now.\<close>

datatype receipt_file = NoReceipt | BadReceipt | ReceiptRead "(int \<times> string) option"

definition CleanupOwned ::
  "shell \<Rightarrow> string \<Rightarrow> receipt_file \<Rightarrow> int option \<Rightarrow> string \<Rightarrow> unit res \<Rightarrow> command list \<Rightarrow> command list \<times> file_op list \<times> unit res" where
  "CleanupOwned sh publicKey rcpt ifindex path removal h =
     (case rcpt of
        NoReceipt \<Rightarrow> (h, [], Ok ())
      | BadReceipt \<Rightarrow> (h, [], Err (ErrNew ''cannot read interface ownership receipt''))
      | ReceiptRead None \<Rightarrow> (h, [], Err (ErrNew ''invalid interface ownership receipt''))
      | ReceiptRead (Some (idx, key)) \<Rightarrow>
          if key \<noteq> publicKey then (h, [], Err (ErrNew ''invalid interface ownership receipt''))
          else case ifindex of
            Some i \<Rightarrow>
              if i \<noteq> idx then (h, [], Err (ErrNew ''refusing a replacement interface''))
              else (case Cleanup sh publicKey h of
                 (h', Ok _) \<Rightarrow> (h', [FileRemove path], removal)
               | (h', e) \<Rightarrow> (h', [], e))
          | None \<Rightarrow>
              (case run_ip sh h ip_show of
                 (h', Ok _) \<Rightarrow> (h', [], Err (ErrNew ''cannot verify interface index''))
               | (h', _) \<Rightarrow> (h', [FileRemove path], removal)))"

text \<open>A whole run. \<open>tmp\<close> is the private directory, \<open>ownership\<close> the path of the receipt (empty for none),
  \<open>ifindex\<close> the interface's index when it is recorded and \<open>rcpt\<close>, \<open>ifindex'\<close>, \<open>removal\<close> what the deferred cleanup
  finds; \<open>marshal\<close> is the YAML writer, \<open>daemon\<close> the outcome of the service with the commands it has run.
  The deferred calls run in reverse order.\<close>

record run_env =
  re_tmp :: "string option"
  re_ifindex :: "int option"
  re_receipt :: receipt_file
  re_ifindex' :: "int option"
  re_removal :: "unit res"
  re_daemon :: "unit res"

definition receipt_json :: "int \<Rightarrow> string \<Rightarrow> json" where
  "receipt_json idx key = JObj [(''ifindex'', JNum (Itoa idx)), (''public_key'', JStr key)]"

definition run_service ::
  "((string \<times> yvalue) list \<Rightarrow> string res) \<Rightarrow> file_env \<Rightarrow> run_env \<Rightarrow> Profile \<Rightarrow> string \<Rightarrow> file_op list \<times> unit res" where
  "run_service marshal env w p dir =
     (case marshal (Profile_Discovery p) of
        Ok yml \<Rightarrow>
          (case WriteNew env (dir @ ''/stunmesh.yml'') yml of
             (ops, Ok _) \<Rightarrow> (ops, re_daemon w)
           | (ops, e) \<Rightarrow> (ops, e))
      | Panic \<Rightarrow> ([], Panic)
      | Err e \<Rightarrow> ([], Err e))"

definition run_profile ::
  "(string \<Rightarrow> url res) \<Rightarrow> (string \<Rightarrow> duration res) \<Rightarrow> (byte list \<Rightarrow> byte list) \<Rightarrow> ((string \<times> yvalue) list \<Rightarrow> string res) \<Rightarrow> file_env \<Rightarrow> shell \<Rightarrow> run_env
    \<Rightarrow> Profile \<Rightarrow> string \<Rightarrow> command list \<Rightarrow> command list \<times> file_op list \<times> unit res" where
  "run_profile urlParse parseDuration public marshal env sh w p ownership h =
     (case re_tmp w of
        None \<Rightarrow> (h, [], Err (ErrNew ''cannot allocate private runtime directory''))
      | Some dir \<Rightarrow>
          (case Setup urlParse parseDuration public env sh p dir h of
             (h1, ops, Ok _) \<Rightarrow>
               let key = Profile_PublicKey public p in
               if ownership = [] then
                 let (ops', out) = run_service marshal env w p dir; (h2, _) = Cleanup sh key h1 in
                 (h2, ops @ ops' @ [FileRemoveAll dir], out)
               else
                 (case re_ifindex w of
                    None \<Rightarrow> (fst (Cleanup sh key h1), ops @ [FileRemoveAll dir], Err (ErrNew ''cannot record owned interface''))
                  | Some idx \<Rightarrow>
                      (case WriteNew env ownership (json_print (receipt_json idx key)) of
                         (ops1, Ok _) \<Rightarrow>
                           let (ops2, out) = run_service marshal env w p dir;
                               (h2, ops3, _) = CleanupOwned sh key (re_receipt w) (re_ifindex' w) ownership (re_removal w) h1;
                               (h3, _) = Cleanup sh key h2 in
                           (h3, ops @ ops1 @ ops2 @ ops3 @ [FileRemoveAll dir], out)
                       | (ops1, e) \<Rightarrow> (fst (Cleanup sh key h1), ops @ ops1 @ [FileRemoveAll dir], e)))
           | (h1, ops, e) \<Rightarrow> (h1, ops @ [FileRemoveAll dir], e)))"

section \<open>A server-side enrollment (cmd/provision/server.go)\<close>

text \<open>The output directory (whether it is one, its permission bits and its number of entries), the loaded server, the
  random source, the outcomes of the key tool, of file operations and of the QR tool.\<close>

record enroll_env =
  en_dir :: "(bool \<times> nat \<times> nat) option"
  en_server :: "ServerConf res"
  en_random :: "byte list res"
  en_psk :: "string res"
  en_files :: file_env
  en_qr :: "string option"

record enroll_flags =
  ef_config :: string
  ef_out :: string
  ef_name :: string
  ef_endpoint :: string
  ef_routes :: string
  ef_reserved :: string

definition enroll_proposal :: "string \<Rightarrow> string \<Rightarrow> ServerConf \<Rightarrow> enroll_flags \<Rightarrow> Proposal" where
  "enroll_proposal uid address s f =
     \<lparr>pr_Schema = EnrollSchema, pr_ID = uid, pr_Name = ef_name f, pr_Address = address, pr_ServerPublicKey = sv_PublicKey s,
      pr_AllowedIPs = Split (CHR '','') (ef_routes f), pr_STUN = sv_STUN s, pr_OpenDHT = sv_DHT s, pr_Endpoint = ef_endpoint f,
      pr_Protocol = ''ipv4'', pr_PresharedKey = []\<rparr>"

text \<open>The proposal that is to be written, or the error.\<close>

definition enroll_data ::
  "(string \<Rightarrow> url res) \<Rightarrow> (string \<Rightarrow> duration res) \<Rightarrow> enroll_env \<Rightarrow> enroll_flags \<Rightarrow> (Proposal \<times> string) res" where
  "enroll_data urlParse parseDuration env f =
     (if ef_config f = [] \<or> ef_out f = [] \<or> ef_name f = [] \<or> ef_endpoint f = [] then Err (ErrNew ''missing server enrollment inputs'')
      else if (case en_dir env of Some (isDir, perm, _) \<Rightarrow> \<not> isDir \<or> perm mod 64 \<noteq> 0 | None \<Rightarrow> True)
      then Err (ErrNew ''output directory must be private'')
      else if (case en_dir env of Some (_, _, entries) \<Rightarrow> entries \<noteq> 0 | None \<Rightarrow> True) then Err (ErrNew ''output directory must be empty'')
      else bind_res (replace_err (en_server env) (ErrNew ''cannot validate server configuration'')) (\<lambda>s.
      let routeList = Split (CHR '','') (ef_routes f);
          used = peer_routes (sv_WG s) @ routeList @ (if ef_reserved f = [] then [] else Split (CHR '','') (ef_reserved f)) in
      bind_res (index routeList 0) (\<lambda>first.
      bind_res (phoneAddress first used) (\<lambda>address.
      bind_res (NewID (en_random env)) (\<lambda>uid.
      let p = enroll_proposal uid address s f in
      bind_res (Proposal_Validate urlParse parseDuration p) (\<lambda>_.
      bind_res (replace_err (en_psk env) (ErrNew ''WireGuard PSK generation failed'')) (\<lambda>psk.
      let q = p\<lparr>pr_PresharedKey := TrimSpace psk\<rparr> in
      bind_res (replace_err (Proposal_Encode urlParse parseDuration q) (ErrNew ''invalid generated enrollment'')) (\<lambda>data. Ok (q, data)))))))))"

definition serverNew ::
  "(string \<Rightarrow> url res) \<Rightarrow> (string \<Rightarrow> duration res) \<Rightarrow> enroll_env \<Rightarrow> enroll_flags \<Rightarrow> file_op list \<times> unit res" where
  "serverNew urlParse parseDuration env f =
     (case enroll_data urlParse parseDuration env f of
        Panic \<Rightarrow> ([], Panic) | Err e \<Rightarrow> ([], Err e)
      | Ok (p, data) \<Rightarrow>
          let jsonPath = ef_out f @ ''/enrollment.json''; qrPath = ef_out f @ ''/enrollment.svg'';
              made = [FileCreate jsonPath, FileWrite jsonPath (data @ nl)] in
          if \<not> fe_create (en_files env) jsonPath then ([], Err (ErrNew ''cannot create enrollment file''))
          else if \<not> fe_write (en_files env) jsonPath then ([FileCreate jsonPath, FileRemove jsonPath], Err (ErrNew ''cannot save enrollment''))
          else if \<not> fe_create (en_files env) qrPath then (made @ [FileRemove jsonPath], Err (ErrNew ''cannot create QR file''))
          else (case (en_qr env, fe_write (en_files env) qrPath) of
              (Some svg, True) \<Rightarrow>
                (made @ [FileCreate qrPath, FileWrite qrPath svg,
                  PrintLine (json_print (JObj [(''address'', JStr (pr_Address p)), (''proposal_id'', JStr (pr_ID p)), (''schema'', JStr (pr_Schema p))]))],
                 Ok ())
            | _ \<Rightarrow> (made @ [FileCreate qrPath, FileRemove jsonPath, FileRemove qrPath], Err (ErrNew ''QR generation failed''))))"

section \<open>Occurrences of a line\<close>

lemma HasPrefix_append [simp]: "HasPrefix (m @ s) m" by (simp add: HasPrefix_def)

lemma HasPrefix_Cons: "HasPrefix (c # s) (d # m) \<longleftrightarrow> c = d \<and> HasPrefix s m" by (simp add: HasPrefix_def)

lemma str_index_self: "str_index m (m @ s) = Some 0"
proof (cases "m @ s")
  case (Cons c cs)
  then show ?thesis using HasPrefix_append[of m s] by simp
qed simp

lemma str_index_inside: "str_index m (a @ m @ b) \<noteq> None"
proof (induction a)
  case Nil
  then show ?case using str_index_self[of m b] by simp
qed simp

lemma str_index_no_head: "CHR ''#'' \<notin> set s \<Longrightarrow> str_index (CHR ''#'' # m) s = None"
  by (induction s) (auto simp: HasPrefix_Cons)

text \<open>A line marker: a hash sign, a text without line breaks and a line break.\<close>

definition marker :: "string \<Rightarrow> bool" where
  "marker m \<longleftrightarrow> (\<exists>a. m = CHR ''#'' # a @ nl \<and> CHR 0x0A \<notin> set a)"

lemma line_prefix:
  assumes "CHR 0x0A \<notin> set a" "HasPrefix (x @ CHR 0x0A # y) (a @ nl)"
  shows "HasPrefix (x @ nl) (a @ nl)"
  using assms
proof (induction a arbitrary: x)
  case Nil
  then show ?case by (cases x) (auto simp: HasPrefix_def nl_def)
next
  case (Cons c a)
  then show ?case by (cases x) (auto simp: HasPrefix_Cons)
qed

lemma str_index_line:
  assumes "marker m" "str_index m (x @ nl) = None"
  shows "str_index m (x @ CHR 0x0A # y) = map_option (\<lambda>i. length x + 1 + i) (str_index m y)"
  using assms(2)
proof (induction x)
  case Nil
  from assms(1) obtain a where "m = CHR ''#'' # a @ nl" by (auto simp: marker_def)
  then show ?case by (simp add: HasPrefix_Cons)
next
  case (Cons c x)
  from assms(1) obtain a where a: "m = CHR ''#'' # a @ nl" "CHR 0x0A \<notin> set a" by (auto simp: marker_def)
  have "\<not> HasPrefix (c # x @ nl) m" using Cons.prems by (simp split: if_splits)
  then have "\<not> HasPrefix (c # x @ CHR 0x0A # y) m" using line_prefix[of "CHR ''#'' # a" "c # x" y] a by auto
  with Cons show ?case by (simp add: option.map_comp o_def split: if_splits)
qed

lemma str_index_lines:
  assumes "marker m" "str_index m (x @ nl) = None"
  shows "str_index m (x @ nl @ y) = map_option (\<lambda>i. length x + 1 + i) (str_index m y)"
  using str_index_line[OF assms, of y] by (simp add: nl_def)

lemma str_index_prefix_None: "str_index m (x @ y) = None \<Longrightarrow> str_index m x = None"
  using str_index_bound[of m x] str_index_inside[of m "take i x" "drop (i + length m) x @ y" for i]
proof (cases "str_index m x")
  case (Some i)
  from str_index_bound[OF Some] have "x = take i x @ m @ drop (i + length m) x"
    by (metis append_take_drop_id drop_drop add.commute)
  then have "x @ y = take i x @ m @ drop (i + length m) x @ y" by (metis append.assoc)
  then show "str_index m (x @ y) = None \<Longrightarrow> str_index m x = None" using str_index_inside by metis
qed simp

lemma TrimRight_nl_append: "\<exists>k. s = TrimRight_nl s @ replicate k (CHR 0x0A)"
proof -
  have "set (takeWhile (\<lambda>c. c = CHR 0x0A) (rev s)) \<subseteq> {CHR 0x0A}" by (auto dest: set_takeWhileD)
  then have t: "takeWhile (\<lambda>c. c = CHR 0x0A) (rev s) = replicate (length (takeWhile (\<lambda>c. c = CHR 0x0A) (rev s))) (CHR 0x0A)"
    by (intro replicate_eqI) auto
  have "s = TrimRight_nl s @ rev (takeWhile (\<lambda>c. c = CHR 0x0A) (rev s))"
    unfolding TrimRight_nl_def by (metis rev_append rev_rev_ident takeWhile_dropWhile_id)
  then show ?thesis using t by (metis rev_replicate)
qed

lemma str_index_trimmed: "str_index m (s @ nl) = None \<Longrightarrow> str_index m (TrimRight_nl s @ nl) = None"
proof -
  assume n: "str_index m (s @ nl) = None"
  obtain k where "s = TrimRight_nl s @ replicate k (CHR 0x0A)" using TrimRight_nl_append by blast
  then have "s @ nl = TrimRight_nl s @ replicate k (CHR 0x0A) @ nl" by (subst append.assoc[symmetric]) simp
  also have "\<dots> = (TrimRight_nl s @ nl) @ replicate k (CHR 0x0A)" by (simp add: nl_def replicate_append_same)
  finally show ?thesis using n str_index_prefix_None[of m "TrimRight_nl s @ nl"] by simp
qed

section \<open>The texts of a managed block\<close>

lemma label_plain: "label_ok s \<Longrightarrow> c \<in> set s \<Longrightarrow> c \<noteq> CHR ''#'' \<and> c \<noteq> CHR 0x0A"
proof -
  have "CHR ''#'' \<notin> set ''abcdefghijklmnopqrstuvwxyz'' \<union> set ''abcdefghijklmnopqrstuvwxyz0123456789-''"
    "CHR 0x0A \<notin> set ''abcdefghijklmnopqrstuvwxyz'' \<union> set ''abcdefghijklmnopqrstuvwxyz0123456789-''" by simp_all
  moreover assume l: "label_ok s" and c: "c \<in> set s"
  then obtain d cs where s: "s = d # cs" by (cases s) auto
  note l' = l[unfolded s label_ok_def list.case]
  note r = l'[THEN conjunct2, THEN conjunct2]
  have "c \<in> set ''abcdefghijklmnopqrstuvwxyz'' \<union> set ''abcdefghijklmnopqrstuvwxyz0123456789-''"
  proof (rule disjE[OF set_ConsD[OF c[unfolded s]]])
    assume "c = d" then show ?thesis using l'[THEN conjunct1] by (simp only: UnI1)
  next
    assume "c \<in> set cs" then show ?thesis using r[unfolded list_all_iff] by (simp only: UnI2)
  qed
  ultimately show ?thesis by blast
qed

lemma b64_no_hash: "CHR ''#'' \<notin> set (b64_encode bs)"
proof -
  have "b64_char i \<noteq> CHR ''#''" if "i < 64" for i using that by (auto simp: b64_char_def intro!: char_neq_of_nat)
  then have "CHR ''#'' \<noteq> b64_char i" if "i < 64" for i using that by metis
  then show ?thesis by (induction bs rule: b64_encode.induct) (simp_all add: byte_parts)
qed

lemma ep_no_hash: "ep_text s \<Longrightarrow> CHR ''#'' \<notin> set s"
  by (auto simp: ep_text_def ep_char_def hex_val_def)

lemma Atoi_no_hash: "Atoi s = Ok i \<Longrightarrow> CHR ''#'' \<notin> set s"
  by (cases s) (auto simp: Atoi_def Let_def digit_val_def split: if_splits option.splits dest!: digits_val_ep_text ep_no_hash)

lemma ParsePrefix_no_hash: "ParsePrefix s = Ok p \<Longrightarrow> CHR ''#'' \<notin> set s"
proof -
  have join: "split_last c s = Some (x, y) \<Longrightarrow> s = x @ c # y" for c :: char and s x y
    by (induction s arbitrary: x y) (auto split: option.splits if_splits)
  have zone: "\<not> Is6 a \<Longrightarrow> Zone a = []" for a by (cases a) auto
  assume "ParsePrefix s = Ok p"
  then obtain ip bits a n where s: "split_last (CHR ''/'') s = Some (ip, bits)" "ParseAddr ip = Ok a" "Zone a = []" "Atoi bits = Ok n"
    by (auto simp: ParsePrefix_def zone split: option.splits if_splits)
  show ?thesis
    using join[OF s(1)] ep_no_hash[OF ParseAddr_ep_text[OF s(2,3)]] Atoi_no_hash[OF s(4)] by auto
qed

lemma markers: "label_ok n \<Longrightarrow> marker (block_begin n)" "label_ok n \<Longrightarrow> marker (block_end n)"
  using label_plain by (fastforce simp: marker_def block_begin_def block_end_def nl_def)+

lemma markers_differ:
  assumes "label_ok n"
  shows "str_index (block_begin n) (block_end n) = None" "str_index (block_end n) (block_begin n) = None"
proof -
  have "CHR ''#'' \<notin> set n" using label_plain[OF assms] by blast
  then have h: "CHR ''#'' \<notin> set (tl (block_end n))" "CHR ''#'' \<notin> set (tl (block_begin n))"
    by (simp_all add: block_begin_def block_end_def nl_def)
  show "str_index (block_begin n) (block_end n) = None" "str_index (block_end n) (block_begin n) = None"
    using str_index_no_head[OF h(1)] str_index_no_head[OF h(2)] by (simp_all add: block_begin_def block_end_def HasPrefix_Cons)
qed

definition block_body :: "(byte list \<Rightarrow> byte list) \<Rightarrow> Profile \<Rightarrow> string" where
  "block_body public p = butlast (managed_block public p)"

lemma block_body_nl: "managed_block public p = block_body public p @ nl"
  by (simp add: block_body_def managed_block_def butlast_append nl_def)

lemma block_no_hash:
  assumes "Key (lp_PresharedKey p) = Ok k" "ParsePrefix (lp_Address p) = Ok a"
  shows "CHR ''#'' \<notin> set (managed_block public p)"
  using assms b64_no_hash ParsePrefix_no_hash[OF assms(2)] by (auto simp: managed_block_def Profile_PublicKey_def Key_canonical nl_def)

lemma str_count_one:
  assumes "m \<noteq> []" "str_index m s = Some i" "str_index m (drop (i + length m) s) = None"
  shows "str_count m s = 1"
  using assms by (simp add: str_count.simps[of m s] str_count.simps[of m "drop (i + length m) s"])

lemma update_delete: "map_of peers n = None \<Longrightarrow> filter (\<lambda>m. fst m \<noteq> n) (AList.update n v peers) = peers"
  by (induction peers) (auto split: if_splits)

lemma remove_added:
  fixes public p wg
  defines "t \<equiv> TrimRight_nl wg @ nl @ nl"
  defines "b \<equiv> block_begin (lp_Name p)" and "e \<equiv> block_end (lp_Name p)"
  assumes n: "label_ok (lp_Name p)" and h: "CHR ''#'' \<notin> set (managed_block public p)"
    and none: "str_index b (wg @ nl) = None" "str_index e (wg @ nl) = None"
    and v: "map_of peers (''linux-'' @ lp_Name p) = Some (YMap peer)" "map_of peer ''public_key'' = Some (YString (Profile_PublicKey public p))"
  shows "remove_managed public p (t @ b @ managed_block public p @ e) peers = Ok (t, filter (\<lambda>m. fst m \<noteq> ''linux-'' @ lp_Name p) peers)"
proof -
  let ?k = "managed_block public p"
  note m = markers[OF n, folded b_def e_def] and d = markers_differ[OF n, folded b_def e_def]
  obtain b' where b': "b = b' @ nl" by (simp add: b_def block_begin_def)
  obtain be ee where he: "b = CHR ''#'' # be" "e = CHR ''#'' # ee" by (simp add: b_def e_def block_begin_def block_end_def)
  have top: "str_index x (t @ y) = map_option (\<lambda>i. length t + i) (str_index x y)"
    if "marker x" "str_index x (wg @ nl) = None" for x y
  proof -
    have 1: "str_index x (TrimRight_nl wg @ nl) = None" using that str_index_trimmed by blast
    then have 2: "str_index x ((TrimRight_nl wg @ nl) @ nl) = None" using str_index_lines[OF that(1) 1, of nl] that(1)
      by (auto simp: marker_def HasPrefix_Cons nl_def)
    show ?thesis using str_index_lines[OF that(1) 2, of y] by (simp add: t_def nl_def)
  qed
  have blk: "str_index x (?k @ y) = map_option (\<lambda>i. length ?k + i) (str_index x y)" if "marker x" for x y
  proof -
    have "str_index x (block_body public p @ nl) = None"
      using h that str_index_no_head unfolding block_body_nl by (auto simp: marker_def)
    from str_index_lines[OF that this, of y] show ?thesis by (cases "str_index x y") (simp_all add: block_body_nl nl_def)
  qed
  have bi: "str_index b (t @ b @ ?k @ e) = Some (length t)" using top[OF m(1) none(1)] str_index_self by simp
  have ei: "str_index e (t @ b @ ?k @ e) = Some (length t + length b + length ?k)"
    using top[OF m(2) none(2)] str_index_lines[OF m(2), of b'] d(2) b' blk[OF m(2)] str_index_self[of e "[]"] by (simp add: nl_def)
  have bc: "str_count b (t @ b @ ?k @ e) = 1" using str_count_one[OF _ bi] blk[OF m(1), of e] d(1) he by simp
  have ec: "str_count e (t @ b @ ?k @ e) = 1" using str_count_one[OF _ ei] he by simp
  have key: "str_index (''PublicKey = '' @ Profile_PublicKey public p @ nl) (b @ ?k) \<noteq> None"
    using str_index_inside[of "''PublicKey = '' @ Profile_PublicKey public p @ nl" "b @ ''[Peer]'' @ nl"] by (simp add: managed_block_def)
  show ?thesis
    unfolding remove_managed_def Let_def b_def[symmetric] e_def[symmetric] bi ei bc ec
    using v key by simp
qed

lemma yaml_peers_set [simp]: "yaml_peers y = Ok m \<Longrightarrow> yaml_peers (set_yaml_peers m' y) = Ok m'"
proof -
  have u: "yaml_lookup (AList.update k (YMap v) t) k = Ok v" for k v t by (simp add: yaml_lookup_def update_conv')
  assume "yaml_peers y = Ok m"
  then obtain ifs iface where "yaml_lookup y ''interfaces'' = Ok ifs" "yaml_lookup ifs ''wg0'' = Ok iface" by (auto simp: yaml_peers_def)
  then show ?thesis by (simp add: yaml_peers_def set_yaml_peers_def u)
qed

lemma collides_iff: "\<not> collides ip r \<longleftrightarrow> (\<exists>q. ParsePrefix r = Ok q \<and> \<not> prefix_Contains q ip)"
  by (cases "ParsePrefix r") (auto simp: collides_def)

lemma add_managed_Ok:
  assumes "add_managed public p wg peers = Ok (wg', peers')"
  obtains a where "ParsePrefix (lp_Address p) = Ok a" "\<forall>r\<in>set (peer_routes wg). \<not> collides (pfx_addr a) r"
    "wg' = (TrimRight_nl wg @ nl @ nl) @ block_begin (lp_Name p) @ managed_block public p @ block_end (lp_Name p)"
    "peers' = AList.update (''linux-'' @ lp_Name p)
       (YMap [(''public_key'', YString (Profile_PublicKey public p)), (''plugin'', YString ''dht''), (''protocol'', YString ''ipv4'')]) peers"
proof -
  obtain a where a: "ParsePrefix (lp_Address p) = Ok a" using assms by (cases "ParsePrefix (lp_Address p)") (simp_all add: add_managed_def)
  then have "\<not> list_ex (collides (pfx_addr a)) (peer_routes wg)" using assms by (simp add: add_managed_def split: if_splits)
  then show thesis using assms a by (intro that[of a]) (simp_all add: add_managed_def list_ex_iff split: if_splits)
qed

text \<open>C14. Enrolling and then revoking a Linux peer gives the server's files back. For a profile with a plain name and a
  well-formed shared key that the two files do not mention yet, adding the managed peer and then removing it, with the
  same identity, succeeds and restores the peer map exactly and the WireGuard text up to the line breaks at its end.
  What was added collides with no address of another peer.\<close>

theorem edit_revoke_roundtrip:
  assumes "label_ok (lp_Name p)" "Key (lp_PresharedKey p) = Ok k"
    and "str_index (block_begin (lp_Name p)) (wg @ nl) = None" "str_index (block_end (lp_Name p)) (wg @ nl) = None"
    and "map_of peers (''linux-'' @ lp_Name p) = None"
    and "add_managed public p wg peers = Ok (wg', peers')"
  shows "remove_managed public p wg' peers' = Ok (TrimRight_nl wg @ nl @ nl, peers)
    \<and> (\<forall>r\<in>set (peer_routes wg). \<exists>q a. ParsePrefix r = Ok q \<and> ParsePrefix (lp_Address p) = Ok a \<and> \<not> prefix_Contains q (pfx_addr a))"
proof -
  obtain a where a: "ParsePrefix (lp_Address p) = Ok a" and r: "\<forall>r\<in>set (peer_routes wg). \<not> collides (pfx_addr a) r"
    and w: "wg' = (TrimRight_nl wg @ nl @ nl) @ block_begin (lp_Name p) @ managed_block public p @ block_end (lp_Name p)"
    and m: "peers' = AList.update (''linux-'' @ lp_Name p)
       (YMap [(''public_key'', YString (Profile_PublicKey public p)), (''plugin'', YString ''dht''), (''protocol'', YString ''ipv4'')]) peers"
    using add_managed_Ok[OF assms(6)] by blast
  have "remove_managed public p wg' peers' = Ok (TrimRight_nl wg @ nl @ nl, peers)"
    unfolding w using remove_added[OF assms(1) block_no_hash[OF assms(2) a] assms(3,4), of peers'] update_delete[OF assms(5)]
    by (simp add: m update_conv')
  then show ?thesis using r a by (auto simp: collides_iff)
qed

section \<open>The caller's server\<close>

text \<open>A successful edit leaves the new peer in the tree of the caller's own server, whose text has no block for it:
  a second edit of that server for the same profile is refused, whether it adds again or revokes.\<close>

lemma edited_server_refused:
  assumes e: "Edited urlParse parseDuration public s p False = (s', Ok (wg, y))"
    and "yaml_peers (sv_YAML s) = Ok m" "str_index (block_begin (lp_Name p)) (sv_WG s) = None"
  shows "Edited urlParse parseDuration public s' p revoke = (s', Err (ErrNew ''inconsistent managed peer; review private files''))"
proof -
  let ?n = "''linux-'' @ lp_Name p"
  have v: "Profile_Validate urlParse parseDuration public p = Ok ()" "lp_ServerPublicKey p = sv_PublicKey s"
    using e by (auto simp: Edited_def split: res.splits if_splits)
  then obtain wg0 m0 m1 where r: "remove_managed public p (sv_WG s) m = Ok (wg0, m0)" "add_managed public p wg0 m0 = Ok (wg, m1)"
      "s' = s\<lparr>sv_YAML := set_yaml_peers m1 (sv_YAML s)\<rparr>"
    using e assms(2) by (auto simp: Edited_def Let_def split: res.splits prod.splits)
  have "map_of m1 ?n \<noteq> None" by (rule add_managed_Ok[OF r(2)]) (simp add: update_conv')
  then have "remove_managed public p (sv_WG s) m1 = Err (ErrNew ''inconsistent managed peer; review private files'')"
    using assms(3) by (auto simp: remove_managed_def Let_def split: option.splits)
  then show ?thesis using v r(3) yaml_peers_set[OF assms(2), of m1] by (simp add: Edited_def Let_def)
qed

section \<open>Files are written whole or not at all\<close>

lemma files_after_append: "files_after rm (ops @ ops') fs = files_after rm ops' (files_after rm ops fs)"
  by (induction rm ops fs rule: files_after.induct) (simp_all add: fun_upd_def)

text \<open>Nothing that was there is touched, and nothing new is left if what was created can be removed again.\<close>

definition undone :: "(string \<Rightarrow> bool) \<Rightarrow> (string \<rightharpoonup> string) \<Rightarrow> (string \<rightharpoonup> string) \<Rightarrow> bool" where
  "undone rm fs fs' \<longleftrightarrow> fs \<subseteq>\<^sub>m fs' \<and> ((\<forall>q. rm q) \<longrightarrow> fs' = fs)"

lemma undone_refl [simp]: "undone rm fs fs" by (simp add: undone_def)

lemma WriteNew_files:
  assumes "WriteNew env path b = (ops, out)" "fs path \<noteq> None \<Longrightarrow> \<not> fe_create env path"
  shows "out = Ok () \<and> fs path = None \<and> files_after rm ops fs = fs(path \<mapsto> b) \<or> (\<exists>e. out = Err e) \<and> undone rm fs (files_after rm ops fs)"
  using assms by (cases "fs path") (auto simp: WriteNew_def undone_def fun_upd_idem_iff map_le_def split: if_splits)

lemma undone_removed:
  assumes "fs path = None" "undone rm (fs(path \<mapsto> b)) fs'"
  shows "undone rm fs (if rm path then fs'(path := None) else fs')"
proof -
  have le: "fs(path \<mapsto> b) \<subseteq>\<^sub>m fs'" and all: "(\<forall>q. rm q) \<Longrightarrow> fs' = fs(path \<mapsto> b)" using assms(2) by (simp_all add: undone_def)
  have k: "fs' q = Some v \<and> q \<noteq> path" if "fs q = Some v" for q v
  proof -
    have "q \<noteq> path" using that assms(1) by auto
    moreover from this have "q \<in> dom (fs(path \<mapsto> b))" "(fs(path \<mapsto> b)) q = Some v" using that by auto
    ultimately show ?thesis using le unfolding map_le_def by metis
  qed
  have "fs \<subseteq>\<^sub>m fs'" "fs \<subseteq>\<^sub>m fs'(path := None)" using k by (auto simp: map_le_def dom_def)
  moreover have "(fs(path \<mapsto> b))(path := None) = fs" using assms(1) by auto
  ultimately show ?thesis using all by (simp add: undone_def)
qed

text \<open>C39. The edited server files appear together or not at all. An edit that fails touches no file that was there, also where
  one of the two candidates is there already, and leaves no new one, a half-written one included, provided that
  the files it created itself can be removed; one that succeeds found neither of the two and has written exactly them,
  with the edited WireGuard text and the printed tree.\<close>

theorem candidates_all_or_nothing:
  assumes "exclusive env fs" "WriteEdited urlParse parseDuration public marshal env st dir s p revoke = (s', ops, out)"
  shows "(out \<noteq> Ok () \<longrightarrow> fs \<subseteq>\<^sub>m files_after rm ops fs \<and> ((\<forall>q. rm q) \<longrightarrow> files_after rm ops fs = fs))
    \<and> (out = Ok () \<longrightarrow> fs (dir @ ''/wg0.conf'') = None \<and> fs (dir @ ''/stunmesh.yml'') = None
        \<and> (\<exists>wg y yml. Edited urlParse parseDuration public s p revoke = (s', Ok (wg, y)) \<and> marshal y = Ok yml
          \<and> files_after rm ops fs = fs(dir @ ''/wg0.conf'' \<mapsto> wg, dir @ ''/stunmesh.yml'' \<mapsto> yml)))"
proof -
  let ?wg = "dir @ ''/wg0.conf''" and ?yml = "dir @ ''/stunmesh.yml''"
  obtain t files where e: "Edited urlParse parseDuration public s p revoke = (t, files)" by fastforce
  let ?r = "bind_res files (\<lambda>(wg, y). bind_res (replace_err (marshal y) (ErrNew ''cannot render discovery config'')) (\<lambda>yml. Ok (wg, yml)))"
  let ?bad = "case st of Some (isDir, perm) \<Rightarrow> \<not> isDir \<or> perm mod 64 \<noteq> 0 | None \<Rightarrow> True"
  show ?thesis
  proof (cases "\<exists>wg yml. \<not> ?bad \<and> ?r = Ok (wg, yml)")
    case False
    then have "ops = [] \<and> out \<noteq> Ok ()" using assms(2) unfolding WriteEdited_def e Let_def prod.case
      by (cases ?bad; cases ?r) auto
    then show ?thesis by simp
  next
    case True
    then obtain wg yml where f: "\<not> ?bad" "?r = Ok (wg, yml)" by blast
    then obtain y where y: "files = Ok (wg, y)" "marshal y = Ok yml" by auto
    obtain o1 r1 where w1: "WriteNew env ?wg wg = (o1, r1)" by fastforce
    obtain o2 r2 where w2: "WriteNew env ?yml yml = (o2, r2)" by fastforce
    have x: "(s', ops, out) = (case r1 of Ok _ \<Rightarrow> (case r2 of Ok _ \<Rightarrow> (t, o1 @ o2, Ok ()) | _ \<Rightarrow> (t, o1 @ o2 @ [FileRemove ?wg], r2)) | _ \<Rightarrow> (t, o1, r1))"
      using assms(2) unfolding WriteEdited_def e Let_def prod.case if_not_P[OF f(1)] f(2) res.case w1 w2 by (cases r1; cases r2) auto
    have f1: "r1 = Ok () \<and> fs ?wg = None \<and> files_after rm o1 fs = fs(?wg \<mapsto> wg) \<or> (\<exists>e. r1 = Err e) \<and> undone rm fs (files_after rm o1 fs)"
      by (rule WriteNew_files[OF w1]) (use assms(1) in \<open>auto simp: exclusive_def\<close>)
    have f2: "r2 = Ok () \<and> fs ?yml = None \<and> files_after rm o2 (fs(?wg \<mapsto> wg)) = fs(?wg \<mapsto> wg, ?yml \<mapsto> yml)
        \<or> (\<exists>e. r2 = Err e) \<and> undone rm (fs(?wg \<mapsto> wg)) (files_after rm o2 (fs(?wg \<mapsto> wg)))"
      using WriteNew_files[where fs = "fs(?wg \<mapsto> wg)", OF w2] assms(1) by (auto simp: exclusive_def)
    have "out \<noteq> Ok () \<longrightarrow> undone rm fs (files_after rm ops fs)"
      using f1 f2 x undone_removed[of fs ?wg rm wg] by (auto simp: files_after_append)
    moreover have "out = Ok () \<longrightarrow> fs ?wg = None \<and> fs ?yml = None \<and> s' = t \<and> files_after rm ops fs = fs(?wg \<mapsto> wg, ?yml \<mapsto> yml)"
      using f1 f2 x by (auto simp: files_after_append)
    ultimately show ?thesis using e y unfolding undone_def by blast
  qed
qed

lemma serverNew_files:
  assumes "exclusive (en_files env) fs" "\<forall>q. rm q" "serverNew urlParse parseDuration env f = (ops, out)"
  shows "(out \<noteq> Ok () \<longrightarrow> files_after rm ops fs = fs)
    \<and> (out = Ok () \<longrightarrow> (\<exists>p text svg. enroll_data urlParse parseDuration env f = Ok (p, text) \<and> en_qr env = Some svg
          \<and> files_after rm ops fs = fs(ef_out f @ ''/enrollment.json'' \<mapsto> text @ nl, ef_out f @ ''/enrollment.svg'' \<mapsto> svg)))"
proof -
  have "fe_create (en_files env) q \<Longrightarrow> fs q = None" for q using assms(1) by (auto simp: exclusive_def)
  with assms(2,3) show ?thesis
    by (auto simp: serverNew_def Let_def fun_upd_idem_iff fun_upd_twist split: res.splits prod.splits if_splits option.splits bool.splits)
qed

section \<open>Only an interface of its own is removed\<close>

lemma delete_differs [simp]: "ip_add \<noteq> ip_delete" "ip_show \<noteq> ip_delete" "wg_show \<noteq> ip_delete"
  "ip_delete \<noteq> ip_add" "ip_delete \<noteq> ip_show" "ip_delete \<noteq> wg_show"
  by (simp_all add: ip_add_def ip_delete_def ip_show_def wg_show_def)

text \<open>A history in which every deletion since \<open>h\<close> comes right after the interface answered with the key.\<close>

definition justified :: "shell \<Rightarrow> string \<Rightarrow> command list \<Rightarrow> command list \<Rightarrow> bool" where
  "justified sh key h h' \<longleftrightarrow> (\<forall>pre post. h' = pre @ ip_delete # post \<and> length h \<le> length pre \<longrightarrow>
     (\<exists>g ans. pre = g @ [wg_show] \<and> sh g wg_show = Some ans \<and> TrimSpace ans = key))"

lemma justified_snoc:
  assumes "justified sh key h h'" "c = ip_delete \<Longrightarrow> \<exists>g ans. h' = g @ [wg_show] \<and> sh g wg_show = Some ans \<and> TrimSpace ans = key"
  shows "justified sh key h (h' @ [c])"
  unfolding justified_def
proof (intro allI impI, elim conjE)
  fix pre post assume e: "h' @ [c] = pre @ ip_delete # post" "length h \<le> length pre"
  show "\<exists>g ans. pre = g @ [wg_show] \<and> sh g wg_show = Some ans \<and> TrimSpace ans = key"
  proof (cases post rule: rev_cases)
    case (snoc ys y)
    then show ?thesis using e assms(1) by (auto simp: justified_def)
  qed (use e assms(2) in auto)
qed

lemma justified_append: "justified sh key h h' \<Longrightarrow> ip_delete \<notin> set cs \<Longrightarrow> justified sh key h (h' @ cs)"
proof (induction cs rule: rev_induct)
  case (snoc c cs)
  then have "justified sh key h ((h' @ cs) @ [c])" by (intro justified_snoc) auto
  then show ?case by simp
qed simp

lemma justified_refl: "justified sh key h h" by (auto simp: justified_def)

lemma Cleanup_justified: "justified sh key h h' \<Longrightarrow> Cleanup sh key h' = (h2, out) \<Longrightarrow> justified sh key h h2"
proof -
  assume j: "justified sh key h h'" and c: "Cleanup sh key h' = (h2, out)"
  have w: "justified sh key h (h' @ [wg_show])" "justified sh key h (h' @ [wg_show, ip_show])" using justified_append[OF j] by simp_all
  have d: "sh h' wg_show = Some ans \<Longrightarrow> TrimSpace ans = key \<Longrightarrow> justified sh key h (h' @ [wg_show, ip_delete])" for ans
    using justified_snoc[OF w(1), of ip_delete] by simp
  show ?thesis using c w d by (auto simp: Cleanup_def run_ip_def split: option.splits if_splits)
qed

lemma CleanupOwned_justified: "justified sh key h h' \<Longrightarrow> CleanupOwned sh key rcpt ifindex path removal h' = (h2, ops, out) \<Longrightarrow> justified sh key h h2"
  using justified_snoc[of sh key h h' ip_show]
  by (auto simp: CleanupOwned_def run_ip_def dest: Cleanup_justified
      split: receipt_file.splits option.splits if_splits prod.splits res.splits)

lemma Cleanup_deletes:
  assumes "Cleanup sh key h = (h', out)" "ip_delete \<in> set (drop (length h) h')"
  shows "\<exists>ans. sh h wg_show = Some ans \<and> TrimSpace ans = key \<and> h' = h @ [wg_show, ip_delete]"
  using assms by (auto simp: Cleanup_def run_ip_def split: option.splits if_splits)

lemma run_all_commands: "run_all sh cs h = (h', out) \<Longrightarrow> \<exists>n. h' = h @ map fst (take n cs) \<and> out \<noteq> Panic"
proof (induction cs arbitrary: h)
  case (Cons c cs)
  obtain k e where c: "c = (k, e)" by fastforce
  show ?case
  proof (cases "sh h k = None")
    case True
    then show ?thesis using Cons.prems c by (intro exI[of _ 1]) auto
  next
    case False
    then obtain n where "h' = (h @ [k]) @ map fst (take n cs) \<and> out \<noteq> Panic" using Cons c by fastforce
    then show ?thesis using c by (intro exI[of _ "Suc n"]) simp
  qed
qed auto

lemma setup_no_delete: "ip_delete \<notin> set (map fst (take n (setup_commands p dir)))"
  by (auto simp: setup_commands_def ip_delete_def dest!: in_set_takeD)

text \<open>What a set-up runs: nothing, the creation alone if it is refused, and otherwise commands of which the last, if the set-up
  fails, is the only deletion.\<close>

lemma Setup_commands:
  assumes "Setup urlParse parseDuration public env sh p dir h = (h', ops, out)"
  shows "h' = h \<and> out \<noteq> Ok () \<or> h' = h @ [ip_add] \<and> sh h ip_add = None \<and> out \<noteq> Ok ()
    \<or> (\<exists>cs. ip_delete \<notin> set cs \<and> sh h ip_add \<noteq> None \<and> h' = h @ ip_add # cs @ (if out = Ok () then [] else [ip_delete]))"
proof -
  obtain ops1 wr where w: "WriteNew env (dir @ ''/wg.conf'') (Profile_WireGuard p) = (ops1, wr)" by fastforce
  obtain h2 r where a: "run_all sh (setup_commands p dir) (h @ [ip_add]) = (h2, r)" by fastforce
  obtain n where n: "h2 = (h @ [ip_add]) @ map fst (take n (setup_commands p dir))" using run_all_commands[OF a] by blast
  show ?thesis
  proof (cases "Profile_Validate urlParse parseDuration public p = Ok () \<and> sh h ip_add \<noteq> None")
    case False
    then show ?thesis using assms by (auto simp: Setup_def split: res.splits)
  next
    case True
    then show ?thesis using assms w a n setup_no_delete[of n p dir]
      by (cases wr; cases r) (auto simp: Setup_def Let_def intro: exI[of _ "[]"] exI[of _ "map fst (take n (setup_commands p dir))"])
  qed
qed

lemma run_profile_exit:
  assumes "run_profile urlParse parseDuration public marshal env sh w p ownership h = (h', ops, out)" "re_tmp w = Some dir"
    and "Setup urlParse parseDuration public env sh p dir h = (h1, ops1, Ok ())" "justified sh (Profile_PublicKey public p) h h1"
  shows "\<exists>g. justified sh (Profile_PublicKey public p) h g \<and> h' = fst (Cleanup sh (Profile_PublicKey public p) g)"
proof -
  let ?key = "Profile_PublicKey public p"
  obtain h2 ops2 out2 where o: "CleanupOwned sh ?key (re_receipt w) (re_ifindex' w) ownership (re_removal w) h1 = (h2, ops2, out2)" by (metis prod_cases3)
  have "h' = fst (Cleanup sh ?key h1) \<or> h' = fst (Cleanup sh ?key h2)"
    using assms(1-3) o by (auto simp: run_profile_def Let_def split: prod.splits option.splits if_splits res.splits)
  then show ?thesis using assms(4) CleanupOwned_justified[OF assms(4) o] by blast
qed


text \<open>The receipt does not protect a replacement from the run itself: the deferred check of the receipt refuses it, and the
  deferred clean-up that follows deletes it if it answers with the same key.\<close>

lemma replacement_deleted:
  assumes "re_tmp w = Some dir" "Setup urlParse parseDuration public env sh p dir h = (h1, ops1, Ok ())"
    and "ownership \<noteq> []" "re_ifindex w = Some idx" "WriteNew env ownership (json_print (receipt_json idx (Profile_PublicKey public p))) = (ops2, Ok ())"
    and "re_receipt w = ReceiptRead (Some (idx, Profile_PublicKey public p))" "re_ifindex' w = Some idx'" "idx' \<noteq> idx"
    and "sh h1 wg_show = Some ans" "TrimSpace ans = Profile_PublicKey public p"
  shows "snd (snd (CleanupOwned sh (Profile_PublicKey public p) (re_receipt w) (re_ifindex' w) ownership (re_removal w) h1)) = Err (ErrNew ''refusing a replacement interface'')"
    "fst (run_profile urlParse parseDuration public marshal env sh w p ownership h) = h1 @ [wg_show, ip_delete]"
  using assms by (simp_all add: run_profile_def CleanupOwned_def Cleanup_def run_ip_def split: prod.splits)

section \<open>Witnesses\<close>

definition ex_linux :: Profile where
  "ex_linux = zero_profile\<lparr>lp_Name := ''lap'', lp_PresharedKey := b64_encode (replicate 32 1), lp_Address := ''10.0.0.9/32''\<rparr>"

definition ex_wg :: string where
  "ex_wg = ''[Interface]'' @ nl @ ''[Peer]'' @ nl @ ''AllowedIPs = 10.0.0.2/32'' @ nl"

theorem edit_revoke_roundtrip_witness:
  "\<exists>wg' peers'. add_managed (\<lambda>_. replicate 32 2) ex_linux ex_wg [] = Ok (wg', peers')
     \<and> remove_managed (\<lambda>_. replicate 32 2) ex_linux wg' peers' = Ok (TrimRight_nl ex_wg @ nl @ nl, [])"
proof -
  have a: "is_Ok (add_managed (\<lambda>_. replicate 32 2) ex_linux ex_wg [])" by code_simp
  then obtain wg' peers' where o: "add_managed (\<lambda>_. replicate 32 2) ex_linux ex_wg [] = Ok (wg', peers')" by (auto simp: is_Ok_iff)
  have k: "Key (lp_PresharedKey ex_linux) = Ok (replicate 32 1)" by (simp add: ex_linux_def Key_canonical)
  have c: "label_ok (lp_Name ex_linux)" "str_index (block_begin (lp_Name ex_linux)) (ex_wg @ nl) = None"
    "str_index (block_end (lp_Name ex_linux)) (ex_wg @ nl) = None" by code_simp+
  from edit_revoke_roundtrip[OF c(1) k c(2,3) _ o] o show ?thesis by simp
qed

text \<open>An edit into a directory that already has a \<^verbatim>\<open>stunmesh.yml\<close>: the other file is created and removed again, or nothing
  is done at all, and the old file stays.\<close>

definition ex_candidate :: Profile where
  "ex_candidate = \<lparr>lp_Schema = LinuxSchema, lp_Name = ''lap'', lp_PrivateKey = b64_encode (8 # replicate 30 1 @ [65]),
     lp_PresharedKey = b64_encode (replicate 32 1), lp_ServerPublicKey = b64_encode (9 # replicate 31 0), lp_Address = ''10.0.0.9/32'',
     lp_AllowedIPs = [''10.0.0.1/32''], lp_Endpoint = ''203.0.113.5:51820'', lp_STUN = [''stun.example.org:3478''],
     lp_OpenDHT = [''https://dht.example.org''], lp_Hostnames = [(''srv'', ''10.0.0.1'')], lp_LANHostnames = []\<rparr>"

definition ex_url :: url where
  "ex_url = \<lparr>u_Scheme = ''https'', u_Host = ''dht.example.org'', u_Hostname = ''dht.example.org'', u_Port = [], u_User = False,
     u_RawQuery = [], u_Fragment = [], u_RawPath = [], u_Path = [], u_String = ''https://dht.example.org''\<rparr>"

definition ex_server :: ServerConf where
  "ex_server = \<lparr>sv_WG = ''[Interface]'' @ nl, sv_YAML = [], sv_PublicKey = b64_encode (9 # replicate 31 0), sv_STUN = [], sv_DHT = []\<rparr>"

theorem candidates_all_or_nothing_witness:
  "\<exists>s' ops out. WriteEdited (\<lambda>_. Ok ex_url) (\<lambda>_. Ok second) (\<lambda>_. replicate 32 2) (\<lambda>_. Ok ''yaml'')
      \<lparr>fe_create = \<lambda>q. q \<noteq> ''/run/x/stunmesh.yml'', fe_write = \<lambda>_. True\<rparr> (Some (True, 448)) ''/run/x'' ex_server ex_candidate False = (s', ops, out)
     \<and> out \<noteq> Ok () \<and> files_after (\<lambda>_. True) ops [''/run/x/stunmesh.yml'' \<mapsto> ''old''] = [''/run/x/stunmesh.yml'' \<mapsto> ''old'']
     \<and> (ops = [] \<or> (\<exists>b. ops = [FileCreate ''/run/x/wg0.conf'', FileWrite ''/run/x/wg0.conf'' b, FileRemove ''/run/x/wg0.conf'']))"
proof -
  let ?env = "\<lparr>fe_create = \<lambda>q. q \<noteq> ''/run/x/stunmesh.yml'', fe_write = \<lambda>_. True\<rparr>" and ?fs = "[''/run/x/stunmesh.yml'' \<mapsto> ''old'']"
  have x: "exclusive ?env ?fs" by (simp add: exclusive_def)
  obtain s' ops out where w: "WriteEdited (\<lambda>_. Ok ex_url) (\<lambda>_. Ok second) (\<lambda>_. replicate 32 2) (\<lambda>_. Ok ''yaml'') ?env (Some (True, 448)) ''/run/x''
      ex_server ex_candidate False = (s', ops, out)" by (metis prod_cases3)
  note c = candidates_all_or_nothing[OF x w, of "\<lambda>_. True"]
  have n: "out \<noteq> Ok ()" using c by auto
  obtain t files where e: "Edited (\<lambda>_. Ok ex_url) (\<lambda>_. Ok second) (\<lambda>_. replicate 32 2) ex_server ex_candidate False = (t, files)" by fastforce
  have "ops = [] \<or> (\<exists>b. ops = [FileCreate ''/run/x/wg0.conf'', FileWrite ''/run/x/wg0.conf'' b, FileRemove ''/run/x/wg0.conf''])"
    using w e by (cases files) (auto simp: WriteEdited_def WriteNew_def Let_def split: prod.splits)
  with w n c show ?thesis by auto
qed

definition ex_shell :: shell where
  "ex_shell h c = (if c = wg_show then Some (''key'' @ nl) else Some [])"

definition ex_taken :: shell where
  "ex_taken h c = (if c = ip_add then None else ex_shell h c)"


end
