(* ===== verification/Profile_Issue.thy ===== *)
theory Profile_Issue
  imports Linux_Profile "HOL-Library.Multiset"
begin

text \<open>
  The issuing of a Linux profile (\<^verbatim>\<open>Issue\<close> of \<^verbatim>\<open>internal/linuxprofile/profile.go\<close>) with the parts of
  \<^verbatim>\<open>encoding/json\<close> it uses: the raw texts of an object's members, the compacted and sorted text of a map of
  them, and the indented text of a struct. The lemmas show what the reader of a profile makes of an indented
  text, whatever white space it has; the property is that an issued profile reads back, unless its template
  left out the local names.
\<close>

section \<open>Raw members\<close>

text \<open>The members of an object with the texts of their values, without the white space around them; the fuel
  is that of the parser.\<close>

fun raw_members :: "nat \<Rightarrow> string \<Rightarrow> (string \<times> string) list option" where
  "raw_members f s =
     (if f = 0 then None
      else case skip_ws s of
        [] \<Rightarrow> None
      | q # qs \<Rightarrow>
          if q \<noteq> CHR 0x22 then None
          else case str_body qs of
            None \<Rightarrow> None
          | Some (k, r0) \<Rightarrow>
              (case skip_ws r0 of
                 [] \<Rightarrow> None
               | c # r1 \<Rightarrow>
                   if c \<noteq> CHR '':'' then None
                   else
                     let s1 = skip_ws r1 in
                     case jvalue f s1 of
                       None \<Rightarrow> None
                     | Some (v, r2) \<Rightarrow>
                         let raw = take (length s1 - length r2) s1 in
                         (case skip_ws r2 of
                            [] \<Rightarrow> None
                          | d # ds \<Rightarrow>
                              if d = CHR ''}'' then Some [(k, raw)]
                              else if d = CHR '','' then map_option ((#) (k, raw)) (raw_members (f - 1) ds)
                              else None)))"

declare raw_members.simps [simp del]

definition raw_object :: "string \<Rightarrow> (string \<times> string) list option" where
  "raw_object s = (case skip_ws s of
      [] \<Rightarrow> None
    | c # cs \<Rightarrow>
        if c \<noteq> CHR ''{'' then None
        else case skip_ws cs of
          [] \<Rightarrow> None
        | d # ds \<Rightarrow> if d = CHR ''}'' then Some [] else raw_members (2 * length s + 1) (d # ds))"

text \<open>The decoder of a map of raw messages: any object.\<close>

definition decode_raw_map :: "json \<Rightarrow> unit res" where
  "decode_raw_map v = (case v of JObj _ \<Rightarrow> Ok () | _ \<Rightarrow> Err err_schema)"

section \<open>Texts of maps and structs\<close>

text \<open>A raw message is printed without white space outside its strings, and HTML-safe inside them.\<close>

fun compact :: "bool \<Rightarrow> string \<Rightarrow> string" where
  "compact inside [] = []"
| "compact inside (c # cs) =
     (if \<not> inside then (if is_ws c then compact False cs else c # compact (c = CHR 0x22) cs)
      else if c = CHR 0x5C then (case cs of [] \<Rightarrow> [c] | d # ds \<Rightarrow> c # d # compact True ds)
      else if c = CHR ''<'' \<or> c = CHR ''>'' \<or> c = CHR ''&'' then quote_ascii c @ compact True cs
      else if take 3 (c # cs) = [CHR 0xE2, CHR 0x80, CHR 0xA8] then CHR 0x5C # ''u2028'' @ compact True (drop 2 cs)
      else if take 3 (c # cs) = [CHR 0xE2, CHR 0x80, CHR 0xA9] then CHR 0x5C # ''u2029'' @ compact True (drop 2 cs)
      else c # compact (c \<noteq> CHR 0x22) cs)"

text \<open>\<^verbatim>\<open>strings.Compare\<close> on bytes, and the entries of a map in that order of their keys.\<close>

fun str_le :: "string \<Rightarrow> string \<Rightarrow> bool" where
  "str_le [] t = True"
| "str_le (c # s) [] = False"
| "str_le (c # s) (d # t) = (code c < code d \<or> c = d \<and> str_le s t)"

fun insert_entry :: "string \<times> 'a \<Rightarrow> (string \<times> 'a) list \<Rightarrow> (string \<times> 'a) list" where
  "insert_entry e [] = [e]"
| "insert_entry e (m # ms) = (if str_le (fst e) (fst m) then e # m # ms else m # insert_entry e ms)"

definition sort_entries :: "(string \<times> 'a) list \<Rightarrow> (string \<times> 'a) list" where
  "sort_entries ms = foldr insert_entry ms []"

definition marshal_raw_map :: "(string \<times> string) list \<Rightarrow> string" where
  "marshal_raw_map ms =
     ''{'' @ join '','' (map (\<lambda>(k, raw). quote k @ '':'' @ compact False raw) (sort_entries ms)) @ ''}''"

text \<open>Indented printing: two spaces a level, nothing inside what is empty.\<close>

definition new_line :: "nat \<Rightarrow> string" where
  "new_line depth = nl @ replicate (2 * depth) (CHR '' '')"

fun indent :: "nat \<Rightarrow> json \<Rightarrow> string" where
  "indent depth (JArr vs) =
     (if vs = [] then ''[]''
      else ''['' @ new_line (depth + 1) @ join ('','' @ new_line (depth + 1)) (map (indent (depth + 1)) vs) @ new_line depth @ '']'')"
| "indent depth (JObj ms) =
     (if ms = [] then ''{}''
      else ''{'' @ new_line (depth + 1)
        @ join ('','' @ new_line (depth + 1)) (map (\<lambda>(k, v). quote k @ '': '' @ indent (depth + 1) v) ms) @ new_line depth @ ''}'')"
| "indent depth v = json_print v"

text \<open>The struct as a document: its fields in order, the maps sorted. The local names are null when the map is
  nil (\<open>lan_nil\<close>); a checked profile has members in its other lists and in its names.\<close>

definition string_map_json :: "(string \<times> string) list \<Rightarrow> json" where
  "string_map_json m = JObj (map (\<lambda>(k, v). (k, JStr v)) (sort_entries m))"

definition profile_json :: "bool \<Rightarrow> Profile \<Rightarrow> json" where
  "profile_json lan_nil p = JObj
     [(''schema'', JStr (lp_Schema p)), (''name'', JStr (lp_Name p)), (''private_key'', JStr (lp_PrivateKey p)),
      (''preshared_key'', JStr (lp_PresharedKey p)), (''server_public_key'', JStr (lp_ServerPublicKey p)),
      (''address'', JStr (lp_Address p)), (''allowed_ips'', JArr (map JStr (lp_AllowedIPs p))),
      (''endpoint'', JStr (lp_Endpoint p)), (''stun_servers'', JArr (map JStr (lp_STUN p))),
      (''opendht'', JArr (map JStr (lp_OpenDHT p))), (''hostnames'', string_map_json (lp_Hostnames p)),
      (''lan_hostnames'', if lan_nil then JNull else string_map_json (lp_LANHostnames p))]"

definition MarshalIndent :: "bool \<Rightarrow> Profile \<Rightarrow> string" where
  "MarshalIndent lan_nil p = indent 0 (profile_json lan_nil p)"

section \<open>Issuing (profile.go)\<close>

definition secret_field :: "unicode \<Rightarrow> string \<Rightarrow> bool" where
  "secret_field u key \<longleftrightarrow> key \<noteq> ToLower u key \<or> key = ''private_key'' \<or> key = ''preshared_key''"

text \<open>\<open>cmds\<close> are the fields to fill and the commands that do, in the order the loop visits the map.\<close>

fun generate_keys :: "shell \<Rightarrow> (string \<times> string) list \<Rightarrow> (string \<times> string) list \<Rightarrow> command list \<Rightarrow> command list \<times> (string \<times> string) list res" where
  "generate_keys sh [] msgs h = (h, Ok msgs)"
| "generate_keys sh ((field, cmd) # cmds) msgs h =
     (case sh h (Wg [cmd]) of
        None \<Rightarrow> (h @ [Wg [cmd]], Err (ErrNew ''official wg key generation failed''))
      | Some b \<Rightarrow> generate_keys sh cmds (msgs @ [(field, quote (TrimSpace b))]) (h @ [Wg [cmd]]))"

definition key_commands :: "bool \<Rightarrow> (string \<times> string) list" where
  "key_commands private_first =
     (if private_first then [(''private_key'', ''genkey''), (''preshared_key'', ''genpsk'')]
      else [(''preshared_key'', ''genpsk''), (''private_key'', ''genkey'')])"

text \<open>Whether the map of local names stays nil: no member belongs to it.\<close>

definition no_lan :: "unicode \<Rightarrow> (string \<times> string) list \<Rightarrow> bool" where
  "no_lan u msgs \<longleftrightarrow> \<not> list_ex (\<lambda>(k, _). struct_field u profile_fields k = Some ''lan_hostnames'') msgs"

definition Issue ::
  "unicode \<Rightarrow> (string \<Rightarrow> url res) \<Rightarrow> (string \<Rightarrow> duration res) \<Rightarrow> (byte list \<Rightarrow> byte list) \<Rightarrow> shell \<Rightarrow> bool \<Rightarrow> string \<Rightarrow> command list
    \<Rightarrow> command list \<times> string res" where
  "Issue u urlParse parseDuration public sh private_first raw h =
     (if MaxProfileBytes < length raw \<or> DecodeJSON u decode_raw_map raw \<noteq> Ok () then (h, Err (ErrNew ''invalid Linux issuance template''))
      else case raw_object raw of
        None \<Rightarrow> (h, Err (ErrNew ''invalid Linux issuance template''))
      | Some msgs \<Rightarrow>
          if list_ex (\<lambda>(key, _). secret_field u key) msgs then (h, Err (ErrNew ''issuance accepts no secret fields''))
          else case generate_keys sh (key_commands private_first) msgs h of
            (h', Ok msgs') \<Rightarrow>
              (h', bind_res (Profile_Decode u urlParse parseDuration public (marshal_raw_map msgs')) (\<lambda>p.
                     Ok (MarshalIndent (no_lan u msgs') p)))
          | (h', Err e) \<Rightarrow> (h', Err e)
          | (h', Panic) \<Rightarrow> (h', Panic))"

section \<open>The raw members are the parsed ones\<close>

lemma raw_members_names:
  "2 * length s < f \<Longrightarrow> jmembers f s = Some (ms, r) \<Longrightarrow> \<exists>fs. raw_members f s = Some fs \<and> map fst fs = map fst ms"
proof (induction f arbitrary: s ms r)
  case (Suc f)
  obtain qs where q: "skip_ws s = CHR 0x22 # qs" using Suc.prems(2) by (auto split: list.splits if_splits)
  obtain k r0 where k: "str_body qs = Some (k, r0)" using Suc.prems(2) q by (auto split: option.splits)
  obtain r1 where r1: "skip_ws r0 = CHR '':'' # r1" using Suc.prems(2) q k by (auto split: list.splits if_splits)
  obtain w r2 where w: "jvalue f r1 = Some (w, r2)" using Suc.prems(2) q k r1 by (auto split: option.splits)
  obtain d ds where d: "skip_ws r2 = d # ds" using Suc.prems(2) q k r1 w by (auto split: list.splits)
  have len: "2 * length r1 < f" "2 * length ds < f"
    using Suc.prems(1) skip_ws_Cons_length[OF q] str_body_length[OF k] skip_ws_Cons_length[OF r1]
      jvalue_jelems_jmembers_length(1)[OF w] skip_ws_Cons_length[OF d] by linarith+
  have "jvalue (Suc f) (skip_ws r1) = jvalue (Suc f) r1" by (simp add: skip_ws_def)
  also have "\<dots> = jvalue f r1" using len(1) jvalue_fuel[of r1 f] jvalue_fuel[of r1 "Suc f"] by simp
  finally have v: "jvalue (Suc f) (skip_ws r1) = Some (w, r2)" using w by simp
  have "d = CHR ''}'' \<and> ms = [(k, w)] \<or> d = CHR '','' \<and> (\<exists>ms'. ms = (k, w) # ms' \<and> jmembers f ds = Some (ms', r))"
    using Suc.prems(2) q k r1 w d by (auto split: if_splits)
  then show ?case
    using Suc.IH[OF len(2)] q k r1 v d by (subst raw_members.simps) (fastforce simp: Let_def simp del: jvalue.simps)
qed simp

text \<open>So the loop over the template's fields sees the names of its members.\<close>

lemma raw_object_names:
  assumes "json_document s = Some (JObj ms)"
  shows "\<exists>fs. raw_object s = Some fs \<and> map fst fs = map fst ms"
proof -
  let ?f = "2 * length s"
  obtain r where v: "jvalue (Suc ?f) s = Some (JObj ms, r)"
    using assms by (auto simp: json_document_def simp del: jvalue.simps split: option.splits if_splits prod.splits)
  then obtain c cs where c: "skip_ws s = c # cs" by (auto split: list.splits)
  from v c have b: "c = CHR ''{''" by (auto simp: lex_word_def split: if_splits option.splits list.splits)
  obtain d ds where d: "skip_ws cs = d # ds" using v c b by (auto split: list.splits)
  show ?thesis
  proof (cases "d = CHR ''}''")
    case True
    then show ?thesis using v c b d by (auto simp: raw_object_def)
  next
    case False
    then have m: "jmembers ?f (d # ds) = Some (ms, r)" using v c b d by (auto split: if_splits)
    have l: "2 * length (d # ds) < ?f" using skip_ws_Cons_length[OF c] length_skip_ws[of cs] d by simp
    then have "jmembers (Suc ?f) (d # ds) = Some (ms, r)" using fuel_step[of ?f] m by auto
    with l show ?thesis using raw_members_names[of "d # ds" "Suc ?f" ms r] c b d False by (simp add: raw_object_def del: jmembers.simps)
  qed
qed

section \<open>Reading indented texts\<close>

definition blank :: "string \<Rightarrow> bool" where "blank w \<longleftrightarrow> list_all is_ws w"

text \<open>A text of a value: it starts with no white space and no closing bracket, and the parser reads the value from it.\<close>

definition parses_as :: "json \<Rightarrow> string \<Rightarrow> bool" where
  "parses_as v s \<longleftrightarrow> (\<exists>c cs. s = c # cs \<and> \<not> is_ws c \<and> c \<noteq> CHR '']'' \<and> c \<noteq> CHR ''}'')
     \<and> (\<forall>f r. 2 * length s < f \<longrightarrow> jvalue f (s @ r) = Some (v, r))"

lemma skip_ws_blank: "blank w \<Longrightarrow> skip_ws (w @ s) = skip_ws s"
  by (induction w) (auto simp: blank_def skip_ws_def)

lemma parse_blank:
  assumes "blank w"
  shows "jvalue f (w @ s) = jvalue f s" "jelems f (w @ s) = jelems f s" "jmembers f (w @ s) = jmembers f s"
proof -
  show v: "jvalue f (w @ s) = jvalue f s" for f by (cases f) (simp_all add: skip_ws_blank[OF assms])
  show "jelems f (w @ s) = jelems f s" by (cases f) (simp_all add: v)
  show "jmembers f (w @ s) = jmembers f s" by (cases f) (simp_all add: skip_ws_blank[OF assms])
qed

lemma jelems_parse:
  "vs \<noteq> [] \<Longrightarrow> list_all2 parses_as vs ss \<Longrightarrow> blank w \<Longrightarrow> blank w' \<Longrightarrow> 2 * length (join ('','' @ w) ss) + 1 < f \<Longrightarrow>
     jelems f (join ('','' @ w) ss @ w' @ CHR '']'' # r) = Some (vs, r)"
proof (induction vs arbitrary: ss f)
  case (Cons v vs)
  obtain s ss' where ss: "ss = s # ss'" "parses_as v s" "list_all2 parses_as vs ss'" using Cons.prems(2) by (auto simp: list_all2_Cons1)
  obtain f' where f: "f = Suc f'" using Cons.prems(5) by (cases f) auto
  have j: "jvalue f' (s @ t) = Some (v, t)" for t
    using ss(2) Cons.prems(5) f ss(1) by (auto simp: parses_as_def join_first simp del: join.simps)
  show ?case
  proof (cases vs)
    case Nil
    then have "jelems f (s @ w' @ CHR '']'' # r) = Some ([v], r)"
      using j[of "w' @ CHR '']'' # r"] f skip_ws_blank[OF Cons.prems(4), of "CHR '']'' # r"] by (simp add: skip_ws_def is_ws_def)
    then show ?thesis using Nil ss by simp
  next
    case (Cons x xs)
    then have ne: "ss' \<noteq> []" using ss(3) by auto
    let ?t = "join ('','' @ w) ss' @ w' @ CHR '']'' # r"
    have l: "length (join ('','' @ w) ss) = length s + 1 + length w + length (join ('','' @ w) ss')" using ne ss(1) by (simp add: join_first del: join.simps)
    have "jelems f' ?t = Some (vs, r)"
      using Cons.IH[of ss' f'] Cons.prems(3-5) ss(3) f l Cons by simp
    then have "jelems f' (w @ ?t) = Some (vs, r)" using parse_blank(2)[OF Cons.prems(3)] by simp
    then have "jelems f (s @ CHR '','' # w @ ?t) = Some (v # vs, r)"
      using j[of "CHR '','' # w @ ?t"] f by (simp add: skip_ws_def is_ws_def)
    then show ?thesis using ne ss(1) by (simp add: join_first del: join.simps)
  qed
qed simp

definition member_parses :: "string \<times> json \<Rightarrow> string \<Rightarrow> bool" where
  "member_parses m s \<longleftrightarrow> (\<exists>t. s = quote (fst m) @ '': '' @ t \<and> ascii (fst m) \<and> parses_as (snd m) t)"

lemma jmember_parse:
  assumes "member_parses (k, v) s" "2 * length s < Suc f"
  shows "jmembers (Suc f) (s @ t) =
    (case skip_ws t of [] \<Rightarrow> None | d # ds \<Rightarrow>
       if d = CHR ''}'' then Some ([(k, v)], ds)
       else if d = CHR '','' then map_option (\<lambda>(ms, r'). ((k, v) # ms, r')) (jmembers f ds) else None)"
proof -
  obtain x where s: "s = quote k @ '': '' @ x" "ascii k" "parses_as v x" using assms(1) by (auto simp: member_parses_def)
  have "str_body (quote_body k @ CHR 0x22 # '': '' @ x @ t) = Some (k, '': '' @ x @ t)" using str_body_quote_body[OF s(2)] by blast
  moreover have "jvalue f ('' '' @ x @ t) = Some (v, t)"
    using s(1,3) assms(2) parse_blank(1)[of "'' ''" f] by (simp add: parses_as_def quote_def blank_def is_ws_def)
  ultimately show ?thesis by (simp add: s(1) quote_def skip_ws_def is_ws_def)
qed

lemma jmembers_parse:
  "ms \<noteq> [] \<Longrightarrow> list_all2 member_parses ms ss \<Longrightarrow> blank w \<Longrightarrow> blank w' \<Longrightarrow> 2 * length (join ('','' @ w) ss) < f \<Longrightarrow>
     jmembers f (join ('','' @ w) ss @ w' @ CHR ''}'' # r) = Some (ms, r)"
proof (induction ms arbitrary: ss f)
  case (Cons m ms)
  obtain s ss' where ss: "ss = s # ss'" "member_parses m s" "list_all2 member_parses ms ss'" using Cons.prems(2) by (auto simp: list_all2_Cons1)
  obtain k v where m: "m = (k, v)" by fastforce
  obtain f' where f: "f = Suc f'" using Cons.prems(5) by (cases f) auto
  have l: "2 * length s < Suc f'" using Cons.prems(5) f ss(1) by (simp add: join_first del: join.simps)
  note j = jmember_parse[OF ss(2)[unfolded m] l]
  show ?case
  proof (cases ms)
    case Nil
    then have "jmembers f (s @ w' @ CHR ''}'' # r) = Some ([m], r)"
      using j[of "w' @ CHR ''}'' # r"] f m skip_ws_blank[OF Cons.prems(4), of "CHR ''}'' # r"]
      by (simp add: skip_ws_def is_ws_def del: jmembers.simps)
    then show ?thesis using Nil ss by simp
  next
    case (Cons x xs)
    then have ne: "ss' \<noteq> []" using ss(3) by auto
    let ?t = "join ('','' @ w) ss' @ w' @ CHR ''}'' # r"
    have l: "length (join ('','' @ w) ss) = length s + 1 + length w + length (join ('','' @ w) ss')" using ne ss(1) by (simp add: join_first del: join.simps)
    have "jmembers f' ?t = Some (ms, r)"
      using Cons.IH[of ss' f'] Cons.prems(3-5) ss(3) f l Cons by simp
    then have "jmembers f' (w @ ?t) = Some (ms, r)" using parse_blank(3)[OF Cons.prems(3)] by simp
    then have "jmembers f (s @ CHR '','' # w @ ?t) = Some (m # ms, r)"
      using j[of "CHR '','' # w @ ?t"] f m by (simp add: skip_ws_def is_ws_def del: jmembers.simps)
    then show ?thesis using ne ss(1) by (simp add: join_first del: join.simps)
  qed
qed simp

lemma skip_ws_join:
  assumes "blank w" "s = c # cs" "\<not> is_ws c"
  shows "skip_ws (w @ join sep (s # ss) @ t) = join sep (s # ss) @ t"
  unfolding skip_ws_blank[OF assms(1)] using assms(2,3) by (simp add: join_first skip_ws_def del: join.simps)

lemma parses_asI:
  "\<not> is_ws c \<Longrightarrow> c \<noteq> CHR '']'' \<Longrightarrow> c \<noteq> CHR ''}'' \<Longrightarrow> (\<And>f r. jvalue (Suc f) (c # cs @ r) = Some (v, r)) \<Longrightarrow> parses_as v (c # cs)"
  unfolding parses_as_def by (auto simp del: jvalue.simps dest!: less_imp_Suc_add)

lemma parses_array:
  assumes "vs \<noteq> []" "list_all2 parses_as vs ss" "blank w" "blank w'"
  shows "parses_as (JArr vs) (''['' @ w @ join ('','' @ w) ss @ w' @ '']'')"
  unfolding parses_as_def
proof (intro conjI allI impI)
  fix f r assume f: "2 * length (''['' @ w @ join ('','' @ w) ss @ w' @ '']'') < f"
  obtain f' where f': "f = Suc f'" using f by (cases f) auto
  obtain s ss' v where ss: "ss = s # ss'" "parses_as v s" using assms(1,2) by (cases vs) (auto simp: list_all2_Cons1)
  then obtain c cs where c: "s = c # cs" "\<not> is_ws c" "c \<noteq> CHR '']''" by (auto simp: parses_as_def)
  have "jelems f' (join ('','' @ w) ss @ w' @ CHR '']'' # r) = Some (vs, r)" by (rule jelems_parse[OF assms]) (use f f' in simp)
  moreover have "skip_ws (w @ join ('','' @ w) ss @ w' @ CHR '']'' # r) = join ('','' @ w) ss @ w' @ CHR '']'' # r"
    unfolding ss(1) by (rule skip_ws_join[OF assms(3) c(1,2)])
  ultimately show "jvalue f ((''['' @ w @ join ('','' @ w) ss @ w' @ '']'') @ r) = Some (JArr vs, r)"
    using c ss(1) f' by (simp add: skip_ws_def is_ws_def join_first del: join.simps)
qed (simp add: is_ws_def)

lemma parses_object:
  assumes "ms \<noteq> []" "list_all2 member_parses ms ss" "blank w" "blank w'"
  shows "parses_as (JObj ms) (''{'' @ w @ join ('','' @ w) ss @ w' @ ''}'')"
  unfolding parses_as_def
proof (intro conjI allI impI)
  fix f r assume f: "2 * length (''{'' @ w @ join ('','' @ w) ss @ w' @ ''}'') < f"
  obtain f' where f': "f = Suc f'" using f by (cases f) auto
  obtain s ss' m where ss: "ss = s # ss'" "member_parses m s" using assms(1,2) by (cases ms) (auto simp: list_all2_Cons1)
  then obtain cs where c: "s = CHR 0x22 # cs" by (auto simp: member_parses_def quote_def)
  have "jmembers f' (join ('','' @ w) ss @ w' @ CHR ''}'' # r) = Some (ms, r)" by (rule jmembers_parse[OF assms]) (use f f' in simp)
  moreover have "skip_ws (w @ join ('','' @ w) ss @ w' @ CHR ''}'' # r) = join ('','' @ w) ss @ w' @ CHR ''}'' # r"
    unfolding ss(1) by (rule skip_ws_join[OF assms(3) c]) (simp add: is_ws_def)
  ultimately show "jvalue f ((''{'' @ w @ join ('','' @ w) ss @ w' @ ''}'') @ r) = Some (JObj ms, r)"
    using c ss(1) f' by (simp add: skip_ws_def is_ws_def join_first del: join.simps)
qed (simp add: is_ws_def)

text \<open>Documents of ASCII strings, nulls and truth values.\<close>

fun json_texts :: "json \<Rightarrow> bool" where
  "json_texts (JNum t) = False"
| "json_texts (JStr t) = ascii t"
| "json_texts (JArr vs) = (\<forall>v\<in>set vs. json_texts v)"
| "json_texts (JObj ms) = (\<forall>(k, v)\<in>set ms. ascii k \<and> json_texts v)"
| "json_texts _ = True"

lemma blank_new_line: "blank (new_line n)"
  by (simp add: blank_def new_line_def nl_def is_ws_def list_all_iff)

lemma parses_indent: "json_texts v \<Longrightarrow> parses_as v (indent n v)"
proof (induction v arbitrary: n)
  case (JArr vs)
  show ?case
  proof (cases "vs = []")
    case False
    have "list_all2 parses_as vs (map (indent (n + 1)) vs)" using JArr by (auto simp: list_all2_conv_all_nth)
    then show ?thesis using parses_array[OF False _ blank_new_line blank_new_line, of "map (indent (n + 1)) vs" "n + 1" n] False by simp
  qed (auto simp: is_ws_def skip_ws_def intro!: parses_asI)
next
  case (JObj ms)
  show ?case
  proof (cases "ms = []")
    case False
    let ?ss = "map (\<lambda>(k, v). quote k @ '': '' @ indent (n + 1) v) ms"
    have "member_parses m (quote (fst m) @ '': '' @ indent (n + 1) (snd m))" if "m \<in> set ms" for m
      using JObj that by (fastforce simp: member_parses_def snds.simps)
    then have "list_all2 member_parses ms ?ss" by (auto simp: list_all2_conv_all_nth case_prod_beta)
    then show ?thesis using parses_object[OF False _ blank_new_line blank_new_line, of ?ss "n + 1" n] False by simp
  qed (auto simp: is_ws_def skip_ws_def intro!: parses_asI)
next
  case (JStr t)
  then show ?case using str_body_quote_body[of t]
    by (auto simp: quote_def is_ws_def skip_ws_def intro!: parses_asI)
qed (auto simp: is_ws_def skip_ws_def lex_word_def HasPrefix_def intro!: parses_asI)

lemma json_document_indent: "json_texts v \<Longrightarrow> json_document (indent n v @ nl) = Some v"
proof -
  assume "json_texts v"
  then have "jvalue (2 * length (indent n v @ nl) + 1) (indent n v @ nl) = Some (v, nl)"
    using parses_indent[of v n] by (simp add: parses_as_def del: jvalue.simps)
  then show ?thesis unfolding json_document_def by (simp add: skip_ws_def is_ws_def nl_def del: jvalue.simps)
qed

section \<open>What the reader makes of an issued profile\<close>

lemma mset_sort_entries: "mset (sort_entries ms) = mset ms"
proof -
  have "mset (insert_entry e ms) = add_mset e (mset ms)" for e :: "string \<times> 'a" and ms by (induction ms) auto
  then show ?thesis by (induction ms) (simp_all add: sort_entries_def)
qed

lemma set_sort_entries: "set (sort_entries ms) = set ms"
  using mset_sort_entries by (metis set_mset_mset)

lemma length_sort_entries: "length (sort_entries ms) = length ms"
  using mset_sort_entries by (metis size_mset)

lemma distinct_sort_entries: "distinct (map f (sort_entries ms)) \<longleftrightarrow> distinct (map f ms)"
proof -
  have "mset (map f (sort_entries ms)) = mset (map f ms)" by (simp add: mset_sort_entries)
  then show ?thesis by (metis mset_eq_imp_distinct_iff)
qed

lemma profile_names: "n \<in> set profile_fields \<Longrightarrow> ascii n \<and> ToLower u n = n"
proof -
  have "\<forall>n\<in>set profile_fields. list_all (\<lambda>c. code c < 0x80) n \<and> map lower_ascii n = n" by code_simp
  then show "n \<in> set profile_fields \<Longrightarrow> ?thesis" using ToLower_ascii by (auto simp: ascii_def list_all_iff)
qed

lemmas profile_names_lower = profile_names[THEN conjunct2, unfolded profile_fields_def, simplified]

definition profile_texts :: "Profile \<Rightarrow> string list" where
  "profile_texts p =
     [lp_Schema p, lp_Name p, lp_PrivateKey p, lp_PresharedKey p, lp_ServerPublicKey p, lp_Address p, lp_Endpoint p]
     @ lp_AllowedIPs p @ lp_STUN p @ lp_OpenDHT p @ map fst (lp_Hostnames p) @ map snd (lp_Hostnames p)
     @ map fst (lp_LANHostnames p) @ map snd (lp_LANHostnames p)"

definition sorted_maps :: "Profile \<Rightarrow> Profile" where
  "sorted_maps p = p\<lparr>lp_Hostnames := sort_entries (lp_Hostnames p), lp_LANHostnames := sort_entries (lp_LANHostnames p)\<rparr>"

text \<open>Names that stay apart in lower case, as the reader compares them.\<close>

definition names_apart :: "unicode \<Rightarrow> (string \<times> string) list \<Rightarrow> bool" where
  "names_apart u m \<longleftrightarrow> distinct (map (\<lambda>e. ToLower u (fst e)) m)"

lemma profile_json_texts:
  assumes "\<forall>t\<in>set (profile_texts p). ascii t"
  shows "json_texts (profile_json lan_nil p)"
proof -
  have n: "\<And>n. n \<in> set profile_fields \<Longrightarrow> ascii n" using profile_names by blast
  have m: "json_texts (string_map_json m)" if a: "\<forall>t\<in>set (map fst m) \<union> set (map snd m). ascii t" for m
  proof -
    have "ascii k \<and> ascii v" if "(k, v) \<in> set m" for k v using a that by force
    then show ?thesis by (auto simp: string_map_json_def set_sort_entries)
  qed
  have "json_texts (string_map_json (lp_Hostnames p))" "json_texts (string_map_json (lp_LANHostnames p))"
    using assms by (auto intro!: m simp: profile_texts_def)
  then show ?thesis using assms n by (simp add: profile_json_def profile_fields_def profile_texts_def)
qed

lemma check_members_strings:
  "distinct (map (\<lambda>e. ToLower u (fst e)) m) \<Longrightarrow> (\<forall>e\<in>set m. ToLower u (fst e) \<notin> seen) \<Longrightarrow>
     check_members u (Suc 0) seen (map (\<lambda>(k, v). (k, JStr v)) m) = Ok ()"
proof (induction m arbitrary: seen)
  case (Cons e m)
  have "\<forall>x\<in>set m. ToLower u (fst x) \<notin> insert (ToLower u (fst e)) seen"
    using Cons.prems by (metis (no_types, lifting) distinct.simps(2) image_eqI insert_iff list.set_intros(2) list.set_map list.simps(9))
  then have "check_members u (Suc 0) (insert (ToLower u (fst e)) seen) (map (\<lambda>(k, v). (k, JStr v)) m) = Ok ()"
    using Cons.prems(1) by (intro Cons.IH) simp_all
  then show ?case using Cons.prems by (cases e) (simp add: check_json.simps Let_def)
qed simp

lemma check_string_map: "names_apart u m \<Longrightarrow> check_json u (Suc 0) (string_map_json m) = Ok ()"
  using check_members_strings[of u "sort_entries m" "{}"]
  by (simp add: check_json.simps string_map_json_def names_apart_def distinct_sort_entries)

lemma check_profile:
  assumes "names_apart u (lp_Hostnames p)" "names_apart u (lp_LANHostnames p)"
  shows "check_json u 0 (profile_json lan_nil p) = (if lan_nil then Err (ErrNew ''invalid JSON value'') else Ok ())"
proof -
  have s: "check_json u (Suc 0) (JStr t) = Ok ()" for t by (simp add: check_json.simps)
  have n: "check_json u (Suc 0) JNull = Err (ErrNew ''invalid JSON value'')" by (simp add: check_json.simps)
  show ?thesis
    by (simp add: profile_json_def check_json.simps(1)[of u 0] profile_names_lower s n check_strings check_string_map assms Let_def)
qed

lemma update_new: "k \<notin> fst ` set m \<Longrightarrow> AList.update k v m = m @ [(k, v)]"
  by (induction m) auto

lemma fold_update: "distinct (map fst (old @ es)) \<Longrightarrow> fold (\<lambda>(k, s) m. AList.update k s m) es old = old @ es"
proof (induction es arbitrary: old)
  case (Cons e es)
  then have "fold (\<lambda>(k, s) m. AList.update k s m) es (old @ [e]) = (old @ [e]) @ es" by (intro Cons.IH) simp
  moreover have "fst e \<notin> fst ` set old" using Cons.prems by auto
  ultimately show ?case by (cases e) (simp add: update_new)
qed simp

lemma json_string_map_read:
  assumes "names_apart u m"
  shows "json_string_map [] (string_map_json m) = Ok (sort_entries m)"
proof -
  have "string_entries (map (\<lambda>(k, v). (k, JStr v)) es) = Ok es" for es by (induction es) (auto simp: json_string_def)
  moreover have "distinct (map fst (sort_entries m))"
    using assms unfolding names_apart_def distinct_sort_entries by (auto simp: distinct_map inj_on_def)
  ultimately show ?thesis using fold_update[of "[]" "sort_entries m"] by (simp add: json_string_map_def string_map_json_def)
qed

lemma decode_profile:
  assumes "names_apart u (lp_Hostnames p)" "names_apart u (lp_LANHostnames p)"
  shows "json_struct u profile_fields set_profile zero_profile (profile_json False p) = Ok (sorted_maps p)"
  using assms[THEN json_string_map_read]
  by (simp add: json_struct_def profile_json_def struct_field_def profile_fields_def set_profile_def
      json_string_def json_strings_map zero_profile_def sorted_maps_def)

text \<open>The order in which the maps are visited decides which error is found first, never whether there is one.\<close>

lemma check_hostnames_Ok:
  "check_hostnames allowed lan ms = Ok () \<longleftrightarrow>
    (\<forall>m\<in>set ms. validName (fst m) \<and> \<not> HasSuffix (fst m) ''-lan'' \<and> fst m \<notin> fst ` set lan
       \<and> (case ParseAddr (snd m) of Ok ip \<Rightarrow> addr_String ip @ ''/32'' \<in> allowed | _ \<Rightarrow> False))"
proof (induction ms)
  case (Cons m ms)
  then show ?case by (cases m) (auto simp: map_of_eq_None_iff simp del: not_None_eq split: res.splits)
qed simp

lemma profile_policy_sorted: "profile_policy public client p = Ok () \<Longrightarrow> profile_policy public client (sorted_maps p) = Ok ()"
proof -
  assume ok: "profile_policy public client p = Ok ()"
  have l: "list_ex P (sort_entries m) = list_ex P m" for P and m :: "(string \<times> string) list" by (simp add: list_ex_iff set_sort_entries)
  have e: "sort_entries m = [] \<longleftrightarrow> m = []" for m :: "(string \<times> string) list" by (metis length_0_conv length_sort_entries)
  have "check_hostnames allowed (sort_entries (lp_LANHostnames p)) (sort_entries (lp_Hostnames p)) = Ok ()
      \<longleftrightarrow> check_hostnames allowed (lp_LANHostnames p) (lp_Hostnames p) = Ok ()" for allowed
    by (simp add: check_hostnames_Ok set_sort_entries)
  with ok show ?thesis
    by (auto simp: profile_policy_def sorted_maps_def Profile_PublicKey_def l e length_sort_entries  split: if_splits)
qed

lemma Profile_Validate_sorted:
  "Profile_Validate urlParse parseDuration public p = Ok () \<Longrightarrow> Profile_Validate urlParse parseDuration public (sorted_maps p) = Ok ()"
proof -
  have "profile_proposal (sorted_maps p) = profile_proposal p" by (simp add: profile_proposal_def sorted_maps_def)
  moreover have "lp_Schema (sorted_maps p) = lp_Schema p" "lp_Name (sorted_maps p) = lp_Name p" "lp_PrivateKey (sorted_maps p) = lp_PrivateKey p"
    "lp_PresharedKey (sorted_maps p) = lp_PresharedKey p" "lp_Address (sorted_maps p) = lp_Address p" by (simp_all add: sorted_maps_def)
  ultimately show "Profile_Validate urlParse parseDuration public p = Ok () \<Longrightarrow> ?thesis"
    using profile_policy_sorted[of public _ p] unfolding Profile_Validate_def
    by (auto simp:  split: if_splits res.splits)
qed

lemma generate_keys_messages:
  "generate_keys sh cmds msgs h = (h', Ok msgs') \<Longrightarrow> \<exists>ks. msgs' = msgs @ ks \<and> map fst ks = map fst cmds"
proof (induction cmds arbitrary: msgs h)
  case (Cons c cmds)
  then show ?case by (cases c) (force split: option.splits)
qed simp

text \<open>The keys do not touch the local names.\<close>

lemma no_lan_keys:
  assumes "generate_keys sh (key_commands b) msgs h = (h', Ok msgs')"
  shows "no_lan u msgs' = no_lan u msgs"
proof -
  obtain ks where k: "msgs' = msgs @ ks" "map fst ks = map fst (key_commands b)" using generate_keys_messages[OF assms] by blast
  have "''private_key'' \<in> set profile_fields" "''preshared_key'' \<in> set profile_fields" by (simp_all add: profile_fields_def)
  then have p: "struct_field u profile_fields ''private_key'' \<noteq> Some ''lan_hostnames''" "struct_field u profile_fields ''preshared_key'' \<noteq> Some ''lan_hostnames''"
    by (simp_all add: struct_field_def)
  have "list_ex (\<lambda>(n, _). P n) ms \<longleftrightarrow> list_ex P (map fst ms)" for P and ms :: "(string \<times> string) list" by (induction ms) auto
  then have "\<not> list_ex (\<lambda>(n, _). struct_field u profile_fields n = Some ''lan_hostnames'') ks"
    unfolding k(2) using p by (cases b) (simp_all add: k(2) key_commands_def)
  then show ?thesis using k(1) by (simp add: no_lan_def)
qed

text \<open>What the reader makes of an indented profile.\<close>

lemma read_indented:
  assumes "\<forall>t\<in>set (profile_texts p). ascii t" "names_apart u (lp_Hostnames p)" "names_apart u (lp_LANHostnames p)"
    "length (MarshalIndent lan_nil p) < MaxProfileBytes"
  shows "Profile_Read u urlParse parseDuration public (Ok (MarshalIndent lan_nil p @ nl)) =
        (if lan_nil then Err (ErrNew ''invalid JSON value'')
         else bind_res (Profile_Validate urlParse parseDuration public (sorted_maps p)) (\<lambda>_. Ok (sorted_maps p)))"
proof -
  let ?b = "MarshalIndent lan_nil p @ nl"
  have d: "json_document ?b = Some (profile_json lan_nil p)"
    unfolding MarshalIndent_def by (rule json_document_indent[OF profile_json_texts[OF assms(1)]])
  have l: "length ?b \<le> MaxProfileBytes" using assms(4) by (simp add: nl_def)
  have r: "Profile_Read u urlParse parseDuration public (Ok ?b) = Profile_Decode u urlParse parseDuration public ?b"
    using l by (simp add: Profile_Read_def)
  have j: "DecodeJSON u (json_struct u profile_fields set_profile zero_profile) ?b =
      (if lan_nil then Err (ErrNew ''invalid JSON value'') else Ok (sorted_maps p))"
    using d l check_profile[OF assms(2,3), of lan_nil] decode_profile[OF assms(2,3)]
    by (simp add: DecodeJSON_def nl_def MaxProfileBytes_def MaxConfigBytes_def)
  have n: "member_names ?b = Some profile_fields" by (simp add: member_names_def d profile_json_def profile_fields_def)
  have w: "\<not> list_ex (\<lambda>n. n \<noteq> ToLower u n) profile_fields" using profile_names by (auto simp: list_ex_iff)
  show ?thesis unfolding r using j n w l by (simp add: Profile_Decode_def)
qed

text \<open>A template the command works on: within the bound, an object, no secret field, and the generators answer. Its messages
  are the template's own raw members with the two keys added.\<close>

definition completed :: "unicode \<Rightarrow> shell \<Rightarrow> bool \<Rightarrow> string \<Rightarrow> command list \<Rightarrow> (string \<times> string) list \<Rightarrow> command list \<Rightarrow> (string \<times> string) list \<Rightarrow> bool" where
  "completed u sh private_first raw h fs h' msgs \<longleftrightarrow> length raw \<le> MaxProfileBytes \<and> DecodeJSON u decode_raw_map raw = Ok ()
     \<and> raw_object raw = Some fs \<and> \<not> list_ex (\<lambda>(k, _). secret_field u k) fs \<and> generate_keys sh (key_commands private_first) fs h = (h', Ok msgs)"


definition ex_fields :: "(string \<times> string) list" where
  "ex_fields = (let q = (\<lambda>k v. quote k @ '': '' @ quote v) in
     [(''name'', quote ''lap''), (''schema'', quote LinuxSchema), (''server_public_key'', quote (b64_encode (9 # replicate 31 0))),
      (''address'', quote ''10.0.0.9/32''), (''allowed_ips'', ''[ '' @ quote ''10.0.0.2/32'' @ '' ]''), (''endpoint'', quote ''203.0.113.5:51820''),
      (''stun_servers'', ''['' @ quote ''stun.example.org:3478'' @ '']''), (''opendht'', ''['' @ quote ''https://dht.example.org'' @ '']''),
      (''hostnames'', ''{'' @ q ''nas'' ''10.0.0.2'' @ '', '' @ q ''git'' ''10.0.0.2'' @ ''}''), (''lan_hostnames'', ''{'' @ q ''nas-lan'' ''192.168.1.2'' @ ''}'')])"

definition ex_template :: string where
  "ex_template = ''{ '' @ join ('','' @ nl) (map (\<lambda>(k, raw). quote k @ '': '' @ raw) ex_fields) @ '' }'' @ nl"

definition ex_messages :: "(string \<times> string) list" where
  "ex_messages = ex_fields @ [(''private_key'', quote (b64_encode (8 # replicate 30 1 @ [65]))), (''preshared_key'', quote (b64_encode (replicate 32 1)))]"

definition ex_wg_tool :: shell where
  "ex_wg_tool h c = Some (b64_encode (if c = Wg [''genkey''] then 8 # replicate 30 1 @ [65] else replicate 32 1) @ nl)"

definition ex_issued :: Profile where
  "ex_issued = \<lparr>lp_Schema = LinuxSchema, lp_Name = ''lap'', lp_PrivateKey = b64_encode (8 # replicate 30 1 @ [65]),
     lp_PresharedKey = b64_encode (replicate 32 1), lp_ServerPublicKey = b64_encode (9 # replicate 31 0), lp_Address = ''10.0.0.9/32'',
     lp_AllowedIPs = [''10.0.0.2/32''], lp_Endpoint = ''203.0.113.5:51820'', lp_STUN = [''stun.example.org:3478''],
     lp_OpenDHT = [''https://dht.example.org''], lp_Hostnames = [(''nas'', ''10.0.0.2''), (''git'', ''10.0.0.2'')],
     lp_LANHostnames = [(''nas-lan'', ''192.168.1.2'')]\<rparr>"

lemma ex_template_raw: "raw_object ex_template = Some ex_fields" by code_simp

lemma ex_template_completed:
  "completed ex_unicode ex_wg_tool True ex_template [] ex_fields [Wg [''genkey''], Wg [''genpsk'']] ex_messages"
proof -
  have "length ex_template \<le> 700" "DecodeJSON ex_unicode decode_raw_map ex_template = Ok ()"
    "\<not> list_ex (\<lambda>(k, _). secret_field ex_unicode k) ex_fields" by code_simp+
  moreover have "generate_keys ex_wg_tool (key_commands True) ex_fields [] = ([Wg [''genkey''], Wg [''genpsk'']], Ok ex_messages)" by code_simp
  ultimately show ?thesis using ex_template_raw by (simp add: completed_def MaxProfileBytes_def)
qed

lemma ex_messages_text:
  "length (marshal_raw_map ex_messages) \<le> 900" "member_names (marshal_raw_map ex_messages) = Some (map fst (sort_entries ex_messages))"
  "\<forall>n\<in>set (map fst (sort_entries ex_messages)). n = ToLower ex_unicode n"
  by code_simp+

lemma ex_messages_decode:
  "DecodeJSON ex_unicode (json_struct ex_unicode profile_fields set_profile zero_profile) (marshal_raw_map ex_messages) = Ok ex_issued"
  by code_simp


text \<open>Issuing takes no secret from the template and runs nothing for a template it refuses. A template with a key of its
  own, or with a field that is not in lower case, is refused before any command. Otherwise exactly the two key generators
  have run when a profile comes out, in either order, and both answered.\<close>

theorem issuance_takes_no_secrets:
  assumes "json_document raw = Some (JObj ms)"
  shows "(list_ex (\<lambda>(k, _). secret_field u k) ms \<longrightarrow>
        (\<exists>e. Issue u urlParse parseDuration public sh private_first raw h = (h, Err e)))
    \<and> (Issue u urlParse parseDuration public sh private_first raw h = (h', Ok s) \<longrightarrow>
        (\<exists>c1 c2. {c1, c2} = {Wg [''genkey''], Wg [''genpsk'']} \<and> h' = h @ [c1, c2] \<and> sh h c1 \<noteq> None \<and> sh (h @ [c1]) c2 \<noteq> None))"
proof -
  obtain fs where fs: "raw_object raw = Some fs" "map fst fs = map fst ms" using raw_object_names[OF assms] by blast
  have "list_ex (\<lambda>(k, _). secret_field u k) fs \<longleftrightarrow> list_ex (secret_field u) (map fst fs)"
    "list_ex (\<lambda>(k, _). secret_field u k) ms \<longleftrightarrow> list_ex (secret_field u) (map fst ms)"
    by (auto simp: list_ex_iff case_prod_beta)
  then have "list_ex (\<lambda>(k, _). secret_field u k) fs = list_ex (\<lambda>(k, _). secret_field u k) ms" using fs(2) by simp
  then show ?thesis using fs(1)
    by (auto simp: Issue_def key_commands_def insert_commute split: if_splits option.splits prod.splits res.splits)
qed

theorem issuance_takes_no_secrets_witness:
  "\<exists>e. Issue ex_unicode (\<lambda>_. Panic) (\<lambda>_. Panic) id (\<lambda>_ _. Some ''k'') True
     (''{'' @ quote ''name'' @ '': '' @ quote ''lap'' @ '', '' @ quote ''private_key'' @ '':'' @ quote ''x'' @ ''}'') [] = ([], Err e)"
proof -
  have d: "json_document (''{'' @ quote ''name'' @ '': '' @ quote ''lap'' @ '', '' @ quote ''private_key'' @ '':'' @ quote ''x'' @ ''}'')
      = Some (JObj [(''name'', JStr ''lap''), (''private_key'', JStr ''x'')])" by code_simp
  have "list_ex (\<lambda>(k, _). secret_field ex_unicode k) [(''name'', JStr ''lap''), (''private_key'', JStr ''x'')]" by code_simp
  with issuance_takes_no_secrets[OF d, of ex_unicode "\<lambda>_. Panic" "\<lambda>_. Panic" id "\<lambda>_ _. Some ''k''" True "[]"] show ?thesis by blast
qed

end
