(* ===== verification/Wg_Client.thy ===== *)
theory Wg_Client
  imports Proxy Config
begin

text \<open>
  The WireGuard client that the controllers see (\<^verbatim>\<open>internal/wg/proxy_client.go\<close>): a decorator
  that fronts every device with a relay. Its state is the proxy manager of theory \<open>Proxy\<close>, its
  configuration the interfaces of theory \<open>Config\<close>, and it delegates to the plain client of theory
  \<open>Wg_Info\<close>, whose answers are parameters here. The updates handed to the plain client are recorded,
  since they are all that WireGuard ever learns about a peer's address.
\<close>

section \<open>The decorator\<close>

definition families :: "Interfaces \<Rightarrow> string \<Rightarrow> Family \<rightharpoonup> u16" where
  "families is deviceName =
     (let port = GetProxyListenPort is deviceName; protocol = GetInterfaceProtocol is deviceName in
      if protocol = ''ipv6'' then [FamilyIPv6 \<mapsto> port]
      else if protocol = ''dualstack'' then [FamilyIPv4 \<mapsto> port, FamilyIPv6 \<mapsto> port]
      else [FamilyIPv4 \<mapsto> port])"

text \<open>\<open>ks\<close> is the order in which the map of families is visited.\<close>

definition ensureProxy :: "socket_env \<Rightarrow> Family list \<Rightarrow> Interfaces \<Rightarrow> Manager \<Rightarrow> string \<Rightarrow> Option list \<Rightarrow> Manager \<times> Proxy res" where
  "ensureProxy env ks is m deviceName opts = For env m deviceName (families is deviceName) ks opts"

text \<open>The manager hands out a pointer: what is done to the proxy is done to the manager's entry.\<close>

definition put_proxy :: "Manager \<Rightarrow> string \<Rightarrow> Proxy \<Rightarrow> Manager" where
  "put_proxy m name p = m\<lparr>proxies := (proxies m)(name \<mapsto> p)\<rparr>"

text \<open>\<open>listen\<close> is the outcome of binding the inner socket of a peer.\<close>

fun register_peers :: "(PeerKey \<Rightarrow> addrport res) \<Rightarrow> PeerKey list \<Rightarrow> Proxy \<Rightarrow> Proxy \<times> unit res" where
  "register_peers listen [] p = (p, Ok ())"
| "register_peers listen (key # keys) p =
     (case AddPeer p key (listen key) of
        (p', Ok _) \<Rightarrow> register_peers listen keys p'
      | (p', Err e) \<Rightarrow> (p', Err (ErrWrap ''wg: register peer with proxy'' [e]))
      | (p', Panic) \<Rightarrow> (p', Panic))"

definition Client_Device ::
  "socket_env \<Rightarrow> Family list \<Rightarrow> (PeerKey \<Rightarrow> addrport res) \<Rightarrow> Interfaces \<Rightarrow> string \<Rightarrow> DeviceInfo res
    \<Rightarrow> Manager \<Rightarrow> string \<Rightarrow> Manager \<times> DeviceInfo res" where
  "Client_Device env ks listen is goos inner m name =
     (if \<not> GetProxyEnabled is name goos then (m, inner)
      else case inner of
        Panic \<Rightarrow> (m, Panic) | Err e \<Rightarrow> (m, Err e)
      | Ok info \<Rightarrow>
          let tunnelIfs = NewTunnelInterfaces (TunnelInterfaceNames is) in
          (case ensureProxy env ks is m name [WithEscape (FirewallMark info) (GetProxyFib is name) tunnelIfs] of
             (m1, Panic) \<Rightarrow> (m1, Panic) | (m1, Err e) \<Rightarrow> (m1, Err e)
           | (m1, Ok p) \<Rightarrow>
               let (p2, r) = register_peers listen (PeerKeys info) (SetWGTarget p (word_of_int (ListenPort info)))
               in (put_proxy m1 name p2, bind_res r (\<lambda>_. Ok info))))"

definition Client_UpdatePeerEndpoint ::
  "socket_env \<Rightarrow> Family list \<Rightarrow> (PeerKey \<Rightarrow> addrport res) \<Rightarrow> Interfaces \<Rightarrow> string \<Rightarrow> (PeerEndpointUpdate \<Rightarrow> unit res)
    \<Rightarrow> Manager \<Rightarrow> PeerEndpointUpdate \<Rightarrow> Manager \<times> PeerEndpointUpdate list \<times> unit res" where
  "Client_UpdatePeerEndpoint env ks listen is goos inner m u =
     (case HostPort (Host u) (Port u) of
        Panic \<Rightarrow> (m, [], Panic) | Err e \<Rightarrow> (m, [], Err e)
      | Ok remote0 \<Rightarrow>
          if \<not> GetProxyEnabled is (DeviceName u) goos then (m, [u], inner u)
          else (case ensureProxy env ks is m (DeviceName u) [] of
             (m1, Panic) \<Rightarrow> (m1, [], Panic) | (m1, Err e) \<Rightarrow> (m1, [], Err e)
           | (m1, Ok p) \<Rightarrow>
               (case AddPeer p (u_PublicKey u) (listen (u_PublicKey u)) of
                  (p1, Panic) \<Rightarrow> (put_proxy m1 (DeviceName u) p1, [], Panic)
                | (p1, Err e) \<Rightarrow> (put_proxy m1 (DeviceName u) p1, [], Err (ErrWrap ''wg: register peer with proxy'' [e]))
                | (p1, Ok inner0) \<Rightarrow>
                    (case SetPeerEndpoint p1 (u_PublicKey u) remote0 of
                       (p2, Panic) \<Rightarrow> (put_proxy m1 (DeviceName u) p2, [], Panic)
                     | (p2, Err e) \<Rightarrow> (put_proxy m1 (DeviceName u) p2, [], Err e)
                     | (p2, Ok _) \<Rightarrow>
                         let v = \<lparr>DeviceName = DeviceName u, u_PublicKey = u_PublicKey u,
                                  Host = addr_String (ap_addr inner0), Port = uint (ap_port inner0)\<rparr>
                         in (put_proxy m1 (DeviceName u) p2, [v], inner v)))))"

definition Client_Close :: "string list \<Rightarrow> unit res \<Rightarrow> Manager \<Rightarrow> Manager \<times> Proxy list \<times> unit res" where
  "Client_Close names inner m =
     (let (m', closed) = Close_manager names m in (m', closed, errors_Join [inner, Ok ()]))"

definition Client_PeerHealth :: "(string \<Rightarrow> PeerKey \<Rightarrow> Health res) option \<Rightarrow> string \<Rightarrow> PeerKey \<Rightarrow> Health res" where
  "Client_PeerHealth inner name key =
     (case inner of Some reader \<Rightarrow> reader name key | None \<Rightarrow> Err (ErrNew ''WireGuard health unavailable''))"

section \<open>The managed proxies stay consistent\<close>

text \<open>Binding \<^verbatim>\<open>127.0.0.1:0\<close> gives an address on the loopback interface with a port.\<close>

definition loopback_ap :: "addrport \<Rightarrow> bool" where
  "loopback_ap a \<longleftrightarrow> ap_addr a = V4 0x7F000001 \<and> ap_port a \<noteq> 0"

definition binds_loopback :: "(PeerKey \<Rightarrow> addrport res) \<Rightarrow> bool" where
  "binds_loopback listen \<longleftrightarrow> (\<forall>k a. listen k = Ok a \<longrightarrow> loopback_ap a)"

definition fronted :: "Proxy \<Rightarrow> bool" where
  "fronted p \<longleftrightarrow> proxy_inv p \<and> (\<forall>k ps. p_peers p k = Some ps \<longrightarrow> loopback_ap (innerAddr ps))"

definition managed :: "Manager \<Rightarrow> bool" where
  "managed m \<longleftrightarrow> (\<forall>name p. proxies m name = Some p \<longrightarrow> fronted p)"

lemma managedD: "managed m \<Longrightarrow> proxies m name = Some p \<Longrightarrow> fronted p"
  by (simp add: managed_def)

lemma managed_put: "managed m \<Longrightarrow> fronted p \<Longrightarrow> managed (put_proxy m name p)"
  by (simp add: managed_def put_proxy_def)

lemma proxies_put [simp]: "proxies (put_proxy m name p) = (proxies m)(name \<mapsto> p)"
  by (simp add: put_proxy_def)

lemma normalize_loopback [simp]: "loopback_ap a \<Longrightarrow> normalize a = a"
  by (cases a) (simp add: loopback_ap_def normalize_def)

lemma AddPeer_fronted:
  assumes "fronted p" "binds_loopback listen" "AddPeer p key (listen key) = (p', r)"
  shows "fronted p'" and "r = Ok a \<Longrightarrow> (\<exists>ps. p_peers p' key = Some ps \<and> innerAddr ps = a) \<and> loopback_ap a"
proof -
  have "proxy_inv p'" using AddPeer_inv[of p key "listen key"] assms(1,3) by (simp add: fronted_def)
  then show "fronted p'"
    using assms by (auto simp: fronted_def AddPeer_def Let_def binds_loopback_def split: if_splits option.splits res.splits)
  then show "r = Ok a \<Longrightarrow> (\<exists>ps. p_peers p' key = Some ps \<and> innerAddr ps = a) \<and> loopback_ap a"
    using assms(3) by (auto simp: fronted_def AddPeer_def Let_def split: if_splits option.splits res.splits)
qed

lemma SetWGTarget_fronted: "fronted p \<Longrightarrow> fronted (SetWGTarget p port)"
  by (simp add: fronted_def SetWGTarget_def proxy_inv_def)

lemma SetPeerEndpoint_fronted:
  assumes "fronted p" "SetPeerEndpoint p key a = (p', r)"
  shows "fronted p'"
    and "p_peers p key = Some ps \<Longrightarrow> r = Ok () \<Longrightarrow> p_peers p' key = Some (ps\<lparr>remote := Some (normalize a)\<rparr>)"
proof -
  have "proxy_inv p'" using SetPeerEndpoint_inv[of p key a] assms by (simp add: fronted_def)
  then show "fronted p'"
    using assms by (auto simp: fronted_def SetPeerEndpoint_def Let_def split: if_splits option.splits res.splits)
  show "p_peers p key = Some ps \<Longrightarrow> r = Ok () \<Longrightarrow> p_peers p' key = Some (ps\<lparr>remote := Some (normalize a)\<rparr>)"
    using assms(2) by (auto simp: SetPeerEndpoint_def Let_def split: if_splits res.splits)
qed

lemma register_peers_fronted:
  "fronted p \<Longrightarrow> binds_loopback listen \<Longrightarrow> register_peers listen keys p = (p', r) \<Longrightarrow> fronted p'"
proof (induction keys arbitrary: p)
  case (Cons key keys)
  obtain p1 r1 where a: "AddPeer p key (listen key) = (p1, r1)" by fastforce
  then show ?case
    using Cons AddPeer_fronted(1)[OF Cons.prems(1,2) a] by (auto split: res.splits)
qed simp

lemma New_fronted: "New env fams ks opts = NewOk p \<Longrightarrow> fronted p"
  using New_inv[of env fams ks opts p]
  by (auto simp: fronted_def New_def Let_def split: if_splits sum.splits prod.splits)

lemma For_managed:
  assumes "managed m" "For env m dev fams ks opts = (m', r)"
  shows "managed m'" and "r = Ok p \<Longrightarrow> fronted p \<and> proxies m' dev = Some p"
  using assms New_fronted[of env fams ks opts]
  by (auto simp: For_def managed_def split: if_splits option.splits new_result.splits)

text \<open>Both operations keep every managed proxy consistent, on every outcome.\<close>

lemma Client_Device_managed:
  assumes "managed m" "binds_loopback listen"
  shows "managed (fst (Client_Device env ks listen is goos inner m name))"
proof (cases inner)
  case (Ok info)
  let ?opts = "[WithEscape (FirewallMark info) (GetProxyFib is name) (NewTunnelInterfaces (TunnelInterfaceNames is))]"
  obtain m1 r1 where e: "ensureProxy env ks is m name ?opts = (m1, r1)" by fastforce
  note For = For_managed[OF assms(1) e[unfolded ensureProxy_def]]
  show ?thesis
  proof (cases r1)
    case r1: (Ok p)
    obtain p2 r2 where r: "register_peers listen (PeerKeys info) (SetWGTarget p (word_of_int (ListenPort info))) = (p2, r2)" by fastforce
    have "fronted p2" using register_peers_fronted[OF SetWGTarget_fronted assms(2) r] For(2)[OF r1] by blast
    then show ?thesis
      using assms(1) Ok e r r1 managed_put[OF For(1)] by (simp add: Client_Device_def)
  qed (use assms(1) Ok e For(1) in \<open>simp_all add: Client_Device_def\<close>)
qed (use assms(1) in \<open>simp_all add: Client_Device_def\<close>)

lemma Endpoint_normalized: "Endpoint text = Ok ap \<Longrightarrow> normalize ap = ap"
  by (auto simp: Endpoint_def normalize_def split: if_splits)

lemma HostPort_normalized: "HostPort host port = Ok ap \<Longrightarrow> normalize ap = ap"
  using Endpoint_normalized by (simp add: HostPort_def split: if_splits)

lemma loopback_text: "addr_String (V4 0x7F000001) = ''127.0.0.1''"
  by code_simp

lemma Client_UpdatePeerEndpoint_cases:
  assumes "managed m" "binds_loopback listen" "GetProxyEnabled is (DeviceName u) goos"
    "Client_UpdatePeerEndpoint env ks listen is goos inner m u = (m', calls, r)"
  shows "managed m' \<and> (calls = [] \<and> r \<noteq> Ok () \<or>
    (\<exists>ap p ps v. HostPort (Host u) (Port u) = Ok ap \<and> proxies m' (DeviceName u) = Some p \<and> fronted p \<and>
       p_peers p (u_PublicKey u) = Some ps \<and> remote ps = Some ap \<and> calls = [v] \<and> r = inner v \<and>
       v = \<lparr>DeviceName = DeviceName u, u_PublicKey = u_PublicKey u, Host = ''127.0.0.1'', Port = uint (ap_port (innerAddr ps))\<rparr>))"
proof (cases "HostPort (Host u) (Port u)")
  case (Ok ap)
  obtain m1 r1 where e: "ensureProxy env ks is m (DeviceName u) [] = (m1, r1)" by fastforce
  note For = For_managed[OF assms(1) e[unfolded ensureProxy_def]]
  show ?thesis
  proof (cases r1)
    case r1: (Ok p)
    note p = For(2)[OF r1]
    obtain p1 r2 where a: "AddPeer p (u_PublicKey u) (listen (u_PublicKey u)) = (p1, r2)" by fastforce
    note A = AddPeer_fronted[OF conjunct1[OF p] assms(2) a]
    show ?thesis
    proof (cases r2)
      case r2: (Ok inner0)
      obtain ps where ps: "p_peers p1 (u_PublicKey u) = Some ps" "innerAddr ps = inner0" "loopback_ap inner0"
        using A(2)[OF r2] by blast
      obtain p2 r3 where s: "SetPeerEndpoint p1 (u_PublicKey u) ap = (p2, r3)" by fastforce
      note S = SetPeerEndpoint_fronted[OF A(1) s]
      show ?thesis
        using assms(3,4) Ok e r1 a r2 s S(1) S(2)[OF ps(1)] managed_put[OF For(1) S(1)] ps HostPort_normalized[OF Ok] loopback_text
        by (cases r3) (auto simp: Client_UpdatePeerEndpoint_def Let_def loopback_ap_def simp del: addr_String.simps)
    qed (use assms(3,4) Ok e r1 a A(1) For(1) in \<open>auto simp: Client_UpdatePeerEndpoint_def intro: managed_put\<close>)
  qed (use assms(3,4) Ok e For(1) in \<open>auto simp: Client_UpdatePeerEndpoint_def\<close>)
qed (use assms in \<open>auto simp: Client_UpdatePeerEndpoint_def\<close>)

lemma relayed_from_remote:
  assumes "fronted p" "p_peers p key = Some ps" "remote ps = Some r" "wgPort p \<noteq> 0" "isSTUNShaped b = Ok False"
  shows "\<exists>p'. outer_recv p r b True = Ok (p', [ToWG key b (wgTarget p)])"
proof -
  have "srcByPeer (p_demux p) key = Some r" "demux_ok (p_demux p)"
    using assms(1-3) by (auto simp: fronted_def proxy_inv_def demux_inv_def)
  then have "peerBySrc (p_demux p) r = Some key" "normalize r = r"
    by (auto simp: demux_ok_def)
  then have "Classify (p_demux p) r b = Ok (\<lparr>dec_Bucket = BucketRelay, dec_Peer = key\<rparr>, p_demux p)"
    using assms(5) by (simp add: Classify_def)
  then show ?thesis
    using assms(2,4) by (simp add: outer_recv_def Let_def wgTarget_def ap_IsValid_def AddrFrom4_def)
qed

section \<open>Properties\<close>


definition sample_update :: PeerEndpointUpdate where
  "sample_update = \<lparr>DeviceName = ''wg0'', u_PublicKey = zero_key, Host = ''8.8.8.8'', Port = 51820\<rparr>"


end
