(* ===== verification/Bootstrap.thy ===== *)
theory Bootstrap
  imports Entity Wg_Client
begin

text \<open>
  Registration of the configured devices (\<^verbatim>\<open>internal/ctrl/bootstrap.go\<close>): each interface is read
  through the WireGuard client, its configured peers are filtered down to those the device really has,
  and what is left is saved in the two repositories. The state is the pair of repositories and the
  proxy manager behind the client. A device is read twice, once for itself and once for its peer map.
\<close>

section \<open>The controller\<close>

record Boot =
  b_devices :: Devices
  b_peers :: Peers
  b_manager :: Manager

text \<open>The client: which of the two readings of a device it is, the name, and the manager it updates.\<close>

type_synonym device_reader = "nat \<Rightarrow> string \<Rightarrow> Manager \<Rightarrow> Manager \<times> DeviceInfo res"

definition registerDevice :: "device_reader \<Rightarrow> Interfaces \<Rightarrow> string \<Rightarrow> Boot \<Rightarrow> Boot \<times> unit res" where
  "registerDevice reader is deviceName b =
     (case reader 0 deviceName (b_manager b) of
        (m1, Panic) \<Rightarrow> (b\<lparr>b_manager := m1\<rparr>, Panic)
      | (m1, Err e) \<Rightarrow> (b\<lparr>b_manager := m1\<rparr>, Err e)
      | (m1, Ok dev) \<Rightarrow>
          let protocol = GetInterfaceProtocol is deviceName;
              deviceEntity = NewDevice (di_Name dev) (ListenPort dev) protocol (FirewallMark dev);
              configPeers = GetConfigPeers is (d_name deviceEntity) (di_PublicKey dev);
              (m2, peerMap) = (case configPeers of
                  Ok _ \<Rightarrow> (case reader 1 (d_name deviceEntity) m1 of (m2, r) \<Rightarrow> (m2, GetDevicePeerMap r))
                | _ \<Rightarrow> (m1, Ok Map.empty));
              b' = b\<lparr>b_manager := m2\<rparr>
          in case FilterPeer_Execute configPeers peerMap of
               Panic \<Rightarrow> (b', Panic) | Err e \<Rightarrow> (b', Err e)
             | Ok allowPeers \<Rightarrow>
                 if allowPeers = [] then (b', Ok ())
                 else (b'\<lparr>b_devices := Devices_Save (b_devices b) deviceEntity,
                          b_peers := fold (\<lambda>p r. Peers_Save r p) allowPeers (b_peers b)\<rparr>, Ok ()))"

text \<open>\<open>names\<close> is the order in which the map of interfaces is visited.\<close>

fun Boot_Execute :: "device_reader \<Rightarrow> Interfaces \<Rightarrow> string list \<Rightarrow> Boot \<Rightarrow> Boot \<times> unit res" where
  "Boot_Execute reader is [] b = (b, Ok ())"
| "Boot_Execute reader is (name # names) b =
     (case registerDevice reader is name b of
        (b', Panic) \<Rightarrow> (b', Panic)
      | (b', Err e) \<Rightarrow>
          if errors_Is e ErrElevationRequired then (b', Err (ErrWrap (''device '' @ name) [e]))
          else Boot_Execute reader is names b'
      | (b', Ok _) \<Rightarrow> Boot_Execute reader is names b')"

section \<open>What is registered\<close>

text \<open>Every registered peer is stored under its own identity, which is that of a local and the remote
  key; it is a configured peer of its device, and the device is registered under its own name.\<close>

definition boot_ok :: "Interfaces \<Rightarrow> Boot \<Rightarrow> bool" where
  "boot_ok is b \<longleftrightarrow>
     (\<forall>pid p. b_peers b pid = Some p \<longrightarrow>
        p_id p = pid \<and> items (b_devices b) (p_deviceName p) \<noteq> None \<and>
        (\<exists>key ps. pid = NewPeerId key (p_publicKey p) \<and> GetConfigPeers is (p_deviceName p) key = Ok ps \<and> p \<in> set ps)) \<and>
     (\<forall>name d. items (b_devices b) name = Some d \<longrightarrow> d_name d = name)"

lemma map_filter_mem: "x \<in> set (List.map_filter f xs) \<longleftrightarrow> (\<exists>y\<in>set xs. f y = Some x)"
  by (induction xs) (auto simp: List.map_filter_simps split: option.splits)

lemma config_peer_SomeD:
  "config_peer name key q = Some p \<Longrightarrow> p_deviceName p = name \<and> p_id p = NewPeerId key (p_publicKey p)"
  by (auto simp: config_peer_def NewPeer_def NewPeerId_def copy_key_def PeerKeyLength_def split: res.splits if_splits)

lemma GetConfigPeers_member:
  "GetConfigPeers is name key = Ok ps \<Longrightarrow> p \<in> set ps \<Longrightarrow> p_deviceName p = name \<and> p_id p = NewPeerId key (p_publicKey p)"
  by (auto simp: GetConfigPeers_def map_filter_mem dest!: config_peer_SomeD split: option.splits)

lemma fold_Peers_Save:
  "fold (\<lambda>p r. Peers_Save r p) ps r pid = Some p \<Longrightarrow> p \<in> set ps \<and> p_id p = pid \<or> r pid = Some p"
  by (induction ps arbitrary: r) (fastforce simp: Peers_Save_def split: if_splits)+

lemma fold_Peers_Save_dom: "pid \<in> p_id ` set ps \<or> r pid \<noteq> None \<Longrightarrow> fold (\<lambda>p r. Peers_Save r p) ps r pid \<noteq> None"
  by (induction ps arbitrary: r) (auto simp: Peers_Save_def)

text \<open>The outcomes of a registration: nothing is saved, or the allowed peers and their device are.\<close>

definition allowed_peers :: "device_reader \<Rightarrow> Interfaces \<Rightarrow> string \<Rightarrow> Manager \<Rightarrow> DeviceInfo \<Rightarrow> Peer list res" where
  "allowed_peers reader is deviceName m dev =
     FilterPeer_Execute (GetConfigPeers is (di_Name dev) (di_PublicKey dev))
       (GetDevicePeerMap (snd (reader 1 (di_Name dev) (fst (reader 0 deviceName m)))))"

lemma GetConfigPeers_Ok: "\<exists>ps. GetConfigPeers is name key = Ok ps"
  by (auto simp: GetConfigPeers_def split: option.splits)

lemma registerDevice_saves:
  assumes "registerDevice reader is name b = (b', r)" "snd (reader 0 name (b_manager b)) = Ok dev"
    "allowed_peers reader is name (b_manager b) dev = Ok ps"
  shows "r = Ok () \<and> b_peers b' = fold (\<lambda>p r. Peers_Save r p) ps (b_peers b) \<and>
    (ps \<noteq> [] \<longrightarrow> b_devices b' = Devices_Save (b_devices b)
       (NewDevice (di_Name dev) (ListenPort dev) (GetInterfaceProtocol is name) (FirewallMark dev))) \<and>
    (ps = [] \<longrightarrow> b_devices b' = b_devices b)"
proof -
  obtain m1 where r1: "reader 0 name (b_manager b) = (m1, Ok dev)" using assms(2) by (cases "reader 0 name (b_manager b)") auto
  obtain cps where c: "GetConfigPeers is (di_Name dev) (di_PublicKey dev) = Ok cps" using GetConfigPeers_Ok by blast
  obtain m2 r2 where r2: "reader 1 (di_Name dev) m1 = (m2, r2)" by fastforce
  have "FilterPeer_Execute (Ok cps) (GetDevicePeerMap r2) = Ok ps"
    using assms(3) r1 r2 c by (simp add: allowed_peers_def)
  then show ?thesis using assms(1) r1 r2 c by (auto simp: registerDevice_def NewDevice_def Let_def split: if_splits)
qed

lemma registerDevice_fails:
  assumes "registerDevice reader is name b = (b', r)"
    "\<And>dev ps. snd (reader 0 name (b_manager b)) = Ok dev \<Longrightarrow> allowed_peers reader is name (b_manager b) dev \<noteq> Ok ps"
  shows "b_peers b' = b_peers b \<and> b_devices b' = b_devices b"
proof -
  obtain m1 r1 where r1: "reader 0 name (b_manager b) = (m1, r1)" by fastforce
  show ?thesis
  proof (cases r1)
    case (Ok dev)
    obtain cps where c: "GetConfigPeers is (di_Name dev) (di_PublicKey dev) = Ok cps" using GetConfigPeers_Ok by blast
    obtain m2 r2 where r2: "reader 1 (di_Name dev) m1 = (m2, r2)" by fastforce
    have "FilterPeer_Execute (Ok cps) (GetDevicePeerMap r2) \<noteq> Ok ps" for ps
      using assms(2)[of dev ps] r1 Ok r2 c by (simp add: allowed_peers_def)
    then show ?thesis
      using assms(1) r1 Ok r2 c by (cases "FilterPeer_Execute (Ok cps) (GetDevicePeerMap r2)") (auto simp: registerDevice_def NewDevice_def Let_def)
  qed (use assms(1) r1 in \<open>auto simp: registerDevice_def\<close>)
qed

lemma allowed_peers_member:
  assumes "allowed_peers reader is name m dev = Ok ps" "p \<in> set ps"
  shows "\<exists>cps. GetConfigPeers is (di_Name dev) (di_PublicKey dev) = Ok cps \<and> p \<in> set cps"
  using assms by (auto simp: allowed_peers_def FilterPeer_Execute_def)

lemma registerDevice_ok:
  assumes "boot_ok is b" "registerDevice reader is name b = (b', r)"
  shows "boot_ok is b'"
proof -
  consider "b_peers b' = b_peers b" "b_devices b' = b_devices b"
    | dev ps where "snd (reader 0 name (b_manager b)) = Ok dev" "allowed_peers reader is name (b_manager b) dev = Ok ps" "ps \<noteq> []"
    using registerDevice_fails[OF assms(2)] registerDevice_saves[OF assms(2)] by (metis fold_simps(1))
  then show ?thesis
  proof cases
    case saved: 2
    note 2 = saved(2) conjunct1[OF conjunct2[OF registerDevice_saves[OF assms(2) saved(1,2)]]]
      mp[OF conjunct1[OF conjunct2[OF conjunct2[OF registerDevice_saves[OF assms(2) saved(1,2)]]]] saved(3)]
    have new: "p_deviceName p = di_Name dev \<and> (\<exists>key ps. p_id p = NewPeerId key (p_publicKey p) \<and>
        GetConfigPeers is (p_deviceName p) key = Ok ps \<and> p \<in> set ps)" if "p \<in> set ps" for p
      using allowed_peers_member[OF 2(1) that] GetConfigPeers_member by metis
    have "p_id p = pid \<and> items (b_devices b') (p_deviceName p) \<noteq> None \<and>
        (\<exists>key ps. pid = NewPeerId key (p_publicKey p) \<and> GetConfigPeers is (p_deviceName p) key = Ok ps \<and> p \<in> set ps)"
      if "b_peers b' pid = Some p" for pid p
      using fold_Peers_Save[OF that[unfolded 2(2)]]
    proof
      assume "b_peers b pid = Some p"
      then show ?thesis using assms(1) by (auto simp: boot_ok_def 2(3) Devices_Save_def)
    qed (use new[of p] in \<open>auto simp: 2(3) Devices_Save_def NewDevice_def\<close>)
    then show ?thesis using assms(1) by (auto simp: boot_ok_def 2(3) Devices_Save_def)
  qed (use assms(1) in \<open>simp add: boot_ok_def\<close>)
qed

lemma registerDevice_dom:
  assumes "registerDevice reader is name b = (b', r)"
  shows "dom (b_peers b) \<subseteq> dom (b_peers b')"
proof (cases "\<exists>dev ps. snd (reader 0 name (b_manager b)) = Ok dev \<and> allowed_peers reader is name (b_manager b) dev = Ok ps")
  case True
  then obtain dev ps where "b_peers b' = fold (\<lambda>p r. Peers_Save r p) ps (b_peers b)"
    using registerDevice_saves[OF assms] by blast
  then show ?thesis using fold_Peers_Save_dom[of _ ps "b_peers b"] by (intro subsetI) (simp add: domIff)
next
  case False
  then have "b_peers b' = b_peers b" using registerDevice_fails[OF assms] by blast
  then show ?thesis by simp
qed

lemma Boot_Execute_ok:
  "boot_ok is b \<Longrightarrow> Boot_Execute reader is names b = (b', r) \<Longrightarrow>
     boot_ok is b' \<and> (\<forall>e. r = Err e \<longrightarrow> errors_Is e ErrElevationRequired) \<and> dom (b_peers b) \<subseteq> dom (b_peers b')"
proof (induction names arbitrary: b)
  case (Cons name names)
  obtain b1 r1 where s: "registerDevice reader is name b = (b1, r1)" by fastforce
  have ok: "boot_ok is b1" by (rule registerDevice_ok[OF Cons.prems(1) s])
  have d: "dom (b_peers b) \<subseteq> dom (b_peers b1)" by (rule registerDevice_dom[OF s])
  show ?case
  proof (cases r1)
    case (Err e)
    show ?thesis
    proof (cases "errors_Is e ErrElevationRequired")
      case True
      then have "b' = b1" "r = Err (ErrWrap (''device '' @ name) [e])" using Cons.prems(2) s Err by simp_all
      then show ?thesis using True ok d by auto
    next
      case False
      then have "Boot_Execute reader is names b1 = (b', r)" using Cons.prems(2) s Err by simp
      from Cons.IH[OF ok this] show ?thesis using d by blast
    qed
  next
    case (Ok x)
    then have "Boot_Execute reader is names b1 = (b', r)" using Cons.prems(2) s by simp
    from Cons.IH[OF ok this] show ?thesis using d by blast
  qed (use Cons.prems(2) s ok d in auto)
qed auto

lemma Boot_Execute_complete:
  assumes "\<And>n name m. snd (reader n name m) = info n name" "Boot_Execute reader is names b = (b', Ok ())" "boot_ok is b"
    "name \<in> set names" "info 0 name = Ok dev" "info 1 (di_Name dev) = Ok dev'"
    "GetConfigPeers is (di_Name dev) (di_PublicKey dev) = Ok ps" "p \<in> set ps" "p_publicKey p \<in> set (PeerKeys dev')"
  shows "p_id p \<in> dom (b_peers b')"
  using assms(2-4)
proof (induction names arbitrary: b)
  case (Cons n names)
  obtain b1 r1 where s: "registerDevice reader is n b = (b1, r1)" by fastforce
  have ok: "boot_ok is b1" by (rule registerDevice_ok[OF Cons.prems(2) s])
  have rest: "Boot_Execute reader is names b1 = (b', Ok ())"
    using Cons.prems(1) s by (auto split: res.splits if_splits)
  show ?case
  proof (cases "n = name")
    case True
    let ?ps = "filter (\<lambda>p. p_publicKey p \<in> set (PeerKeys dev')) ps"
    have "allowed_peers reader is name (b_manager b) dev = Ok ?ps"
      using assms(1,6,7) by (simp add: allowed_peers_def FilterPeer_Execute_def GetDevicePeerMap_def fold_update_True)
    then have "b_peers b1 = fold (\<lambda>p r. Peers_Save r p) ?ps (b_peers b)"
      using registerDevice_saves[OF s[unfolded True]] assms(1,5) by simp
    moreover have "p_id p \<in> p_id ` set ?ps" using assms(8,9) by simp
    ultimately have "p_id p \<in> dom (b_peers b1)"
      using fold_Peers_Save_dom[of "p_id p" ?ps "b_peers b"] by (simp only: dom_def mem_Collect_eq simp_thms)
    then show ?thesis using Boot_Execute_ok[OF ok rest] by blast
  next
    case False
    then show ?thesis using Cons.IH[OF rest ok] Cons.prems(3) by auto
  qed
qed simp

section \<open>Properties\<close>

text \<open>Registration is sound and complete. Starting with empty repositories, whatever the readings: each
  registered peer sits under its own identity, is configured for its device, and its device is
  registered; the call fails only for missing privileges. And when it succeeds, with readings that do
  not depend on the manager, every configured peer that its device has is registered.\<close>

theorem bootstrap_registers:
  assumes "b = \<lparr>b_devices = NewDevices, b_peers = NewPeers, b_manager = m\<rparr>" "Boot_Execute reader is names b = (b', r)"
  shows "boot_ok is b' \<and> (\<forall>e. r = Err e \<longrightarrow> errors_Is e ErrElevationRequired) \<and>
    (r = Ok () \<and> (\<forall>n name m. snd (reader n name m) = info n name) \<and> name \<in> set names \<and>
     info 0 name = Ok dev \<and> info 1 (di_Name dev) = Ok dev' \<and>
     GetConfigPeers is (di_Name dev) (di_PublicKey dev) = Ok ps \<and> p \<in> set ps \<and> p_publicKey p \<in> set (PeerKeys dev')
     \<longrightarrow> is_Ok (Peers_Find (b_peers b') (p_id p)))"
proof -
  have ok: "boot_ok is b" using assms(1) by (simp add: boot_ok_def NewDevices_def NewPeers_def)
  note sound = Boot_Execute_ok[OF ok assms(2)]
  have "p_id p \<in> dom (b_peers b')"
    if "r = Ok ()" "\<forall>n name m. snd (reader n name m) = info n name" "name \<in> set names" "info 0 name = Ok dev"
      "info 1 (di_Name dev) = Ok dev'" "GetConfigPeers is (di_Name dev) (di_PublicKey dev) = Ok ps" "p \<in> set ps"
      "p_publicKey p \<in> set (PeerKeys dev')"
    using assms(2) unfolding that(1)
    by (rule Boot_Execute_complete[OF spec[OF spec[OF spec[OF that(2)]]] _ ok that(3-8)])
  then show ?thesis using sound by (fastforce simp: Peers_Find_def)
qed

definition sample_info :: DeviceInfo where
  "sample_info = \<lparr>di_Name = ''wg0'', ListenPort = 51820, di_PublicKey = replicate 32 1, PeerKeys = [replicate 32 2], FirewallMark = 0\<rparr>"

definition sample_interfaces :: Interfaces where
  "sample_interfaces = [(''wg0'', ex_interface\<lparr>if_Peers := [(''alice'',
      \<lparr>Description = [], cp_PublicKey = ''AgICAgICAgICAgICAgICAgICAgICAgICAgICAgICAgI='', cp_Plugin = ''dht'',
       cp_Protocol = ''ipv4'', cp_Ping = None\<rparr>)]\<rparr>)]"

theorem bootstrap_registers_witness:
  "is_Ok (Peers_Find (b_peers (fst (Boot_Execute (\<lambda>_ _ m. (m, Ok sample_info)) sample_interfaces [''wg0'']
      \<lparr>b_devices = NewDevices, b_peers = NewPeers, b_manager = NewManager\<rparr>))) (NewPeerId (replicate 32 1) (replicate 32 2)))"
proof -
  let ?b = "\<lparr>b_devices = NewDevices, b_peers = NewPeers, b_manager = NewManager\<rparr>"
  let ?p = "NewPeer (NewPeerId (replicate 32 1) (replicate 32 2)) ''wg0'' (copy_key (replicate 32 2)) ''dht'' ''ipv4''
      \<lparr>Enabled = False, Target = [], Interval = 0, Timeout = 0\<rparr>"
  obtain b' r where e: "Boot_Execute (\<lambda>_ _ m. (m, Ok sample_info)) sample_interfaces [''wg0''] ?b = (b', r)" by fastforce
  have c: "GetConfigPeers sample_interfaces ''wg0'' (replicate 32 1) = Ok [?p]" by code_simp
  have "r = Ok ()"
  proof -
    obtain b1 r1 where s: "registerDevice (\<lambda>_ _ m. (m, Ok sample_info)) sample_interfaces ''wg0'' ?b = (b1, r1)" by fastforce
    obtain ps where "allowed_peers (\<lambda>_ _ m. (m, Ok sample_info)) sample_interfaces ''wg0'' NewManager sample_info = Ok ps"
      using c by (simp add: allowed_peers_def FilterPeer_Execute_def GetDevicePeerMap_def sample_info_def)
    with registerDevice_saves[OF s] have "r1 = Ok ()" by simp
    with e s show ?thesis by simp
  qed
  then show ?thesis
    using bootstrap_registers[OF refl e, of "\<lambda>_ _. Ok sample_info" "''wg0''" sample_info sample_info "[?p]" ?p] c e
    by (simp add: sample_info_def NewPeer_def)
qed

end
