(* ===== verification/Lifecycle.thy ===== *)
theory Lifecycle
  imports Establish Bootstrap
begin

text \<open>
  The life of the process: the daemon's two ways to run (\<^verbatim>\<open>internal/daemon\<close>) as the sequence of
  actions each performs, and the application around it (\<^verbatim>\<open>app\<close>), whose admission of runs and
  shutdown race with each other and are modelled as a step relation over every interleaving.
\<close>

section \<open>The daemon (daemon.go)\<close>

text \<open>The calls a run makes, in order. Starting a worker adds it to the wait group; waiting for the
  workers returns when all that were started have ended, which they do once the context is cancelled.\<close>

datatype daemon_action =
  Boot_run | Start_publish | Start_establish | Start_ping | Trigger_publish | Trigger_establish
| Execute_publish | Sleep duration | Await_establish | Cancel | Wait_workers

text \<open>\<open>boot\<close> is the outcome of bootstrapping, \<open>ticks\<close> the number of refresh ticks before the context
  ends. The deferred shutdown runs on every exit.\<close>

definition Daemon_Run :: "unit res \<Rightarrow> nat \<Rightarrow> daemon_action list \<times> unit res" where
  "Daemon_Run boot ticks =
     (case boot of
        Ok _ \<Rightarrow>
          ([Boot_run, Start_publish, Start_establish, Start_ping, Trigger_publish, Trigger_establish]
             @ concat (replicate ticks [Trigger_publish, Trigger_establish]) @ [Cancel, Wait_workers], Ok ())
      | e \<Rightarrow> ([Boot_run, Cancel, Wait_workers], e))"

definition oneshot_round :: "nat \<Rightarrow> daemon_action list" where
  "oneshot_round i = [Execute_publish, Sleep (2 * second), Trigger_establish, Sleep (2 * second)]
     @ (if i < 3 then [Sleep (3 * second)] else [])"

definition RunOneshot :: "unit res \<Rightarrow> daemon_action list \<times> unit res" where
  "RunOneshot boot =
     (case boot of
        Ok _ \<Rightarrow>
          ([Boot_run, Start_establish] @ concat (map oneshot_round [1, 2, 3])
             @ [Await_establish, Cancel, Wait_workers, Cancel], Ok ())
      | e \<Rightarrow> ([Boot_run, Cancel], e))"

definition is_start :: "daemon_action \<Rightarrow> bool" where
  "is_start a \<longleftrightarrow> a \<in> {Start_publish, Start_establish, Start_ping}"

text \<open>Before a run returns it has cancelled and then waited for every worker it started: nothing is
  started after the wait, and a wait follows a cancellation. A failed bootstrap starts nothing.\<close>

definition shuts_down :: "daemon_action list \<Rightarrow> bool" where
  "shuts_down as \<longleftrightarrow> (\<exists>before after. as = before @ [Cancel, Wait_workers] @ after \<and> \<not> list_ex is_start after)"

lemma Daemon_Run_shuts_down:
  "shuts_down (fst (Daemon_Run boot ticks))"
  "boot \<noteq> Ok () \<Longrightarrow> \<not> list_ex is_start (fst (Daemon_Run boot ticks)) \<and> snd (Daemon_Run boot ticks) = boot"
proof -
  show "shuts_down (fst (Daemon_Run boot ticks))"
  proof (cases boot)
    case (Ok x)
    then show ?thesis
      unfolding shuts_down_def
      by (intro exI[of _ "[Boot_run, Start_publish, Start_establish, Start_ping, Trigger_publish, Trigger_establish]
          @ concat (replicate ticks [Trigger_publish, Trigger_establish])"] exI[of _ "[]"]) (simp add: Daemon_Run_def)
  qed (auto simp: shuts_down_def Daemon_Run_def intro: exI[of _ "[Boot_run]"] exI[of _ "[]"])
qed (cases boot; simp add: Daemon_Run_def is_start_def)

lemma RunOneshot_shuts_down:
  "boot = Ok () \<Longrightarrow> shuts_down (fst (RunOneshot boot))"
  "boot \<noteq> Ok () \<Longrightarrow> \<not> list_ex is_start (fst (RunOneshot boot)) \<and> snd (RunOneshot boot) = boot"
  unfolding shuts_down_def
  by (intro exI[of _ "[Boot_run, Start_establish] @ concat (map oneshot_round [1, 2, 3]) @ [Await_establish]"] exI[of _ "[Cancel]"],
      simp add: RunOneshot_def is_start_def)
    (cases boot; simp add: RunOneshot_def is_start_def)

text \<open>Each refresh tick asks for exactly one publish and one establish cycle, beyond the initial pair.\<close>

lemma Daemon_Run_triggers:
  "count_list (fst (Daemon_Run (Ok ()) n)) Trigger_publish = n + 1"
  "count_list (fst (Daemon_Run (Ok ()) n)) Trigger_establish = n + 1"
proof -
  have "count_list (concat (replicate n [Trigger_publish, Trigger_establish])) Trigger_publish = n"
    "count_list (concat (replicate n [Trigger_publish, Trigger_establish])) Trigger_establish = n"
    by (induction n) auto
  then show "count_list (fst (Daemon_Run (Ok ()) n)) Trigger_publish = n + 1"
    "count_list (fst (Daemon_Run (Ok ()) n)) Trigger_establish = n + 1"
    by (simp_all add: Daemon_Run_def)
qed

section \<open>Wiring (wiring.go, proxy\_stack.go)\<close>

datatype cleanup = Close_client | Close_plugins

text \<open>What is released at once, and either an error or the cleanup that the caller keeps.\<close>

definition newProxyStack :: "unit res \<Rightarrow> cleanup list res" where
  "newProxyStack wgNew = bind_res wgNew (\<lambda>_. Ok [Close_client])"

definition wire_setup :: "unit res \<Rightarrow> unit res \<Rightarrow> cleanup list \<times> cleanup list res" where
  "wire_setup wgNew loadPlugins =
     (case newProxyStack wgNew of
        Panic \<Rightarrow> ([], Panic) | Err e \<Rightarrow> ([], Err e)
      | Ok stack \<Rightarrow>
          (case loadPlugins of
             Panic \<Rightarrow> ([], Panic) | Err e \<Rightarrow> (stack, Err e)
           | Ok _ \<Rightarrow> ([], Ok (Close_plugins # stack))))"

section \<open>The application (app.go)\<close>

definition ErrAlreadyRunning :: error where "ErrAlreadyRunning = ErrNew ''app: already running''"
definition ErrClosed :: error where "ErrClosed = ErrNew ''app: closed''"

text \<open>The fields of the struct, and where the calls are: inside the daemon, back from it, past the
  reset of the flag; and how far the one effective \<^verbatim>\<open>Close\<close> has come.\<close>

datatype close_phase = Open_app | Marked | Cancelled | Cleaned

record App =
  a_running :: bool
  a_closed :: bool
  a_runs :: nat
  in_daemon :: nat
  leaving :: nat
  resetting :: nat
  phase :: close_phase
  cleanups :: nat

definition NewApp :: App where
  "NewApp = \<lparr>a_running = False, a_closed = False, a_runs = 0, in_daemon = 0, leaving = 0, resetting = 0,
     phase = Open_app, cleanups = 0\<rparr>"

text \<open>The critical section at the head of \<^verbatim>\<open>run\<close>.\<close>

definition run_begin :: "App \<Rightarrow> App \<times> unit res" where
  "run_begin a =
     (if a_closed a then (a, Err ErrClosed)
      else if a_running a then (a, Err ErrAlreadyRunning)
      else (a\<lparr>a_running := True, a_runs := a_runs a + 1, in_daemon := in_daemon a + 1\<rparr>, Ok ()))"

definition run_return :: "App \<Rightarrow> App option" where
  "run_return a = (if in_daemon a = 0 then None else Some (a\<lparr>in_daemon := in_daemon a - 1, leaving := leaving a + 1\<rparr>))"

definition run_reset :: "App \<Rightarrow> App option" where
  "run_reset a = (if leaving a = 0 then None
     else Some (a\<lparr>leaving := leaving a - 1, a_running := False, resetting := resetting a + 1\<rparr>))"

definition run_done :: "App \<Rightarrow> App option" where
  "run_done a = (if resetting a = 0 then None else Some (a\<lparr>resetting := resetting a - 1, a_runs := a_runs a - 1\<rparr>))"

text \<open>\<^verbatim>\<open>Close\<close> under its once-guard: mark, cancel, wait for the runs, clean up.\<close>

definition close_step :: "App \<Rightarrow> App option" where
  "close_step a =
     (case phase a of
        Open_app \<Rightarrow> Some (a\<lparr>a_closed := True, phase := Marked\<rparr>)
      | Marked \<Rightarrow> Some (a\<lparr>phase := Cancelled\<rparr>)
      | Cancelled \<Rightarrow> if a_runs a = 0 then Some (a\<lparr>phase := Cleaned, cleanups := cleanups a + 1\<rparr>) else None
      | Cleaned \<Rightarrow> None)"

inductive app_step :: "App \<Rightarrow> App \<Rightarrow> bool" where
  run: "run_begin a = (a', r) \<Longrightarrow> app_step a a'"
| return: "run_return a = Some a' \<Longrightarrow> app_step a a'"
| reset: "run_reset a = Some a' \<Longrightarrow> app_step a a'"
| finished: "run_done a = Some a' \<Longrightarrow> app_step a a'"
| close: "close_step a = Some a' \<Longrightarrow> app_step a a'"

inductive app_reach :: "App \<Rightarrow> bool" where
  init: "app_reach NewApp"
| step: "app_reach a \<Longrightarrow> app_step a a' \<Longrightarrow> app_reach a'"

definition app_inv :: "App \<Rightarrow> bool" where
  "app_inv a \<longleftrightarrow>
     a_runs a = in_daemon a + leaving a + resetting a \<and> in_daemon a + leaving a \<le> 1 \<and>
     (a_running a \<longleftrightarrow> in_daemon a + leaving a = 1) \<and> (a_closed a \<longleftrightarrow> phase a \<noteq> Open_app) \<and>
     cleanups a = (if phase a = Cleaned then 1 else 0) \<and> (phase a = Cleaned \<longrightarrow> a_runs a = 0)"

lemma app_step_inv: "app_inv a \<Longrightarrow> app_step a a' \<Longrightarrow> app_inv a'"
  by (erule app_step.cases)
    (auto simp: app_inv_def run_begin_def run_return_def run_reset_def run_done_def close_step_def split: if_splits close_phase.splits)

lemma app_reach_inv: "app_reach a \<Longrightarrow> app_inv a"
proof (induction rule: app_reach.induct)
  case init
  show ?case by (simp add: app_inv_def NewApp_def)
qed (rule app_step_inv)

text \<open>C31. The application never runs two daemons at once and never tears down under a running one. In
  every reachable state at most one call is inside the daemon; the cleanup has run at most once; once
  it has, no call is inside the daemon or on its way out, and every later call is refused as closed.\<close>

theorem app_lifecycle_safe:
  assumes "app_reach a"
  shows "in_daemon a \<le> 1 \<and> cleanups a \<le> 1
    \<and> (cleanups a = 1 \<longrightarrow> in_daemon a = 0 \<and> a_runs a = 0 \<and> run_begin a = (a, Err ErrClosed))
    \<and> (snd (run_begin a) = Ok () \<longrightarrow> in_daemon a = 0 \<and> cleanups a = 0)"
  using app_reach_inv[OF assms] by (auto simp: app_inv_def run_begin_def split: if_splits)

theorem app_lifecycle_safe_witness:
  "in_daemon (fst (run_begin NewApp)) \<le> 1 \<and> in_daemon (fst (run_begin NewApp)) = 1
   \<and> snd (run_begin (fst (run_begin NewApp))) = Err ErrAlreadyRunning"
proof -
  have "app_reach (fst (run_begin NewApp))"
    by (rule app_reach.step[OF app_reach.init app_step.run]) (rule surjective_pairing)
  from app_lifecycle_safe[OF this] show ?thesis by (simp add: run_begin_def NewApp_def)
qed

text \<open>What is left to do before the cleanup, as a number that decreases.\<close>

definition app_left :: "App \<Rightarrow> nat" where
  "app_left a = 3 * in_daemon a + 2 * leaving a + resetting a
     + (case phase a of Open_app \<Rightarrow> 3 | Marked \<Rightarrow> 2 | Cancelled \<Rightarrow> 1 | Cleaned \<Rightarrow> 0)"

text \<open>Closing ends: once marked closed, with runs that return after their cancellation, the remaining
  steps are bounded and the last one is the cleanup.\<close>

theorem close_terminates:
  assumes "app_reach a" "phase a \<noteq> Open_app"
  shows "(\<forall>a'. app_step a a' \<longrightarrow> a' = a \<or> app_left a' < app_left a)
    \<and> (phase a \<noteq> Cleaned \<longrightarrow> (\<exists>a'. app_step a a' \<and> app_left a' < app_left a))
    \<and> (app_left a = 0 \<longleftrightarrow> phase a = Cleaned)"
proof -
  have i: "app_inv a" by (rule app_reach_inv[OF assms(1)])
  have "a' = a \<or> app_left a' < app_left a" if "app_step a a'" for a'
    using that i assms(2)
    by (cases rule: app_step.cases)
      (auto simp: app_inv_def app_left_def run_begin_def run_return_def run_reset_def run_done_def close_step_def split: if_splits close_phase.splits)
  moreover have "\<exists>a'. app_step a a' \<and> app_left a' < app_left a" if open_: "phase a \<noteq> Cleaned"
  proof -
    consider "in_daemon a \<noteq> 0" | "leaving a \<noteq> 0" | "resetting a \<noteq> 0" | "a_runs a = 0"
      using i by (auto simp: app_inv_def)
    then show ?thesis
    proof cases
      case 1
      then have "\<exists>a'. run_return a = Some a' \<and> app_left a' < app_left a" by (simp add: run_return_def app_left_def)
      then show ?thesis using app_step.return by blast
    next
      case 2
      then have "\<exists>a'. run_reset a = Some a' \<and> app_left a' < app_left a" by (simp add: run_reset_def app_left_def)
      then show ?thesis using app_step.reset by blast
    next
      case 3
      then have "\<exists>a'. run_done a = Some a' \<and> app_left a' < app_left a" by (simp add: run_done_def app_left_def)
      then show ?thesis using app_step.finished by blast
    next
      case 4
      then have "\<exists>a'. close_step a = Some a' \<and> app_left a' < app_left a"
        using open_ assms(2) by (cases "phase a") (simp_all add: close_step_def app_left_def)
      then show ?thesis using app_step.close by blast
    qed
  qed
  moreover have "app_left a = 0 \<longleftrightarrow> phase a = Cleaned"
    using i by (auto simp: app_left_def app_inv_def split: close_phase.splits)
  ultimately show ?thesis by blast
qed

theorem close_terminates_witness:
  "\<exists>a a'. app_reach a \<and> in_daemon a = 1 \<and> a_closed a \<and> app_step a a' \<and> app_left a' < app_left a"
proof -
  let ?a = "fst (run_begin NewApp)"
  let ?b = "?a\<lparr>a_closed := True, phase := Marked\<rparr>"
  have "app_reach ?a"
    by (rule app_reach.step[OF app_reach.init app_step.run]) (rule surjective_pairing)
  then have r: "app_reach ?b"
    by (rule app_reach.step) (rule app_step.close, simp add: close_step_def run_begin_def NewApp_def)
  have "phase ?b \<noteq> Open_app" "phase ?b \<noteq> Cleaned" "in_daemon ?b = 1" "a_closed ?b" by (simp_all add: run_begin_def NewApp_def)
  with close_terminates[OF r] r show ?thesis by blast
qed

end
