(* ===== verification/Flags.thy ===== *)
theory Flags
  imports Gotext
begin

text \<open>
  What the programs use of Go's \<^verbatim>\<open>flag\<close> package: the flags of a set with their kinds, the parsing of
  one argument and of all of them, and the reading of a truth value. Parsing gives the settings in the
  order in which they are made and the arguments that are left.
\<close>

section \<open>The package\<close>

datatype flag_kind = BoolFlag | StringFlag

datatype flag_error = ErrHelp | BadSyntax string | NotDefined string | NeedsArgument string | InvalidBool string string

type_synonym flag_setting = "string \<times> string"

definition ParseBool :: "string \<Rightarrow> bool option" where
  "ParseBool s =
     (if s \<in> {''1'', ''t'', ''T'', ''TRUE'', ''true'', ''True''} then Some True
      else if s \<in> {''0'', ''f'', ''F'', ''FALSE'', ''false'', ''False''} then Some False
      else None)"

text \<open>A name and the value after the first equals sign that is not the name's first character.\<close>

definition name_value :: "string \<Rightarrow> string \<times> string option" where
  "name_value s = (case s of
      [] \<Rightarrow> ([], None)
    | c # cs \<Rightarrow>
        (c # takeWhile (\<lambda>d. d \<noteq> CHR ''='') cs, case dropWhile (\<lambda>d. d \<noteq> CHR ''='') cs of [] \<Rightarrow> None | _ # v \<Rightarrow> Some v))"

definition strip_minus :: "string \<Rightarrow> string" where
  "strip_minus s = (if HasPrefix s ''--'' then drop 2 s else drop 1 s)"

datatype flag_step = FlagsEnd "string list" | FlagSet flag_setting "string list" | FlagFails flag_error

definition set_flag :: "flag_kind \<Rightarrow> string \<Rightarrow> string option \<Rightarrow> string list \<Rightarrow> flag_step" where
  "set_flag kind name val rest =
     (case kind of
        BoolFlag \<Rightarrow>
          (case val of
             None \<Rightarrow> FlagSet (name, ''true'') rest
           | Some v \<Rightarrow> if ParseBool v = None then FlagFails (InvalidBool v name) else FlagSet (name, v) rest)
      | StringFlag \<Rightarrow>
          (case val of
             Some v \<Rightarrow> FlagSet (name, v) rest
           | None \<Rightarrow> (case rest of [] \<Rightarrow> FlagFails (NeedsArgument name) | v # rest' \<Rightarrow> FlagSet (name, v) rest')))"

definition parseOne :: "(string \<rightharpoonup> flag_kind) \<Rightarrow> string list \<Rightarrow> flag_step" where
  "parseOne formal args = (case args of
      [] \<Rightarrow> FlagsEnd []
    | s # rest \<Rightarrow>
        if length s < 2 \<or> hd s \<noteq> CHR ''-'' then FlagsEnd args
        else if s = ''--'' then FlagsEnd rest
        else
          let name = strip_minus s in
          if name = [] \<or> hd name = CHR ''-'' \<or> hd name = CHR ''='' then FlagFails (BadSyntax s)
          else case name_value name of (n, val) \<Rightarrow>
            (case formal n of
               None \<Rightarrow> FlagFails (if n = ''help'' \<or> n = ''h'' then ErrHelp else NotDefined n)
             | Some kind \<Rightarrow> set_flag kind n val rest))"

lemma parseOne_shorter: "parseOne formal args = FlagSet kv rest \<Longrightarrow> length rest < length args"
  by (auto simp: parseOne_def set_flag_def Let_def split: list.splits if_splits prod.splits option.splits flag_kind.splits)

function Parse :: "(string \<rightharpoonup> flag_kind) \<Rightarrow> string list \<Rightarrow> flag_error + (flag_setting list \<times> string list)" where
  "Parse formal args =
     (case parseOne formal args of
        FlagsEnd rest \<Rightarrow> Inr ([], rest)
      | FlagFails e \<Rightarrow> Inl e
      | FlagSet kv rest \<Rightarrow> (case Parse formal rest of Inl e \<Rightarrow> Inl e | Inr (kvs, r) \<Rightarrow> Inr (kv # kvs, r)))"
  by pat_completeness auto
termination by (relation "measure (\<lambda>(_, args). length args)") (auto dest: parseOne_shorter)

declare Parse.simps [simp del]

text \<open>The value of a flag after the settings: the last one made, or the default.\<close>

definition flag_value :: "string \<Rightarrow> string \<Rightarrow> flag_setting list \<Rightarrow> string" where
  "flag_value name dflt kvs = (case map_of (rev kvs) name of Some v \<Rightarrow> v | None \<Rightarrow> dflt)"

definition flag_bool :: "string \<Rightarrow> flag_setting list \<Rightarrow> bool" where
  "flag_bool name kvs \<longleftrightarrow> ParseBool (flag_value name ''false'' kvs) = Some True"

section \<open>Settings as arguments\<close>

text \<open>The ways to write a setting.\<close>

datatype flag_style = Joined | JoinedLong | Apart | ApartLong

fun write_flag :: "flag_style \<Rightarrow> flag_setting \<Rightarrow> string list" where
  "write_flag Joined (n, v) = [''-'' @ n @ ''='' @ v]"
| "write_flag JoinedLong (n, v) = [''--'' @ n @ ''='' @ v]"
| "write_flag Apart (n, v) = [''-'' @ n, v]"
| "write_flag ApartLong (n, v) = [''--'' @ n, v]"

text \<open>A name that can be given: it starts with neither sign and has no equals sign.\<close>

definition flag_name :: "string \<Rightarrow> bool" where
  "flag_name n \<longleftrightarrow> n \<noteq> [] \<and> hd n \<noteq> CHR ''-'' \<and> CHR ''='' \<notin> set n"

text \<open>A style fits a kind: a truth value is not taken from the next argument.\<close>

definition writable :: "(string \<rightharpoonup> flag_kind) \<Rightarrow> flag_style \<times> flag_setting \<Rightarrow> bool" where
  "writable formal x = (case x of (style, (n, v)) \<Rightarrow>
     flag_name n \<and> (case formal n of
       None \<Rightarrow> False
     | Some StringFlag \<Rightarrow> True
     | Some BoolFlag \<Rightarrow> style \<in> {Joined, JoinedLong} \<and> ParseBool v \<noteq> None))"

lemma name_value_written:
  assumes "flag_name n"
  shows "name_value (n @ CHR ''='' # v) = (n, Some v)" "name_value n = (n, None)"
proof -
  obtain c cs where n: "n = c # cs" "c \<noteq> CHR ''=''" "CHR ''='' \<notin> set cs" using assms by (cases n) (auto simp: flag_name_def)
  have a: "takeWhile (\<lambda>d. d \<noteq> CHR ''='') cs = cs" "dropWhile (\<lambda>d. d \<noteq> CHR ''='') cs = []" using n(3) by (induction cs) auto
  have b: "takeWhile (\<lambda>d. d \<noteq> CHR ''='') (cs @ CHR ''='' # v) = cs" "dropWhile (\<lambda>d. d \<noteq> CHR ''='') (cs @ CHR ''='' # v) = CHR ''='' # v"
    using n(3) by (induction cs) auto
  show "name_value (n @ CHR ''='' # v) = (n, Some v)" "name_value n = (n, None)"
    by (simp_all only: name_value_def n(1) append_Cons list.case a b)
qed

lemma strip_minus_written:
  "flag_name n \<Longrightarrow> strip_minus (CHR ''-'' # n @ r) = n @ r" "flag_name n \<Longrightarrow> strip_minus (CHR ''-'' # CHR ''-'' # n @ r) = n @ r"
  by (cases n; auto simp: flag_name_def strip_minus_def HasPrefix_def)+

lemma parseOne_written:
  assumes "writable formal (style, kv)"
  shows "parseOne formal (write_flag style kv @ rest) = FlagSet kv rest"
proof -
  obtain n v where kv: "kv = (n, v)" by fastforce
  from assms have n: "flag_name n" by (simp add: writable_def kv)
  then obtain c cs where c: "n = c # cs" "c \<noteq> CHR ''-''" "c \<noteq> CHR ''=''" by (cases n) (auto simp: flag_name_def)
  have e: "n @ [] = n" by simp
  note w = strip_minus_written(1)[OF n, of "[]", unfolded e] strip_minus_written(2)[OF n, of "[]", unfolded e]
    strip_minus_written(1)[OF n, of "CHR ''='' # v"] strip_minus_written(2)[OF n, of "CHR ''='' # v"] name_value_written(1)[OF n, of v] name_value_written(2)[OF n]
  show ?thesis
  proof (cases "formal n")
    case (Some kind)
    then show ?thesis using assms w c
      by (cases style; cases kind) (auto simp: kv writable_def parseOne_def set_flag_def Let_def)
  qed (use assms in \<open>simp add: writable_def kv\<close>)
qed

text \<open>However each setting is written, with one dash or two, its value behind an equals sign or in the next argument, the
  parser makes exactly these settings in this order and leaves what follows the end of the flags. Values are never examined:
  one that starts with a dash, is empty or has an equals sign is taken as it is.\<close>

lemma Parse_written:
  assumes "\<forall>x\<in>set sets. writable formal x" "parseOne formal rest = FlagsEnd left_over"
  shows "Parse formal (concat (map (\<lambda>(style, kv). write_flag style kv) sets) @ rest) = Inr (map snd sets, left_over)"
  using assms(1)
proof (induction sets)
  case Nil
  then show ?case by (subst Parse.simps) (simp add: assms(2))
next
  case (Cons x sets)
  obtain style kv where x: "x = (style, kv)" by (rule prod.exhaust)
  show ?case
    using Cons parseOne_written[of formal style kv "concat (map (\<lambda>(style, kv). write_flag style kv) sets @ [rest])"] x
    by (subst Parse.simps) simp
qed

end
