(* ===== verification/Command_Line.thy ===== *)
theory Command_Line
  imports Profile_Issue Lifecycle Flags
begin

text \<open>
  The program's entry (\<^verbatim>\<open>main.go\<close>), the logger's settings (\<^verbatim>\<open>internal/logger\<close>) and the dispatch of the
  provisioning tool (\<^verbatim>\<open>cmd/provision/main.go\<close>), from their arguments to their effects and exit codes. The files,
  the commands and the outcomes of loading, wiring and bootstrapping are arguments.
\<close>

section \<open>The daemon's command line (main.go)\<close>

text \<open>\<open>info\<close> is the version in the build information.\<close>

definition version :: "string \<Rightarrow> string option \<Rightarrow> string" where
  "version buildVersion info =
     (if buildVersion \<noteq> ''dev'' then buildVersion
      else case info of Some v \<Rightarrow> if v \<noteq> [] \<and> v \<noteq> ''(devel)'' then v else ''dev'' | None \<Rightarrow> ''dev'')"

record main_flags =
  mf_oneshot :: bool
  mf_showVersion :: bool
  mf_configFile :: string
  mf_configDir :: string

datatype main_action = PrintVersion string | NewDaemon string string | Drive "daemon_action list" | CloseDaemon

text \<open>\<open>new\<close> is the outcome of wiring, \<open>boot\<close> of bootstrapping, \<open>ticks\<close> the number of refreshes before the signal.
  The deferred close runs once the daemon exists.\<close>

definition main_run ::
  "string \<Rightarrow> string option \<Rightarrow> main_flags \<Rightarrow> unit res \<Rightarrow> unit res \<Rightarrow> nat \<Rightarrow> main_action list \<times> unit res" where
  "main_run buildVersion info f new boot ticks =
     (if mf_showVersion f then ([PrintVersion (version buildVersion info)], Ok ())
      else
        let made = [NewDaemon (mf_configFile f) (mf_configDir f)] in
        case new of
          Ok _ \<Rightarrow> (let (as, out) = (if mf_oneshot f then RunOneshot boot else Daemon_Run boot ticks) in (made @ [Drive as, CloseDaemon], out))
        | e \<Rightarrow> (made, e))"

section \<open>The Linux operations\<close>

datatype public_output = ServerOut "string \<times> string list \<times> string list \<times> string list" | ProfileOut "(string \<times> json) list"

text \<open>What the operations read: configurations and servers by path, the standard input up to its bound, profiles by
  path, the state of a directory, and what the commands, files and the run find.\<close>

record linux_env =
  le_unicode :: unicode
  le_url :: "string \<Rightarrow> url res"
  le_duration :: "string \<Rightarrow> duration res"
  le_public :: "byte list \<Rightarrow> byte list"
  le_config :: "string \<Rightarrow> unit res"
  le_server :: "string \<Rightarrow> ServerConf res"
  le_stdin :: "string res"
  le_private_first :: bool
  le_profile :: "string \<Rightarrow> ((bool \<times> nat) res \<times> string res) option"
  le_dir :: "string \<Rightarrow> (bool \<times> nat) option"
  le_marshal :: "(string \<times> yvalue) list \<Rightarrow> string res"
  le_files :: file_env
  le_shell :: shell
  le_run :: run_env

definition OwnershipFile :: string where "OwnershipFile = ''/ownership/interface.json''"

type_synonym linux_result = "command list \<times> file_op list \<times> public_output list \<times> unit res"

definition fails :: "'a res \<Rightarrow> ('a \<Rightarrow> linux_result) \<Rightarrow> linux_result" where
  "fails r f = (case r of Ok x \<Rightarrow> f x | Err e \<Rightarrow> ([], [], [], Err e) | Panic \<Rightarrow> ([], [], [], Panic))"

definition read_profile :: "linux_env \<Rightarrow> Profile res" where
  "read_profile w = Profile_Read (le_unicode w) (le_url w) (le_duration w) (le_public w) (le_stdin w)"

definition server_op :: "linux_env \<Rightarrow> string list \<Rightarrow> linux_result" where
  "server_op w args =
     fails (le_server w (args ! 1)) (\<lambda>s.
     if args ! 0 = ''linux-server'' then ([], [], [ServerOut (Server_Public s)], Ok ())
     else fails (read_profile w) (\<lambda>p.
       case WriteEdited (le_url w) (le_duration w) (le_public w) (le_marshal w) (le_files w) (le_dir w (args ! 2)) (args ! 2) s p (args ! 0 = ''linux-revoke'') of
         (_, ops, out) \<Rightarrow> ([], ops, [], out)))"

definition runtime_op :: "linux_env \<Rightarrow> string list \<Rightarrow> linux_result" where
  "runtime_op w args =
     fails (Profile_Load (le_unicode w) (le_url w) (le_duration w) (le_public w) (le_profile w (args ! 1))) (\<lambda>p.
     let key = Profile_PublicKey (le_public w) p in
     if args ! 0 = ''linux-clean'' then (case Cleanup (le_shell w) key [] of (h, out) \<Rightarrow> (h, [], [], out))
     else if args ! 0 = ''linux-clean-owned'' then
       (case CleanupOwned (le_shell w) key (re_receipt (le_run w)) (re_ifindex' (le_run w)) OwnershipFile (re_removal (le_run w)) [] of
          (h, ops, out) \<Rightarrow> (h, ops, [], out))
     else
       (case run_profile (le_url w) (le_duration w) (le_public w) (le_marshal w) (le_files w) (le_shell w) (le_run w) p
               (if args ! 0 = ''linux-run-owned'' then OwnershipFile else []) [] of
          (h, ops, out) \<Rightarrow> (h, ops, [], out)))"

text \<open>The secret text goes to the new file only; \<open>le_private_first\<close> is the order in which the keys are generated.\<close>

definition issue_op :: "linux_env \<Rightarrow> string \<Rightarrow> string \<Rightarrow> linux_result" where
  "issue_op w path b =
     (case Issue (le_unicode w) (le_url w) (le_duration w) (le_public w) (le_shell w) (le_private_first w) b [] of
        (h, Ok b') \<Rightarrow> (case WriteNew (le_files w) path (b' @ nl) of (ops, out) \<Rightarrow> (h, ops, [], out))
      | (h, Err e) \<Rightarrow> (h, [], [], Err e)
      | (h, Panic) \<Rightarrow> (h, [], [], Panic))"

definition linuxCommand :: "linux_env \<Rightarrow> string list \<Rightarrow> linux_result" where
  "linuxCommand w args =
     (if args = [] then ([], [], [], Err (ErrNew ''missing Linux operation''))
      else if length args = 2 \<and> args ! 0 = ''linux-config-check'' then ([], [], [], le_config w (args ! 1))
      else if length args = 2 \<and> args ! 0 = ''linux-server'' \<or> length args = 3 \<and> args ! 0 \<in> {''linux-activate'', ''linux-revoke''}
      then server_op w args
      else if args ! 0 = ''linux-issue'' \<and> length args = 2 then
        fails (le_stdin w) (issue_op w (args ! 1))
      else if args ! 0 = ''linux-check'' \<and> length args = 1 then
        fails (read_profile w) (\<lambda>p. ([], [], [ProfileOut (Profile_Public (le_public w) p)], Ok ()))
      else if length args \<noteq> 2 \<or> args ! 0 \<notin> {''linux-run'', ''linux-clean'', ''linux-run-owned'', ''linux-clean-owned''}
      then ([], [], [], Err (ErrNew ''invalid Linux operation''))
      else runtime_op w args)"

section \<open>The logger (logger.go)\<close>

text \<open>Whether lines are written as JSON, and the level. \<open>parseLevel\<close> is the logging library's.\<close>

definition NewLogger :: "(string \<Rightarrow> string res) \<Rightarrow> Logger \<Rightarrow> bool \<times> string" where
  "NewLogger parseLevel lg =
     (Format lg = LogFormatJSON,
      case parseLevel (if Level lg = [] then DefaultLogLevel else Level lg) of Ok l \<Rightarrow> l | _ \<Rightarrow> ''info'')"

section \<open>The provisioning tool (cmd/provision/main.go)\<close>

datatype provision_action = ServerNew | NewProposal | CheckTheReply

definition provision_dispatch :: "string list \<Rightarrow> provision_action res" where
  "provision_dispatch args =
     (if args = [] then Err (ErrNew ''usage: provision new|reply|server-new [flags]; -h lists required inputs'')
      else if args ! 0 = ''server-new'' then Ok ServerNew
      else if args ! 0 = ''new'' then Ok NewProposal
      else if args ! 0 = ''reply'' then Ok CheckTheReply
      else Err (ErrNew ''expected new or reply''))"

text \<open>What the tool finds: the random source, files by path (which may not open, and then not be read), the standard
  input, the outcomes of creating and writing a file, and what the server command finds.\<close>

record provision_env =
  pv_unicode :: unicode
  pv_url :: "string \<Rightarrow> url res"
  pv_duration :: "string \<Rightarrow> duration res"
  pv_random :: "byte list res"
  pv_open :: "string \<Rightarrow> string res option"
  pv_stdin :: "string res"
  pv_create :: "string \<Rightarrow> bool"
  pv_write :: "string \<Rightarrow> unit res"
  pv_enroll :: enroll_env

definition string_flags :: "string list \<Rightarrow> string \<rightharpoonup> flag_kind" where
  "string_flags names n = (if n \<in> set names then Some StringFlag else None)"

definition new_names :: "string list" where
  "new_names = [''name'', ''address'', ''server-key'', ''routes'', ''stun'', ''opendht'', ''endpoint'', ''protocol'', ''psk-file'', ''out'']"

definition new_settings :: "provision_env \<Rightarrow> flag_setting list \<Rightarrow> new_flags" where
  "new_settings w kvs =
     (let psk = flag_value ''psk-file'' [] kvs in
      \<lparr>nf_name = flag_value ''name'' ''Server'' kvs, nf_address = flag_value ''address'' [] kvs,
       nf_serverKey = flag_value ''server-key'' [] kvs, nf_routes = flag_value ''routes'' [] kvs, nf_stun = flag_value ''stun'' [] kvs,
       nf_opendht = flag_value ''opendht'' [] kvs, nf_endpoint = flag_value ''endpoint'' [] kvs,
       nf_protocol = flag_value ''protocol'' ''ipv4'' kvs,
       nf_psk = (if psk = [] then None else if psk = ''-'' then Some (Some (pv_stdin w)) else Some (pv_open w psk)),
       nf_out = flag_value ''out'' [] kvs\<rparr>)"

definition enroll_settings :: "flag_setting list \<Rightarrow> enroll_flags" where
  "enroll_settings kvs =
     \<lparr>ef_config = flag_value ''config'' [] kvs, ef_out = flag_value ''out'' [] kvs, ef_name = flag_value ''name'' [] kvs,
      ef_endpoint = flag_value ''endpoint'' [] kvs, ef_routes = flag_value ''routes'' [] kvs, ef_reserved = flag_value ''reserved'' [] kvs\<rparr>"

definition read_input :: "provision_env \<Rightarrow> string \<Rightarrow> string res" where
  "read_input w path = (case pv_open w path of
      None \<Rightarrow> Err (ErrNew ''cannot open enrollment input'')
    | Some r \<Rightarrow> bind_res r (\<lambda>t. Ok (take (MaxEnrollBytes + 1) t)))"

definition review_text :: string where
  "review_text = ''Compare phone/server public keys over your trusted local channel. Add PublicKey and this exact phone address to WG and the OpenDHT overlay in the server Git repository. If the proposal includes a PSK, configure that same PSK on the server without exporting it in this public reply.''"

definition review_json :: "Reply \<Rightarrow> bool \<Rightarrow> json" where
  "review_json r psk = JObj
     [(''public_reply'', JObj [(''schema'', JStr (rp_Schema r)), (''proposal_id'', JStr (rp_ID r)), (''public_key'', JStr (rp_PublicKey r)),
         (''addresses'', JArr (map JStr (rp_Addresses r)))]),
      (''psk_required'', JBool psk), (''review'', JStr review_text)]"

datatype provision_result = FlagError flag_error | Done "file_op list" "unit res"

definition parsed :: "string list \<Rightarrow> string list \<Rightarrow> (flag_setting list \<Rightarrow> string list \<Rightarrow> file_op list \<times> unit res) \<Rightarrow> provision_result" where
  "parsed names args f = (case Parse (string_flags names) args of
      Inl e \<Rightarrow> FlagError e
    | Inr (kvs, rest) \<Rightarrow> (case f kvs rest of (ops, out) \<Rightarrow> Done ops out))"

definition provision_run :: "provision_env \<Rightarrow> string list \<Rightarrow> provision_result" where
  "provision_run w args =
     (case provision_dispatch args of
        Err e \<Rightarrow> Done [] (Err e)
      | Panic \<Rightarrow> Done [] Panic
      | Ok ServerNew \<Rightarrow>
          parsed [''config'', ''out'', ''name'', ''endpoint'', ''routes'', ''reserved''] (tl args) (\<lambda>kvs rest.
            if rest \<noteq> [] then ([], Err (ErrNew ''missing server enrollment inputs''))
            else serverNew (pv_url w) (pv_duration w) (pv_enroll w) (enroll_settings kvs))
      | Ok NewProposal \<Rightarrow>
          if \<not> is_Ok (NewID (pv_random w)) then Done [] Panic
          else parsed new_names (tl args) (\<lambda>kvs rest.
            if rest \<noteq> [] then ([], Err (ErrNew ''specify --out and enrollment inputs''))
            else
              let f = new_settings w kvs in
              provision_new (pv_url w) (pv_duration w) (pv_random w) f (pv_create w (nf_out f)) (pv_write w (nf_out f)))
      | Ok CheckTheReply \<Rightarrow>
          parsed [''proposal'', ''reply''] (tl args) (\<lambda>kvs rest.
            if rest \<noteq> [] then ([], Err (ErrNew ''unexpected arguments''))
            else case provision_reply (pv_unicode w) (pv_url w) (pv_duration w) (read_input w (flag_value ''proposal'' [] kvs))
                        (read_input w (flag_value ''reply'' [] kvs)) of
              Ok (r, psk) \<Rightarrow> ([PrintLine (indent 0 (review_json r psk))], Ok ())
            | Err e \<Rightarrow> ([], Err e)
            | Panic \<Rightarrow> ([], Panic)))"

section \<open>The whole command line of the daemon (main.go)\<close>

definition main_formal :: "string \<rightharpoonup> flag_kind" where
  "main_formal = [''oneshot'' \<mapsto> BoolFlag, ''version'' \<mapsto> BoolFlag, ''c'' \<mapsto> StringFlag, ''config'' \<mapsto> StringFlag, ''config-dir'' \<mapsto> StringFlag]"

text \<open>Two flags have the same destination: the later of them counts.\<close>

definition main_settings :: "flag_setting list \<Rightarrow> main_flags" where
  "main_settings kvs =
     \<lparr>mf_oneshot = flag_bool ''oneshot'' kvs, mf_showVersion = flag_bool ''version'' kvs,
      mf_configFile = (case find (\<lambda>(n, _). n = ''c'' \<or> n = ''config'') (rev kvs) of Some (_, v) \<Rightarrow> v | None \<Rightarrow> []),
      mf_configDir = flag_value ''config-dir'' [] kvs\<rparr>"

text \<open>A run ends with an exit code; a wrong flag ends the process at once.\<close>

datatype main_result = LinuxRun linux_result | DaemonRun "main_action list \<times> unit res" | FlagExit flag_error

definition run_args ::
  "linux_env \<Rightarrow> string \<Rightarrow> string option \<Rightarrow> unit res \<Rightarrow> unit res \<Rightarrow> nat \<Rightarrow> string list \<Rightarrow> main_result" where
  "run_args w buildVersion info new boot ticks args =
     (if args \<noteq> [] \<and> HasPrefix (args ! 0) ''linux-'' then LinuxRun (linuxCommand w args)
      else case Parse main_formal args of
        Inl e \<Rightarrow> FlagExit e
      | Inr (kvs, _) \<Rightarrow> DaemonRun (main_run buildVersion info (main_settings kvs) new boot ticks))"

definition outcome_code :: "unit res \<Rightarrow> nat" where
  "outcome_code out = (case out of Ok _ \<Rightarrow> 0 | Err _ \<Rightarrow> 1 | Panic \<Rightarrow> 2)"

definition exit_code :: "main_result \<Rightarrow> nat" where
  "exit_code r = (case r of
      LinuxRun (_, _, _, out) \<Rightarrow> outcome_code out
    | DaemonRun (_, out) \<Rightarrow> outcome_code out
    | FlagExit e \<Rightarrow> if e = ErrHelp then 0 else 2)"

section \<open>What an operation may touch\<close>

definition operation :: "string list \<Rightarrow> string" where
  "operation args = (if args = [] then [] else args ! 0)"

lemma server_op_parts:
  assumes "server_op w args = (cs, ops, outs, out)"
  shows "cs = []" "ops \<noteq> [] \<longrightarrow> args ! 0 \<noteq> ''linux-server''" "\<forall>x\<in>set outs. args ! 0 = ''linux-server'' \<and> (\<exists>s. x = ServerOut (Server_Public s))"
  using assms by (auto simp: server_op_def fails_def split: res.splits prod.splits if_splits)

lemma runtime_op_parts:
  assumes "runtime_op w args = (cs, ops, outs, out)"
  shows "outs = []" "ops \<noteq> [] \<longrightarrow> args ! 0 \<noteq> ''linux-clean''"
  using assms by (auto simp: runtime_op_def fails_def Let_def split: res.splits prod.splits if_splits)

lemma generate_keys_commands:
  "generate_keys sh cmds msgs h = (h', out) \<Longrightarrow> \<exists>cs. h' = h @ cs \<and> set cs \<subseteq> (\<lambda>(_, c). Wg [c]) ` set cmds"
proof (induction cmds arbitrary: msgs h)
  case (Cons fc cmds)
  obtain f c where fc: "fc = (f, c)" by fastforce
  show ?case
  proof (cases "sh h (Wg [c])")
    case None
    then show ?thesis using Cons.prems by (auto simp: fc)
  next
    case (Some b)
    then obtain cs where "h' = (h @ [Wg [c]]) @ cs" "set cs \<subseteq> (\<lambda>(_, c). Wg [c]) ` set cmds" using Cons by (force simp: fc)
    then show ?thesis by (intro exI[of _ "Wg [c] # cs"]) (auto simp: fc)
  qed
qed simp

lemma issue_op_parts:
  assumes "issue_op w path b = (cs, ops, outs, out)"
  shows "set cs \<subseteq> {Wg [''genkey''], Wg [''genpsk'']} \<and> outs = []"
proof -
  obtain h r where i: "Issue (le_unicode w) (le_url w) (le_duration w) (le_public w) (le_shell w) (le_private_first w) b [] = (h, r)" by fastforce
  from i have "h = [] \<or> (\<exists>msgs r'. generate_keys (le_shell w) (key_commands (le_private_first w)) msgs [] = (h, r'))"
    by (auto simp: Issue_def split: if_splits option.splits prod.splits res.splits)
  then have "set h \<subseteq> {Wg [''genkey''], Wg [''genpsk'']}"
    using generate_keys_commands[of "le_shell w" "key_commands (le_private_first w)" _ "[]" h] by (auto simp: key_commands_def split: if_splits)
  moreover have "cs = h \<and> outs = []" using assms i by (auto simp: issue_op_def split: res.splits prod.splits)
  ultimately show ?thesis by simp
qed

lemma Profile_Public_names:
  "fst ` set (Profile_Public public p) = {''schema'', ''name'', ''public_key'', ''server_public_key'', ''address'', ''allowed_ips'', ''endpoint'', ''hostnames'',
     ''lan_hostnames'', ''listen_port'', ''proxy_port''}"
  by (simp add: Profile_Public_def)

text \<open>The branches of the dispatch, each with what it can do.\<close>

lemma linuxCommand_branches:
  assumes "linuxCommand w args = (cs, ops, outs, out)"
  shows "cs = [] \<and> ops = [] \<and> outs = [] \<and> ((\<exists>e. out = Err e) \<or> operation args \<in> {''linux-config-check'', ''linux-issue'', ''linux-check''})
    \<or> operation args \<in> {''linux-server'', ''linux-activate'', ''linux-revoke''} \<and> server_op w args = (cs, ops, outs, out)
    \<or> operation args = ''linux-issue'' \<and> set cs \<subseteq> {Wg [''genkey''], Wg [''genpsk'']} \<and> outs = []
    \<or> operation args = ''linux-check'' \<and> cs = [] \<and> ops = [] \<and> (\<exists>p. outs = [ProfileOut (Profile_Public (le_public w) p)])
    \<or> operation args \<in> {''linux-run'', ''linux-clean'', ''linux-run-owned'', ''linux-clean-owned''} \<and> runtime_op w args = (cs, ops, outs, out)"
proof -
  consider (refused) "args = []" | (config) "args \<noteq> []" "length args = 2 \<and> args ! 0 = ''linux-config-check''"
    | (server) "args \<noteq> []" "length args = 2 \<and> args ! 0 = ''linux-server'' \<or> length args = 3 \<and> args ! 0 \<in> {''linux-activate'', ''linux-revoke''}"
    | (issue) "args \<noteq> []" "args ! 0 = ''linux-issue'' \<and> length args = 2"
    | (check) "args \<noteq> []" "args ! 0 = ''linux-check'' \<and> length args = 1"
    | (other) "args \<noteq> []" "\<not> (length args = 2 \<and> args ! 0 = ''linux-config-check'')"
        "\<not> (length args = 2 \<and> args ! 0 = ''linux-server'' \<or> length args = 3 \<and> args ! 0 \<in> {''linux-activate'', ''linux-revoke''})"
        "\<not> (args ! 0 = ''linux-issue'' \<and> length args = 2)" "\<not> (args ! 0 = ''linux-check'' \<and> length args = 1)"
    by blast
  then show ?thesis
  proof cases
    case server
    then have "server_op w args = (cs, ops, outs, out)" "operation args \<in> {''linux-server'', ''linux-activate'', ''linux-revoke''}"
      using assms by (auto simp: linuxCommand_def operation_def)
    then show ?thesis by blast
  next
    case issue
    then have l: "linuxCommand w args = fails (le_stdin w) (issue_op w (args ! 1))" "operation args = ''linux-issue''"
      by (simp_all add: linuxCommand_def operation_def)
    show ?thesis
    proof (cases "le_stdin w")
      case (Ok b)
      with l assms have "issue_op w (args ! 1) b = (cs, ops, outs, out)" by (simp add: fails_def)
      from issue_op_parts[OF this] l(2) show ?thesis by simp
    qed (use l assms in \<open>simp_all add: fails_def\<close>)
  next
    case check
    then show ?thesis using assms by (auto simp: linuxCommand_def operation_def fails_def split: res.splits)
  next
    case other
    then have l: "linuxCommand w args =
        (if length args \<noteq> 2 \<or> args ! 0 \<notin> {''linux-run'', ''linux-clean'', ''linux-run-owned'', ''linux-clean-owned''}
         then ([], [], [], Err (ErrNew ''invalid Linux operation'')) else runtime_op w args)"
      unfolding linuxCommand_def by (simp only: if_False simp_thms)
    show ?thesis
    proof (cases "length args \<noteq> 2 \<or> args ! 0 \<notin> {''linux-run'', ''linux-clean'', ''linux-run-owned'', ''linux-clean-owned''}")
      case True
      then show ?thesis using assms unfolding l by auto
    next
      case False
      then show ?thesis using assms other(1) unfolding l by (simp add: operation_def)
    qed
  qed (use assms in \<open>auto simp: linuxCommand_def operation_def\<close>)
qed

text \<open>A Linux operation does only what it is for. Interface commands are run only by the operations that run or clean,
  and issuing runs nothing but the two key generators;
  files change only by activating, revoking, issuing, running or the owned clean; and only the two reviewing operations
  print, the server's public view or a profile's, which has neither the private nor the shared key among its members.
  Every other command line is refused without an effect.\<close>

theorem linux_command_confined:
  assumes "linuxCommand w args = (cs, ops, outs, out)"
  shows "(cs \<noteq> [] \<longrightarrow> operation args \<in> {''linux-run'', ''linux-run-owned'', ''linux-clean'', ''linux-clean-owned''}
         \<or> operation args = ''linux-issue'' \<and> set cs \<subseteq> {Wg [''genkey''], Wg [''genpsk'']})
    \<and> (ops \<noteq> [] \<longrightarrow> operation args \<in> {''linux-activate'', ''linux-revoke'', ''linux-issue'', ''linux-run'', ''linux-run-owned'', ''linux-clean-owned''})
    \<and> (\<forall>x\<in>set outs. (\<exists>s. x = ServerOut (Server_Public s)) \<and> operation args = ''linux-server''
         \<or> (\<exists>p. x = ProfileOut (Profile_Public (le_public w) p) \<and> {''private_key'', ''preshared_key''} \<inter> fst ` set (Profile_Public (le_public w) p) = {})
            \<and> operation args = ''linux-check'')
    \<and> (operation args \<notin> {''linux-config-check'', ''linux-server'', ''linux-activate'', ''linux-revoke'', ''linux-issue'', ''linux-check'', ''linux-run'',
          ''linux-clean'', ''linux-run-owned'', ''linux-clean-owned''} \<longrightarrow> cs = [] \<and> ops = [] \<and> outs = [] \<and> (\<exists>e. out = Err e))"
  using linuxCommand_branches[OF assms]
proof (elim disjE conjE)
  assume "server_op w args = (cs, ops, outs, out)" "operation args \<in> {''linux-server'', ''linux-activate'', ''linux-revoke''}"
  then show ?thesis using server_op_parts[of w args cs ops outs out] by (auto simp: operation_def split: if_splits)
next
  assume "runtime_op w args = (cs, ops, outs, out)" "operation args \<in> {''linux-run'', ''linux-clean'', ''linux-run-owned'', ''linux-clean-owned''}"
  then show ?thesis using runtime_op_parts[of w args cs ops outs out] by (auto simp: operation_def split: if_splits)
qed (auto simp: Profile_Public_names)

definition ex_linux_env :: linux_env where
  "ex_linux_env = \<lparr>le_unicode = ex_unicode, le_url = \<lambda>_. Panic, le_duration = \<lambda>_. Panic, le_public = \<lambda>_. [], le_config = \<lambda>_. Ok (),
     le_server = \<lambda>_. Panic, le_stdin = Panic, le_private_first = True, le_profile = \<lambda>_. None, le_dir = \<lambda>_. None, le_marshal = \<lambda>_. Panic,
     le_files = \<lparr>fe_create = \<lambda>_. True, fe_write = \<lambda>_. True\<rparr>, le_shell = ex_shell,
     le_run = \<lparr>re_tmp = None, re_ifindex = None, re_receipt = NoReceipt, re_ifindex' = None, re_removal = Ok (), re_daemon = Ok ()\<rparr>\<rparr>"

theorem linux_command_confined_witness:
  "\<exists>e. linuxCommand ex_linux_env [''linux-reset'', ''wg0''] = ([], [], [], Err e)"
proof -
  obtain cs ops outs out where l: "linuxCommand ex_linux_env [''linux-reset'', ''wg0''] = (cs, ops, outs, out)" by (metis prod_cases4)
  from linux_command_confined[OF l] l show ?thesis by (auto simp: operation_def)
qed

section \<open>Settings reach the daemon\<close>

lemma written_flag_not_linux: "write_flag style kv @ rest = a # as \<Longrightarrow> \<not> HasPrefix a ''linux-''"
  by (cases style; cases kv) (auto simp: HasPrefix_def)

text \<open>The owner's settings reach the daemon. Whatever mixture of dashes, equals signs and separate values they are written
  with, they are never taken for a Linux operation and no flag is refused: the daemon is started with exactly these
  settings. Of the two names for the configuration file the one given last counts, even when its value looks like a flag.\<close>

theorem settings_reach_daemon:
  assumes "\<forall>x\<in>set sets. writable main_formal x"
  shows "run_args w buildVersion info new boot ticks (concat (map (\<lambda>(style, kv). write_flag style kv) sets)) =
      DaemonRun (main_run buildVersion info (main_settings (map snd sets)) new boot ticks)
    \<and> (sets \<noteq> [] \<and> fst (snd (last sets)) \<in> {''c'', ''config''} \<longrightarrow> mf_configFile (main_settings (map snd sets)) = snd (snd (last sets)))"
proof (intro conjI impI)
  let ?args = "concat (map (\<lambda>(style, kv). write_flag style kv) sets)"
  have "Parse main_formal (?args @ []) = Inr (map snd sets, [])" by (rule Parse_written[OF assms]) (simp add: parseOne_def)
  moreover have "\<not> HasPrefix (?args ! 0) ''linux-''" if ne: "?args \<noteq> []"
  proof (cases sets)
    case (Cons x xs)
    obtain style kv where x: "x = (style, kv)" by (rule prod.exhaust)
    obtain a as where a: "?args = a # as" using ne by (meson neq_Nil_conv)
    then have "write_flag style kv @ concat (map (\<lambda>(style, kv). write_flag style kv) xs) = a # as" by (simp add: Cons x)
    then show ?thesis unfolding a using written_flag_not_linux by fastforce
  qed (use ne in simp)
  ultimately show "run_args w buildVersion info new boot ticks ?args = DaemonRun (main_run buildVersion info (main_settings (map snd sets)) new boot ticks)"
    unfolding run_args_def by (auto simp del: concat_eq_Nil_conv)
next
  assume "sets \<noteq> [] \<and> fst (snd (last sets)) \<in> {''c'', ''config''}"
  then obtain ys style n v where "sets = ys @ [(style, (n, v))]" "n \<in> {''c'', ''config''}" by (cases sets rule: rev_cases) auto
  then show "mf_configFile (main_settings (map snd sets)) = snd (snd (last sets))" by (auto simp: main_settings_def)
qed

theorem settings_reach_daemon_witness:
  "run_args ex_linux_env ''1.0'' None (Err err_ip) (Ok ()) 3 [''--oneshot=0'', ''-config'', ''/etc/a.yaml'', ''-c'', ''--version'']
     = DaemonRun ([NewDaemon ''--version'' []], Err err_ip)"
proof -
  let ?sets = "[(JoinedLong, (''oneshot'', ''0'')), (Apart, (''config'', ''/etc/a.yaml'')), (Apart, (''c'', ''--version''))]"
  have w: "\<forall>x\<in>set ?sets. writable main_formal x" by (auto simp: writable_def flag_name_def ParseBool_def main_formal_def)
  have "main_run ''1.0'' None (main_settings (map snd ?sets)) (Err err_ip) (Ok ()) 3 = ([NewDaemon ''--version'' []], Err err_ip)" by code_simp
  with settings_reach_daemon[OF w, of ex_linux_env "''1.0''" None "Err err_ip" "Ok ()" 3] show ?thesis by simp
qed

end
