(* ===== verification/Startup.thy ===== *)
theory Startup
  imports Command_Line
begin

text \<open>
  How the process comes up and goes down, over the components: the client of the WireGuard tool
  (\<^verbatim>\<open>internal/wg/client_ctrl.go\<close>, \<^verbatim>\<open>public_info.go\<close>), the plugin manager (\<^verbatim>\<open>app/wiring.go\<close>), the
  application (\<^verbatim>\<open>app/app.go\<close>) from its configuration on, and the daemon's run between them. The trace of the
  process has what it acquires, what the daemon does and what is released.
\<close>

section \<open>The WireGuard client\<close>

text \<open>\<open>lookPath\<close> is the search for the tool, \<open>ctrlNew\<close> the kernel library's answer.\<close>

definition wg_New :: "unit res \<Rightarrow> unit res \<Rightarrow> unit res" where
  "wg_New lookPath ctrlNew = bind_res lookPath (\<lambda>_. ctrlNew)"

text \<open>\<open>chunks\<close> is what the tool writes, \<open>exited\<close> how it ends. After a refused write nothing more is read.\<close>

fun bounded_writes :: "string \<Rightarrow> string list \<Rightarrow> string res" where
  "bounded_writes buf [] = Ok buf"
| "bounded_writes buf (p # ps) = bind_res (boundedOutput_Write buf p) (\<lambda>b. bounded_writes b ps)"

definition defaultRunner :: "(string \<Rightarrow> string list) \<Rightarrow> (string \<Rightarrow> unit res) \<Rightarrow> Runner" where
  "defaultRunner chunks exited field = bind_res (exited field) (\<lambda>_. bounded_writes [] (chunks field))"

definition ctrl_Device :: "(error \<Rightarrow> bool) \<Rightarrow> (string \<Rightarrow> string list) \<Rightarrow> (string \<Rightarrow> unit res) \<Rightarrow> string \<Rightarrow> DeviceInfo res" where
  "ctrl_Device denied chunks exited name = publicInfo denied name (defaultRunner chunks exited)"

lemma bounded_writes_length: "bounded_writes buf ps = Ok out \<Longrightarrow> length buf \<le> 16384 \<Longrightarrow> length out \<le> 16384"
proof (induction ps arbitrary: buf)
  case (Cons p ps)
  then show ?case by (auto simp: boundedOutput_Write_def split: if_splits)
qed simp

lemma bounded_writes_concat: "bounded_writes buf ps = Ok out \<Longrightarrow> out = buf @ concat ps"
proof (induction ps arbitrary: buf)
  case (Cons p ps)
  then have "bounded_writes (buf @ p) ps = Ok out" by (auto simp: boundedOutput_Write_def split: if_splits)
  from Cons.IH[OF this] show ?case by simp
qed simp

text \<open>What the tool prints is passed on whole or not at all, and never more than the bound.\<close>

lemma defaultRunner_whole:
  "defaultRunner chunks exited field = Ok out \<Longrightarrow> out = concat (chunks field) \<and> length out \<le> 16384 \<and> exited field = Ok ()"
  using bounded_writes_length[of "[]" "chunks field" out] bounded_writes_concat[of "[]" "chunks field" out]
  by (auto simp: defaultRunner_def)

section \<open>The application\<close>

text \<open>The manager and, with it, the cleanup that closes it.\<close>

definition providePluginManager :: "(string \<Rightarrow> url res) \<Rightarrow> (string \<Rightarrow> duration res) \<Rightarrow> Config \<Rightarrow> (plugin_manager \<times> cleanup) res" where
  "providePluginManager urlParse parseDuration cfg =
     (case LoadPlugins urlParse parseDuration (cfg_Plugins cfg) Map.empty of
        (m, Ok _) \<Rightarrow> Ok (m, Close_plugins)
      | (_, Err e) \<Rightarrow> Err e
      | (_, Panic) \<Rightarrow> Panic)"

datatype process_action = Acquire cleanup | Act daemon_action | Release cleanup

text \<open>The resources that exist when wiring has come as far as it does.\<close>

definition acquired :: "unit res \<Rightarrow> unit res \<Rightarrow> cleanup list" where
  "acquired wgNew plugins =
     (if \<not> is_Ok wgNew then [] else if \<not> is_Ok plugins then [Close_client] else [Close_client, Close_plugins])"

definition App_New ::
  "world \<Rightarrow> (string \<Rightarrow> url res) \<Rightarrow> (string \<Rightarrow> duration res) \<Rightarrow> unit res \<Rightarrow> string \<Rightarrow> string \<Rightarrow> process_action list \<times> (App \<times> cleanup list) res" where
  "App_New w urlParse parseDuration wgNew file dir =
     (case Load w file dir of
        Ok cfg \<Rightarrow>
          let plugins = bind_res (providePluginManager urlParse parseDuration cfg) (\<lambda>_. Ok ()) in
          (case wire_setup wgNew plugins of
             (released, r) \<Rightarrow>
               (map Acquire (acquired wgNew plugins) @ map Release released, bind_res r (\<lambda>cs. Ok (NewApp, cs))))
      | Err e \<Rightarrow> ([], Err e)
      | Panic \<Rightarrow> ([], Panic))"

text \<open>\<^verbatim>\<open>Run\<close> and \<^verbatim>\<open>RunOneshot\<close> of the application, with nothing else in flight: admission, the daemon's run, and the
  deferred steps.\<close>

definition App_drive :: "daemon_action list \<times> unit res \<Rightarrow> App \<Rightarrow> App option \<times> daemon_action list \<times> unit res" where
  "App_drive run a =
     (case run_begin a of
        (a', Ok _) \<Rightarrow> (Option.bind (Option.bind (run_return a') run_reset) run_done, run)
      | (a', e) \<Rightarrow> (Some a', [], e))"

text \<open>The process of the daemon: the deferred close releases what the application holds, however the run ended.\<close>

definition daemon_process ::
  "world \<Rightarrow> (string \<Rightarrow> url res) \<Rightarrow> (string \<Rightarrow> duration res) \<Rightarrow> unit res \<Rightarrow> main_flags \<Rightarrow> unit res \<Rightarrow> nat \<Rightarrow> process_action list \<times> unit res" where
  "daemon_process w urlParse parseDuration wgNew f boot ticks =
     (if mf_showVersion f then ([], Ok ())
      else case App_New w urlParse parseDuration wgNew (mf_configFile f) (mf_configDir f) of
        (as, Ok (a, cs)) \<Rightarrow>
          (case App_drive (if mf_oneshot f then RunOneshot boot else Daemon_Run boot ticks) a of
             (_, ds, out) \<Rightarrow> (as @ map Act ds @ map Release cs, out))
      | (as, Err e) \<Rightarrow> (as, Err e)
      | (as, Panic) \<Rightarrow> (as, Panic))"

section \<open>Every resource is released\<close>

lemma App_drive_fresh: "App_drive run NewApp = (Some NewApp, run)"
  by (simp add: App_drive_def run_begin_def NewApp_def run_return_def run_reset_def run_done_def)

lemma daemon_stops: "shuts_down ds \<or> \<not> list_ex is_start ds"
  if "(ds, out) = (if oneshot then RunOneshot boot else Daemon_Run boot ticks)"
proof -
  have "ds = (if oneshot then fst (RunOneshot boot) else fst (Daemon_Run boot ticks))" using that by (metis fst_conv)
  then show ?thesis using Daemon_Run_shuts_down(1)[of boot ticks] RunOneshot_shuts_down[of boot] by (cases "boot = Ok ()") auto
qed

lemma App_New_trace:
  assumes "App_New w urlParse parseDuration wgNew file dir = (as, r)" "r \<noteq> Panic"
  shows "(\<exists>cs. r = Ok (NewApp, cs) \<and> as = map Acquire (rev cs) \<and> cs = [Close_plugins, Close_client])
    \<or> (\<exists>e. r = Err e \<and> as \<in> {[], [Acquire Close_client, Release Close_client]})"
proof (cases "Load w file dir")
  case (Ok cfg)
  define plugins where "plugins = bind_res (providePluginManager urlParse parseDuration cfg) (\<lambda>_. Ok ())"
  have n: "App_New w urlParse parseDuration wgNew file dir = (case wire_setup wgNew plugins of
      (released, r) \<Rightarrow> (map Acquire (acquired wgNew plugins) @ map Release released, bind_res r (\<lambda>cs. Ok (NewApp, cs))))"
    by (simp add: App_New_def Ok plugins_def Let_def)
  show ?thesis using assms unfolding n
    by (cases wgNew; cases plugins) (auto simp: wire_setup_def newProxyStack_def acquired_def)
qed (use assms in \<open>auto simp: App_New_def\<close>)

text \<open>The process is the one whose calls \<^verbatim>\<open>main.go\<close> makes: it ends as that run ends.\<close>

lemma daemon_process_outcome:
  "snd (daemon_process w urlParse parseDuration wgNew f boot ticks) =
     snd (main_run buildVersion info f (bind_res (snd (App_New w urlParse parseDuration wgNew (mf_configFile f) (mf_configDir f))) (\<lambda>_. Ok ())) boot ticks)"
proof -
  obtain as r where n: "App_New w urlParse parseDuration wgNew (mf_configFile f) (mf_configDir f) = (as, r)" by fastforce
  show ?thesis
  proof (cases r)
    case (Ok x)
    with App_New_trace[OF n] obtain cs where "r = Ok (NewApp, cs)" by auto
    with n show ?thesis by (auto simp: daemon_process_def main_run_def App_drive_fresh split: prod.splits)
  qed (simp_all add: n daemon_process_def main_run_def)
qed

text \<open>C32. The process releases what it acquires. Unless wiring itself panics, its trace is: resources acquired, the daemon's
  actions, and the same resources released in the opposite order, each exactly once. This holds when the configuration cannot be
  loaded, when the WireGuard tool or a plugin is missing, when bootstrapping fails or panics, and after a normal run; and
  before anything is released the daemon has cancelled and waited for every worker it started.\<close>

theorem process_releases_everything:
  assumes "daemon_process w urlParse parseDuration wgNew f boot ticks = (tr, out)"
    "snd (App_New w urlParse parseDuration wgNew (mf_configFile f) (mf_configDir f)) \<noteq> Panic"
  shows "\<exists>rs ds. tr = map Acquire (rev rs) @ map Act ds @ map Release rs \<and> distinct rs
    \<and> (shuts_down ds \<or> \<not> list_ex is_start ds)
    \<and> (rs = [Close_plugins, Close_client] \<or> ds = [])"
proof -
  obtain as r where n: "App_New w urlParse parseDuration wgNew (mf_configFile f) (mf_configDir f) = (as, r)" by fastforce
  have none: "\<not> list_ex is_start []" by simp
  show ?thesis
  proof (cases "mf_showVersion f")
    case True
    then show ?thesis using assms(1) by (auto simp: daemon_process_def)
  next
    case False
    from App_New_trace[OF n] assms(2) n consider
      (ok) cs where "r = Ok (NewApp, cs)" "as = map Acquire (rev cs)" "cs = [Close_plugins, Close_client]"
      | (err) e where "r = Err e" "as \<in> {[], [Acquire Close_client, Release Close_client]}" by auto
    then show ?thesis
    proof cases
      case ok
      obtain ds o' where d: "(ds, o') = (if mf_oneshot f then RunOneshot boot else Daemon_Run boot ticks)" by (metis surj_pair)
      have "tr = map Acquire (rev cs) @ map Act ds @ map Release cs"
        using assms(1) False n ok by (simp add: daemon_process_def App_drive_fresh flip: d)
      then show ?thesis using daemon_stops[OF d] ok(3) by (intro exI[of _ cs] exI[of _ ds]) simp
    next
      case err
      then have "tr = as" using assms(1) False n by (simp add: daemon_process_def)
      with err(2) obtain cs where "tr = map Acquire (rev cs) @ map Act [] @ map Release cs" "cs = [] \<or> cs = [Close_client]" by force
      then show ?thesis using none by (intro exI[of _ cs] exI[of _ "[]"]) auto
    qed
  qed
qed

theorem process_releases_everything_witness:
  "\<exists>rs ds. fst (daemon_process ex_world (\<lambda>_. Panic) (\<lambda>_. Panic) (Ok ()) \<lparr>mf_oneshot = False, mf_showVersion = False, mf_configFile = [], mf_configDir = []\<rparr> (Ok ()) 2)
     = map Acquire (rev rs) @ map Act ds @ map Release rs \<and> rs = [Close_plugins, Close_client]"
proof -
  let ?f = "\<lparr>mf_oneshot = False, mf_showVersion = False, mf_configFile = [], mf_configDir = []\<rparr>"
  have "Load ex_world [] [] = Ok ex_config" by (simp add: Load_def ex_load)
  moreover have "LoadPlugins (\<lambda>_. Panic) (\<lambda>_. Panic) (cfg_Plugins ex_config) Map.empty = (Map.empty, Ok ())" by (simp add: ex_config_def defaults_def LoadPlugins_def)
  ultimately have n: "App_New ex_world (\<lambda>_. Panic) (\<lambda>_. Panic) (Ok ()) [] [] = (map Acquire [Close_client, Close_plugins], Ok (NewApp, [Close_plugins, Close_client]))"
    by (simp add: App_New_def providePluginManager_def wire_setup_def newProxyStack_def acquired_def is_Ok_iff)
  obtain tr out where t: "daemon_process ex_world (\<lambda>_. Panic) (\<lambda>_. Panic) (Ok ()) ?f (Ok ()) 2 = (tr, out)" by fastforce
  from process_releases_everything[OF t] n obtain rs ds where
    r: "tr = map Acquire (rev rs) @ map Act ds @ map Release rs" "rs = [Close_plugins, Close_client] \<or> ds = []" by auto
  have "Act Boot_run \<in> set tr" using t n by (auto simp: daemon_process_def App_drive_fresh Daemon_Run_def)
  with r have "ds \<noteq> []" by auto
  with r t show ?thesis by (metis fst_conv)
qed

end
