(* ===== verification/Spec2Isabelle.thy ===== *)
theory Spec2Isabelle
  imports Ping_Lifecycle Ping_Socket Mobile_Control Escape Relay_Loops Startup
begin

text \<open>
  \<^bold>\<open>stunmesh-go: a verification development.\<close>

  stunmesh-go keeps WireGuard peers behind NAT connected. Each node learns its own public endpoints
  from STUN servers, publishes them as a small record in a distributed store under a key derived from
  the two peers' public keys, looks up the records of its peers, and points WireGuard at what it
  finds. A user-space relay stands between WireGuard and the network, so that STUN and tunnel traffic
  leave through the same socket, and a ping monitor repeats the exchange when a peer falls silent. The
  same exchange is embedded in a mobile core, which owns its WireGuard device and its sockets, and a
  provisioning tool and a single-tunnel profile for Linux enroll phones and laptops.

  \<^bold>\<open>Conventions.\<close> A definition carries the name of the Go function it translates, with a suffix or
  prefix where two functions share a name or the name is HOL's. A Go string is a HOL \<open>string\<close>, a byte
  slice a \<open>byte list\<close>, a fixed-width integer a word or an integer whose bounds the source checks. A
  fallible call returns \<open>'a res\<close>: \<open>Ok\<close>, \<open>Err\<close> with the error text of the source, or \<open>Panic\<close>, which
  an index or slice expression out of range yields, so that freedom from panics is always a theorem.
  Everything outside the repository (operating system, clock, random numbers, network, the
  WireGuard control library, the YAML decoder, Unicode tables) is an argument, its answers are
  unconstrained unless a theorem names what it assumes, and effects are returned as lists. A map is a
  partial function, and a loop over one takes the visiting order as an argument. A method that holds
  its mutex throughout is one step; what interleaves is a step relation with an invariant.

  \<^bold>\<open>Library.\<close>
  \<^item> \<open>Prelude\<close>: results, slices, byte order, maps, times. \<open>Gostd\<close>, \<open>Gotext\<close>, \<open>Netip\<close>, \<open>Crypto\<close> and
    \<open>Gojson\<close>: what the program uses of \<^verbatim>\<open>strconv\<close>, \<^verbatim>\<open>strings\<close>, \<^verbatim>\<open>net/netip\<close>, base64, SHA-1,
    X25519 and \<^verbatim>\<open>encoding/json\<close>, with the print and parse round trips. \<open>Flags\<close>: the \<^verbatim>\<open>flag\<close> package;
    however settings are written, they are parsed as they are meant.

  \<^bold>\<open>Wire formats and policy.\<close>
  \<^item> \<open>Stunwire\<close> (\<^verbatim>\<open>internal/stunwire\<close>): the STUN codec; what an accepted response guarantees, a
    round trip against a reference encoder, no panics.
  \<^item> \<open>Validation\<close> (\<^verbatim>\<open>internal/validation\<close>): keys, endpoints, prefixes, service routes, servers;
    a configuration's routes never capture a whole family.
  \<^item> \<open>Discovery\<close> and \<open>Record_Codec\<close> (\<^verbatim>\<open>internal/discovery\<close>, \<^verbatim>\<open>DecodeJSON\<close>): the record, its strict
    text form and round trip, the admission of hints, the choice of a family and the selection state.
  \<^item> \<open>Config\<close> (\<^verbatim>\<open>internal/config\<close>, \<^verbatim>\<open>pluginapi\<close>): finding, checking and reading a configuration;
    every bound of the schema holds of what loads.

  \<^bold>\<open>State.\<close>
  \<^item> \<open>Entity\<close> (\<^verbatim>\<open>internal/entity\<close>, \<^verbatim>\<open>internal/repo\<close>): identities, storage keys, repositories (locale
    \<open>repository\<close>). \<open>Queue\<close> (\<^verbatim>\<open>internal/queue\<close>): the bounded channel (locale \<open>bounded_queue\<close>).
  \<^item> \<open>Demux\<close> and \<open>Proxy\<close> (\<^verbatim>\<open>internal/wgproxy\<close>): the peer table (locale \<open>peer_mapping\<close>), pending STUN
    transactions, the relay and its manager, the escapes of Linux and FreeBSD; relayed traffic is
    confined to programmed addresses in every reachable state. \<open>Relay_Loops\<close>: the read loops with their
    errors and pauses, which cost time and nothing else, and the address translator that the relay
    refines.
  \<^item> \<open>Routeprobe\<close> and \<open>Dialer\<close> (\<^verbatim>\<open>internal/routeprobe\<close>, \<^verbatim>\<open>internal/plugin/dialer\<close>): when a tunnel
    captures the default route, and what is then done to a socket. \<open>Escape\<close>: the route tables of BSD
    and Windows, which read alike, and the escapes of macOS and Windows, whose watcher keeps the
    socket bound to what the present table calls for in every interleaving.

  \<^bold>\<open>Services.\<close>
  \<^item> \<open>Wg_Info\<close> and \<open>Wg_Client\<close> (\<^verbatim>\<open>internal/wg\<close>): reading WireGuard and updating it through the relay.
  \<^item> \<open>Stun_Client\<close> (\<^verbatim>\<open>internal/stun\<close>): discovery over the relay's socket.
  \<^item> \<open>Opendht\<close> (\<^verbatim>\<open>internal/plugin\<close>): the store and the plugin manager.
  \<^item> \<open>Ping_Monitor\<close>, \<open>Bootstrap\<close>, \<open>Publish\<close>, \<open>Establish\<close> (\<^verbatim>\<open>internal/ctrl\<close>): the controllers, with the
    retry state machine and the work list of lookups as step relations. \<open>Ping_Socket\<close>: the monitor's
    sockets on every system, opened whole or not at all. \<open>Ping_Lifecycle\<close>: the monitor from its start to its
    return, with its loops and its shutdown in every interleaving.
  \<^item> \<open>Lifecycle\<close> (\<^verbatim>\<open>internal/daemon\<close>, \<^verbatim>\<open>app\<close>): the daemon's runs and the application's start and
    shutdown, over every interleaving. \<open>Command_Line\<close> (\<^verbatim>\<open>main.go\<close>, \<^verbatim>\<open>internal/logger\<close>,
    \<^verbatim>\<open>cmd/provision/main.go\<close>): both programs from their arguments to their exit codes, and what each Linux
    operation may touch. \<open>Startup\<close> (\<^verbatim>\<open>app\<close>, \<^verbatim>\<open>internal/wg/client_ctrl.go\<close>): the process as a whole; what it
    acquires it releases, whichever way it ends.

  \<^bold>\<open>Mobile core.\<close>
  \<^item> \<open>Mobile_Bind\<close> (\<^verbatim>\<open>internal/mobilebind\<close>): the socket that WireGuard and STUN share; its demultiplexer
    agrees with the relay's, and a discovery returns only what a server it asked answered.
  \<^item> \<open>Mobile_Config\<close> (\<^verbatim>\<open>mobile/config.go\<close>, \<^verbatim>\<open>uapi.go\<close>, \<^verbatim>\<open>keys.go\<close>): the strict configuration and the
    device text, which reads back as what was configured.
  \<^item> \<open>Mobile_Node\<close> (\<^verbatim>\<open>mobile/node.go\<close>, \<^verbatim>\<open>health.go\<close>): start, stop and changes of the underlay as a step
    relation; nothing leaks and nothing but the configured peers reaches the device.
  \<^item> \<open>Mobile_Control\<close> (\<^verbatim>\<open>mobile/controller.go\<close>): discovery, publication and recovery; it publishes what
    the daemon would and recovers only to permitted endpoints.

  \<^bold>\<open>Enrollment.\<close>
  \<^item> \<open>Provision\<close> (\<^verbatim>\<open>internal/provision\<close>, \<^verbatim>\<open>cmd/provision\<close>): proposals and replies, the round trip through
    the QR text, and the allocation of an address.
  \<^item> \<open>Linux_Profile\<close> (\<^verbatim>\<open>internal/linuxprofile\<close>, \<^verbatim>\<open>cmd/provision/server.go\<close>): the profile, the edit of a
    server's files and its inverse, and the ownership of the interface. \<open>Profile_Issue\<close>: the issuing of a
    profile and what its readers make of the text.

  This theory composes them: a record that one node publishes reaches the other node's WireGuard
  configuration, and a configuration that loads bounds the monitor's retries.

  \<^bold>\<open>Bounds and fuel.\<close> The JSON parser has fuel, twice the length of the text plus one, which
  \<open>Gojson\<close> shows to be enough. The identifiers of the ping monitor are taken from a list of draws,
  and a run out of draws is a value of its own. The work list of lookups needs two steps for each
  queued peer and one for the peer in work. The bound of 58 retries is ten fixed ones and one for
  each back-off step of five seconds below the longest refresh interval. A mobile discovery sends at
  most four requests within 7.5 seconds, and the mobile controller sleeps between 15 and 240 seconds.
  The search for all matches of a line pattern (\<open>Linux_Profile\<close>) has the length of the text as fuel;
  each step consumes a character. The raw members of a template (\<open>Profile_Issue\<close>) have the fuel of the
  parser, and agree with it.

  \<^bold>\<open>Not modelled.\<close> Log lines have no effect on the state, and a signal is the end of a run's ticks.
  Constructors that only store their arguments, accessors and the interfaces of the test doubles have no
  definition of their own; records and arguments stand for them. The descriptor-level system calls behind
  a socket option (\<^verbatim>\<open>markSocket\<close>, \<^verbatim>\<open>setSocketFib\<close>) are arguments of the escapes, and timers of the
  escapes' watcher are events without a time. The generated mocks and the drivers of the end-to-end tests are
  not part of the program. The device of the WireGuard library, the YAML reader and writer, HTTP and the
  operating system are arguments throughout.
\<close>

section \<open>From one node to the other\<close>

text \<open>Both ends derive the same storage key for one direction of a link.\<close>

lemma keys_meet: "p_id pA = NewPeerId a b \<Longrightarrow> p_id pB = NewPeerId b a \<Longrightarrow> LocalId pA = RemoteId pB"
  by (simp add: LocalId_def RemoteId_def EndpointKey_def RemoteEndpointKey_def NewPeerId_def)

text \<open>What a store posts for a valid record is the body of that record, to each proxy in turn.\<close>

lemma Store_Set_posts:
  "keyPattern key \<Longrightarrow> Decode u order record = Ok r \<Longrightarrow>
     Store_Set u order do expired p key record = set_loop do expired key (set_body order r) (endpoints p)"
  by (simp add: Store_Set_def)

text \<open>What a cycle writes and the other side decodes are the endpoints discovered for one of its devices.\<close>

lemma published_discovered:
  assumes "\<forall>v. wr v \<noteq> Panic" "\<forall>e d p f m. resolve e d p f m \<noteq> Panic" "set order = {4, 6}"
    "Publish_Execute order plugins wr resolve dc now names pids peers ds = (ds', ws, res)" "w \<in> set ws"
    "Decode u order (sw_record w) = Ok r"
  shows "\<exists>dev\<in>set (Devices_List names ds). discoverEndpoints resolve dc dev = Ok (IPv4 r, IPv6 r)"
proof -
  obtain dev where dev: "dev \<in> set (Devices_List names ds)" "w \<in> set (device_writes order plugins resolve dc pids peers dev)"
    using publish_devices_eq[OF assms(1,2), of order plugins dc now pids peers "Devices_List names ds" ds] assms(4,5)
    by (auto simp: Publish_Execute_def)
  have "discoverEndpoints resolve dc dev = Ok (IPv4 r, IPv6 r)"
    using dev(2) assms(6) Encode_Decode[OF _ assms(3), of _ _ u]
    by (cases "discoverEndpoints resolve dc dev") (auto simp: device_writes_def map_filter_set peer_write_eq_Some)
  then show ?thesis using dev(1) by blast
qed

lemma lookup_one_candidate:
  assumes "ee_get env (escapeFor (ee_config env) dev) store (RemoteId peer) = Ok [c]" "Decode u order c = Ok r"
    "SelectEndpoint r (p_protocol peer) (Status (ee_devices env) (d_name dev)) = Ok e" "Allowed e []" "Endpoint e = Ok ep"
    "ee_update env (update_for peer ep) \<noteq> Panic"
  shows "\<exists>s'. lookup_and_configure u order env peer dev store s = Ok (s', [update_for peer ep])"
proof -
  have e: "e \<noteq> []" using assms(5) by (auto simp: Endpoint_eq_Ok ParseAddrPort_def splitAddrPort_def)
  have c: "ConfigureDevice (ee_update env) peer (addr_String (ap_addr ep)) (uint (ap_port ep))
      = ([update_for peer ep], ee_update env (update_for peer ep))"
    by (rule ConfigureDevice_mapped) (use Allowed_mapped[OF assms(4,5)] in blast)
  have n: "Next s [e] = (Ok e, s\<lparr>sel_next := sel_next s + 1\<rparr>)" by (simp add: Next_nonempty)
  show ?thesis
    using assms e c n by (cases "ee_update env (update_for peer ep)") (simp_all add: lookup_and_configure_def)
qed

text \<open>C1. The program does what it is for. Let node A publish, in a cycle, a record for its peer B, and let
  the proxies of B's store answer a lookup with what A's store posts. Then B's next lookup for A, when
  B's path to A is not already working and the endpoint suits B's settings and is permitted, configures
  exactly one thing: peer A's endpoint, to an address that A discovered for itself in that cycle. The
  two nodes share nothing but each other's public keys.\<close>

theorem hint_reaches_peer:
  assumes "set order = {4, 6}" "p_id pA = NewPeerId a b" "p_id pB = NewPeerId b a"
    and returns: "\<forall>v. wr v \<noteq> Panic" "\<forall>e d p f m. resolve e d p f m \<noteq> Panic"
    and A: "Publish_Execute order pluginsA wr resolve dcA now namesA pidsA peersA dsA = (dsA', ws, res)" "w \<in> set ws" "sw_key w = LocalId pA"
    and stored: "Decode u order (sw_record w) = Ok r"
      "do ''GET'' (ep @ ''/key/'' @ sw_key w) [] = Ok (200, set_body order r)" "endpoints storeB = ep # eps"
    and B: "ee_peers env (p_id pB) = Some pB" "items (ee_devices env) (p_deviceName pB) = Some devB"
      "ee_plugins env (p_plugin pB) = Some storeB" "ee_get env = (\<lambda>escape p key. Store_Get u order do expired p key)"
      "ee_health env = None \<or> (\<exists>reader h. ee_health env = Some reader \<and> reader (d_name devB) (p_publicKey pB) = Ok h \<and>
         \<not> fst (Working (case sel (p_id pB) of Some s \<Rightarrow> s | None \<Rightarrow> NewSelection) h (ee_now env)))"
    and ok: "SelectEndpoint r (p_protocol pB) (Status (ee_devices env) (d_name devB)) = Ok e" "Allowed e []"
      "\<forall>v. ee_update env v \<noteq> Panic"
  shows "(\<exists>sel' ap. Establish_Execute u order env sel (p_id pB) = Ok (sel', [update_for pB ap]) \<and> Endpoint e = Ok ap)
    \<and> (\<exists>devA\<in>set (Devices_List namesA dsA). \<exists>e4 e6. discoverEndpoints resolve dcA devA = Ok (e4, e6) \<and> e \<in> {e4, e6})
    \<and> Store_Set u order doA expiredA storeA (sw_key w) (sw_record w)
        = set_loop doA expiredA (sw_key w) (set_body order r) (endpoints storeA)"
proof -
  have key: "keyPattern (sw_key w)" "sw_key w = RemoteId pB"
    using A(3) keys_meet[OF assms(2,3)] keyPattern_ids by simp_all
  obtain c where c: "Store_Get u order do expired storeB (RemoteId pB) = Ok [c]" "Decode u order c = Ok r"
    using lookup_yields_published[OF stored(1) assms(1) key(1) stored(3), where do = do and expired = expired, OF stored(2)] key(2) by auto
  obtain ap where ap: "Endpoint e = Ok ap" using Allowed_Endpoint[OF ok(2)] by blast
  have look: "\<exists>s'. lookup_and_configure u order env pB devB storeB s = Ok (s', [update_for pB ap])" for s
    by (rule lookup_one_candidate[OF _ c(2) ok(1,2) ap]) (use B(4) c(1) ok(3) in simp_all)
  note run = Establish_Execute_found[OF B(1) refl B(2,3), of u order sel]
  have "\<exists>sel'. Establish_Execute u order env sel (p_id pB) = Ok (sel', [update_for pB ap])"
    using B(5)
  proof
    assume "ee_health env = None"
    then show ?thesis using run look by (fastforce simp: Let_def)
  next
    assume "\<exists>reader h. ee_health env = Some reader \<and> reader (d_name devB) (p_publicKey pB) = Ok h \<and>
         \<not> fst (Working (case sel (p_id pB) of Some s \<Rightarrow> s | None \<Rightarrow> NewSelection) h (ee_now env))"
    then show ?thesis using run look by (fastforce simp: Let_def)
  qed
  moreover obtain devA where "devA \<in> set (Devices_List namesA dsA)" "discoverEndpoints resolve dcA devA = Ok (IPv4 r, IPv6 r)"
    using published_discovered[OF returns assms(1) A(1,2) stored(1)] by blast
  moreover have "e \<in> {IPv4 r, IPv6 r}"
    using ok(1) by (auto simp: SelectEndpoint_def Let_def split: if_splits)
  ultimately show ?thesis using ap Store_Set_posts[OF key(1) stored(1)] by blast
qed

definition sample_peerA :: Peer where
  "sample_peerA = sample_peer\<lparr>p_id := NewPeerId (replicate 32 2) (replicate 32 1)\<rparr>"

definition sample_proxy_answer :: "string \<Rightarrow> string \<Rightarrow> string \<Rightarrow> (int \<times> string) res" where
  "sample_proxy_answer meth url body = Ok (200, set_body [4, 6] sample_hint)"

definition sample_envB :: establish_env where
  "sample_envB = sample_env_est\<lparr>ee_get := (\<lambda>escape p key. Store_Get ex_unicode [4, 6] sample_proxy_answer (\<lambda>_. False) p key)\<rparr>"

theorem hint_reaches_peer_witness:
  "\<exists>sel' ap. Establish_Execute ex_unicode [4, 6] sample_envB Map.empty (p_id sample_peer) = Ok (sel', [update_for sample_peer ap])
     \<and> Endpoint ''8.8.8.8:51820'' = Ok ap"
proof -
  let ?peers = "[p_id sample_peerA \<mapsto> sample_peerA]"
  let ?w = "\<lparr>sw_escape = escapeFor None sample_device, sw_store = ex_plugin, sw_key = LocalId sample_peerA,
      sw_record = json_print (record_json sample_hint)\<rparr>"
  have d: "discoverEndpoints sample_resolver None sample_device = Ok (''8.8.8.8:51820'', [])" by code_simp
  have v: "validate [4, 6] sample_hint = Ok ()" by code_simp
  then have enc: "Encode [4, 6] \<lparr>Version = 0, IPv4 = ''8.8.8.8:51820'', IPv6 = []\<rparr> = Ok (json_print (record_json sample_hint))"
    by (simp add: Encode_def sample_hint_def)
  have ids: "p_id sample_peerA = NewPeerId (replicate 32 2) (replicate 32 1)" "p_id sample_peer = NewPeerId (replicate 32 1) (replicate 32 2)"
    by (simp_all add: sample_peerA_def sample_peer_def NewPeer_def)
  have p: "ListByDevice [p_id sample_peerA] ?peers ''wg0'' = [sample_peerA]" "p_plugin sample_peerA = ''dht''"
    by (simp_all add: ListByDevice_def List.map_filter_simps sample_peerA_def sample_peer_def NewPeer_def)
  have w: "device_writes [4, 6] [''dht'' \<mapsto> ex_plugin] sample_resolver None [p_id sample_peerA] ?peers sample_device = [?w]"
    using d enc p by (simp add: device_writes_def sample_device_def NewDevice_def List.map_filter_simps peer_write_def)
  have returns: "\<forall>v :: store_write. (Ok () :: unit res) \<noteq> Panic" "\<forall>e d p f m. sample_resolver e d p f m \<noteq> Panic"
    by (simp_all add: sample_resolver_def)
  have l: "Devices_List [''wg0''] (Devices_Save NewDevices sample_device) = [sample_device]" by code_simp
  obtain ds' where run: "Publish_Execute [4, 6] [''dht'' \<mapsto> ex_plugin] (\<lambda>_. Ok ()) sample_resolver None (\<lambda>_. 7) [''wg0''] [p_id sample_peerA]
      ?peers (Devices_Save NewDevices sample_device) = (ds', [?w], Ok ())"
    using publish_devices_eq[OF returns, of "[4, 6]" "[''dht'' \<mapsto> ex_plugin]" None "\<lambda>_. 7" "[p_id sample_peerA]" ?peers
        "[sample_device]" "Devices_Save NewDevices sample_device"]
    by (auto simp: Publish_Execute_def l w)
  have env: "ee_peers sample_envB (p_id sample_peer) = Some sample_peer" "items (ee_devices sample_envB) (p_deviceName sample_peer) = Some sample_device"
    "ee_plugins sample_envB (p_plugin sample_peer) = Some ex_plugin"
    "ee_get sample_envB = (\<lambda>escape p key. Store_Get ex_unicode [4, 6] sample_proxy_answer (\<lambda>_. False) p key)"
    "ee_health sample_envB = None \<or> (\<exists>reader h. ee_health sample_envB = Some reader \<and> reader (d_name sample_device) (p_publicKey sample_peer) = Ok h \<and>
       \<not> fst (Working (case Map.empty (p_id sample_peer) of Some s \<Rightarrow> s | None \<Rightarrow> NewSelection) h (ee_now sample_envB)))"
    "\<forall>v. ee_update sample_envB v \<noteq> Panic"
    by (simp_all add: sample_envB_def sample_env_est_def sample_peer_def NewPeer_def Devices_Save_def sample_device_def NewDevice_def)
  have sel: "SelectEndpoint sample_hint (p_protocol sample_peer) (Status (ee_devices sample_envB) (d_name sample_device)) = Ok ''8.8.8.8:51820''"
    by code_simp
  have a: "Allowed ''8.8.8.8:51820'' []" by code_simp
  have stored: "sw_key ?w = LocalId sample_peerA" "Decode ex_unicode [4, 6] (sw_record ?w) = Ok sample_hint"
    "sample_proxy_answer ''GET'' (''https://dht.example'' @ ''/key/'' @ sw_key ?w) [] = Ok (200, set_body [4, 6] sample_hint)"
    "endpoints ex_plugin = ''https://dht.example'' # []"
    by (simp_all add: sample_hint_Decode sample_proxy_answer_def ex_plugin_def)
  show ?thesis
    using hint_reaches_peer[OF order_46 ids returns run list.set_intros(1) stored env(1-5) sel a env(6)] by blast
qed

section \<open>The configuration bounds the monitor\<close>

lemma maxRetries_loaded:
  assumes "load w configFile configDir paths = Ok cfg"
  shows "0 \<le> FixedRetries (ping_settings cfg) \<and> maxRetries (ping_settings cfg) \<le> 58"
proof -
  note v = validateConfig_Ok[OF load_Ok(1)[OF assms]]
  have "- (240 * second) \<le> - cfg_RefreshInterval cfg" using v(2) by simp
  then have "(- (240 * second)) div (5 * second) \<le> (- cfg_RefreshInterval cfg) div (5 * second)"
    by (rule zdiv_mono1) (simp add: second_def)
  moreover have "(- (240 * second)) div (5 * second) = -48" by (simp add: second_def)
  ultimately show ?thesis
    using v(5,6) by (simp add: maxRetries_def ping_settings_def)
qed

text \<open>C7. For any configuration the program accepts, a silent peer costs a bounded effort: from whatever
  state the monitor of a device is in, at most 58 publish and establish rounds are triggered for a peer
  until it answers again, ten fixed retries and the back-off steps below the longest refresh interval.\<close>

theorem loaded_failure_run_bounded:
  assumes "load w configFile configDir paths = Ok cfg" "\<forall>pid. \<forall>r\<in>set (draws pid). r < 65535"
    "monitor_at (ping_settings cfg) (Ping_Execute (ping_settings cfg) draws resolve newConn ks peers) d history = Some m"
    "peerStates m pid = Some s" "\<forall>ev\<in>set evs. \<not> answers s ev"
  shows "triggers pid (snd (mon_run (ping_settings cfg) m evs)) \<le> 58"
proof -
  note c = maxRetries_loaded[OF assms(1)]
  from failure_run_triggers[OF conjunct1[OF c] assms(2-5)] c show ?thesis by linarith
qed

definition sample_world :: world where
  "sample_world = ex_world\<lparr>w_decode := (\<lambda>_ c. Ok (c\<lparr>cfg_RefreshInterval := RefreshInterval ex_cfg,
     cfg_PingMonitor := \<lparr>pms_Interval = pm_Interval ex_cfg, pms_Timeout = pm_Timeout ex_cfg, pms_FixedRetries = FixedRetries ex_cfg\<rparr>\<rparr>))\<rparr>"

theorem loaded_failure_run_bounded_witness:
  "triggers ex_pid (snd (mon_run ex_cfg (ex_mon []) ex_run)) = 7 \<and> triggers ex_pid (snd (mon_run ex_cfg (ex_mon []) ex_run)) \<le> 58"
proof -
  have "is_Ok (load sample_world [] [] defaultSearchPaths)" by code_simp
  then obtain cfg where l: "load sample_world [] [] defaultSearchPaths = Ok cfg" by (auto simp: is_Ok_iff)
  have "case load sample_world [] [] defaultSearchPaths of Ok c \<Rightarrow> ping_settings c = ex_cfg | _ \<Rightarrow> True" by code_simp
  then have s: "ping_settings cfg = ex_cfg" using l by simp
  have "\<forall>ev\<in>set ex_run. \<not> answers (ex_state []) ev"
    by (simp add: ex_run_def ex_failure_def answers_def)
  from loaded_failure_run_bounded[OF l ex_draws, unfolded s, OF ex_mon_eq ex_state_fresh this]
  show ?thesis by code_simp
qed

end
